(* ===== verification/Miner_Prelude.thy ===== *)
theory Miner_Prelude
  imports Main "HOL-Library.Word"
begin

text \<open>
  Shared vocabulary of the development: the widths of the C++ integers as words, the errors a
  C++ operation can end with, the byte idioms the sources repeat (big-endian packing of four bytes
  into a \<^verbatim>\<open>uint32_t\<close>, extraction of one byte by shift and mask), the value of a byte string read as
  a big-endian number, and list lemmas about fixed-size blocks. The named collections are used by
  the component theories: \<open>byte_simps\<close> rewrites packing and extraction into each other,
  \<open>mask_simps\<close> turns the literal masks of the sources into shifted masks, \<open>width_simps\<close> gives the
  lengths of the fixed-size arrays.
\<close>

unbundle bit_operations_syntax

named_theorems byte_simps "packing and unpacking of bytes"
named_theorems mask_simps "literal masks as shifted masks"
named_theorems width_simps "lengths of fixed-size arrays"

type_synonym u8 = "8 word"
type_synonym u16 = "16 word"
type_synonym u32 = "32 word"
type_synonym u64 = "64 word"

text \<open>A C++ exception or an undefined operation (an access outside an array, a division by zero).\<close>

datatype cpp_error = Invalid_argument string | Out_of_range string
  | Out_of_bounds | Division_by_zero

type_synonym 'a result = "cpp_error + 'a"

section \<open>Bytes of a word\<close>

text \<open>\<^verbatim>\<open>(uint32_t(a) << 24) | (uint32_t(b) << 16) | (uint32_t(c) << 8) | uint32_t(d)\<close>\<close>

definition be_word :: "u8 \<Rightarrow> u8 \<Rightarrow> u8 \<Rightarrow> u8 \<Rightarrow> u32" where
  "be_word a b c d =
     push_bit 24 (ucast a) OR push_bit 16 (ucast b) OR push_bit 8 (ucast c) OR ucast d"

text \<open>\<^verbatim>\<open>static_cast<uint8_t>((w >> k) & 0xFF)\<close>\<close>

definition byte_at :: "nat \<Rightarrow> u32 \<Rightarrow> u8" where
  "byte_at k w = ucast (drop_bit k w AND 0xFF)"

definition word_be_bytes :: "u32 \<Rightarrow> u8 list" where
  "word_be_bytes w = [byte_at 24 w, byte_at 16 w, byte_at 8 w, byte_at 0 w]"

lemma mask32 [mask_simps]:
  "(0xFF::u32) = mask 8" "(0xFF00::u32) = push_bit 8 (mask 8)"
  "(0xFF0000::u32) = push_bit 16 (mask 8)" "(0xFF000000::u32) = push_bit 24 (mask 8)"
  by (simp_all add: mask_numeral)

lemma bit_u8_beyond [simp]: "8 \<le> n \<Longrightarrow> \<not> bit (x::u8) n"
  using bit_imp_le_length by force

lemma bit_u32_beyond [simp]: "32 \<le> n \<Longrightarrow> \<not> bit (x::u32) n"
  using bit_imp_le_length by force

text \<open>Two 32-bit words are equal when their four bytes agree bit by bit.\<close>

lemma u32_bytes_eqI:
  fixes v w :: u32
  assumes "\<And>k. k < 8 \<Longrightarrow> bit v k = bit w k"
    and "\<And>k. k < 8 \<Longrightarrow> bit v (8 + k) = bit w (8 + k)"
    and "\<And>k. k < 8 \<Longrightarrow> bit v (16 + k) = bit w (16 + k)"
    and "\<And>k. k < 8 \<Longrightarrow> bit v (24 + k) = bit w (24 + k)"
  shows "v = w"
proof (rule bit_word_eqI)
  fix n assume n: "n < LENGTH(32)"
  consider "n < 8" | "8 \<le> n \<and> n < 16" | "16 \<le> n \<and> n < 24" | "24 \<le> n \<and> n < 32"
    using n by force
  then show "bit v n = bit w n"
    using assms(1) [of n] assms(2) [of "n - 8"] assms(3) [of "n - 16"] assms(4) [of "n - 24"]
    by cases auto
qed

lemma byte_at_be_word [byte_simps, simp]:
  "byte_at 24 (be_word a b c d) = a" "byte_at 16 (be_word a b c d) = b"
  "byte_at 8 (be_word a b c d) = c" "byte_at 0 (be_word a b c d) = d"
  unfolding byte_at_def be_word_def mask_simps
  by (rule bit_eqI; auto simp: bit_simps dest: bit_imp_le_length)+

lemma be_word_byte_at [byte_simps, simp]:
  "be_word (byte_at 24 w) (byte_at 16 w) (byte_at 8 w) (byte_at 0 w) = w"
  unfolding byte_at_def be_word_def mask_simps
  by (rule u32_bytes_eqI) (simp_all add: bit_simps)

lemma be_word_cases [case_names bytes]:
  obtains a b c d where "w = be_word a b c d"
  by (metis be_word_byte_at)

lemma be_word_inject [simp]:
  "be_word a b c d = be_word a' b' c' d' \<longleftrightarrow> a = a' \<and> b = b' \<and> c = c' \<and> d = d'"
  by (metis byte_at_be_word)

lemma length_word_be_bytes [simp, width_simps]: "length (word_be_bytes w) = 4"
  by (simp add: word_be_bytes_def)

lemma word_be_bytes_be_word [byte_simps, simp]: "word_be_bytes (be_word a b c d) = [a, b, c, d]"
  by (simp add: word_be_bytes_def)

section \<open>Byte strings as big-endian numbers\<close>

definition be_nat :: "u8 list \<Rightarrow> nat" where
  "be_nat bs = foldl (\<lambda>acc b. acc * 256 + unat b) 0 bs"

lemma foldl_be_nat:
  "foldl (\<lambda>acc b. acc * 256 + unat b) a bs = a * 256 ^ length bs + be_nat bs"
proof (induction bs arbitrary: a)
  case Nil
  then show ?case by (simp add: be_nat_def)
next
  case (Cons b bs)
  show ?case
    using Cons.IH [of "a * 256 + unat b"] Cons.IH [of "unat b"]
    by (simp add: be_nat_def algebra_simps)
qed

lemma be_nat_Nil [simp]: "be_nat [] = 0"
  by (simp add: be_nat_def)

lemma be_nat_Cons [simp]: "be_nat (b # bs) = unat b * 256 ^ length bs + be_nat bs"
  using foldl_be_nat [of "unat b" bs] by (simp add: be_nat_def)

lemma be_nat_append: "be_nat (xs @ ys) = be_nat xs * 256 ^ length ys + be_nat ys"
  by (induction xs) (simp_all add: algebra_simps power_add)

lemma be_nat_replicate_0 [simp]: "be_nat (replicate n 0) = 0"
  by (induction n) simp_all

lemma unat_u8_less [simp]: "unat (b::u8) < 256"
  using unsigned_less [of b, where 'a = nat] by simp

lemma be_nat_bound: "be_nat bs < 256 ^ length bs"
proof (induction bs)
  case Nil
  then show ?case by simp
next
  case (Cons b bs)
  have "unat b * 256 ^ length bs + be_nat bs < (unat b + 1) * 256 ^ length bs"
    using Cons.IH by (simp add: algebra_simps)
  also have "\<dots> \<le> 256 * 256 ^ length bs"
    using unat_u8_less [of b] by (intro mult_le_mono1) linarith
  finally show ?case by simp
qed

text \<open>Comparing equal-length byte strings from the front is comparing the numbers.\<close>

lemma be_nat_Cons_less:
  assumes "length xs = length ys" and "x < y"
  shows "be_nat (x # xs) < be_nat (y # ys)"
proof -
  have "be_nat (x # xs) < (unat x + 1) * 256 ^ length xs"
    using be_nat_bound [of xs] by (simp add: algebra_simps)
  also have "\<dots> \<le> unat y * 256 ^ length ys"
    using assms by (intro mult_le_mono) (simp_all add: word_less_nat_alt)
  also have "\<dots> \<le> be_nat (y # ys)" by simp
  finally show ?thesis .
qed

lemma be_nat_le_Cons:
  assumes "length xs = length ys"
  shows "be_nat (x # xs) \<le> be_nat (y # ys) \<longleftrightarrow> x < y \<or> (x = y \<and> be_nat xs \<le> be_nat ys)"
proof (cases x y rule: linorder_cases)
  case less
  then show ?thesis using be_nat_Cons_less [OF assms less] by simp
next
  case equal
  then show ?thesis using assms by simp
next
  case greater
  then have "\<not> x < y" "x \<noteq> y" by auto
  then show ?thesis using be_nat_Cons_less [OF assms [symmetric] greater] by simp
qed

lemma be_nat_inject:
  "length xs = length ys \<Longrightarrow> be_nat xs = be_nat ys \<longleftrightarrow> xs = ys"
proof (induction xs ys rule: list_induct2)
  case Nil
  then show ?case by simp
next
  case (Cons x xs y ys)
  then show ?case
    by (metis be_nat_Cons_less be_nat_Cons add_left_cancel less_irrefl linorder_neqE)
qed

section \<open>Lists in fixed-size blocks\<close>

lemma nth_concat_map_fixed:
  assumes "\<And>x. length (f x) = n" and "i < length xs" and "k < n"
  shows "concat (map f xs) ! (n * i + k) = f (xs ! i) ! k"
  using assms(2)
proof (induction xs arbitrary: i)
  case Nil
  then show ?case by simp
next
  case (Cons x xs)
  show ?case
  proof (cases i)
    case 0
    then show ?thesis using assms(1,3) by (simp add: nth_append)
  next
    case (Suc j)
    then have "concat (map f (x # xs)) ! (n * i + k) = concat (map f xs) ! (n * j + k)"
      using assms(1) by (simp add: nth_append)
    with Suc Cons show ?thesis by simp
  qed
qed

lemma length_concat_map_fixed [width_simps]:
  "(\<And>x. length (f x) = n) \<Longrightarrow> length (concat (map f xs)) = n * length xs"
  by (induction xs) simp_all

lemma take_drop_nth:
  "i + n \<le> length xs \<Longrightarrow> take n (drop i xs) = map (\<lambda>k. xs ! (i + k)) [0..<n]"
  by (intro nth_equalityI) simp_all

lemma div_mod_less_index:
  fixes j n m :: nat
  assumes "j < n * m"
  shows "j div n < m" and "j mod n < n"
proof -
  have "0 < n" using assms by (cases n) auto
  then show "j div n < m" "j mod n < n"
    using assms by (simp_all add: less_mult_imp_div_less mult.commute)
qed

end
