(* ===== verification/Byte_Codec.thy ===== *)
theory Byte_Codec
  imports Miner_Prelude
begin

text \<open>
  The contract of a fixed-size binary encoding, as the stores and the normalizer use them: every
  valid value takes exactly \<open>size\<close> bytes and reading them back gives the value. What a client gets
  from the contract is proved once in the locale: the encoding is injective, and a log that is the
  concatenation of records followed by a torn tail (a write cut short) decodes to exactly the
  complete records.
\<close>

text \<open>Cut a byte string into complete records of \<open>n\<close> bytes; an incomplete tail is dropped.\<close>

function records :: "(u8 list \<Rightarrow> 'a) \<Rightarrow> nat \<Rightarrow> u8 list \<Rightarrow> 'a list" where
  "records dec n bs =
     (if n = 0 \<or> length bs < n then [] else dec (take n bs) # records dec n (drop n bs))"
  by pat_completeness auto
termination
  by (relation "measure (\<lambda>(dec, n, bs). length bs)") auto

declare records.simps [simp del]

lemma records_short: "length bs < n \<Longrightarrow> records dec n bs = []"
  by (simp add: records.simps)

lemma records_append:
  "0 < n \<Longrightarrow> length r = n \<Longrightarrow> records dec n (r @ bs) = dec r # records dec n bs"
  by (simp add: records.simps [of dec n "r @ bs"])

locale byte_codec =
  fixes enc :: "'a \<Rightarrow> u8 list" and dec :: "u8 list \<Rightarrow> 'a"
    and valid :: "'a \<Rightarrow> bool" and size :: nat
  assumes size_pos: "0 < size"
    and length_enc: "valid x \<Longrightarrow> length (enc x) = size"
    and dec_enc: "valid x \<Longrightarrow> dec (enc x) = x"
begin

lemma enc_inject:
  assumes "valid x" and "valid y"
  shows "enc x = enc y \<longleftrightarrow> x = y"
  by (metis assms dec_enc)

lemma records_concat_enc:
  assumes "\<forall>x\<in>set xs. valid x" and "length tail < size"
  shows "records dec size (concat (map enc xs) @ tail) = xs"
  using assms(1)
proof (induction xs)
  case Nil
  then show ?case using assms(2) by (simp add: records_short)
next
  case (Cons x xs)
  then show ?case
    by (simp add: records_append [OF size_pos length_enc] dec_enc)
qed

lemma length_log: "\<forall>x\<in>set xs. valid x \<Longrightarrow> length (concat (map enc xs)) = size * length xs"
  by (induction xs) (simp_all add: length_enc)

end

end
