(* ===== verification/Endianness.thy ===== *)
theory Endianness
  imports Byte_Codec
begin

text \<open>
  \<^verbatim>\<open>src/normalize/endianness.h\<close>: byte swaps and the conversions between 32 big-endian bytes and eight
  words in the order the kernel reads them. A \<^verbatim>\<open>uint8_t[32]\<close> is a byte list of length 32, a
  \<^verbatim>\<open>std::array<uint32_t, 8>\<close> a word list of length 8; an output array is the returned list.
\<close>

definition bswap32 :: "u32 \<Rightarrow> u32" where
  "bswap32 v = push_bit 24 (v AND 0x000000FF) OR push_bit 8 (v AND 0x0000FF00) OR
     drop_bit 8 (v AND 0x00FF0000) OR drop_bit 24 (v AND 0xFF000000)"

definition bswap64 :: "u64 \<Rightarrow> u64" where
  "bswap64 v = push_bit 32 (ucast (bswap32 (ucast v))) OR ucast (bswap32 (ucast (drop_bit 32 v)))"

definition be32BytesToLeU32Words :: "u8 list \<Rightarrow> u32 list" where
  "be32BytesToLeU32Words be =
     map (\<lambda>i. let ofs = i * 4;
                  w = be_word (be ! ofs) (be ! (ofs + 1)) (be ! (ofs + 2)) (be ! (ofs + 3))
              in bswap32 w) [0..<8]"

definition leU32WordsToBe32Bytes :: "u32 list \<Rightarrow> u8 list" where
  "leU32WordsToBe32Bytes words =
     concat (map (\<lambda>i. let w = bswap32 (words ! i)
                      in [byte_at 24 w, byte_at 16 w, byte_at 8 w, byte_at 0 w]) [0..<8])"

section \<open>Byte swaps\<close>

lemma bswap32_be_word [simp, byte_simps]: "bswap32 (be_word a b c d) = be_word d c b a"
  unfolding bswap32_def be_word_def mask_simps
  by (rule u32_bytes_eqI) (simp_all add: bit_simps)

lemma bswap32_bswap32 [simp]: "bswap32 (bswap32 v) = v"
  by (cases v rule: be_word_cases) simp

lemma byte_at_bswap32 [simp, byte_simps]:
  "byte_at 24 (bswap32 w) = byte_at 0 w" "byte_at 16 (bswap32 w) = byte_at 8 w"
  "byte_at 8 (bswap32 w) = byte_at 16 w" "byte_at 0 (bswap32 w) = byte_at 24 w"
  by (cases w rule: be_word_cases; simp)+

lemma bswap64_halves:
  "ucast (bswap64 v) = bswap32 (ucast (drop_bit 32 v))"
  "ucast (drop_bit 32 (bswap64 v)) = bswap32 (ucast v)"
  unfolding bswap64_def
  by (rule bit_word_eqI; auto simp: bit_simps)+

lemma u64_halves_eqI:
  fixes v w :: u64
  assumes lo: "(ucast v :: u32) = ucast w"
    and hi: "(ucast (drop_bit 32 v) :: u32) = ucast (drop_bit 32 w)"
  shows "v = w"
proof (rule bit_word_eqI)
  fix n assume n: "n < LENGTH(64)"
  show "bit v n = bit w n"
  proof (cases "n < 32")
    case True
    then show ?thesis using arg_cong [OF lo, of "\<lambda>x. bit x n"] by (simp add: bit_simps)
  next
    case False
    then have "n - 32 < 32" using n by simp
    then show ?thesis using False n arg_cong [OF hi, of "\<lambda>x. bit x (n - 32)"] by (simp add: bit_simps)
  qed
qed

lemma bswap64_bswap64 [simp]: "bswap64 (bswap64 v) = v"
  by (rule u64_halves_eqI) (simp_all add: bswap64_halves)

section \<open>Conversions between bytes and words\<close>

lemma length_words [simp, width_simps]: "length (be32BytesToLeU32Words be) = 8"
  by (simp add: be32BytesToLeU32Words_def)

lemma length_bytes [simp, width_simps]: "length (leU32WordsToBe32Bytes ws) = 32"
  by (simp add: leU32WordsToBe32Bytes_def Let_def length_concat_map_fixed [where n = 4])

lemma leU32WordsToBe32Bytes_concat:
  "length ws = 8 \<Longrightarrow> leU32WordsToBe32Bytes ws = concat (map (\<lambda>w. word_be_bytes (bswap32 w)) ws)"
  unfolding leU32WordsToBe32Bytes_def word_be_bytes_def Let_def
  by (rule arg_cong [where f = concat], rule nth_equalityI) simp_all

lemma nth_leU32WordsToBe32Bytes:
  assumes "length ws = 8" and "i < 8" and "k < 4"
  shows "leU32WordsToBe32Bytes ws ! (4 * i + k) = word_be_bytes (bswap32 (ws ! i)) ! k"
  using assms by (simp add: leU32WordsToBe32Bytes_concat nth_concat_map_fixed [where n = 4])

lemma words_of_bytes:
  assumes "length ws = 8"
  shows "be32BytesToLeU32Words (leU32WordsToBe32Bytes ws) = ws"
proof (rule nth_equalityI)
  fix i assume "i < length (be32BytesToLeU32Words (leU32WordsToBe32Bytes ws))"
  then have i: "i < 8" by simp
  have "leU32WordsToBe32Bytes ws ! (i * 4 + k) = word_be_bytes (bswap32 (ws ! i)) ! k" if "k < 4" for k
    using nth_leU32WordsToBe32Bytes [OF assms i that] by (simp add: mult.commute)
  from this [of 0] this [of 1] this [of 2] this [of 3] i
  show "be32BytesToLeU32Words (leU32WordsToBe32Bytes ws) ! i = ws ! i"
    by (simp add: be32BytesToLeU32Words_def Let_def word_be_bytes_def numeral_2_eq_2 numeral_3_eq_3)
qed (simp add: assms)

lemma bytes_of_words:
  assumes "length be = 32"
  shows "leU32WordsToBe32Bytes (be32BytesToLeU32Words be) = be"
proof (rule nth_equalityI)
  fix j assume "j < length (leU32WordsToBe32Bytes (be32BytesToLeU32Words be))"
  then have j: "j < 4 * 8" by simp
  define i k where "i = j div 4" and "k = j mod 4"
  have ik: "j = 4 * i + k" "i < 8" "k < 4"
    using div_mod_less_index [OF j] by (simp_all add: i_def k_def)
  have k: "k = 0 \<or> k = 1 \<or> k = 2 \<or> k = 3" using ik(3) by auto
  then show "leU32WordsToBe32Bytes (be32BytesToLeU32Words be) ! j = be ! j"
    unfolding ik(1) nth_leU32WordsToBe32Bytes [OF length_words ik(2,3)]
    using ik(2)
    by (auto simp: be32BytesToLeU32Words_def Let_def word_be_bytes_def mult.commute
        numeral_2_eq_2 numeral_3_eq_3)
qed (simp add: assms)

interpretation hash_words: byte_codec leU32WordsToBe32Bytes be32BytesToLeU32Words
  "\<lambda>ws. length ws = 8" 32
  by unfold_locales (simp_all add: words_of_bytes)

section \<open>Properties\<close>

text \<open>The byte swaps of 32 and of 64 bits are involutions, and swapping reverses the bytes.\<close>

lemma bswap_involutive:
  "bswap32 (bswap32 v) = v \<and> bswap64 (bswap64 w) = w \<and>
   word_be_bytes (bswap32 v) = rev (word_be_bytes v)"
  by (simp add: word_be_bytes_def)

text \<open>A 32-byte hash survives the conversion to kernel words and back, so the header the CPU
  rebuilds from a work item holds the bytes the pool sent.\<close>

theorem hash_bytes_roundtrip:
  assumes "length be = 32"
  shows "leU32WordsToBe32Bytes (be32BytesToLeU32Words be) = be"
  using assms by (rule bytes_of_words)

theorem hash_bytes_roundtrip_witness:
  "length (replicate 32 (7::u8)) = 32 \<and>
   leU32WordsToBe32Bytes (be32BytesToLeU32Words (replicate 32 7)) = replicate 32 7"
  using hash_bytes_roundtrip [of "replicate 32 7"] by simp

end
