(* ===== verification/Targets.thy ===== *)
theory Targets
  imports Endianness
begin

text \<open>
  \<^verbatim>\<open>src/normalize/targets.cc\<close>, the expansion of a compact target (\<^verbatim>\<open>nBits\<close>), and the comparison of a
  hash with a target, \<^verbatim>\<open>isHashLEQTarget\<close> of \<^verbatim>\<open>src/submit/cpu_verify.cc\<close>. A target is eight words in
  the order of \<^verbatim>\<open>std::array<uint32_t, 8>\<close>; its value \<open>target_nat\<close> is the number whose 32 big-endian
  bytes the words hold. The writes into the array \<^verbatim>\<open>be[32]\<close> are checked: for exponent 0 the code
  writes \<^verbatim>\<open>be[32]\<close>, outside the array.
\<close>

definition setZero :: "u32 list \<Rightarrow> u32 list" where
  "setZero t = map (\<lambda>w. 0) t"

definition setFromBigEndianBytes :: "u8 list \<Rightarrow> u32 list" where
  "setFromBigEndianBytes be =
     map (\<lambda>i. let ofs = i * 4;
                  w = be_word (be ! ofs) (be ! (ofs + 1)) (be ! (ofs + 2)) (be ! (ofs + 3))
              in push_bit 24 (w AND 0x000000FF) OR push_bit 8 (w AND 0x0000FF00) OR
                 drop_bit 8 (w AND 0x00FF0000) OR drop_bit 24 (w AND 0xFF000000)) [0..<8]"

text \<open>\<^verbatim>\<open>be[i] = v\<close> on an array of 32 bytes\<close>

definition store32 :: "nat \<Rightarrow> u8 \<Rightarrow> u8 list \<Rightarrow> u8 list result" where
  "store32 i v be = (if i < 32 then Inr (be[i := v]) else Inl Out_of_bounds)"

definition compactToTargetU32LE :: "u32 \<Rightarrow> u32 list result" where
  "compactToTargetU32LE nBits =
     (let target = setZero (replicate 8 0);
          exponent = drop_bit 24 nBits;
          mantissa = nBits AND 0x007fffff
      in if nBits AND 0x00800000 \<noteq> 0 then Inr target
         else if mantissa = 0 then Inr target
         else let be = replicate 32 0; bytes = unat exponent
              in if bytes \<le> 3
                 then let m = drop_bit (8 * (3 - bytes)) mantissa
                      in case store32 (32 - bytes) (byte_at 16 m) be of
                           Inl e \<Rightarrow> Inl e
                         | Inr be1 \<Rightarrow>
                             let be2 = (if 2 \<le> bytes then be1[32 - bytes + 1 := byte_at 8 m] else be1);
                                 be3 = (if 3 \<le> bytes then be2[32 - bytes + 2 := byte_at 0 m] else be2)
                             in Inr (setFromBigEndianBytes be3)
                 else if 32 < bytes then Inr (map (\<lambda>w. 0xFFFFFFFF) target)
                 else let idx = 32 - bytes
                      in Inr (setFromBigEndianBytes
                           (be[idx := byte_at 16 mantissa, idx + 1 := byte_at 8 mantissa,
                               idx + 2 := byte_at 0 mantissa])))"

text \<open>The comparison loop over the bytes \<open>i, i + 1, \<dots>\<close> of the two arrays.\<close>

fun leq_loop :: "u8 list \<Rightarrow> u8 list \<Rightarrow> nat list \<Rightarrow> bool" where
  "leq_loop h t [] = True"
| "leq_loop h t (i # is) =
     (if h ! i < t ! i then True else if h ! i > t ! i then False else leq_loop h t is)"

definition isHashLEQTarget :: "u8 list \<Rightarrow> u32 list \<Rightarrow> bool" where
  "isHashLEQTarget hash_be target_le =
     (let target_be = concat (map (\<lambda>i. let w = target_le ! i;
             be = push_bit 24 (w AND 0x000000FF) OR push_bit 8 (w AND 0x0000FF00) OR
                  drop_bit 8 (w AND 0x00FF0000) OR drop_bit 24 (w AND 0xFF000000)
           in [byte_at 24 be, byte_at 16 be, byte_at 8 be, byte_at 0 be]) [0..<8])
      in leq_loop hash_be target_be [0..<32])"

definition target_nat :: "u32 list \<Rightarrow> nat" where
  "target_nat t = be_nat (leU32WordsToBe32Bytes t)"

section \<open>Comparison\<close>

lemma leq_loop_be_nat:
  assumes "length h = n" and "length t = n" and "k \<le> n"
  shows "leq_loop h t [k..<n] \<longleftrightarrow> be_nat (drop k h) \<le> be_nat (drop k t)"
  using assms(3)
proof (induction "n - k" arbitrary: k)
  case 0
  then show ?case using assms by simp
next
  case (Suc d)
  then have k: "k < n" by simp
  have "drop k h = h ! k # drop (Suc k) h" "drop k t = t ! k # drop (Suc k) t"
    using assms(1,2) k by (simp_all add: Cons_nth_drop_Suc)
  moreover have "leq_loop h t [Suc k..<n] \<longleftrightarrow> be_nat (drop (Suc k) h) \<le> be_nat (drop (Suc k) t)"
    using Suc k by simp
  ultimately show ?case
    using assms(1,2) k by (auto simp: upt_conv_Cons be_nat_le_Cons simp del: be_nat_Cons)
qed

lemma isHashLEQTarget_target_nat:
  assumes "length h = 32"
  shows "isHashLEQTarget h t \<longleftrightarrow> be_nat h \<le> target_nat t"
proof -
  have "isHashLEQTarget h t \<longleftrightarrow> leq_loop h (leU32WordsToBe32Bytes t) [0..<32]"
    by (simp add: isHashLEQTarget_def leU32WordsToBe32Bytes_def bswap32_def Let_def)
  then show ?thesis
    using leq_loop_be_nat [OF assms, of "leU32WordsToBe32Bytes t" 0]
    by (simp add: target_nat_def)
qed

section \<open>Expansion\<close>

lemma setFromBigEndianBytes_eq: "setFromBigEndianBytes be = be32BytesToLeU32Words be"
  by (simp add: setFromBigEndianBytes_def be32BytesToLeU32Words_def bswap32_def)

lemma target_nat_setFromBigEndianBytes:
  "length be = 32 \<Longrightarrow> target_nat (setFromBigEndianBytes be) = be_nat be"
  by (simp add: target_nat_def setFromBigEndianBytes_eq bytes_of_words)

lemma byte_at_take_bit: "byte_at k w = ucast (take_bit 8 (drop_bit k w))"
  by (simp add: byte_at_def take_bit_eq_mask mask_simps)

lemma unat_byte_at: "unat (byte_at k w) = unat w div 2 ^ k mod 256"
proof -
  have "unat (byte_at k w) = take_bit 8 (drop_bit k (unat w))"
    by (simp add: byte_at_take_bit unsigned_ucast_eq unsigned_take_bit_eq unat_drop_bit_eq)
  also have "\<dots> = unat w div 2 ^ k mod 2 ^ 8"
    by (simp only: take_bit_eq_mod drop_bit_eq_div)
  finally show ?thesis by simp
qed

lemma nat_bytes3:
  fixes n :: nat
  assumes "n < 2 ^ 24"
  shows "n div 2 ^ 16 mod 256 * 65536 + n div 2 ^ 8 mod 256 * 256 + n mod 256 = n"
proof -
  define q r p s where "q = n div 256" and "r = n mod 256" and "p = q div 256" and "s = q mod 256"
  have n: "n = q * 256 + r" and q: "q = p * 256 + s" by (simp_all add: q_def r_def p_def s_def)
  have "p < 256" using assms by (simp add: p_def q_def div_mult2_eq [symmetric] less_mult_imp_div_less)
  then have a: "n div 2 ^ 16 mod 256 = p" by (simp add: p_def q_def div_mult2_eq [symmetric])
  have b: "n div 2 ^ 8 mod 256 = s" by (simp add: s_def q_def)
  show ?thesis unfolding a b r_def [symmetric] using n q by linarith
qed

lemma be_nat_bytes3:
  assumes "unat w < 2 ^ 24"
  shows "be_nat [byte_at 16 w, byte_at 8 w, byte_at 0 w] = unat w"
proof -
  have "be_nat [byte_at 16 w, byte_at 8 w, byte_at 0 w] =
      unat (byte_at 16 w) * 65536 + unat (byte_at 8 w) * 256 + unat (byte_at 0 w)"
    by simp
  also have "\<dots> = unat w"
    unfolding unat_byte_at using nat_bytes3 [OF assms] by (simp only: power_0 div_by_1)
  finally show ?thesis .
qed

lemma list_update_replicate3:
  assumes "i \<le> 29"
  shows "(replicate 32 0)[i := a, i + 1 := b, i + 2 := c] =
    replicate i 0 @ [a, b, c] @ replicate (29 - i) (0::u8)"
  using assms by (intro nth_equalityI) (auto simp: nth_append nth_list_update nth_Cons')

lemma be_nat_update3:
  assumes "i \<le> 29"
  shows "be_nat ((replicate 32 0)[i := a, i + 1 := b, i + 2 := c]) = be_nat [a, b, c] * 256 ^ (29 - i)"
  unfolding list_update_replicate3 [OF assms] be_nat_append by simp

lemma unat_mantissa: "unat (nBits AND 0x007fffff :: u32) < 2 ^ 23"
proof -
  have "(0x007fffff :: u32) = mask 23" by (simp add: mask_numeral)
  then have "nBits AND 0x007fffff = take_bit 23 nBits" by (simp only: take_bit_eq_mask)
  then show ?thesis by (simp only: unsigned_take_bit_eq take_bit_nat_less_exp)
qed

lemma compact_mid:
  assumes "nBits AND 0x00800000 = 0" and "nBits AND 0x007fffff \<noteq> 0"
    and "3 \<le> unat (drop_bit 24 nBits)" and "unat (drop_bit 24 nBits) \<le> 32"
  shows "\<exists>t. compactToTargetU32LE nBits = Inr t \<and> length t = 8 \<and>
    target_nat t = unat (nBits AND 0x007fffff) * 256 ^ (unat (drop_bit 24 nBits) - 3)"
proof -
  define m e where "m = nBits AND 0x007fffff" and "e = unat (drop_bit 24 nBits)"
  let ?be = "(replicate 32 0)[32 - e := byte_at 16 m, 32 - e + 1 := byte_at 8 m, 32 - e + 2 := byte_at 0 m]"
  have e: "3 \<le> e" "e \<le> 32" using assms(3,4) by (simp_all add: e_def)
  have "unat m < 2 ^ 24" using unat_mantissa [of nBits] by (simp add: m_def)
  then have "be_nat ?be = unat m * 256 ^ (e - 3)"
    using e by (subst be_nat_update3) (simp_all add: be_nat_bytes3 del: be_nat_Cons)
  then have "target_nat (setFromBigEndianBytes ?be) = unat m * 256 ^ (e - 3)"
    by (simp add: target_nat_setFromBigEndianBytes)
  moreover have "length (setFromBigEndianBytes ?be) = 8" by (simp add: setFromBigEndianBytes_eq)
  moreover have "compactToTargetU32LE nBits = Inr (setFromBigEndianBytes ?be)"
    using assms(1,2) e
    unfolding compactToTargetU32LE_def Let_def store32_def m_def [symmetric] e_def [symmetric]
    by (cases "e = 3") simp_all
  ultimately show ?thesis unfolding m_def e_def by blast
qed

lemma compact_zero:
  assumes "nBits AND 0x00800000 \<noteq> 0 \<or> nBits AND 0x007fffff = 0"
  shows "compactToTargetU32LE nBits = Inr (replicate 8 0)"
  using assms by (auto simp: compactToTargetU32LE_def Let_def setZero_def)

lemma compact_high:
  assumes "nBits AND 0x00800000 = 0" and "nBits AND 0x007fffff \<noteq> 0" and "32 < unat (drop_bit 24 nBits)"
  shows "compactToTargetU32LE nBits = Inr (replicate 8 0xFFFFFFFF)"
  using assms by (simp add: compactToTargetU32LE_def Let_def setZero_def)

lemma compact_exponent_0:
  assumes "nBits AND 0x00800000 = 0" and "nBits AND 0x007fffff \<noteq> 0" and "unat (drop_bit 24 nBits) = 0"
  shows "compactToTargetU32LE nBits = Inl Out_of_bounds"
  using assms by (simp add: compactToTargetU32LE_def Let_def store32_def)

lemma unat_drop: "unat (drop_bit j (w::u32)) = unat w div 2 ^ j"
  by (simp only: unat_drop_bit_eq drop_bit_eq_div [where 'a = nat])

lemma unat_byte_drop_bit: "unat (byte_at k (drop_bit j w)) = unat w div 2 ^ (j + k) mod 256"
  by (simp only: unat_byte_at unat_drop power_add div_mult2_eq)

lemma be_nat_last: "be_nat ((replicate 32 0)[31 := a]) = unat a"
proof -
  have "(replicate 32 0)[31 := a] = replicate 31 0 @ [a]"
    by (intro nth_equalityI) (auto simp: nth_append nth_list_update)
  then show ?thesis by (simp add: be_nat_append)
qed

lemma byte_at_0I: "unat w div 2 ^ k = 0 \<Longrightarrow> byte_at k w = 0"
  by (metis mod_0 unat_byte_at unat_eq_zero)

lemma replicate_update_same: "(replicate n x)[i := x] = replicate n x"
  by (cases "i < n") (simp_all add: list_update_same_conv list_update_beyond)

lemma compact_low:
  assumes "nBits AND 0x00800000 = 0" and "nBits AND 0x007fffff \<noteq> 0"
    and "unat (drop_bit 24 nBits) = 1 \<or> unat (drop_bit 24 nBits) = 2"
  shows "\<exists>t. compactToTargetU32LE nBits = Inr t \<and> length t = 8 \<and> target_nat t =
    (if unat (drop_bit 24 nBits) = 1 then 0 else unat (nBits AND 0x007fffff) div 65536)"
proof -
  define m e where "m = nBits AND 0x007fffff" and "e = unat (drop_bit 24 nBits)"
  have m: "unat m < 2 ^ 23" using unat_mantissa [of nBits] by (simp add: m_def)
  have e: "e = 1 \<or> e = 2" using assms(3) by (simp add: e_def)
  have small: "unat m div 2 ^ 24 = 0" "unat m div 2 ^ 32 = 0" using m by simp_all
  have hi: "byte_at 16 (drop_bit 8 m) = 0" "byte_at 16 (drop_bit 16 m) = 0"
    using small unat_byte_drop_bit [of 16 8 m] unat_byte_drop_bit [of 16 16 m]
    by (simp_all add: unat_eq_zero)
  have lo: "unat (byte_at 8 (drop_bit 8 m)) = unat m div 65536"
    using m by (simp add: unat_byte_drop_bit)
  let ?b1 = "replicate 32 0 :: u8 list" and ?b2 = "(replicate 32 0)[31 := byte_at 8 (drop_bit 8 m)]"
  have "compactToTargetU32LE nBits = Inr (setFromBigEndianBytes (if e = 1 then ?b1 else ?b2))"
    using assms(1,2) e hi
    unfolding compactToTargetU32LE_def Let_def store32_def m_def [symmetric] e_def [symmetric]
    by (auto simp: replicate_update_same)
  moreover have "target_nat (setFromBigEndianBytes (if e = 1 then ?b1 else ?b2)) =
      (if e = 1 then 0 else unat m div 65536)"
    by (simp add: target_nat_setFromBigEndianBytes be_nat_last lo)
  moreover have "length (setFromBigEndianBytes be) = 8" for be by (simp add: setFromBigEndianBytes_eq)
  ultimately show ?thesis unfolding m_def e_def by blast
qed

text \<open>
  The value the code gives a compact target, by the ranges of its exponent, and the value of Bitcoin's
  encoding, \<^verbatim>\<open>mantissa * 256 ^ (exponent - 3)\<close> rounded down.
\<close>

definition exponent_of :: "u32 \<Rightarrow> nat" where
  "exponent_of nBits = unat (drop_bit 24 nBits)"

definition mantissa_of :: "u32 \<Rightarrow> nat" where
  "mantissa_of nBits = (if nBits AND 0x00800000 \<noteq> 0 then 0 else unat (nBits AND 0x007fffff))"

definition code_target :: "u32 \<Rightarrow> nat" where
  "code_target nBits =
     (let e = exponent_of nBits; m = mantissa_of nBits
      in if m = 0 then 0
         else if e \<le> 1 then 0
         else if e = 2 then m div 65536
         else if e \<le> 32 then m * 256 ^ (e - 3)
         else 2 ^ 256 - 1)"

definition compact_spec :: "u32 \<Rightarrow> nat" where
  "compact_spec nBits =
     (let e = exponent_of nBits; m = mantissa_of nBits
      in if e \<le> 3 then m div 256 ^ (3 - e) else m * 256 ^ (e - 3))"

text \<open>The two agree for the exponents from 3 to 32.\<close>

lemma code_target_spec:
  "code_target n = (let e = exponent_of n in
     if 3 \<le> e \<and> e \<le> 32 then compact_spec n
     else if 32 < e then (if mantissa_of n = 0 then 0 else 2 ^ 256 - 1)
     else if e = 2 then compact_spec n div 256 else 0)"
  by (cases "exponent_of n = 3") (auto simp: code_target_def compact_spec_def Let_def div_mult2_eq [symmetric])

lemma be_nat_replicate: "be_nat (replicate n 0) = 0" "be_nat (replicate n 255) = 256 ^ n - 1"
proof -
  have "unat (255::u8) = 255" by simp
  then show "be_nat (replicate n 0) = 0" "be_nat (replicate n 255) = 256 ^ n - 1"
    by (induction n) (simp_all only: replicate.simps be_nat_Cons, simp_all)
qed

lemma concat_replicate_fixed: "concat (replicate k (replicate n x)) = replicate (k * n) x"
  by (induction k) (simp_all add: replicate_add)

lemma word_be_bytes_const:
  "word_be_bytes (bswap32 0) = replicate 4 0" "word_be_bytes (bswap32 0xFFFFFFFF) = replicate 4 255"
  by code_simp+

lemma target_nat_zero: "target_nat (replicate 8 0) = 0"
  unfolding target_nat_def leU32WordsToBe32Bytes_concat [OF length_replicate] map_replicate
    word_be_bytes_const concat_replicate_fixed by (rule be_nat_replicate)

lemma target_nat_max: "target_nat (replicate 8 0xFFFFFFFF) = 2 ^ 256 - 1"
proof -
  have "target_nat (replicate 8 0xFFFFFFFF) = 256 ^ (8 * 4) - 1"
    unfolding target_nat_def leU32WordsToBe32Bytes_concat [OF length_replicate] map_replicate
      word_be_bytes_const concat_replicate_fixed by (rule be_nat_replicate)
  also have "(256::nat) ^ (8 * 4) = 2 ^ 256" by simp
  finally show ?thesis .
qed

lemma mantissa_of_0_iff: "mantissa_of nBits = 0 \<longleftrightarrow> nBits AND 0x00800000 \<noteq> 0 \<or> nBits AND 0x007fffff = 0"
  by (simp add: mantissa_of_def unat_eq_zero)

lemma compact_cases:
  "if mantissa_of nBits \<noteq> 0 \<and> exponent_of nBits = 0 then compactToTargetU32LE nBits = Inl Out_of_bounds
   else \<exists>t. compactToTargetU32LE nBits = Inr t \<and> length t = 8 \<and> target_nat t = code_target nBits"
proof (cases "mantissa_of nBits = 0")
  case True
  then show ?thesis
    using compact_zero [of nBits] by (simp add: mantissa_of_0_iff code_target_def Let_def target_nat_zero)
next
  case False
  then have m: "nBits AND 0x00800000 = 0" "nBits AND 0x007fffff \<noteq> 0"
    "mantissa_of nBits = unat (nBits AND 0x007fffff)"
    by (simp_all add: mantissa_of_0_iff) (simp add: mantissa_of_def)
  consider "exponent_of nBits = 0" | "exponent_of nBits = 1 \<or> exponent_of nBits = 2"
    | "3 \<le> exponent_of nBits \<and> exponent_of nBits \<le> 32" | "32 < exponent_of nBits"
    by linarith
  then show ?thesis
  proof cases
    case 1
    then show ?thesis using False compact_exponent_0 [OF m(1,2)] by (simp add: exponent_of_def)
  next
    case 2
    then show ?thesis using False compact_low [OF m(1,2)] m(3)
      by (auto simp: code_target_def Let_def exponent_of_def)
  next
    case 3
    then show ?thesis using False compact_mid [OF m(1,2)] m(3)
      by (auto simp: code_target_def Let_def exponent_of_def)
  next
    case 4
    then show ?thesis using False compact_high [OF m(1,2)]
      by (auto simp: code_target_def Let_def exponent_of_def target_nat_max)
  qed
qed

lemma compact_length: "compactToTargetU32LE nBits = Inr t \<Longrightarrow> length t = 8"
  using compact_cases [of nBits] by (auto split: if_splits)

section \<open>Properties\<close>

text \<open>C8: the share check compares numbers. Where the exponent of a compact target is between 3 and 32,
  the expansion succeeds and a 32-byte hash passes \<open>isHashLEQTarget\<close> exactly when, read as a
  big-endian number, it is at most \<open>mantissa * 256 ^ (exponent - 3)\<close>, Bitcoin's value of the target.\<close>

theorem share_check_numeric:
  assumes "3 \<le> exponent_of nBits" and "exponent_of nBits \<le> 32" and "length h = 32"
  shows "\<exists>t. compactToTargetU32LE nBits = Inr t \<and> (isHashLEQTarget h t \<longleftrightarrow> be_nat h \<le> compact_spec nBits)"
proof -
  have "code_target nBits = compact_spec nBits"
    using assms(1,2) by (cases "exponent_of nBits = 3") (auto simp: code_target_def compact_spec_def Let_def)
  then show ?thesis
    using compact_cases [of nBits] assms by (auto simp: isHashLEQTarget_target_nat split: if_splits)
qed

theorem share_check_numeric_witness:
  "\<exists>t. compactToTargetU32LE 0x1d00ffff = Inr t \<and>
     (isHashLEQTarget (replicate 32 1) t \<longleftrightarrow> be_nat (replicate 32 1) \<le> compact_spec 0x1d00ffff)"
  by (rule share_check_numeric) (simp_all add: exponent_of_def)

text \<open>Every branch of \<open>compactToTargetU32LE\<close>. With a nonzero mantissa and exponent 0 the code writes
  outside its array; otherwise it returns eight words whose value is \<open>code_target\<close>. For the exponents
  1 and 2 that is not Bitcoin's value: \<^verbatim>\<open>0x02123400\<close> encodes \<^verbatim>\<open>0x1234\<close> and the code gives \<^verbatim>\<open>0x12\<close>.\<close>

theorem compact_branches:
  "(case compactToTargetU32LE nBits of
      Inl e \<Rightarrow> e = Out_of_bounds \<and> mantissa_of nBits \<noteq> 0 \<and> exponent_of nBits = 0
    | Inr t \<Rightarrow> length t = 8 \<and> target_nat t = code_target nBits \<and>
               \<not> (mantissa_of nBits \<noteq> 0 \<and> exponent_of nBits = 0)) \<and>
   code_target 0x02123400 = 0x12 \<and> compact_spec 0x02123400 = 0x1234"
  using compact_cases [of nBits]
  by (auto split: if_splits simp: code_target_def compact_spec_def exponent_of_def mantissa_of_def)

end
