(* ===== verification/Hex_Codec.thy ===== *)
theory Hex_Codec
  imports Miner_Prelude
begin

text \<open>
  Hexadecimal text, as the sources write it in several places (\<^verbatim>\<open>bytesToHex\<close> of
  \<^verbatim>\<open>src/submit/gbt_submitter.cc\<close> and of \<^verbatim>\<open>src/adapters/stratum_runner.cc\<close>, \<^verbatim>\<open>toHex8\<close> of
  \<^verbatim>\<open>src/submit/stratum_submitter.h\<close>), with the decoder that says what such a text stands for, and
  little-endian numbers. The C++ library functions the sources read hexadecimal with (\<^verbatim>\<open>std::stoul\<close> with
  base 16 and \<^verbatim>\<open>sscanf\<close> with \<^verbatim>\<open>"%02x"\<close>) follow at the end.
\<close>

definition kHex :: string where
  "kHex = ''0123456789abcdef''"

definition hex_byte :: "u8 \<Rightarrow> string" where
  "hex_byte b = [kHex ! unat (drop_bit 4 b AND 0xF), kHex ! unat (b AND 0xF)]"

definition bytesToHex :: "u8 list \<Rightarrow> string" where
  "bytesToHex bytes = concat (map hex_byte bytes)"

section \<open>Decoding\<close>

definition hex_value :: "char \<Rightarrow> nat option" where
  "hex_value c =
     (let n = of_char c :: nat
      in if 48 \<le> n \<and> n \<le> 57 then Some (n - 48)
         else if 97 \<le> n \<and> n \<le> 102 then Some (n - 87)
         else if 65 \<le> n \<and> n \<le> 70 then Some (n - 55) else None)"

fun unhex :: "string \<Rightarrow> u8 list option" where
  "unhex [] = Some []"
| "unhex [c] = None"
| "unhex (c # d # s) =
     (case hex_value c of None \<Rightarrow> None
      | Some a \<Rightarrow> (case hex_value d of None \<Rightarrow> None
         | Some b \<Rightarrow> (case unhex s of None \<Rightarrow> None | Some bs \<Rightarrow> Some (of_nat (16 * a + b) # bs))))"

lemma unhex_append: "unhex a = Some x \<Longrightarrow> unhex (a @ b) = map_option ((@) x) (unhex b)"
  by (induction a arbitrary: x rule: unhex.induct) (cases "unhex b"; auto split: option.splits)+

lemma unhex_append_Some [intro]: "unhex a = Some x \<Longrightarrow> unhex b = Some y \<Longrightarrow> unhex (a @ b) = Some (x @ y)"
  by (simp add: unhex_append)

lemma unhex_length: "unhex s = Some bs \<Longrightarrow> length s = 2 * length bs"
  by (induction s arbitrary: bs rule: unhex.induct) (auto split: option.splits)

lemma hex_value_digit: "n < 16 \<Longrightarrow> hex_value (kHex ! n) = Some n"
proof -
  have "list_all (\<lambda>n. hex_value (kHex ! n) = Some n) [0..<16]" by code_simp
  then show "n < 16 \<Longrightarrow> ?thesis" by (simp add: list_all_iff)
qed

lemma unat_low_nibble: "unat (b AND 0xF) = unat b mod 16" for b :: u8
proof -
  have "(0xF :: u8) = mask 4" by (simp add: mask_numeral)
  then have "b AND 0xF = take_bit 4 b" by (simp only: take_bit_eq_mask)
  then have "unat (b AND 0xF) = take_bit 4 (unat b)" by (simp only: unsigned_take_bit_eq) 
  then show ?thesis by (simp add: take_bit_eq_mod)
qed

lemma unat_drop_bit_div: "unat (drop_bit k w) = unat w div 2 ^ k" for w :: "'a::len word"
  by (simp only: unat_drop_bit_eq drop_bit_eq_div [where 'a = nat])

lemma unhex_hex_byte [simp]: "unhex (hex_byte b) = Some [b]"
proof -
  have hi: "unat (drop_bit 4 b) mod 16 = unat b div 16"
  proof -
    have "unat b div 16 < 16" using unat_u8_less [of b] by (simp add: less_mult_imp_div_less)
    then show ?thesis by (simp only: unat_drop_bit_div) simp
  qed
  have lt: "unat b div 16 < 16" "unat b mod 16 < 16"
    using unat_u8_less [of b] by (simp_all add: less_mult_imp_div_less)
  have "16 * (unat b div 16) + unat b mod 16 = unat b" by simp
  then have "of_nat (16 * (unat b div 16) + unat b mod 16) = (of_nat (unat b) :: u8)" by (simp only:)
  then have "of_nat (16 * (unat b div 16) + unat b mod 16) = b" by (simp only: of_nat_unat ucast_id)
  then show ?thesis
    by (simp only: hex_byte_def hi unat_low_nibble hex_value_digit [OF lt(1)] hex_value_digit [OF lt(2)]
        unhex.simps option.case)
qed

lemma unhex_bytesToHex [simp]: "unhex (bytesToHex bs) = Some bs"
  by (induction bs) (simp_all add: bytesToHex_def unhex_append)

lemma length_bytesToHex [simp]: "length (bytesToHex bs) = 2 * length bs"
  using unhex_length [OF unhex_bytesToHex] .

lemma bytesToHex_append: "bytesToHex (a @ b) = bytesToHex a @ bytesToHex b"
  by (simp add: bytesToHex_def)

section \<open>Little-endian numbers\<close>

primrec le_nat :: "u8 list \<Rightarrow> nat" where
  "le_nat [] = 0"
| "le_nat (b # bs) = unat b + 256 * le_nat bs"

text \<open>\<^verbatim>\<open>(v >> (8*i)) & 0xFF\<close> for the first \<open>n\<close> bytes.\<close>

definition le_bytes :: "nat \<Rightarrow> u64 \<Rightarrow> u8 list" where
  "le_bytes n v = map (\<lambda>i. ucast (drop_bit (8 * i) v AND 0xFF)) [0..<n]"

lemma length_le_bytes [simp, width_simps]: "length (le_bytes n v) = n"
  by (simp add: le_bytes_def)

lemma le_nat_append: "le_nat (a @ b) = le_nat a + 256 ^ length a * le_nat b"
  by (induction a) (simp_all add: algebra_simps)

lemma unat_byte_of_u64: "unat (ucast (drop_bit k v AND 0xFF) :: u8) = unat v div 2 ^ k mod 256" for v :: u64
proof -
  have "(0xFF :: u64) = mask 8" by (simp add: mask_numeral)
  then have "drop_bit k v AND 0xFF = take_bit 8 (drop_bit k v)" by (simp only: take_bit_eq_mask)
  then have "unat (ucast (drop_bit k v AND 0xFF) :: u8) = take_bit 8 (take_bit 8 (unat (drop_bit k v)))"
    by (simp only: unsigned_ucast_eq unsigned_take_bit_eq) simp
  then show ?thesis by (simp only: unat_drop_bit_div) (simp add: take_bit_eq_mod)
qed

lemma le_nat_le_bytes: "le_nat (le_bytes n v) = unat v mod 256 ^ n"
proof (induction n)
  case (Suc n)
  have "le_bytes (Suc n) v = le_bytes n v @ [ucast (drop_bit (8 * n) v AND 0xFF)]"
    by (simp add: le_bytes_def)
  then have "le_nat (le_bytes (Suc n) v) = unat v mod 256 ^ n + 256 ^ n * (unat v div 256 ^ n mod 256)"
    by (simp add: le_nat_append Suc.IH unat_byte_of_u64 power_mult)
  also have "\<dots> = unat v mod (256 ^ n * 256)" by (simp add: mod_mult2_eq)
  finally show ?case by (simp add: mult.commute)
qed (simp add: le_bytes_def)

section \<open>Reading hexadecimal with the C++ library\<close>

definition is_space :: "char \<Rightarrow> bool" where
  "is_space c = (let n = of_char c :: nat in n = 32 \<or> (9 \<le> n \<and> n \<le> 13))"

definition split_sign :: "string \<Rightarrow> bool \<times> string" where
  "split_sign s = (case s of [] \<Rightarrow> (False, [])
     | c # r \<Rightarrow> if c = CHR ''-'' then (True, r) else if c = CHR ''+'' then (False, r) else (False, s))"

definition skip_0x :: "string \<Rightarrow> string" where
  "skip_0x s = (case s of z # x # d # r \<Rightarrow>
       if z = CHR ''0'' \<and> (x = CHR ''x'' \<or> x = CHR ''X'') \<and> hex_value d \<noteq> None then d # r else s
     | _ \<Rightarrow> s)"

definition hex_number :: "string \<Rightarrow> nat" where
  "hex_number ds = foldl (\<lambda>n d. 16 * n + the (hex_value d)) 0 ds"

text \<open>\<^verbatim>\<open>std::stoul(s, nullptr, 16)\<close> with a 64-bit \<^verbatim>\<open>unsigned long\<close>; \<open>None\<close> stands for its exceptions.\<close>

definition stoul16 :: "string \<Rightarrow> u64 option" where
  "stoul16 s =
     (case split_sign (dropWhile is_space s) of (neg, r) \<Rightarrow>
        let ds = takeWhile (\<lambda>d. hex_value d \<noteq> None) (skip_0x r)
        in if ds = [] \<or> 2 ^ 64 \<le> hex_number ds then None
           else Some (if neg then - of_nat (hex_number ds) else of_nat (hex_number ds)))"

text \<open>\<^verbatim>\<open>sscanf(p, "%02x", &v)\<close>: at most two characters after white space; \<open>None\<close> when nothing matches.\<close>

definition scan_hex2 :: "string \<Rightarrow> u32 option" where
  "scan_hex2 s =
     (case split_sign (take 2 (dropWhile is_space s)) of (neg, r) \<Rightarrow>
        let ds = takeWhile (\<lambda>d. hex_value d \<noteq> None) r
        in if ds = [] then None else Some (if neg then - of_nat (hex_number ds) else of_nat (hex_number ds)))"

text \<open>On text that is hexadecimal, both read what it says.\<close>

lemma hex_value_plain: "hex_value c = Some n \<Longrightarrow> \<not> is_space c \<and> c \<noteq> CHR ''-'' \<and> c \<noteq> CHR ''+''"
  by (auto simp: hex_value_def is_space_def Let_def split: if_splits)

lemma scan_hex2_pair:
  assumes "unhex (c # d # s) = Some (b # bs)"
  shows "scan_hex2 (c # d # r) = Some (ucast b)"
proof -
  obtain x y where xy: "hex_value c = Some x" "hex_value d = Some y" "b = of_nat (16 * x + y)"
    using assms by (auto split: option.splits)
  have lt: "x < 16" "y < 16" using xy(1,2) by (auto simp: hex_value_def Let_def split: if_splits)
  have "unat (of_nat (16 * x + y) :: u8) = 16 * x + y"
    using unat_of_nat [where 'a = 8, of "16 * x + y"] lt by simp
  moreover have "take_bit 32 (16 * x + y) = 16 * x + y" using lt by (intro take_bit_nat_eq_self) simp
  ultimately have "unat (ucast b :: u32) = 16 * x + y" by (simp only: xy(3) unsigned_ucast_eq) simp
  then have "ucast b = (of_nat (16 * x + y) :: u32)" by (metis of_nat_unat ucast_id)
  then show ?thesis
    using hex_value_plain [OF xy(1)] xy(1,2) by (simp add: scan_hex2_def split_sign_def hex_number_def)
qed

end
