(* ===== verification/Json_Library.thy ===== *)
theory Json_Library
  imports Miner_Prelude
begin

text \<open>
  What the sources use of the JSON library (\<^verbatim>\<open>nlohmann::json\<close>, which is not part of the repository),
  as a record of operations on an arbitrary type of documents. The components that read JSON take
  such a record as an argument. \<open>None\<close> stands for the exception an operation throws (the sources catch
  all of them in the same place); the accesses by name and by position are those of \<^verbatim>\<open>operator[]\<close>,
  \<open>j_string_or\<close> is \<^verbatim>\<open>value<std::string>(name, default)\<close>, \<open>j_equals_int\<close> the comparison with a number.
\<close>

record 'j json_lib =
  j_contains :: "'j \<Rightarrow> string \<Rightarrow> bool"
  j_field :: "'j \<Rightarrow> string \<Rightarrow> 'j option"
  j_item :: "'j \<Rightarrow> nat \<Rightarrow> 'j option"
  j_elements :: "'j \<Rightarrow> 'j list"
  j_is_object :: "'j \<Rightarrow> bool"
  j_is_array :: "'j \<Rightarrow> bool"
  j_is_string :: "'j \<Rightarrow> bool"
  j_is_null :: "'j \<Rightarrow> bool"
  j_string :: "'j \<Rightarrow> string option"
  j_bool :: "'j \<Rightarrow> bool option"
  j_int :: "'j \<Rightarrow> u32 option"
  j_int64 :: "'j \<Rightarrow> u64 option"
  j_is_number :: "'j \<Rightarrow> bool"
  j_equals_int :: "'j \<Rightarrow> int \<Rightarrow> bool"
  j_string_or :: "'j \<Rightarrow> string \<Rightarrow> string \<Rightarrow> string option"

text \<open>A concrete instance, for evaluating the models on documents.\<close>

datatype json = JNull | JBool bool | JInt int | JString string | JArray "json list"
  | JObject "(string \<times> json) list"

fun json_contains :: "json \<Rightarrow> string \<Rightarrow> bool" where
  "json_contains (JObject fs) k = (map_of fs k \<noteq> None)"
| "json_contains _ _ = False"

fun json_field :: "json \<Rightarrow> string \<Rightarrow> json option" where
  "json_field (JObject fs) k = Some (case map_of fs k of None \<Rightarrow> JNull | Some v \<Rightarrow> v)"
| "json_field JNull k = Some JNull"
| "json_field _ k = None"

fun json_item :: "json \<Rightarrow> nat \<Rightarrow> json option" where
  "json_item (JArray vs) i = Some (if i < length vs then vs ! i else JNull)"
| "json_item JNull i = Some JNull"
| "json_item _ i = None"

fun json_elements :: "json \<Rightarrow> json list" where
  "json_elements (JArray vs) = vs"
| "json_elements (JObject fs) = map snd fs"
| "json_elements JNull = []"
| "json_elements v = [v]"

fun json_string :: "json \<Rightarrow> string option" where
  "json_string (JString s) = Some s"
| "json_string _ = None"

fun json_bool :: "json \<Rightarrow> bool option" where
  "json_bool (JBool b) = Some b"
| "json_bool _ = None"

fun json_int :: "json \<Rightarrow> int option" where
  "json_int (JInt n) = Some n"
| "json_int (JBool b) = Some (of_bool b)"
| "json_int _ = None"

fun json_string_or :: "json \<Rightarrow> string \<Rightarrow> string \<Rightarrow> string option" where
  "json_string_or (JObject fs) k d = (case map_of fs k of None \<Rightarrow> Some d | Some v \<Rightarrow> json_string v)"
| "json_string_or _ k d = None"

definition json_model :: "json json_lib" where
  "json_model = \<lparr>j_contains = json_contains, j_field = json_field, j_item = json_item,
     j_elements = json_elements, j_is_object = (\<lambda>v. case v of JObject _ \<Rightarrow> True | _ \<Rightarrow> False),
     j_is_array = (\<lambda>v. case v of JArray _ \<Rightarrow> True | _ \<Rightarrow> False),
     j_is_string = (\<lambda>v. case v of JString _ \<Rightarrow> True | _ \<Rightarrow> False), j_is_null = (\<lambda>v. v = JNull),
     j_string = json_string, j_bool = json_bool,
     j_int = (\<lambda>v. map_option of_int (json_int v)), j_int64 = (\<lambda>v. map_option of_int (json_int v)),
     j_is_number = (\<lambda>v. case v of JInt _ \<Rightarrow> True | _ \<Rightarrow> False), j_equals_int = (\<lambda>v n. v = JInt n),
     j_string_or = json_string_or\<rparr>"

end
