(* ===== verification/Config.thy ===== *)
theory Config
  imports Targets Hex_Codec Json_Library
begin

text \<open>
  \<^verbatim>\<open>src/config/config.h\<close> and \<^verbatim>\<open>src/config/config.cc\<close>: the configuration records with their default
  member initialisers, and the loader. Every section of the document is a list of optional members, so
  the loader is a list of readers per section: a member that is absent leaves the default, a member of
  the wrong type throws out of \<^verbatim>\<open>loadFromJsonFile\<close> (\<open>Invalid_argument\<close> with the member's name), except
  for the four hexadecimal members of the policy, whose exceptions are caught one by one. Signed
  \<^verbatim>\<open>int\<close> members are words of 32 bits, read with \<open>sint\<close> where they are used.
\<close>

datatype CredMode = WalletAsUser | AccountWorker

record Endpoint =
  ep_host :: string
  ep_port :: u16
  ep_use_tls :: bool

record RpcConfig =
  rc_url :: string
  rc_use_tls :: bool
  rc_auth :: string
  rc_username :: string
  rc_password :: string
  rc_cookie_path :: string

record GbtConfig =
  gc_poll_ms :: u32
  gc_rules :: "string list"
  gc_cb_tag :: string
  gc_allow_synth_coinbase :: bool
  gc_payout_script_hex :: string

record PolicyCfg =
  po_force_clean_jobs :: bool
  po_clean_jobs_default :: bool
  po_version_mask :: "u32 option"
  po_ntime_min :: "u32 option"
  po_ntime_max :: "u32 option"
  po_share_nbits :: "u32 option"

record PoolEntry =
  pe_name :: string
  pe_profile :: string
  pe_cred_mode :: CredMode
  pe_weight :: u32
  pe_wallet :: string
  pe_account :: string
  pe_worker :: string
  pe_password :: string
  pe_endpoints :: "Endpoint list"
  pe_rpc :: "RpcConfig option"
  pe_gbt :: "GbtConfig option"
  pe_policy :: PolicyCfg

record SchedulerCfg =
  sc_latency_penalty_ms :: u32
  sc_max_weight :: u32

record MetricsCfg =
  mc_enable_file :: bool
  mc_file_path :: string
  mc_dump_interval_ms :: u32
  mc_enable_http :: bool
  mc_http_host :: string
  mc_http_port :: u16
  mc_file_max_bytes :: u64
  mc_file_rotate_interval_sec :: u64

record TlsCfg =
  tc_verify :: bool
  tc_ca_file :: string
  tc_use_schannel :: bool

record CudaCfg =
  cc_hit_ring_capacity :: u32
  cc_desired_threads_per_job :: u32
  cc_nonces_per_thread :: u32
  cc_budget_ms :: u32

record OutboxCfg =
  oc_path :: string
  oc_max_bytes :: u64
  oc_rotate_on_start :: bool
  oc_rotate_interval_sec :: u64

record LedgerCfg =
  lc_path :: string
  lc_max_bytes :: u64
  lc_rotate_interval_sec :: u64

record AppConfig =
  ac_log_level :: u32
  ac_pools :: "PoolEntry list"
  ac_scheduler :: SchedulerCfg
  ac_metrics :: MetricsCfg
  ac_tls :: TlsCfg
  ac_cuda :: CudaCfg
  ac_outbox :: OutboxCfg
  ac_ledger :: LedgerCfg

definition default_endpoint :: Endpoint where
  "default_endpoint = \<lparr>ep_host = [], ep_port = 0, ep_use_tls = False\<rparr>"

definition default_rpc :: RpcConfig where
  "default_rpc = \<lparr>rc_url = [], rc_use_tls = False, rc_auth = [], rc_username = [], rc_password = [],
     rc_cookie_path = []\<rparr>"

definition default_gbt :: GbtConfig where
  "default_gbt = \<lparr>gc_poll_ms = 2000, gc_rules = [], gc_cb_tag = [], gc_allow_synth_coinbase = False,
     gc_payout_script_hex = []\<rparr>"

definition default_policy :: PolicyCfg where
  "default_policy = \<lparr>po_force_clean_jobs = False, po_clean_jobs_default = True, po_version_mask = None,
     po_ntime_min = None, po_ntime_max = None, po_share_nbits = None\<rparr>"

definition default_pool :: PoolEntry where
  "default_pool = \<lparr>pe_name = [], pe_profile = [], pe_cred_mode = WalletAsUser, pe_weight = 1, pe_wallet = [],
     pe_account = [], pe_worker = [], pe_password = [], pe_endpoints = [], pe_rpc = None, pe_gbt = None,
     pe_policy = default_policy\<rparr>"

definition default_config :: AppConfig where
  "default_config = \<lparr>ac_log_level = 2, ac_pools = [],
     ac_scheduler = \<lparr>sc_latency_penalty_ms = 1500, sc_max_weight = 4\<rparr>,
     ac_metrics = \<lparr>mc_enable_file = False, mc_file_path = ''logs/metrics.jsonl'', mc_dump_interval_ms = 2000,
       mc_enable_http = False, mc_http_host = ''127.0.0.1'', mc_http_port = 8080,
       mc_file_max_bytes = 10 * 1024 * 1024, mc_file_rotate_interval_sec = 0\<rparr>,
     ac_tls = \<lparr>tc_verify = True, tc_ca_file = [], tc_use_schannel = False\<rparr>,
     ac_cuda = \<lparr>cc_hit_ring_capacity = 1024, cc_desired_threads_per_job = 256, cc_nonces_per_thread = 1,
       cc_budget_ms = 16\<rparr>,
     ac_outbox = \<lparr>oc_path = ''logs/outbox.bin'', oc_max_bytes = 10 * 1024 * 1024, oc_rotate_on_start = False,
       oc_rotate_interval_sec = 0\<rparr>,
     ac_ledger = \<lparr>lc_path = ''runner.jsonl'', lc_max_bytes = 10 * 1024 * 1024, lc_rotate_interval_sec = 0\<rparr>\<rparr>"

section \<open>Readers\<close>

text \<open>A member with the reader that puts its value into the record, or throws.\<close>

type_synonym ('j, 'c) reader = "string \<times> ('j \<Rightarrow> 'c \<Rightarrow> 'c result)"

fun read_fields :: "'j json_lib \<Rightarrow> 'j \<Rightarrow> ('j, 'c) reader list \<Rightarrow> 'c \<Rightarrow> 'c result" where
  "read_fields J doc [] c = Inr c"
| "read_fields J doc ((name, rd) # fs) c =
     (if j_contains J doc name
      then (case j_field J doc name of
              None \<Rightarrow> Inl (Invalid_argument name)
            | Some v \<Rightarrow> (case rd v c of Inl e \<Rightarrow> Inl e | Inr c' \<Rightarrow> read_fields J doc fs c'))
      else read_fields J doc fs c)"

definition reads :: "string \<Rightarrow> ('j \<Rightarrow> 'v option) \<Rightarrow> ('v \<Rightarrow> 'c \<Rightarrow> 'c) \<Rightarrow> ('j, 'c) reader" where
  "reads name get put = (name, \<lambda>v c. case get v of None \<Rightarrow> Inl (Invalid_argument name) | Some x \<Rightarrow> Inr (put x c))"

text \<open>A section: read when the member is an object.\<close>

definition section_reader :: "'j json_lib \<Rightarrow> string \<Rightarrow> ('c \<Rightarrow> 's) \<Rightarrow> ('s \<Rightarrow> 'c \<Rightarrow> 'c) \<Rightarrow> ('j, 's) reader list \<Rightarrow> ('j, 'c) reader" where
  "section_reader J name get put fs =
     (name, \<lambda>v c. if j_is_object J v then map_sum id (\<lambda>s. put s c) (read_fields J v fs (get c)) else Inr c)"

text \<open>A list: read when the member is an array, entry after entry.\<close>

fun read_list :: "('j \<Rightarrow> 'e result) \<Rightarrow> 'j list \<Rightarrow> 'e list result" where
  "read_list rd [] = Inr []"
| "read_list rd (v # vs) =
     (case rd v of Inl e \<Rightarrow> Inl e
      | Inr x \<Rightarrow> (case read_list rd vs of Inl e \<Rightarrow> Inl e | Inr xs \<Rightarrow> Inr (x # xs)))"

definition list_reader :: "'j json_lib \<Rightarrow> string \<Rightarrow> ('j \<Rightarrow> 'e result) \<Rightarrow> ('e list \<Rightarrow> 'c \<Rightarrow> 'c) \<Rightarrow> ('j, 'c) reader" where
  "list_reader J name rd put =
     (name, \<lambda>v c. if j_is_array J v then map_sum id (\<lambda>xs. put xs c) (read_list rd (j_elements J v)) else Inr c)"

text \<open>\<^verbatim>\<open>try { member = std::stoul(value.get<std::string>(), nullptr, 16); } catch (...) {}\<close>\<close>

definition hex_reader :: "'j json_lib \<Rightarrow> string \<Rightarrow> (u32 \<Rightarrow> 'c \<Rightarrow> 'c) \<Rightarrow> ('j, 'c) reader" where
  "hex_reader J name put =
     (name, \<lambda>v c. case Option.bind (j_string J v) stoul16 of None \<Rightarrow> Inr c | Some w \<Rightarrow> Inr (put (ucast w) c))"

section \<open>The members of each section\<close>

definition scheduler_fields :: "'j json_lib \<Rightarrow> ('j, SchedulerCfg) reader list" where
  "scheduler_fields J =
     [reads ''latency_penalty_ms'' (j_int J) (\<lambda>x s. s\<lparr>sc_latency_penalty_ms := x\<rparr>),
      reads ''max_weight'' (j_int J) (\<lambda>x s. s\<lparr>sc_max_weight := x\<rparr>)]"

definition metrics_fields :: "'j json_lib \<Rightarrow> ('j, MetricsCfg) reader list" where
  "metrics_fields J =
     [reads ''enable_file'' (j_bool J) (\<lambda>x s. s\<lparr>mc_enable_file := x\<rparr>),
      reads ''file_path'' (j_string J) (\<lambda>x s. s\<lparr>mc_file_path := x\<rparr>),
      reads ''dump_interval_ms'' (j_int J) (\<lambda>x s. s\<lparr>mc_dump_interval_ms := x\<rparr>),
      reads ''enable_http'' (j_bool J) (\<lambda>x s. s\<lparr>mc_enable_http := x\<rparr>),
      reads ''http_host'' (j_string J) (\<lambda>x s. s\<lparr>mc_http_host := x\<rparr>),
      reads ''http_port'' (j_int J) (\<lambda>x s. s\<lparr>mc_http_port := ucast x\<rparr>),
      reads ''file_max_bytes'' (j_int64 J) (\<lambda>x s. s\<lparr>mc_file_max_bytes := x\<rparr>),
      reads ''file_rotate_interval_sec'' (j_int64 J) (\<lambda>x s. s\<lparr>mc_file_rotate_interval_sec := x\<rparr>)]"

definition cuda_fields :: "'j json_lib \<Rightarrow> ('j, CudaCfg) reader list" where
  "cuda_fields J =
     [reads ''hit_ring_capacity'' (j_int J) (\<lambda>x s. s\<lparr>cc_hit_ring_capacity := x\<rparr>),
      reads ''desired_threads_per_job'' (j_int J) (\<lambda>x s. s\<lparr>cc_desired_threads_per_job := x\<rparr>),
      reads ''nonces_per_thread'' (j_int J) (\<lambda>x s. s\<lparr>cc_nonces_per_thread := x\<rparr>),
      reads ''budget_ms'' (j_int J) (\<lambda>x s. s\<lparr>cc_budget_ms := x\<rparr>)]"

definition tls_fields :: "'j json_lib \<Rightarrow> ('j, TlsCfg) reader list" where
  "tls_fields J =
     [reads ''verify'' (j_bool J) (\<lambda>x s. s\<lparr>tc_verify := x\<rparr>),
      reads ''ca_file'' (j_string J) (\<lambda>x s. s\<lparr>tc_ca_file := x\<rparr>),
      reads ''use_schannel'' (j_bool J) (\<lambda>x s. s\<lparr>tc_use_schannel := x\<rparr>)]"

definition outbox_fields :: "'j json_lib \<Rightarrow> ('j, OutboxCfg) reader list" where
  "outbox_fields J =
     [reads ''path'' (j_string J) (\<lambda>x s. s\<lparr>oc_path := x\<rparr>),
      reads ''max_bytes'' (j_int64 J) (\<lambda>x s. s\<lparr>oc_max_bytes := x\<rparr>),
      reads ''rotate_on_start'' (j_bool J) (\<lambda>x s. s\<lparr>oc_rotate_on_start := x\<rparr>),
      reads ''rotate_interval_sec'' (j_int64 J) (\<lambda>x s. s\<lparr>oc_rotate_interval_sec := x\<rparr>)]"

definition ledger_fields :: "'j json_lib \<Rightarrow> ('j, LedgerCfg) reader list" where
  "ledger_fields J =
     [reads ''path'' (j_string J) (\<lambda>x s. s\<lparr>lc_path := x\<rparr>),
      reads ''max_bytes'' (j_int64 J) (\<lambda>x s. s\<lparr>lc_max_bytes := x\<rparr>),
      reads ''rotate_interval_sec'' (j_int64 J) (\<lambda>x s. s\<lparr>lc_rotate_interval_sec := x\<rparr>)]"

definition endpoint_fields :: "'j json_lib \<Rightarrow> ('j, Endpoint) reader list" where
  "endpoint_fields J =
     [reads ''host'' (j_string J) (\<lambda>x s. s\<lparr>ep_host := x\<rparr>),
      reads ''port'' (j_int J) (\<lambda>x s. s\<lparr>ep_port := ucast x\<rparr>),
      reads ''use_tls'' (j_bool J) (\<lambda>x s. s\<lparr>ep_use_tls := x\<rparr>)]"

definition rpc_fields :: "'j json_lib \<Rightarrow> ('j, RpcConfig) reader list" where
  "rpc_fields J =
     [reads ''url'' (j_string J) (\<lambda>x s. s\<lparr>rc_url := x\<rparr>),
      reads ''use_tls'' (j_bool J) (\<lambda>x s. s\<lparr>rc_use_tls := x\<rparr>),
      reads ''auth'' (j_string J) (\<lambda>x s. s\<lparr>rc_auth := x\<rparr>),
      reads ''username'' (j_string J) (\<lambda>x s. s\<lparr>rc_username := x\<rparr>),
      reads ''password'' (j_string J) (\<lambda>x s. s\<lparr>rc_password := x\<rparr>),
      reads ''cookie_path'' (j_string J) (\<lambda>x s. s\<lparr>rc_cookie_path := x\<rparr>)]"

definition read_rule :: "'j json_lib \<Rightarrow> 'j \<Rightarrow> string result" where
  "read_rule J v = (case j_string J v of None \<Rightarrow> Inl (Invalid_argument ''rules'') | Some s \<Rightarrow> Inr s)"

definition gbt_fields :: "'j json_lib \<Rightarrow> ('j, GbtConfig) reader list" where
  "gbt_fields J =
     [reads ''poll_ms'' (j_int J) (\<lambda>x s. s\<lparr>gc_poll_ms := x\<rparr>),
      list_reader J ''rules'' (read_rule J) (\<lambda>xs s. s\<lparr>gc_rules := gc_rules s @ xs\<rparr>),
      reads ''cb_tag'' (j_string J) (\<lambda>x s. s\<lparr>gc_cb_tag := x\<rparr>),
      reads ''allow_synth_coinbase'' (j_bool J) (\<lambda>x s. s\<lparr>gc_allow_synth_coinbase := x\<rparr>),
      reads ''payout_script_hex'' (j_string J) (\<lambda>x s. s\<lparr>gc_payout_script_hex := x\<rparr>)]"

definition policy_fields :: "'j json_lib \<Rightarrow> ('j, PolicyCfg) reader list" where
  "policy_fields J =
     [reads ''force_clean_jobs'' (j_bool J) (\<lambda>x s. s\<lparr>po_force_clean_jobs := x\<rparr>),
      reads ''clean_jobs_default'' (j_bool J) (\<lambda>x s. s\<lparr>po_clean_jobs_default := x\<rparr>),
      hex_reader J ''version_mask'' (\<lambda>x s. s\<lparr>po_version_mask := Some x\<rparr>),
      hex_reader J ''ntime_min'' (\<lambda>x s. s\<lparr>po_ntime_min := Some x\<rparr>),
      hex_reader J ''ntime_max'' (\<lambda>x s. s\<lparr>po_ntime_max := Some x\<rparr>),
      hex_reader J ''share_nbits'' (\<lambda>x s. s\<lparr>po_share_nbits := Some x\<rparr>)]"

definition parseCredMode :: "string \<Rightarrow> CredMode" where
  "parseCredMode s = (if s = ''account_worker'' then AccountWorker else WalletAsUser)"

definition pool_fields :: "'j json_lib \<Rightarrow> ('j, PoolEntry) reader list" where
  "pool_fields J =
     [reads ''name'' (j_string J) (\<lambda>x e. e\<lparr>pe_name := x\<rparr>),
      reads ''profile'' (j_string J) (\<lambda>x e. e\<lparr>pe_profile := x\<rparr>),
      reads ''cred_mode'' (j_string J) (\<lambda>x e. e\<lparr>pe_cred_mode := parseCredMode x\<rparr>),
      reads ''weight'' (j_int J) (\<lambda>x e. e\<lparr>pe_weight := x\<rparr>),
      reads ''wallet'' (j_string J) (\<lambda>x e. e\<lparr>pe_wallet := x\<rparr>),
      reads ''account'' (j_string J) (\<lambda>x e. e\<lparr>pe_account := x\<rparr>),
      reads ''worker'' (j_string J) (\<lambda>x e. e\<lparr>pe_worker := x\<rparr>),
      reads ''password'' (j_string J) (\<lambda>x e. e\<lparr>pe_password := x\<rparr>),
      list_reader J ''endpoints'' (\<lambda>v. read_fields J v (endpoint_fields J) default_endpoint)
        (\<lambda>xs e. e\<lparr>pe_endpoints := pe_endpoints e @ xs\<rparr>),
      section_reader J ''rpc'' (\<lambda>e. default_rpc) (\<lambda>x e. e\<lparr>pe_rpc := Some x\<rparr>) (rpc_fields J),
      section_reader J ''gbt'' (\<lambda>e. default_gbt) (\<lambda>x e. e\<lparr>pe_gbt := Some x\<rparr>) (gbt_fields J),
      section_reader J ''policy'' pe_policy (\<lambda>x e. e\<lparr>pe_policy := x\<rparr>) (policy_fields J)]"

definition config_fields :: "'j json_lib \<Rightarrow> ('j, AppConfig) reader list" where
  "config_fields J =
     [reads ''log_level'' (j_int J) (\<lambda>x c. c\<lparr>ac_log_level := x\<rparr>),
      section_reader J ''scheduler'' ac_scheduler (\<lambda>x c. c\<lparr>ac_scheduler := x\<rparr>) (scheduler_fields J),
      section_reader J ''metrics'' ac_metrics (\<lambda>x c. c\<lparr>ac_metrics := x\<rparr>) (metrics_fields J),
      section_reader J ''cuda'' ac_cuda (\<lambda>x c. c\<lparr>ac_cuda := x\<rparr>) (cuda_fields J),
      section_reader J ''tls'' ac_tls (\<lambda>x c. c\<lparr>ac_tls := x\<rparr>) (tls_fields J),
      section_reader J ''outbox'' ac_outbox (\<lambda>x c. c\<lparr>ac_outbox := x\<rparr>) (outbox_fields J),
      section_reader J ''ledger'' ac_ledger (\<lambda>x c. c\<lparr>ac_ledger := x\<rparr>) (ledger_fields J),
      list_reader J ''pools'' (\<lambda>v. read_fields J v (pool_fields J) default_pool)
        (\<lambda>xs c. c\<lparr>ac_pools := ac_pools c @ xs\<rparr>)]"

text \<open>\<open>file\<close> is the document in the file: \<open>None\<close> when it cannot be opened or parsed.\<close>

definition loadFromJsonFile :: "'j json_lib \<Rightarrow> 'j option \<Rightarrow> AppConfig result" where
  "loadFromJsonFile J file =
     (case file of
        None \<Rightarrow> Inr default_config
      | Some j \<Rightarrow> read_fields J j (config_fields J) default_config)"

definition loadDefault :: AppConfig where
  "loadDefault =
     (let cfg = default_config; e = default_pool;
          e = e\<lparr>pe_name := ''dummy'', pe_profile := ''generic'', pe_cred_mode := WalletAsUser,
                pe_wallet := ''bc1qexample'', pe_worker := ''w'', pe_password := ''x''\<rparr>;
          ep = default_endpoint\<lparr>ep_host := ''localhost'', ep_port := 3333, ep_use_tls := False\<rparr>;
          e = e\<lparr>pe_endpoints := pe_endpoints e @ [ep]\<rparr>
      in cfg\<lparr>ac_pools := ac_pools cfg @ [e]\<rparr>)"

section \<open>Writing a configuration\<close>

text \<open>The document that says the same as a configuration, with every member written out.\<close>

definition word_text :: "u32 \<Rightarrow> string" where
  "word_text w = bytesToHex (word_be_bytes w)"

definition jint :: "'a::len word \<Rightarrow> json" where
  "jint w = JInt (uint w)"

definition jlist :: "('a \<Rightarrow> json) \<Rightarrow> 'a list \<Rightarrow> json" where
  "jlist f xs = JArray (map f xs)"

definition optional_member :: "string \<Rightarrow> ('a \<Rightarrow> json) \<Rightarrow> 'a option \<Rightarrow> (string \<times> json) list" where
  "optional_member name f x = (case x of None \<Rightarrow> [] | Some v \<Rightarrow> [(name, f v)])"

definition write_scheduler :: "SchedulerCfg \<Rightarrow> json" where
  "write_scheduler s = JObject [(''latency_penalty_ms'', jint (sc_latency_penalty_ms s)), (''max_weight'', jint (sc_max_weight s))]"

definition write_metrics :: "MetricsCfg \<Rightarrow> json" where
  "write_metrics s = JObject [(''enable_file'', JBool (mc_enable_file s)), (''file_path'', JString (mc_file_path s)),
     (''dump_interval_ms'', jint (mc_dump_interval_ms s)), (''enable_http'', JBool (mc_enable_http s)),
     (''http_host'', JString (mc_http_host s)), (''http_port'', jint (mc_http_port s)),
     (''file_max_bytes'', jint (mc_file_max_bytes s)), (''file_rotate_interval_sec'', jint (mc_file_rotate_interval_sec s))]"

definition write_cuda :: "CudaCfg \<Rightarrow> json" where
  "write_cuda s = JObject [(''hit_ring_capacity'', jint (cc_hit_ring_capacity s)),
     (''desired_threads_per_job'', jint (cc_desired_threads_per_job s)),
     (''nonces_per_thread'', jint (cc_nonces_per_thread s)), (''budget_ms'', jint (cc_budget_ms s))]"

definition write_tls :: "TlsCfg \<Rightarrow> json" where
  "write_tls s = JObject [(''verify'', JBool (tc_verify s)), (''ca_file'', JString (tc_ca_file s)),
     (''use_schannel'', JBool (tc_use_schannel s))]"

definition write_outbox :: "OutboxCfg \<Rightarrow> json" where
  "write_outbox s = JObject [(''path'', JString (oc_path s)), (''max_bytes'', jint (oc_max_bytes s)),
     (''rotate_on_start'', JBool (oc_rotate_on_start s)), (''rotate_interval_sec'', jint (oc_rotate_interval_sec s))]"

definition write_ledger :: "LedgerCfg \<Rightarrow> json" where
  "write_ledger s = JObject [(''path'', JString (lc_path s)), (''max_bytes'', jint (lc_max_bytes s)),
     (''rotate_interval_sec'', jint (lc_rotate_interval_sec s))]"

definition write_endpoint :: "Endpoint \<Rightarrow> json" where
  "write_endpoint s = JObject [(''host'', JString (ep_host s)), (''port'', jint (ep_port s)), (''use_tls'', JBool (ep_use_tls s))]"

definition write_rpc :: "RpcConfig \<Rightarrow> json" where
  "write_rpc s = JObject [(''url'', JString (rc_url s)), (''use_tls'', JBool (rc_use_tls s)), (''auth'', JString (rc_auth s)),
     (''username'', JString (rc_username s)), (''password'', JString (rc_password s)), (''cookie_path'', JString (rc_cookie_path s))]"

definition write_gbt :: "GbtConfig \<Rightarrow> json" where
  "write_gbt s = JObject [(''poll_ms'', jint (gc_poll_ms s)), (''rules'', jlist JString (gc_rules s)),
     (''cb_tag'', JString (gc_cb_tag s)), (''allow_synth_coinbase'', JBool (gc_allow_synth_coinbase s)),
     (''payout_script_hex'', JString (gc_payout_script_hex s))]"

definition write_policy :: "PolicyCfg \<Rightarrow> json" where
  "write_policy s = JObject ([(''force_clean_jobs'', JBool (po_force_clean_jobs s)),
     (''clean_jobs_default'', JBool (po_clean_jobs_default s))] @
     optional_member ''version_mask'' (\<lambda>w. JString (word_text w)) (po_version_mask s) @
     optional_member ''ntime_min'' (\<lambda>w. JString (word_text w)) (po_ntime_min s) @
     optional_member ''ntime_max'' (\<lambda>w. JString (word_text w)) (po_ntime_max s) @
     optional_member ''share_nbits'' (\<lambda>w. JString (word_text w)) (po_share_nbits s))"

definition cred_text :: "CredMode \<Rightarrow> string" where
  "cred_text m = (case m of AccountWorker \<Rightarrow> ''account_worker'' | WalletAsUser \<Rightarrow> ''wallet_as_user'')"

definition write_pool :: "PoolEntry \<Rightarrow> json" where
  "write_pool e = JObject ([(''name'', JString (pe_name e)), (''profile'', JString (pe_profile e)),
     (''cred_mode'', JString (cred_text (pe_cred_mode e))), (''weight'', jint (pe_weight e)),
     (''wallet'', JString (pe_wallet e)), (''account'', JString (pe_account e)), (''worker'', JString (pe_worker e)),
     (''password'', JString (pe_password e)), (''endpoints'', jlist write_endpoint (pe_endpoints e)),
     (''policy'', write_policy (pe_policy e))] @
     optional_member ''rpc'' write_rpc (pe_rpc e) @ optional_member ''gbt'' write_gbt (pe_gbt e))"

definition write_config :: "AppConfig \<Rightarrow> json" where
  "write_config c = JObject [(''log_level'', jint (ac_log_level c)), (''scheduler'', write_scheduler (ac_scheduler c)),
     (''metrics'', write_metrics (ac_metrics c)), (''cuda'', write_cuda (ac_cuda c)), (''tls'', write_tls (ac_tls c)),
     (''outbox'', write_outbox (ac_outbox c)), (''ledger'', write_ledger (ac_ledger c)),
     (''pools'', jlist write_pool (ac_pools c))]"

section \<open>Lemmas\<close>

lemma json_model_ops [simp]:
  "j_contains json_model = json_contains" "j_field json_model = json_field" "j_elements json_model = json_elements"
  "j_string json_model = json_string" "j_bool json_model = json_bool"
  "j_is_array json_model (JArray vs) = True" "j_is_object json_model (JObject fs) = True"
  "j_int json_model (JInt n) = Some (of_int n)" "j_int64 json_model (JInt n) = Some (of_int n)"
  by (simp_all add: json_model_def)

lemma jint_u32: "j_int json_model (jint (w :: u32)) = Some w" "j_int64 json_model (jint (v :: u64)) = Some v"
  by (simp_all add: jint_def)

lemma jint_u16: "j_int json_model (jint w) = Some (ucast w)" "ucast (ucast w :: u32) = w" for w :: u16
  by (simp add: jint_def) (rule ucast_up_ucast_id, simp add: is_up)

lemma read_list_map: "(\<And>x. rd (f x) = Inr x) \<Longrightarrow> read_list rd (map f xs) = Inr xs"
  by (induction xs) simp_all

lemma hex_value_of_byte:
  "hex_byte b = [c, d] \<Longrightarrow> \<exists>x y. hex_value c = Some x \<and> hex_value d = Some y \<and> 16 * x + y = unat b"
proof -
  assume cd: "hex_byte b = [c, d]"
  have "unhex [c, d] = Some [b]" using unhex_hex_byte [of b] cd by simp
  then obtain x y where xy: "hex_value c = Some x" "hex_value d = Some y" "of_nat (16 * x + y) = b"
    by (auto split: option.splits)
  have "x < 16" "y < 16" using xy(1,2) by (auto simp: hex_value_def Let_def split: if_splits)
  then have "unat (of_nat (16 * x + y) :: u8) = 16 * x + y" using unat_of_nat [where 'a = 8, of "16 * x + y"] by simp
  then show ?thesis using xy by auto
qed

lemma hex_digits_text: "\<forall>d \<in> set (bytesToHex bs). hex_value d \<noteq> None"
proof (induction bs)
  case (Cons b bs)
  obtain c d where cd: "hex_byte b = [c, d]" by (simp add: hex_byte_def)
  then show ?case using Cons hex_value_of_byte [OF cd] by (auto simp: bytesToHex_def)
qed (simp add: bytesToHex_def)

lemma foldl_hex_number:
  "foldl (\<lambda>n d. 16 * n + the (hex_value d)) a (bytesToHex bs) = foldl (\<lambda>acc b. acc * 256 + unat b) a bs"
proof (induction bs arbitrary: a)
  case (Cons b bs)
  obtain c d where cd: "hex_byte b = [c, d]" by (simp add: hex_byte_def)
  obtain x y where xy: "hex_value c = Some x" "hex_value d = Some y" "16 * x + y = unat b"
    using hex_value_of_byte [OF cd] by blast
  have "16 * (16 * a + x) + y = a * 256 + unat b" using xy(3) by simp
  with Cons [of "a * 256 + unat b"] show ?case
    by (simp only: bytesToHex_def list.map concat.simps cd append_Cons append_Nil foldl.simps xy(1,2) option.sel)
qed (simp add: bytesToHex_def)

lemma skip_0x_hex: "skip_0x (bytesToHex bs) = bytesToHex bs"
proof -
  have "hex_value (CHR ''x'') = None" "hex_value (CHR ''X'') = None" by (simp_all add: hex_value_def)
  then have "CHR ''x'' \<notin> set (bytesToHex bs)" "CHR ''X'' \<notin> set (bytesToHex bs)" using hex_digits_text [of bs] by auto
  then show ?thesis by (auto simp: skip_0x_def split: list.split)
qed

lemma stoul16_hex:
  assumes "bs \<noteq> []" and "be_nat bs < 2 ^ 64"
  shows "stoul16 (bytesToHex bs) = Some (of_nat (be_nat bs))"
proof -
  obtain c s where cs: "bytesToHex bs = c # s" using assms(1) by (cases bs) (simp_all add: bytesToHex_def hex_byte_def)
  then have c: "\<not> is_space c" "c \<noteq> CHR ''-''" "c \<noteq> CHR ''+''"
    using hex_digits_text [of bs] hex_value_plain [of c] by auto
  then have "split_sign (dropWhile is_space (bytesToHex bs)) = (False, bytesToHex bs)"
    by (simp add: cs split_sign_def)
  moreover have "takeWhile (\<lambda>d. hex_value d \<noteq> None) (bytesToHex bs) = bytesToHex bs"
    using hex_digits_text [of bs] by (simp add: takeWhile_eq_all_conv)
  moreover have "hex_number (bytesToHex bs) = be_nat bs"
    by (simp add: hex_number_def foldl_hex_number be_nat_def)
  ultimately have "stoul16 (bytesToHex bs) = (if bytesToHex bs = [] \<or> 2 ^ 64 \<le> be_nat bs then None else Some (of_nat (be_nat bs)))"
    by (simp only: stoul16_def prod.case skip_0x_hex Let_def if_False)
  then show ?thesis using assms(2) cs by simp
qed

lemma be_nat_word: "be_nat (word_be_bytes w) = unat w"
proof -
  define n where "n = unat w"
  have "n < 2 ^ 32" using unsigned_less [of w] by (simp add: n_def)
  then have top: "n div 2 ^ 24 mod 256 = n div 2 ^ 24" by (simp add: less_mult_imp_div_less)
  have "n = ((n div 2 ^ 24 * 256 + n div 2 ^ 16 mod 256) * 256 + n div 2 ^ 8 mod 256) * 256 + n mod 256"
  proof -
    have "n div 2 ^ 24 * 256 + n div 2 ^ 16 mod 256 = n div 2 ^ 16"
      using div_mult_mod_eq [of "n div 2 ^ 16" 256] by (simp add: div_mult2_eq [symmetric])
    moreover have "n div 2 ^ 16 * 256 + n div 2 ^ 8 mod 256 = n div 2 ^ 8"
      using div_mult_mod_eq [of "n div 2 ^ 8" 256] by (simp add: div_mult2_eq [symmetric])
    moreover have "n div 2 ^ 8 * 256 + n mod 256 = n" using div_mult_mod_eq [of n 256] by simp
    ultimately show ?thesis by presburger
  qed
  then have "((n div 2 ^ 24 mod 256 * 256 + n div 2 ^ 16 mod 256) * 256 + n div 2 ^ 8 mod 256) * 256 + n mod 256 = n"
    unfolding top by (rule sym)
  then show ?thesis
    by (simp only: word_be_bytes_def be_nat_def foldl.simps unat_byte_at n_def [symmetric] mult_zero_left add_0 power_0 div_by_1)
qed

lemma stoul16_word_text: "stoul16 (word_text w) = Some (ucast w)" "ucast (ucast w :: u64) = w"
proof -
  have "stoul16 (word_text w) = Some (of_nat (be_nat (word_be_bytes w)))"
    unfolding word_text_def
    using be_nat_bound [of "word_be_bytes w"] by (intro stoul16_hex) (auto simp: word_be_bytes_def)
  then show "stoul16 (word_text w) = Some (ucast w)" by (simp add: be_nat_word)
  show "ucast (ucast w :: u64) = w" by (rule ucast_up_ucast_id) (simp add: is_up)
qed

section \<open>Reading what was written\<close>

lemma read_scheduler: "read_fields json_model (write_scheduler s) (scheduler_fields json_model) t = Inr s"
  by (simp add: write_scheduler_def scheduler_fields_def reads_def jint_u32)

lemma read_metrics: "read_fields json_model (write_metrics s) (metrics_fields json_model) t = Inr s"
  by (simp add: write_metrics_def metrics_fields_def reads_def jint_u32 jint_u16)

lemma read_cuda: "read_fields json_model (write_cuda s) (cuda_fields json_model) t = Inr s"
  by (simp add: write_cuda_def cuda_fields_def reads_def jint_u32)

lemma read_tls: "read_fields json_model (write_tls s) (tls_fields json_model) t = Inr s"
  by (simp add: write_tls_def tls_fields_def reads_def)

lemma read_outbox: "read_fields json_model (write_outbox s) (outbox_fields json_model) t = Inr s"
  by (simp add: write_outbox_def outbox_fields_def reads_def jint_u32)

lemma read_ledger: "read_fields json_model (write_ledger s) (ledger_fields json_model) t = Inr s"
  by (simp add: write_ledger_def ledger_fields_def reads_def jint_u32)

lemma read_endpoint: "read_fields json_model (write_endpoint s) (endpoint_fields json_model) t = Inr s"
  by (simp add: write_endpoint_def endpoint_fields_def reads_def jint_u16)

lemma read_rpc: "read_fields json_model (write_rpc s) (rpc_fields json_model) t = Inr s"
  by (simp add: write_rpc_def rpc_fields_def reads_def)

lemma read_rules: "read_list (read_rule json_model) (map JString xs) = Inr xs"
  by (rule read_list_map) (simp add: read_rule_def)

lemma read_gbt: "read_fields json_model (write_gbt s) (gbt_fields json_model) default_gbt = Inr s"
  by (simp add: write_gbt_def gbt_fields_def reads_def jint_u32 list_reader_def jlist_def read_rules default_gbt_def)

lemma read_policy: "read_fields json_model (write_policy s) (policy_fields json_model) default_policy = Inr s"
  by (cases "po_version_mask s"; cases "po_ntime_min s"; cases "po_ntime_max s"; cases "po_share_nbits s")
    (simp_all add: write_policy_def policy_fields_def reads_def hex_reader_def optional_member_def default_policy_def
      stoul16_word_text)

lemma parse_cred_text: "parseCredMode (cred_text m) = m"
  by (cases m) (simp_all add: parseCredMode_def cred_text_def)

lemma objects [simp]:
  "j_is_object json_model (write_scheduler s1)" "j_is_object json_model (write_metrics s2)"
  "j_is_object json_model (write_cuda s3)" "j_is_object json_model (write_tls s4)"
  "j_is_object json_model (write_outbox s5)" "j_is_object json_model (write_ledger s6)"
  "j_is_object json_model (write_rpc s7)" "j_is_object json_model (write_gbt s8)"
  "j_is_object json_model (write_policy s9)"
  by (simp_all add: write_scheduler_def write_metrics_def write_cuda_def write_tls_def write_outbox_def
      write_ledger_def write_rpc_def write_gbt_def write_policy_def)

lemma read_endpoints:
  "read_list (\<lambda>v. read_fields json_model v (endpoint_fields json_model) default_endpoint) (map write_endpoint xs) = Inr xs"
  by (rule read_list_map) (rule read_endpoint)

lemma read_pool: "read_fields json_model (write_pool e) (pool_fields json_model) default_pool = Inr e"
  by (cases "pe_rpc e"; cases "pe_gbt e")
    (simp_all add: write_pool_def pool_fields_def reads_def section_reader_def list_reader_def jlist_def jint_u32
      optional_member_def default_pool_def parse_cred_text read_endpoints read_rpc read_gbt read_policy)

lemma read_pools:
  "read_list (\<lambda>v. read_fields json_model v (pool_fields json_model) default_pool) (map write_pool xs) = Inr xs"
  by (rule read_list_map) (rule read_pool)

section \<open>Properties\<close>

text \<open>C27: the loader reads every member into its place. For every configuration, loading the document that
  writes out all its members gives the configuration back; a file that cannot be opened or parsed gives
  the defaults; a document that is not an object gives the defaults too.\<close>

theorem config_roundtrip:
  "loadFromJsonFile json_model (Some (write_config cfg)) = Inr cfg \<and>
   loadFromJsonFile J None = Inr default_config \<and>
   loadFromJsonFile json_model (Some (JArray vs)) = Inr default_config"
proof (intro conjI)
  show "loadFromJsonFile json_model (Some (write_config cfg)) = Inr cfg"
    by (simp add: loadFromJsonFile_def write_config_def config_fields_def reads_def section_reader_def list_reader_def
        jlist_def jint_u32 read_scheduler read_metrics read_cuda read_tls read_outbox read_ledger read_pools default_config_def)
  show "loadFromJsonFile json_model (Some (JArray vs)) = Inr default_config"
    by (simp add: loadFromJsonFile_def config_fields_def reads_def section_reader_def list_reader_def)
qed (simp add: loadFromJsonFile_def)

text \<open>A member of the wrong type ends the program. It throws out of the loader, which nothing in the
  caller catches; only the four hexadecimal members of the policy are read with their exceptions caught,
  and leave the default.\<close>

theorem config_type_errors:
  "loadFromJsonFile json_model (Some (JObject [(''log_level'', JString s)])) = Inl (Invalid_argument ''log_level'') \<and>
   loadFromJsonFile json_model (Some (JObject [(''outbox'', JObject [(''path'', JNull)])])) = Inl (Invalid_argument ''path'') \<and>
   loadFromJsonFile json_model (Some (JObject [(''outbox'', JString s)])) = Inr default_config \<and>
   read_fields json_model (JObject [(''share_nbits'', JNull)]) (policy_fields json_model) default_policy = Inr default_policy"
  by (simp add: loadFromJsonFile_def config_fields_def reads_def section_reader_def list_reader_def outbox_fields_def
      policy_fields_def hex_reader_def json_model_def default_config_def)

end
