(* ===== verification/Coinbase_Text.thy ===== *)
theory Coinbase_Text
  imports Hex_Codec
begin

text \<open>
  The texts \<^verbatim>\<open>src/submit/gbt_submitter.cc\<close> produces: the subsidy of a height, variable-length integers,
  the height push of BIP 34, the header, the two kinds of coinbase transaction the miner builds itself.

  The second half says what these texts mean: a parser of serialised transactions, independent of the
  builders, and what it reads from what they write.
\<close>

section \<open>The program\<close>

definition computeBlockSubsidy :: "u32 \<Rightarrow> u64" where
  "computeBlockSubsidy height =
     (let COIN = 100000000; subsidy = 50 * COIN; halvings = height div 210000
      in if halvings \<ge> 64 then 0 else drop_bit (unat halvings) subsidy)"

text \<open>\<^verbatim>\<open>emitLE(vv, bytes)\<close>\<close>

definition emitLE :: "u64 \<Rightarrow> nat \<Rightarrow> string" where
  "emitLE vv n = concat (map (\<lambda>i. hex_byte (ucast (drop_bit (8 * i) vv AND 0xFF))) [0..<n])"

definition encodeVarIntHex :: "u64 \<Rightarrow> string" where
  "encodeVarIntHex v =
     (if v < 0xfd then emitLE v 1
      else if v \<le> 0xffff then ''fd'' @ emitLE v 2
      else if v \<le> 0xffffffff then ''fe'' @ emitLE v 4
      else ''ff'' @ emitLE v 8)"

definition leHexFromHeaderBE :: "u8 list \<Rightarrow> string" where
  "leHexFromHeaderBE header80_be = concat (map (\<lambda>i. hex_byte (header80_be ! i)) [0..<80])"

text \<open>The bytes of the height, least significant first, without leading zero bytes.\<close>

function height_loop :: "u32 \<Rightarrow> u8 list" where
  "height_loop height =
     (if height \<noteq> 0 then ucast (height AND 0xFF) # height_loop (drop_bit 8 height) else [])"
  by pat_completeness auto
termination
proof (relation "measure unat")
  fix h :: u32 assume "h \<noteq> 0"
  then have "0 < unat h" by (simp add: unat_gt_0)
  then show "(drop_bit 8 h, h) \<in> measure unat" by (simp add: unat_drop_bit_div)
qed simp

declare height_loop.simps [simp del]

definition height_bytes :: "u32 \<Rightarrow> u8 list" where
  "height_bytes height = (let le = height_loop height in if le = [] then [0] else le)"

text \<open>\<^verbatim>\<open>std::hex\<close> with \<^verbatim>\<open>std::setw(2)\<close> and \<^verbatim>\<open>std::setfill('0')\<close> for a non-negative \<^verbatim>\<open>int\<close>.\<close>

fun hex_digits :: "nat \<Rightarrow> string" where
  "hex_digits n = (if n < 16 then [kHex ! n] else hex_digits (n div 16) @ [kHex ! (n mod 16)])"

declare hex_digits.simps [simp del]

definition setw2_hex :: "nat \<Rightarrow> string" where
  "setw2_hex n = (let s = hex_digits n in replicate (2 - length s) (CHR ''0'') @ s)"

definition encodeBip34Height :: "u32 \<Rightarrow> string" where
  "encodeBip34Height height =
     (let le = height_bytes height
      in setw2_hex (length le) @ concat (map (\<lambda>b. setw2_hex (unat b)) le))"

definition size_of :: "string \<Rightarrow> u64" where
  "size_of s = of_nat (length s div 2)"

definition buildMinimalWitnessCommitmentCoinbase :: "u32 \<Rightarrow> string \<Rightarrow> string option" where
  "buildMinimalWitnessCommitmentCoinbase height_le commitment32_hex =
     (if length commitment32_hex \<noteq> 64 then None
      else let h = encodeBip34Height height_le;
               spk = ''6a'' @ ''26'' @ ''aa21a9ed'' @ commitment32_hex
           in Some (''01000000'' @ encodeVarIntHex 1 @ concat (replicate 32 ''00'') @ ''ffffffff'' @
                encodeVarIntHex (size_of h) @ h @ ''ffffffff'' @
                encodeVarIntHex 1 @ ''0000000000000000'' @ encodeVarIntHex (size_of spk) @ spk @ ''00000000''))"

definition buildCoinbaseTx :: "u32 \<Rightarrow> string \<Rightarrow> u64 \<Rightarrow> string \<Rightarrow> string \<Rightarrow> string option" where
  "buildCoinbaseTx height_le payout_script_hex value_sat commitment32_hex extra_sig_push_hex =
     (if length commitment32_hex \<noteq> 64 then None
      else let h = encodeBip34Height height_le;
               sig = (if extra_sig_push_hex \<noteq> []
                      then h @ setw2_hex (length extra_sig_push_hex div 2) @ extra_sig_push_hex else h);
               value_hex = concat (map (\<lambda>i. setw2_hex (unat (drop_bit (8 * i) value_sat AND 0xFF))) [0..<8]);
               spk = ''6a'' @ ''24'' @ ''aa21a9ed'' @ commitment32_hex
           in Some (''01000000'' @ encodeVarIntHex 1 @ concat (replicate 32 ''00'') @ ''ffffffff'' @
                encodeVarIntHex (size_of sig) @ sig @ ''ffffffff'' @
                encodeVarIntHex 2 @ value_hex @ encodeVarIntHex (size_of payout_script_hex) @ payout_script_hex @
                ''0000000000000000'' @ encodeVarIntHex (size_of spk) @ spk @ ''00000000''))"

section \<open>What the texts mean\<close>

text \<open>A parser of serialised transactions of one kind (a coinbase without witness): little-endian
  numbers, variable-length integers, length-prefixed scripts. Every parser returns the rest.\<close>

definition take_bytes :: "nat \<Rightarrow> u8 list \<Rightarrow> (u8 list \<times> u8 list) option" where
  "take_bytes n bs = (if n \<le> length bs then Some (take n bs, drop n bs) else None)"

definition parse_le :: "nat \<Rightarrow> u8 list \<Rightarrow> (nat \<times> u8 list) option" where
  "parse_le n bs = map_option (\<lambda>(a, r). (le_nat a, r)) (take_bytes n bs)"

definition parse_varint :: "u8 list \<Rightarrow> (nat \<times> u8 list) option" where
  "parse_varint bs =
     (case bs of [] \<Rightarrow> None
      | b # r \<Rightarrow> if b = 0xfd then parse_le 2 r
                 else if b = 0xfe then parse_le 4 r
                 else if b = 0xff then parse_le 8 r else Some (unat b, r))"

definition parse_script :: "u8 list \<Rightarrow> (u8 list \<times> u8 list) option" where
  "parse_script bs = (case parse_varint bs of None \<Rightarrow> None | Some (n, r) \<Rightarrow> take_bytes n r)"

record TxOut =
  txo_value :: nat
  txo_script :: "u8 list"

fun parse_outputs :: "nat \<Rightarrow> u8 list \<Rightarrow> (TxOut list \<times> u8 list) option" where
  "parse_outputs 0 bs = Some ([], bs)"
| "parse_outputs (Suc n) bs =
     (case parse_le 8 bs of None \<Rightarrow> None
      | Some (v, r) \<Rightarrow> (case parse_script r of None \<Rightarrow> None
         | Some (s, r) \<Rightarrow> map_option (\<lambda>(os, r). (\<lparr>txo_value = v, txo_script = s\<rparr> # os, r)) (parse_outputs n r)))"

record Coinbase =
  tx_version :: nat
  tx_prev_hash :: "u8 list"
  tx_prev_index :: nat
  tx_script_sig :: "u8 list"
  tx_sequence :: nat
  tx_outputs :: "TxOut list"
  tx_locktime :: nat

definition parse_coinbase :: "u8 list \<Rightarrow> Coinbase option" where
  "parse_coinbase bs =
     (case parse_le 4 bs of None \<Rightarrow> None | Some (v, r) \<Rightarrow>
      (case parse_varint r of None \<Rightarrow> None | Some (inputs, r) \<Rightarrow> if inputs \<noteq> 1 then None else
      (case take_bytes 32 r of None \<Rightarrow> None | Some (ph, r) \<Rightarrow>
      (case parse_le 4 r of None \<Rightarrow> None | Some (pidx, r) \<Rightarrow>
      (case parse_script r of None \<Rightarrow> None | Some (sig, r) \<Rightarrow>
      (case parse_le 4 r of None \<Rightarrow> None | Some (sq, r) \<Rightarrow>
      (case parse_varint r of None \<Rightarrow> None | Some (n, r) \<Rightarrow>
      (case parse_outputs n r of None \<Rightarrow> None | Some (os, r) \<Rightarrow>
      (case parse_le 4 r of None \<Rightarrow> None | Some (lt, r) \<Rightarrow> if r \<noteq> [] then None else
       Some \<lparr>tx_version = v, tx_prev_hash = ph, tx_prev_index = pidx, tx_script_sig = sig, tx_sequence = sq,
         tx_outputs = os, tx_locktime = lt\<rparr>)))))))))"

text \<open>The data push at the head of a script (lengths up to 75).\<close>

definition script_push :: "u8 list \<Rightarrow> (u8 list \<times> u8 list) option" where
  "script_push s = (case s of [] \<Rightarrow> None | n # r \<Rightarrow> if n \<le> 75 then take_bytes (unat n) r else None)"

definition varint_bytes :: "u64 \<Rightarrow> u8 list" where
  "varint_bytes v =
     (if v < 0xfd then le_bytes 1 v
      else if v \<le> 0xffff then 0xfd # le_bytes 2 v
      else if v \<le> 0xffffffff then 0xfe # le_bytes 4 v
      else 0xff # le_bytes 8 v)"

subsection \<open>Texts as bytes\<close>

named_theorems unhex_rules "what a text decodes to"

lemma emitLE_eq: "emitLE v n = bytesToHex (le_bytes n v)"
  by (simp add: emitLE_def bytesToHex_def le_bytes_def comp_def)

lemma unhex_literals [unhex_rules]:
  "unhex ''fd'' = Some [0xfd]" "unhex ''fe'' = Some [0xfe]" "unhex ''ff'' = Some [0xff]"
  "unhex ''01000000'' = Some [1, 0, 0, 0]" "unhex ''ffffffff'' = Some [0xff, 0xff, 0xff, 0xff]"
  "unhex ''00000000'' = Some [0, 0, 0, 0]" "unhex ''0000000000000000'' = Some [0, 0, 0, 0, 0, 0, 0, 0]"
  "unhex ''6a'' = Some [0x6a]" "unhex ''26'' = Some [0x26]" "unhex ''24'' = Some [0x24]"
  "unhex ''aa21a9ed'' = Some [0xaa, 0x21, 0xa9, 0xed]"
  by code_simp+

lemma unhex_zeros [unhex_rules]: "unhex (concat (replicate 32 ''00'')) = Some (replicate 32 0)"
  by code_simp

lemma hex_value_letters: "hex_value CHR ''d'' = Some 13" "hex_value CHR ''e'' = Some 14" "hex_value CHR ''f'' = Some 15"
  by code_simp+

lemma unhex_varint [unhex_rules]: "unhex (encodeVarIntHex v) = Some (varint_bytes v)"
  by (auto simp: hex_value_letters encodeVarIntHex_def varint_bytes_def emitLE_eq unhex_append unhex_rules)

lemma setw2_hex_byte: "n < 256 \<Longrightarrow> setw2_hex n = hex_byte (of_nat n)"
proof -
  have "list_all (\<lambda>n. setw2_hex n = hex_byte (of_nat n)) [0..<256]" by code_simp
  then show "n < 256 \<Longrightarrow> ?thesis" by (simp add: list_all_iff)
qed

lemma setw2_hex_unat [simp]: "setw2_hex (unat b) = hex_byte b" for b :: u8
  by (simp add: setw2_hex_byte)

lemma unhex_setw2 [unhex_rules]: "n < 256 \<Longrightarrow> unhex (setw2_hex n) = Some [of_nat n]"
  by (simp add: setw2_hex_byte)

lemma unhex_bytes [unhex_rules]: "unhex (concat (map (\<lambda>b. setw2_hex (unat b)) bs)) = Some bs" for bs :: "u8 list"
  using unhex_bytesToHex [of bs] by (simp add: bytesToHex_def)

lemma unhex_value [unhex_rules]:
  "unhex (concat (map (\<lambda>i. setw2_hex (unat (drop_bit (8 * i) v AND 0xFF))) [0..<8])) = Some (le_bytes 8 v)"
  for v :: u64
proof -
  have "setw2_hex (unat (drop_bit k v AND 0xFF)) = hex_byte (ucast (drop_bit k v AND 0xFF))" for k
  proof -
    have "(0xFF :: u64) = mask 8" by (simp add: mask_numeral)
    then have "drop_bit k v AND 0xFF = take_bit 8 (drop_bit k v)" by (simp only: take_bit_eq_mask)
    then have "unat (drop_bit k v AND 0xFF) = take_bit 8 (unat (drop_bit k v))" by (simp only: unsigned_take_bit_eq)
    then have "unat (drop_bit k v AND 0xFF) = unat (ucast (drop_bit k v AND 0xFF) :: u8)"
      by (simp only: unat_drop_bit_div unat_byte_of_u64) (simp add: take_bit_eq_mod)
    then show ?thesis by (simp only: setw2_hex_unat)
  qed
  then show ?thesis using unhex_bytesToHex [of "le_bytes 8 v"] by (simp add: bytesToHex_def le_bytes_def comp_def)
qed

subsection \<open>Heights\<close>

lemma unat_low_byte: "unat (ucast (h AND 0xFF) :: u8) = unat h mod 256" for h :: u32
proof -
  have "(0xFF :: u32) = mask 8" by (simp add: mask_numeral)
  then have "h AND 0xFF = take_bit 8 h" by (simp only: take_bit_eq_mask)
  then show ?thesis by (simp only: unsigned_ucast_eq unsigned_take_bit_eq) (simp add: take_bit_eq_mod)
qed

lemma le_nat_height_loop: "le_nat (height_loop h) = unat h"
proof (induction h rule: height_loop.induct)
  case (1 h)
  show ?case
  proof (cases "h = 0")
    case False
    then have "le_nat (height_loop h) = unat h mod 256 + 256 * (unat h div 256)"
      using 1 by (simp add: height_loop.simps [of h] unat_low_byte unat_drop_bit_div del: unsigned_drop_bit_eq)
    then show ?thesis by simp
  qed (simp add: height_loop.simps)
qed

lemma length_height_loop: "unat h < 256 ^ n \<Longrightarrow> length (height_loop h) \<le> n"
proof (induction n arbitrary: h)
  case 0
  then have "h = 0" by (simp add: unat_eq_zero)
  then show ?case by (simp add: height_loop.simps)
next
  case (Suc n)
  have "unat (drop_bit 8 h) < 256 ^ n"
    using Suc.prems by (simp only: unat_drop_bit_div) (simp add: less_mult_imp_div_less mult.commute)
  from Suc.IH [OF this] show ?case by (cases "h = 0") (simp_all add: height_loop.simps [of h])
qed

lemma last_height_loop: "h \<noteq> 0 \<Longrightarrow> last (height_loop h) \<noteq> 0"
proof (induction h rule: height_loop.induct)
  case (1 h)
  show ?case
  proof (cases "drop_bit 8 h = 0")
    case True
    then have "unat h div 256 = 0" using unat_drop_bit_div [of 8 h] by simp
    then have "unat (ucast (h AND 0xFF) :: u8) = unat h" by (simp add: unat_low_byte)
    then have "(ucast (h AND 0xFF) :: u8) \<noteq> 0" using "1.prems" by (auto simp: unat_eq_zero [symmetric])
    moreover have "height_loop h = [ucast (h AND 0xFF)]"
      using "1.prems" by (simp only: height_loop.simps [of h] True height_loop.simps [of 0]) simp
    ultimately show ?thesis by simp
  next
    case False
    then have "height_loop (drop_bit 8 h) \<noteq> []" by (simp add: height_loop.simps)
    then show ?thesis using 1 False by (simp add: height_loop.simps [of h])
  qed
qed

lemma height_bytes_value: "le_nat (height_bytes h) = unat h"
  using le_nat_height_loop [of h] by (auto simp: height_bytes_def Let_def)

lemma length_height_bytes: "1 \<le> length (height_bytes h)" "length (height_bytes h) \<le> 4"
proof -
  have "unat h < 256 ^ 4" using unsigned_less [of h] by simp
  then have "length (height_loop h) \<le> 4" by (rule length_height_loop)
  then show "1 \<le> length (height_bytes h)" "length (height_bytes h) \<le> 4"
    by (auto simp: height_bytes_def Let_def Suc_le_eq)
qed

definition height_push :: "u32 \<Rightarrow> u8 list" where
  "height_push h = of_nat (length (height_bytes h)) # height_bytes h"

lemma unhex_height [unhex_rules]: "unhex (encodeBip34Height h) = Some (height_push h)"
proof -
  have "length (height_bytes h) < 256" using length_height_bytes [of h] by linarith
  then show ?thesis
    unfolding encodeBip34Height_def Let_def height_push_def
    using unhex_append_Some [OF unhex_setw2 unhex_bytes, of "length (height_bytes h)" "height_bytes h"] by simp
qed

subsection \<open>Parsing what was written\<close>

lemma take_bytes_append: "length a = n \<Longrightarrow> take_bytes n (a @ r) = Some (a, r)"
  by (simp add: take_bytes_def)

lemma parse_le_append: "length a = n \<Longrightarrow> parse_le n (a @ r) = Some (le_nat a, r)"
  by (simp add: parse_le_def take_bytes_append)

lemma parse_varint_bytes: "parse_varint (varint_bytes v @ r) = Some (unat v, r)"
proof -
  have v: "unat v < 2 ^ 64" using unsigned_less [of v] by simp
  consider "v < 0xfd" | "\<not> v < 0xfd" "v \<le> 0xffff" | "\<not> v \<le> 0xffff" "v \<le> 0xffffffff" "\<not> v < 0xfd"
    | "\<not> v \<le> 0xffffffff" "\<not> v \<le> 0xffff" "\<not> v < 0xfd"
    by fastforce
  then show ?thesis
  proof cases
    case 1
    then have lt: "unat v < 0xfd" by (simp add: word_less_nat_alt)
    obtain b where b: "le_bytes 1 v = [b]" by (simp add: le_bytes_def)
    then have "unat b = unat v" using le_nat_le_bytes [of 1 v] lt by simp
    moreover from this lt have "b \<noteq> 0xfd" "b \<noteq> 0xfe" "b \<noteq> 0xff" by auto
    ultimately show ?thesis using 1 b by (simp add: varint_bytes_def parse_varint_def)
  next
    case 2
    then have "unat v < 256 ^ 2" by (simp add: word_le_nat_alt)
    then show ?thesis using 2 by (simp add: varint_bytes_def parse_varint_def parse_le_append le_nat_le_bytes)
  next
    case 3
    then have "unat v < 256 ^ 4" by (simp add: word_le_nat_alt)
    then show ?thesis using 3 by (simp add: varint_bytes_def parse_varint_def parse_le_append le_nat_le_bytes)
  next
    case 4
    have "unat v < 256 ^ 8" using v by simp
    then show ?thesis using 4 by (simp add: varint_bytes_def parse_varint_def parse_le_append le_nat_le_bytes)
  qed
qed

lemma parse_script_append: "unat n = length s \<Longrightarrow> parse_script (varint_bytes n @ s @ r) = Some (s, r)"
  by (simp add: parse_script_def parse_varint_bytes take_bytes_append)

lemma unat_size_of: "unhex s = Some bs \<Longrightarrow> length bs < 2 ^ 64 \<Longrightarrow> unat (size_of s) = length bs"
  using unhex_length [of s bs] unat_of_nat [where 'a = 64, of "length bs"] by (simp add: size_of_def)

lemma parse_output_append:
  assumes "length v = 8" and "unat n = length s"
  shows "parse_outputs (Suc k) (v @ varint_bytes n @ s @ r) =
    map_option (\<lambda>(os, r). (\<lparr>txo_value = le_nat v, txo_script = s\<rparr> # os, r)) (parse_outputs k r)"
  using assms by (simp add: parse_le_append parse_script_append)

lemma parse_coinbase_bytes:
  assumes "unat n = length sig" and "parse_outputs (unat k) (outs @ [0, 0, 0, 0]) = Some (os, [0, 0, 0, 0])"
  shows "parse_coinbase ([1, 0, 0, 0] @ varint_bytes 1 @ replicate 32 0 @ [0xff, 0xff, 0xff, 0xff] @
      varint_bytes n @ sig @ [0xff, 0xff, 0xff, 0xff] @ varint_bytes k @ outs @ [0, 0, 0, 0]) =
    Some \<lparr>tx_version = 1, tx_prev_hash = replicate 32 0, tx_prev_index = 2 ^ 32 - 1, tx_script_sig = sig,
      tx_sequence = 2 ^ 32 - 1, tx_outputs = os, tx_locktime = 0\<rparr>"
proof -
  have le: "parse_le 4 ([1, 0, 0, 0] @ r) = Some (1, r)" "parse_le 4 [0, 0, 0, 0] = Some (0, [])"
    "parse_le 4 ([0xff, 0xff, 0xff, 0xff] @ r) = Some (2 ^ 32 - 1, r)" for r
    using parse_le_append [of "[0, 0, 0, 0]" 4 "[]"] parse_le_append [of "[1, 0, 0, 0]" 4 r]
      parse_le_append [of "[0xff, 0xff, 0xff, 0xff]" 4 r] by simp_all
  show ?thesis
    unfolding parse_coinbase_def
    by (simp only: le option.case prod.case parse_varint_bytes parse_script_append [OF assms(1)]
        take_bytes_append length_replicate assms(2) unsigned_1 simp_thms if_False if_True)
qed

text \<open>The script of the commitment output and its data push.\<close>

definition commitment_script :: "u8 \<Rightarrow> u8 list \<Rightarrow> u8 list" where
  "commitment_script n c = 0x6a # n # 0xaa # 0x21 # 0xa9 # 0xed # c"

lemma unhex_commitment [unhex_rules]:
  assumes "unhex commitment = Some c"
  shows "unhex (''6a'' @ ''26'' @ ''aa21a9ed'' @ commitment) = Some (commitment_script 0x26 c)"
    "unhex (''6a'' @ ''24'' @ ''aa21a9ed'' @ commitment) = Some (commitment_script 0x24 c)"
proof -
  have "unhex (x @ y @ z @ commitment) = Some (a @ b @ d @ c)"
    if "unhex x = Some a" "unhex y = Some b" "unhex z = Some d" for x y z a b d
    using that assms by (intro unhex_append_Some)
  from this [OF unhex_literals(8) unhex_literals(9) unhex_literals(11)]
    this [OF unhex_literals(8) unhex_literals(10) unhex_literals(11)]
  show "unhex (''6a'' @ ''26'' @ ''aa21a9ed'' @ commitment) = Some (commitment_script 0x26 c)"
    "unhex (''6a'' @ ''24'' @ ''aa21a9ed'' @ commitment) = Some (commitment_script 0x24 c)"
    by (simp_all only: commitment_script_def append.simps)
qed

lemma length_commitment_script [simp]: "length (commitment_script n c) = 6 + length c"
  by (simp add: commitment_script_def)

definition tag_push :: "u8 list \<Rightarrow> u8 list" where
  "tag_push t = (if t = [] then [] else of_nat (length t) # t)"

lemma coinbase_bytes:
  assumes "unhex payout = Some p" and "unhex commitment = Some c" and "length c = 32"
    and "unhex extra = Some t" and "length t < 256" and "length p < 2 ^ 63"
  shows "\<exists>tx bs. buildCoinbaseTx height payout sat commitment extra = Some tx \<and> unhex tx = Some bs \<and>
    parse_coinbase bs = Some \<lparr>tx_version = 1, tx_prev_hash = replicate 32 0, tx_prev_index = 2 ^ 32 - 1,
      tx_script_sig = height_push height @ tag_push t, tx_sequence = 2 ^ 32 - 1,
      tx_outputs = [\<lparr>txo_value = unat sat, txo_script = p\<rparr>,
        \<lparr>txo_value = 0, txo_script = commitment_script 0x24 c\<rparr>], tx_locktime = 0\<rparr>"
proof -
  let ?h = "encodeBip34Height height"
  let ?sig = "if extra \<noteq> [] then ?h @ setw2_hex (length extra div 2) @ extra else ?h"
  let ?amount = "concat (map (\<lambda>i. setw2_hex (unat (drop_bit (8 * i) sat AND 0xFF))) [0..<8])"
  let ?spk = "''6a'' @ ''24'' @ ''aa21a9ed'' @ commitment"
  let ?s = "height_push height @ tag_push t" and ?c = "commitment_script 0x24 c"
  have empty: "extra = [] \<longleftrightarrow> t = []" and half: "length extra div 2 = length t"
    using unhex_length [OF assms(4)] assms(4) by auto
  have "unhex (?h @ setw2_hex (length t) @ extra) = Some (height_push height @ [of_nat (length t)] @ t)"
    using assms(4,5) by (intro unhex_append_Some unhex_rules)
  then have sig: "unhex ?sig = Some ?s"
    using empty half by (simp add: tag_push_def unhex_height)
  have spk: "unhex ?spk = Some ?c" using assms(2) by (rule unhex_commitment)
  have "length ?s < 2 ^ 64" "length p < 2 ^ 64" "length ?c < 2 ^ 64"
    using assms(3,5,6) length_height_bytes [of height] by (simp_all add: height_push_def tag_push_def)
  then have sizes: "unat (size_of ?sig) = length ?s" "unat (size_of payout) = length p" "unat (size_of ?spk) = length ?c"
    using sig spk assms(1) by (simp_all only: unat_size_of)
  let ?outs = "le_bytes 8 sat @ varint_bytes (size_of payout) @ p @ replicate 8 0 @ varint_bytes (size_of ?spk) @ ?c"
  let ?bs = "[1, 0, 0, 0] @ varint_bytes 1 @ replicate 32 0 @ [0xff, 0xff, 0xff, 0xff] @
      varint_bytes (size_of ?sig) @ ?s @ [0xff, 0xff, 0xff, 0xff] @ varint_bytes 2 @ ?outs @ [0, 0, 0, 0]"
  have zeros: "[0, 0, 0, 0, 0, 0, 0, 0] = (replicate 8 0 :: u8 list)" by code_simp
  have len: "length commitment = 64" using unhex_length [OF assms(2)] assms(3) by simp
  have tx: "buildCoinbaseTx height payout sat commitment extra = Some (''01000000'' @ encodeVarIntHex 1 @
      concat (replicate 32 ''00'') @ ''ffffffff'' @ encodeVarIntHex (size_of ?sig) @ ?sig @ ''ffffffff'' @
      encodeVarIntHex 2 @ ?amount @ encodeVarIntHex (size_of payout) @ payout @ ''0000000000000000'' @
      encodeVarIntHex (size_of ?spk) @ ?spk @ ''00000000'')"
    unfolding buildCoinbaseTx_def Let_def using len by (simp only: if_False simp_thms)
  have "unhex (''01000000'' @ encodeVarIntHex 1 @ concat (replicate 32 ''00'') @ ''ffffffff'' @
      encodeVarIntHex (size_of ?sig) @ ?sig @ ''ffffffff'' @ encodeVarIntHex 2 @ ?amount @
      encodeVarIntHex (size_of payout) @ payout @ ''0000000000000000'' @ encodeVarIntHex (size_of ?spk) @ ?spk @
      ''00000000'') = Some ([1, 0, 0, 0] @ varint_bytes 1 @ replicate 32 0 @ [0xff, 0xff, 0xff, 0xff] @
      varint_bytes (size_of ?sig) @ ?s @ [0xff, 0xff, 0xff, 0xff] @ varint_bytes 2 @ le_bytes 8 sat @
      varint_bytes (size_of payout) @ p @ replicate 8 0 @ varint_bytes (size_of ?spk) @ ?c @ [0, 0, 0, 0])"
    by (intro unhex_append_Some unhex_rules sig spk assms(1) unhex_literals(7) [unfolded zeros])
  then have dec: "unhex (the (buildCoinbaseTx height payout sat commitment extra)) = Some ?bs"
    by (simp only: tx option.sel append_assoc)
  have "parse_outputs 2 (?outs @ [0, 0, 0, 0]) = Some ([\<lparr>txo_value = unat sat, txo_script = p\<rparr>,
      \<lparr>txo_value = 0, txo_script = ?c\<rparr>], [0, 0, 0, 0])"
  proof -
    have "unat sat < 2 ^ 64" using unsigned_less [of sat] by simp
    then have "unat sat mod 256 ^ 8 = unat sat" by simp
    then have v: "le_nat (le_bytes 8 sat) = unat sat" by (simp only: le_nat_le_bytes)
    have z: "le_nat (replicate 8 0) = 0" by code_simp
    have "parse_outputs (Suc (Suc 0)) (?outs @ [0, 0, 0, 0]) = Some ([\<lparr>txo_value = le_nat (le_bytes 8 sat), txo_script = p\<rparr>,
        \<lparr>txo_value = le_nat (replicate 8 0), txo_script = ?c\<rparr>], [0, 0, 0, 0])"
      by (simp only: append_assoc parse_output_append length_le_bytes length_replicate sizes parse_outputs.simps(1)
          option.map prod.case)
    then show ?thesis by (simp only: v z numeral_2_eq_2)
  qed
  moreover have "unat (2 :: u64) = 2" by simp
  ultimately have "parse_outputs (unat (2 :: u64)) (?outs @ [0, 0, 0, 0]) = Some ([\<lparr>txo_value = unat sat, txo_script = p\<rparr>,
      \<lparr>txo_value = 0, txo_script = ?c\<rparr>], [0, 0, 0, 0])" by (simp only:)
  from parse_coinbase_bytes [OF sizes(1) this] dec tx show ?thesis by (simp only: option.sel) blast
qed

lemma minimal_coinbase_bytes:
  assumes "unhex commitment = Some c" and "length c = 32"
  shows "\<exists>tx bs. buildMinimalWitnessCommitmentCoinbase height commitment = Some tx \<and> unhex tx = Some bs \<and>
    parse_coinbase bs = Some \<lparr>tx_version = 1, tx_prev_hash = replicate 32 0, tx_prev_index = 2 ^ 32 - 1,
      tx_script_sig = height_push height, tx_sequence = 2 ^ 32 - 1,
      tx_outputs = [\<lparr>txo_value = 0, txo_script = commitment_script 0x26 c\<rparr>], tx_locktime = 0\<rparr>"
proof -
  let ?h = "encodeBip34Height height" and ?s = "height_push height" and ?c = "commitment_script 0x26 c"
  let ?spk = "''6a'' @ ''26'' @ ''aa21a9ed'' @ commitment"
  have spk: "unhex ?spk = Some ?c" using assms(1) by (rule unhex_commitment)
  have "length ?s < 2 ^ 64" "length ?c < 2 ^ 64"
    using assms(2) length_height_bytes [of height] by (simp_all add: height_push_def)
  then have sizes: "unat (size_of ?h) = length ?s" "unat (size_of ?spk) = length ?c"
    using spk unhex_height by (simp_all only: unat_size_of)
  let ?outs = "replicate 8 0 @ varint_bytes (size_of ?spk) @ ?c"
  have zeros: "[0, 0, 0, 0, 0, 0, 0, 0] = (replicate 8 0 :: u8 list)" by code_simp
  have len: "length commitment = 64" using unhex_length [OF assms(1)] assms(2) by simp
  have tx: "buildMinimalWitnessCommitmentCoinbase height commitment = Some (''01000000'' @ encodeVarIntHex 1 @
      concat (replicate 32 ''00'') @ ''ffffffff'' @ encodeVarIntHex (size_of ?h) @ ?h @ ''ffffffff'' @
      encodeVarIntHex 1 @ ''0000000000000000'' @ encodeVarIntHex (size_of ?spk) @ ?spk @ ''00000000'')"
    unfolding buildMinimalWitnessCommitmentCoinbase_def Let_def using len by (simp only: if_False simp_thms)
  have "unhex (''01000000'' @ encodeVarIntHex 1 @ concat (replicate 32 ''00'') @ ''ffffffff'' @
      encodeVarIntHex (size_of ?h) @ ?h @ ''ffffffff'' @ encodeVarIntHex 1 @ ''0000000000000000'' @
      encodeVarIntHex (size_of ?spk) @ ?spk @ ''00000000'') = Some ([1, 0, 0, 0] @ varint_bytes 1 @
      replicate 32 0 @ [0xff, 0xff, 0xff, 0xff] @ varint_bytes (size_of ?h) @ ?s @ [0xff, 0xff, 0xff, 0xff] @
      varint_bytes 1 @ replicate 8 0 @ varint_bytes (size_of ?spk) @ ?c @ [0, 0, 0, 0])"
    by (intro unhex_append_Some unhex_rules spk unhex_literals(7) [unfolded zeros])
  then have dec: "unhex (the (buildMinimalWitnessCommitmentCoinbase height commitment)) = Some ([1, 0, 0, 0] @
      varint_bytes 1 @ replicate 32 0 @ [0xff, 0xff, 0xff, 0xff] @ varint_bytes (size_of ?h) @ ?s @
      [0xff, 0xff, 0xff, 0xff] @ varint_bytes 1 @ ?outs @ [0, 0, 0, 0])"
    by (simp only: tx option.sel append_assoc)
  have z: "le_nat (replicate 8 0) = 0" by code_simp
  have "parse_outputs (Suc 0) (?outs @ [0, 0, 0, 0]) =
      Some ([\<lparr>txo_value = le_nat (replicate 8 0), txo_script = ?c\<rparr>], [0, 0, 0, 0])"
    by (simp only: append_assoc parse_output_append length_replicate sizes parse_outputs.simps(1) option.map prod.case)
  moreover have "unat (1 :: u64) = Suc 0" by simp
  ultimately have "parse_outputs (unat (1 :: u64)) (?outs @ [0, 0, 0, 0]) =
      Some ([\<lparr>txo_value = 0, txo_script = ?c\<rparr>], [0, 0, 0, 0])" by (simp only: z)
  from parse_coinbase_bytes [OF sizes(1) this] dec tx show ?thesis by (simp only: option.sel) blast
qed

lemma script_push_height: "script_push (height_push h @ r) = Some (height_bytes h, r)"
proof -
  have "length (height_bytes h) \<le> 4" by (rule length_height_bytes)
  then have n: "unat (of_nat (length (height_bytes h)) :: u8) = length (height_bytes h)"
    using unat_of_nat [where 'a = 8, of "length (height_bytes h)"] by simp
  with \<open>length (height_bytes h) \<le> 4\<close> have "(of_nat (length (height_bytes h)) :: u8) \<le> 75"
    by (simp add: word_le_nat_alt)
  then show ?thesis using n by (simp add: script_push_def height_push_def take_bytes_append)
qed

lemma script_push_commitment:
  assumes "length c = 32"
  shows "script_push (drop 1 (commitment_script 0x24 c)) = Some ([0xaa, 0x21, 0xa9, 0xed] @ c, [])"
    "script_push (drop 1 (commitment_script 0x26 c)) = None"
  using assms by (simp_all add: script_push_def commitment_script_def take_bytes_def)

subsection \<open>Subsidy\<close>

lemma subsidy_value: "unat (computeBlockSubsidy h) = 5000000000 div 2 ^ (unat h div 210000)"
proof -
  let ?k = "unat h div 210000"
  have k: "unat (h div 210000) = ?k" by (simp add: unat_div_distrib)
  show ?thesis
  proof (cases "64 \<le> ?k")
    case True
    have "(5000000000 :: nat) < 2 ^ 64" by simp
    also have "\<dots> \<le> 2 ^ ?k" using True by (intro power_increasing) simp_all
    finally have "(5000000000 :: nat) div 2 ^ ?k = 0" by (rule div_less)
    then show ?thesis using True k by (simp add: computeBlockSubsidy_def word_le_nat_alt)
  next
    case False
    then show ?thesis using k by (simp add: computeBlockSubsidy_def Let_def word_le_nat_alt unat_drop_bit_div
        del: unsigned_drop_bit_eq)
  qed
qed

lemma sum_by_blocks: "0 < n \<Longrightarrow> (\<Sum>h < n * m. f (h div n)) = n * (\<Sum>k < m. f k)" for f :: "nat \<Rightarrow> nat"
proof (induction m)
  case (Suc m)
  have "{..<n * Suc m} = {..<n * m} \<union> {n * m..<n * m + n}" by auto
  then have "(\<Sum>h < n * Suc m. f (h div n)) = (\<Sum>h < n * m. f (h div n)) + (\<Sum>h \<in> {n * m..<n * m + n}. f (h div n))"
    by (simp add: sum.union_disjoint ivl_disj_int)
  moreover have "(\<Sum>h \<in> {n * m..<n * m + n}. f (h div n)) = (\<Sum>h \<in> {n * m..<n * m + n}. f m)"
  proof (rule sum.cong)
    fix h assume h: "h \<in> {n * m..<n * m + n}"
    then have "h div n = m" using Suc.prems by (intro div_nat_eqI) (simp_all add: mult.commute)
    then show "f (h div n) = f m" by simp
  qed simp
  ultimately show ?case using Suc by (simp add: algebra_simps)
qed simp

section \<open>Properties\<close>

text \<open>C10: the coinbase the miner builds. For a payout script, a 32-byte commitment and a tag of fewer than
  256 bytes given in hexadecimal, the text decodes to a transaction that the independent parser reads
  completely: one input without a previous output, a script that starts by pushing the height (BIP 34:
  at most four bytes with that value) and goes on with the tag, a first output of exactly the given
  amount to the given script, a second one of nothing whose script pushes the tagged commitment.\<close>

theorem coinbase_parses:
  assumes "unhex payout = Some p" and "unhex commitment = Some c" and "length c = 32"
    and "unhex extra = Some t" and "length t < 256" and "length p < 2 ^ 63"
  shows "\<exists>tx bs sig com. buildCoinbaseTx height payout sat commitment extra = Some tx \<and> unhex tx = Some bs \<and>
    parse_coinbase bs = Some \<lparr>tx_version = 1, tx_prev_hash = replicate 32 0, tx_prev_index = 2 ^ 32 - 1,
      tx_script_sig = sig, tx_sequence = 2 ^ 32 - 1,
      tx_outputs = [\<lparr>txo_value = unat sat, txo_script = p\<rparr>, \<lparr>txo_value = 0, txo_script = 0x6a # com\<rparr>],
      tx_locktime = 0\<rparr> \<and>
    script_push sig = Some (height_bytes height, if t = [] then [] else of_nat (length t) # t) \<and>
    le_nat (height_bytes height) = unat height \<and> length (height_bytes height) \<le> 4 \<and>
    script_push com = Some ([0xaa, 0x21, 0xa9, 0xed] @ c, [])"
proof -
  have "0x6a # drop 1 (commitment_script 0x24 c) = commitment_script 0x24 c" by (simp add: commitment_script_def)
  then show ?thesis
    using coinbase_bytes [OF assms, of height sat] script_push_height [of height "tag_push t"]
      script_push_commitment(1) [OF assms(3)] height_bytes_value [of height] length_height_bytes(2) [of height]
    unfolding tag_push_def by metis
qed

lemma unhex_zero_commitment: "unhex (concat (replicate 32 ''ab'')) = Some (replicate 32 0xab)"
  by code_simp

theorem coinbase_parses_witness:
  "\<exists>tx bs sig com. buildCoinbaseTx 840000 ''51'' 312500000 (concat (replicate 32 ''ab'')) ''4d43'' = Some tx \<and>
    unhex tx = Some bs \<and> parse_coinbase bs = Some \<lparr>tx_version = 1, tx_prev_hash = replicate 32 0,
      tx_prev_index = 2 ^ 32 - 1, tx_script_sig = sig, tx_sequence = 2 ^ 32 - 1,
      tx_outputs = [\<lparr>txo_value = 312500000, txo_script = [0x51]\<rparr>, \<lparr>txo_value = 0, txo_script = 0x6a # com\<rparr>],
      tx_locktime = 0\<rparr> \<and> script_push sig = Some (height_bytes 840000, [2, 0x4d, 0x43])"
proof -
  have "unhex ''51'' = Some [0x51]" "unhex ''4d43'' = Some [0x4d, 0x43]" by code_simp+
  from coinbase_parses [OF this(1) unhex_zero_commitment _ this(2), of 840000 312500000]
  show ?thesis by auto
qed

text \<open>The coinbase for diagnostics. It parses as well, but the script of its only output announces a
  push of 38 bytes and holds 36 (the full coinbase announces 36): the push runs past the end of the
  script, so the commitment it carries cannot be read. A commitment that is not 64 characters is
  refused by both builders.\<close>

theorem minimal_coinbase_push:
  assumes "unhex commitment = Some c" and "length c = 32" and "length other \<noteq> 64"
  shows "\<exists>tx bs com. buildMinimalWitnessCommitmentCoinbase height commitment = Some tx \<and> unhex tx = Some bs \<and>
    parse_coinbase bs = Some \<lparr>tx_version = 1, tx_prev_hash = replicate 32 0, tx_prev_index = 2 ^ 32 - 1,
      tx_script_sig = height_push height, tx_sequence = 2 ^ 32 - 1,
      tx_outputs = [\<lparr>txo_value = 0, txo_script = 0x6a # com\<rparr>], tx_locktime = 0\<rparr> \<and>
    script_push com = None \<and> script_push (0x24 # drop 1 com) = Some ([0xaa, 0x21, 0xa9, 0xed] @ c, []) \<and>
    buildMinimalWitnessCommitmentCoinbase height other = None \<and>
    buildCoinbaseTx height payout sat other extra = None"
proof -
  let ?com = "0x26 # 0xaa # 0x21 # 0xa9 # 0xed # c"
  have "commitment_script 0x26 c = 0x6a # ?com" by (simp add: commitment_script_def)
  moreover have "script_push ?com = None" "script_push (0x24 # drop 1 ?com) = Some ([0xaa, 0x21, 0xa9, 0xed] @ c, [])"
    using script_push_commitment [OF assms(2)] by (simp_all add: commitment_script_def)
  moreover have "buildMinimalWitnessCommitmentCoinbase height other = None"
    "buildCoinbaseTx height payout sat other extra = None"
    using assms(3) by (simp_all add: buildMinimalWitnessCommitmentCoinbase_def buildCoinbaseTx_def)
  ultimately show ?thesis using minimal_coinbase_bytes [OF assms(1,2), of height] by metis
qed

theorem minimal_coinbase_push_witness:
  "\<exists>tx bs. buildMinimalWitnessCommitmentCoinbase 7 (concat (replicate 32 ''ab'')) = Some tx \<and> unhex tx = Some bs \<and>
    parse_coinbase bs \<noteq> None"
proof -
  have "length (replicate 32 0xab :: u8 list) = 32" "length ([] :: string) \<noteq> 64" by simp_all
  from minimal_coinbase_push [OF unhex_zero_commitment this, of 7 "[]" 0 "[]"] show ?thesis
    by (elim exE conjE) (intro exI conjI, assumption, assumption, simp only: option.simps not_False_eq_True)
qed

text \<open>The subsidy. At every height it is 50 coins halved once per 210000 blocks, rounded down, and
  over all heights of 32 bits it adds up to 2099999997690000 units, below 21 million coins.\<close>

theorem subsidy_schedule:
  "(\<forall>h. unat (computeBlockSubsidy h) = 5000000000 div 2 ^ (unat h div 210000)) \<and>
   (\<Sum>h < 2 ^ 32. unat (computeBlockSubsidy (of_nat h))) = 2099999997690000"
proof (intro conjI allI)
  show "unat (computeBlockSubsidy h) = 5000000000 div 2 ^ (unat h div 210000)" for h
    by (rule subsidy_value)
  let ?f = "\<lambda>k. 5000000000 div 2 ^ k :: nat"
  have "unat (computeBlockSubsidy (of_nat h)) = ?f (h div 210000)" if "h < 2 ^ 32" for h
    using that subsidy_value [of "of_nat h"] unat_of_nat [where 'a = 32, of h] by simp
  then have "(\<Sum>h < 2 ^ 32. unat (computeBlockSubsidy (of_nat h))) = (\<Sum>h < 2 ^ 32. ?f (h div 210000))"
    by (intro sum.cong) simp_all
  also have "\<dots> = (\<Sum>h < 210000 * 33. ?f (h div 210000))"
  proof (rule sum.mono_neutral_right)
    show "finite {..<2 ^ 32 :: nat}" by (rule finite_lessThan)
    have "(210000 * 33 :: nat) \<le> 2 ^ 32" by simp
    then show "{..<210000 * 33} \<subseteq> {..<2 ^ 32 :: nat}" by (simp only: lessThan_subset_iff)
    show "\<forall>h \<in> {..<2 ^ 32} - {..<210000 * 33}. ?f (h div 210000) = 0"
    proof
      fix h :: nat assume "h \<in> {..<2 ^ 32} - {..<210000 * 33}"
      then have "33 \<le> h div 210000" by (simp add: less_eq_div_iff_mult_less_eq)
      then have "(2 :: nat) ^ 33 \<le> 2 ^ (h div 210000)" by (intro power_increasing) simp_all
      then have "5000000000 < (2 :: nat) ^ (h div 210000)" by simp
      then show "?f (h div 210000) = 0" by (rule div_less)
    qed
  qed
  also have "\<dots> = 210000 * (\<Sum>k < 33. ?f k)" by (rule sum_by_blocks) simp
  also have "(\<Sum>k < 33. ?f k) = sum_list (map ?f [0..<33])"
    by (simp only: interv_sum_list_conv_sum_set_nat set_upt atLeast0LessThan)
  also have "[0..<33] = [0, 1, 2, 3, 4, 5, 6, 7, 8, 9, 10, 11, 12, 13, 14, 15, 16, 17,
      18, 19, 20, 21, 22, 23, 24, 25, 26, 27, 28, 29, 30, 31, 32:: nat]" by code_simp
  also have "sum_list (map ?f [0, 1, 2, 3, 4, 5, 6, 7, 8, 9, 10, 11, 12, 13, 14, 15, 16, 17,
      18, 19, 20, 21, 22, 23, 24, 25, 26, 27, 28, 29, 30, 31, 32]) = 9999999989" by simp
  also have "210000 * 9999999989 = (2099999997690000 :: nat)" by simp
  finally show "(\<Sum>h < 2 ^ 32. unat (computeBlockSubsidy (of_nat h))) = 2099999997690000" .
qed

end
