(* ===== verification/Gbt_Submitter.thy ===== *)
theory Gbt_Submitter
  imports Coinbase_Text Json_Library
begin

text \<open>
  \<^verbatim>\<open>GbtSubmitter\<close> of \<^verbatim>\<open>src/submit/gbt_submitter.cc\<close>: the cached template (coinbase, transactions,
  witness commitment) and its update from a document of the node, the hexadecimal block for a solved
  header and its submission. Documents are read through the JSON library, the RPC server is a
  parameter of the submission.
\<close>

record GbtSubmitter =
  coinbase_hex :: string
  txs_hex :: "string list"
  witness_commitment_hex :: "string option"
  allow_synth_coinbase :: bool
  payout_script_hex :: string
  coinbase_tag :: string

definition submitter_new :: GbtSubmitter where
  "submitter_new = \<lparr>coinbase_hex = [], txs_hex = [], witness_commitment_hex = None,
     allow_synth_coinbase = False, payout_script_hex = [], coinbase_tag = []\<rparr>"

definition hasCoinbase :: "GbtSubmitter \<Rightarrow> bool" where
  "hasCoinbase s = (coinbase_hex s \<noteq> [])"

definition buildBlockHex :: "GbtSubmitter \<Rightarrow> u8 list \<Rightarrow> string" where
  "buildBlockHex s header80_be =
     (let block_hex = leHexFromHeaderBE header80_be;
          tx_count = (if coinbase_hex s = [] then 0 else 1) + of_nat (length (txs_hex s));
          block_hex = block_hex @ encodeVarIntHex tx_count;
          block_hex = (if coinbase_hex s \<noteq> [] then block_hex @ coinbase_hex s else block_hex)
      in block_hex @ concat (txs_hex s))"

text \<open>The answer, and the block posted to the server (if any).\<close>

definition submitHeader :: "(string \<Rightarrow> bool) \<Rightarrow> GbtSubmitter \<Rightarrow> u8 list \<Rightarrow> bool \<times> string option" where
  "submitHeader rpc_submitblock s header80_be =
     (if coinbase_hex s = [] then (False, None)
      else let block_hex = buildBlockHex s header80_be in (rpc_submitblock block_hex, Some block_hex))"

text \<open>\<^verbatim>\<open>updateTemplate\<close>. Every part of the body returns the state and whether it completed; an exception
  ends the body and keeps what was assigned before it.\<close>

fun push_txs :: "'j json_lib \<Rightarrow> 'j list \<Rightarrow> GbtSubmitter \<Rightarrow> GbtSubmitter \<times> bool" where
  "push_txs J [] s = (s, True)"
| "push_txs J (tx # txs) s =
     (if j_contains J tx ''data''
      then (case Option.bind (j_field J tx ''data'') (j_string J) of
              None \<Rightarrow> (s, False)
            | Some d \<Rightarrow> push_txs J txs (s\<lparr>txs_hex := txs_hex s @ [d]\<rparr>))
      else push_txs J txs s)"

fun sum_fees :: "'j json_lib \<Rightarrow> 'j list \<Rightarrow> u64 \<Rightarrow> u64" where
  "sum_fees J [] fees = fees"
| "sum_fees J (tx # txs) fees =
     sum_fees J txs
       (if j_contains J tx ''fee''
        then (case Option.bind (j_field J tx ''fee'') (j_int64 J) of None \<Rightarrow> fees | Some v \<Rightarrow> fees + v)
        else fees)"

definition transactions_of :: "'j json_lib \<Rightarrow> 'j \<Rightarrow> 'j list option" where
  "transactions_of J gbt =
     (if j_contains J gbt ''transactions''
      then (case j_field J gbt ''transactions'' of
              None \<Rightarrow> None
            | Some ts \<Rightarrow> if j_is_array J ts then Some (j_elements J ts) else Some [])
      else Some [])"

definition template_coinbase :: "'j json_lib \<Rightarrow> 'j \<Rightarrow> GbtSubmitter \<Rightarrow> GbtSubmitter \<times> bool" where
  "template_coinbase J gbt s =
     (if j_contains J gbt ''coinbasetxn''
      then (case j_field J gbt ''coinbasetxn'' of
              None \<Rightarrow> (s, False)
            | Some c \<Rightarrow>
                if j_is_object J c
                then (case Option.bind (j_field J c ''data'') (j_string J) of
                        None \<Rightarrow> (s, False)
                      | Some d \<Rightarrow> (s\<lparr>coinbase_hex := d\<rparr>, True))
                else (s, True))
      else (s, True))"

definition template_transactions :: "'j json_lib \<Rightarrow> 'j \<Rightarrow> GbtSubmitter \<Rightarrow> GbtSubmitter \<times> bool" where
  "template_transactions J gbt s =
     (case transactions_of J gbt of None \<Rightarrow> (s, False) | Some txs \<Rightarrow> push_txs J txs s)"

definition template_height :: "'j json_lib \<Rightarrow> 'j \<Rightarrow> u32" where
  "template_height J gbt =
     (if j_contains J gbt ''height''
      then (case Option.bind (j_field J gbt ''height'') (j_int J) of None \<Rightarrow> 0 | Some h \<Rightarrow> h)
      else 0)"

definition synth_coinbase :: "'j json_lib \<Rightarrow> 'j \<Rightarrow> string \<Rightarrow> GbtSubmitter \<Rightarrow> GbtSubmitter \<times> bool" where
  "synth_coinbase J gbt commitment s =
     (let height = template_height J gbt
      in if payout_script_hex s \<noteq> []
         then (case transactions_of J gbt of
                 None \<Rightarrow> (s, False)
               | Some txs \<Rightarrow>
                   let fees = sum_fees J txs 0; sat = computeBlockSubsidy height + fees
                   in (case buildCoinbaseTx height (payout_script_hex s) sat commitment (coinbase_tag s) of
                         None \<Rightarrow> (s, True)
                       | Some c \<Rightarrow> (s\<lparr>coinbase_hex := c\<rparr>, True)))
         else (case buildMinimalWitnessCommitmentCoinbase height commitment of
                 None \<Rightarrow> (s, True)
               | Some c \<Rightarrow> (s\<lparr>coinbase_hex := c\<rparr>, True)))"

definition template_commitment :: "'j json_lib \<Rightarrow> 'j \<Rightarrow> GbtSubmitter \<Rightarrow> GbtSubmitter \<times> bool" where
  "template_commitment J gbt s =
     (if j_contains J gbt ''default_witness_commitment''
      then (case j_field J gbt ''default_witness_commitment'' of
              None \<Rightarrow> (s, False)
            | Some w \<Rightarrow>
                if j_is_string J w
                then (case j_string J w of
                        None \<Rightarrow> (s, False)
                      | Some commitment \<Rightarrow>
                          let s = s\<lparr>witness_commitment_hex := Some commitment\<rparr>
                          in if allow_synth_coinbase s \<and> coinbase_hex s = []
                             then synth_coinbase J gbt commitment s else (s, True))
                else (s, True))
      else (s, True))"

definition updateTemplate :: "'j json_lib \<Rightarrow> 'j \<Rightarrow> GbtSubmitter \<Rightarrow> GbtSubmitter" where
  "updateTemplate J gbt s =
     (let s = s\<lparr>coinbase_hex := [], txs_hex := [], witness_commitment_hex := None\<rparr>
      in case template_coinbase J gbt s of
           (s, False) \<Rightarrow> s
         | (s, True) \<Rightarrow>
             (case template_transactions J gbt s of
                (s, False) \<Rightarrow> s
              | (s, True) \<Rightarrow> fst (template_commitment J gbt s)))"

section \<open>The block\<close>

lemma leHex_eq: "length h = 80 \<Longrightarrow> leHexFromHeaderBE h = bytesToHex h"
proof -
  assume h: "length h = 80"
  have "map (\<lambda>i. hex_byte (h ! i)) [0..<80] = map hex_byte h"
    by (rule nth_equalityI) (simp_all add: h)
  then show ?thesis by (simp only: leHexFromHeaderBE_def bytesToHex_def)
qed

lemma unhex_concat: "list_all2 (\<lambda>tx t. unhex tx = Some t) txs ts \<Longrightarrow> unhex (concat txs) = Some (concat ts)"
  by (induction rule: list_all2_induct) auto

section \<open>Templates\<close>

definition tx_data :: "'j json_lib \<Rightarrow> 'j \<Rightarrow> string option" where
  "tx_data J tx = Option.bind (j_field J tx ''data'') (j_string J)"

text \<open>What the update reads the document as: every transaction has its data, the commitment is a string.\<close>

definition reads_template :: "'j json_lib \<Rightarrow> 'j \<Rightarrow> string option \<Rightarrow> 'j list \<Rightarrow> string \<Rightarrow> bool" where
  "reads_template J gbt cb txs commitment \<longleftrightarrow>
     (case cb of
        None \<Rightarrow> \<not> j_contains J gbt ''coinbasetxn''
      | Some d \<Rightarrow> j_contains J gbt ''coinbasetxn'' \<and>
          (\<exists>c. j_field J gbt ''coinbasetxn'' = Some c \<and> j_is_object J c \<and> tx_data J c = Some d)) \<and>
     transactions_of J gbt = Some txs \<and>
     (\<forall>tx \<in> set txs. j_contains J tx ''data'' \<and> tx_data J tx \<noteq> None) \<and>
     j_contains J gbt ''default_witness_commitment'' \<and>
     (\<exists>w. j_field J gbt ''default_witness_commitment'' = Some w \<and> j_is_string J w \<and> j_string J w = Some commitment)"

definition tx_fee :: "'j json_lib \<Rightarrow> 'j \<Rightarrow> u64" where
  "tx_fee J tx = (if j_contains J tx ''fee''
     then (case Option.bind (j_field J tx ''fee'') (j_int64 J) of None \<Rightarrow> 0 | Some v \<Rightarrow> v) else 0)"

lemma sum_fees_eq: "sum_fees J txs fees = fees + sum_list (map (tx_fee J) txs)"
  by (induction txs arbitrary: fees) (auto simp: tx_fee_def add.assoc split: option.splits)

lemma push_txs_all:
  "\<forall>tx \<in> set txs. j_contains J tx ''data'' \<and> tx_data J tx \<noteq> None \<Longrightarrow>
   push_txs J txs s = (s\<lparr>txs_hex := txs_hex s @ map (\<lambda>tx. the (tx_data J tx)) txs\<rparr>, True)"
  by (induction txs arbitrary: s) (auto simp: tx_data_def split: option.splits)

lemma push_txs_stops:
  "\<forall>tx \<in> set txs. j_contains J tx ''data'' \<and> tx_data J tx \<noteq> None \<Longrightarrow>
   j_contains J bad ''data'' \<Longrightarrow> tx_data J bad = None \<Longrightarrow>
   push_txs J (txs @ bad # rest) s = (s\<lparr>txs_hex := txs_hex s @ map (\<lambda>tx. the (tx_data J tx)) txs\<rparr>, False)"
  by (induction txs arbitrary: s) (auto simp: tx_data_def split: option.splits)

lemma template_coinbase_reads:
  assumes "reads_template J gbt cb txs commitment"
  shows "template_coinbase J gbt s = (s\<lparr>coinbase_hex := case cb of None \<Rightarrow> coinbase_hex s | Some d \<Rightarrow> d\<rparr>, True)"
  using assms by (auto simp: reads_template_def template_coinbase_def tx_data_def split: option.splits)

lemma updateTemplate_reads:
  assumes "reads_template J gbt cb txs commitment"
  shows "updateTemplate J gbt s = fst (template_commitment J gbt
    (s\<lparr>coinbase_hex := case cb of None \<Rightarrow> [] | Some d \<Rightarrow> d, txs_hex := map (\<lambda>tx. the (tx_data J tx)) txs,
       witness_commitment_hex := None\<rparr>))"
proof -
  have txs: "transactions_of J gbt = Some txs" "\<forall>tx \<in> set txs. j_contains J tx ''data'' \<and> tx_data J tx \<noteq> None"
    using assms by (simp_all add: reads_template_def)
  have "template_transactions J gbt u = (u\<lparr>txs_hex := txs_hex u @ map (\<lambda>tx. the (tx_data J tx)) txs\<rparr>, True)" for u
    by (simp add: template_transactions_def txs(1) push_txs_all [OF txs(2)])
  then show ?thesis
    by (cases cb; cases s) (simp_all add: updateTemplate_def Let_def template_coinbase_reads [OF assms])
qed

lemma template_commitment_reads:
  assumes "reads_template J gbt cb txs commitment"
  shows "template_commitment J gbt s =
    (if allow_synth_coinbase s \<and> coinbase_hex s = []
     then synth_coinbase J gbt commitment (s\<lparr>witness_commitment_hex := Some commitment\<rparr>)
     else (s\<lparr>witness_commitment_hex := Some commitment\<rparr>, True))"
  using assms by (auto simp: reads_template_def template_commitment_def Let_def split: option.splits)

text \<open>Every part keeps the configuration.\<close>

definition same_config :: "GbtSubmitter \<Rightarrow> GbtSubmitter \<Rightarrow> bool" where
  "same_config s t \<longleftrightarrow> allow_synth_coinbase s = allow_synth_coinbase t \<and>
     payout_script_hex s = payout_script_hex t \<and> coinbase_tag s = coinbase_tag t"

lemma push_txs_config: "same_config (fst (push_txs J txs s)) s"
proof (induction txs arbitrary: s)
  case (Cons tx txs)
  show ?case
    using Cons.IH [of s] Cons.IH [of "s\<lparr>txs_hex := txs_hex s @ [d]\<rparr>" for d]
    by (auto simp: same_config_def split: option.splits)
qed (simp add: same_config_def)

lemma parts_config:
  "same_config (fst (template_coinbase J gbt s)) s" "same_config (fst (template_transactions J gbt s)) s"
  "same_config (fst (template_commitment J gbt s)) s"
  using push_txs_config [of J _ s]
  by (auto simp: template_coinbase_def template_transactions_def template_commitment_def synth_coinbase_def
      same_config_def Let_def split: option.splits)

section \<open>Properties\<close>

text \<open>C18: the block that is submitted. Without a coinbase nothing is sent and the answer is no. With one,
  the text posted decodes to the header, the number of transactions as a variable-length integer and
  the transactions in order, the coinbase first, and the answer is that of the server. The 80 bytes of
  the header go out in the order in which they are given, most significant byte first in every field:
  the reordering to little-endian fields that the comment of \<^verbatim>\<open>leHexFromHeaderBE\<close> announces, and that a
  node expects, does not happen.\<close>

theorem submitted_block:
  assumes "length header = 80" and "unhex (coinbase_hex s) = Some c"
    and "list_all2 (\<lambda>tx t. unhex tx = Some t) (txs_hex s) ts" and "length ts + 1 < 2 ^ 64"
  shows "if coinbase_hex s = [] then submitHeader rpc s header = (False, None)
    else \<exists>block bs r. submitHeader rpc s header = (rpc block, Some block) \<and> unhex block = Some bs \<and>
      take_bytes 80 bs = Some (header, r) \<and> parse_varint r = Some (length ts + 1, c @ concat ts)"
proof (cases "coinbase_hex s = []")
  case True
  then show ?thesis by (simp add: submitHeader_def)
next
  case False
  let ?n = "1 + of_nat (length (txs_hex s)) :: u64"
  have "length (txs_hex s) = length ts" using assms(3) by (rule list_all2_lengthD)
  then have "?n = of_nat (length ts + 1)" by simp
  then have n: "unat ?n = length ts + 1"
    using unat_of_nat [where 'a = 64, of "length ts + 1"] assms(4) by (simp only:) simp
  have block: "buildBlockHex s header = bytesToHex header @ encodeVarIntHex ?n @ coinbase_hex s @ concat (txs_hex s)"
    using False by (simp add: buildBlockHex_def Let_def leHex_eq [OF assms(1)])
  have "unhex (buildBlockHex s header) = Some (header @ varint_bytes ?n @ c @ concat ts)"
    unfolding block
    by (intro unhex_append_Some unhex_bytesToHex unhex_varint assms(2) unhex_concat assms(3))
  moreover have "take_bytes 80 (header @ varint_bytes ?n @ c @ concat ts) = Some (header, varint_bytes ?n @ c @ concat ts)"
    using assms(1) by (rule take_bytes_append)
  moreover have "parse_varint (varint_bytes ?n @ c @ concat ts) = Some (length ts + 1, c @ concat ts)"
    by (simp only: parse_varint_bytes n)
  ultimately show ?thesis using False by (simp add: submitHeader_def Let_def)
qed

theorem submitted_block_witness:
  "\<exists>block bs r. submitHeader (\<lambda>b. True) (submitter_new\<lparr>coinbase_hex := ''aa'', txs_hex := [''bbcc'']\<rparr>) (replicate 80 7) =
      (True, Some block) \<and> unhex block = Some bs \<and> take_bytes 80 bs = Some (replicate 80 7, r) \<and>
      parse_varint r = Some (2, [0xaa, 0xbb, 0xcc])"
proof -
  let ?s = "submitter_new\<lparr>coinbase_hex := ''aa'', txs_hex := [''bbcc'']\<rparr>"
  have "unhex ''aa'' = Some [0xaa]" "unhex ''bbcc'' = Some [0xbb, 0xcc]" by code_simp+
  then have "unhex (coinbase_hex ?s) = Some [0xaa]"
    "list_all2 (\<lambda>tx t. unhex tx = Some t) (txs_hex ?s) [[0xbb, 0xcc]]" by simp_all
  from submitted_block [OF _ this, of "replicate 80 7" "\<lambda>b. True"] show ?thesis by (simp add: numeral_2_eq_2 [symmetric])
qed

text \<open>An update replaces the template. Whatever the document, and also when reading it fails midway,
  the resulting coinbase, transactions and commitment depend on the document and the configuration
  only, not on the template before, and the configuration stays.\<close>

theorem update_replaces_template:
  assumes "same_config s t"
  shows "updateTemplate J gbt s = updateTemplate J gbt t \<and> same_config (updateTemplate J gbt s) s"
proof -
  let ?clear = "\<lambda>s. s\<lparr>coinbase_hex := [], txs_hex := [], witness_commitment_hex := None\<rparr>"
  have "?clear s = ?clear t" using assms by (cases s; cases t) (simp add: same_config_def)
  then have "updateTemplate J gbt s = updateTemplate J gbt t" by (simp only: updateTemplate_def Let_def)
  moreover have "same_config (updateTemplate J gbt s) (?clear s)"
  proof -
    obtain u ok where u: "template_coinbase J gbt (?clear s) = (u, ok)" by fastforce
    obtain v ok' where v: "template_transactions J gbt u = (v, ok')" by fastforce
    have "same_config u (?clear s)" "same_config v u" "same_config (fst (template_commitment J gbt v)) v"
      using parts_config(1) [of J gbt "?clear s"] parts_config(2,3) [of J gbt] u v by (metis fst_conv)+
    moreover have "updateTemplate J gbt s = (if \<not> ok then u else if \<not> ok' then v else fst (template_commitment J gbt v))"
      by (simp add: updateTemplate_def Let_def u v split: bool.splits)
    ultimately show ?thesis by (simp add: same_config_def)
  qed
  ultimately show ?thesis by (simp add: same_config_def)
qed

definition sample_document :: json where
  "sample_document = JObject [(''height'', JInt 210000),
     (''transactions'', JArray [JObject [(''data'', JString ''01''), (''fee'', JInt 250)]]),
     (''default_witness_commitment'', JString (concat (replicate 32 ''ab'')))]"

theorem update_replaces_template_witness:
  "updateTemplate json_model sample_document submitter_new =
   updateTemplate json_model sample_document (submitter_new\<lparr>coinbase_hex := ''aa''\<rparr>)"
  using update_replaces_template [of submitter_new "submitter_new\<lparr>coinbase_hex := ''aa''\<rparr>" json_model sample_document]
  by (simp add: same_config_def)

text \<open>A template without a coinbase, read completely, with a payout script configured. If the
  commitment is 64 characters the miner's own coinbase takes its place, paying the subsidy of the
  height plus the fees of all transactions; if it is not (the node's commitment is a whole script of
  76 characters) there is no coinbase, and nothing will be submitted.\<close>

theorem synthesised_coinbase:
  assumes "reads_template J gbt None txs commitment" and "allow_synth_coinbase s" and "payout_script_hex s \<noteq> []"
  shows "txs_hex (updateTemplate J gbt s) = map (\<lambda>tx. the (tx_data J tx)) txs \<and>
    (if length commitment = 64
     then Some (coinbase_hex (updateTemplate J gbt s)) = buildCoinbaseTx (template_height J gbt) (payout_script_hex s)
       (computeBlockSubsidy (template_height J gbt) + sum_list (map (tx_fee J) txs)) commitment (coinbase_tag s)
     else submitHeader rpc (updateTemplate J gbt s) header = (False, None))"
proof -
  let ?s = "s\<lparr>coinbase_hex := [], txs_hex := map (\<lambda>tx. the (tx_data J tx)) txs, witness_commitment_hex := Some commitment\<rparr>"
  have txs: "transactions_of J gbt = Some txs" using assms(1) by (simp add: reads_template_def)
  have upd: "updateTemplate J gbt s = fst (synth_coinbase J gbt commitment ?s)"
    using assms(2) by (simp add: updateTemplate_reads [OF assms(1)] template_commitment_reads [OF assms(1)])
  let ?build = "buildCoinbaseTx (template_height J gbt) (payout_script_hex s)
     (computeBlockSubsidy (template_height J gbt) + sum_list (map (tx_fee J) txs)) commitment (coinbase_tag s)"
  have "?build = None \<longleftrightarrow> length commitment \<noteq> 64" by (simp add: buildCoinbaseTx_def Let_def)
  moreover have "updateTemplate J gbt s = (case ?build of None \<Rightarrow> ?s | Some c \<Rightarrow> ?s\<lparr>coinbase_hex := c\<rparr>)"
    unfolding upd using assms(3) txs by (simp add: synth_coinbase_def sum_fees_eq split: option.splits)
  ultimately show ?thesis by (cases ?build) (simp_all add: submitHeader_def)
qed

theorem synthesised_coinbase_witness:
  "Some (coinbase_hex (updateTemplate json_model sample_document
       (submitter_new\<lparr>allow_synth_coinbase := True, payout_script_hex := ''51''\<rparr>))) =
   buildCoinbaseTx 210000 ''51'' 2500000250 (concat (replicate 32 ''ab'')) []"
proof -
  let ?tx = "JObject [(''data'', JString ''01''), (''fee'', JInt 250)]"
  let ?s = "submitter_new\<lparr>allow_synth_coinbase := True, payout_script_hex := ''51''\<rparr>"
  have reads: "reads_template json_model sample_document None [?tx] (concat (replicate 32 ''ab''))"
    by (simp add: reads_template_def sample_document_def json_model_def transactions_of_def tx_data_def)
  have "template_height json_model sample_document = 210000"
    by (simp add: template_height_def sample_document_def json_model_def)
  moreover have "computeBlockSubsidy 210000 = 2500000000" by (simp add: computeBlockSubsidy_def word_le_nat_alt)
  moreover have "sum_list (map (tx_fee json_model) [?tx]) = 250" by (simp add: tx_fee_def json_model_def)
  moreover have "payout_script_hex ?s \<noteq> []" "allow_synth_coinbase ?s" "payout_script_hex ?s = ''51''" "coinbase_tag ?s = []"
    by (simp_all add: submitter_new_def)
  moreover have "length (concat (replicate 32 ''ab'')) = 64" by code_simp
  ultimately show ?thesis
    using synthesised_coinbase [OF reads, of ?s] by (simp only: if_True simp_thms) simp
qed

text \<open>A template that fails midway is used all the same. If a transaction's data cannot be read, the
  coinbase and the transactions before it stay, and a block of only these is submitted as if it were
  complete.\<close>

theorem torn_template_submitted:
  assumes "template_coinbase J gbt (s\<lparr>coinbase_hex := [], txs_hex := [], witness_commitment_hex := None\<rparr>) =
      (s\<lparr>coinbase_hex := d, txs_hex := [], witness_commitment_hex := None\<rparr>, True)" and "d \<noteq> []"
    and "transactions_of J gbt = Some (txs @ bad # rest)"
    and "\<forall>tx \<in> set txs. j_contains J tx ''data'' \<and> tx_data J tx \<noteq> None"
    and "j_contains J bad ''data''" and "tx_data J bad = None"
  shows "\<exists>block. submitHeader rpc (updateTemplate J gbt s) header = (rpc block, Some block) \<and>
    block = leHexFromHeaderBE header @ encodeVarIntHex (1 + of_nat (length txs)) @ d @
      concat (map (\<lambda>tx. the (tx_data J tx)) txs)"
proof -
  have "updateTemplate J gbt s = s\<lparr>coinbase_hex := d, txs_hex := map (\<lambda>tx. the (tx_data J tx)) txs,
      witness_commitment_hex := None\<rparr>"
    unfolding updateTemplate_def Let_def assms(1)
    by (simp add: template_transactions_def assms(3) push_txs_stops [OF assms(4-6)])
  then show ?thesis using assms(2) by (simp add: submitHeader_def buildBlockHex_def Let_def)
qed

theorem torn_template_submitted_witness:
  "\<exists>block. submitHeader (\<lambda>b. True) (updateTemplate json_model (JObject
      [(''coinbasetxn'', JObject [(''data'', JString ''aa'')]),
       (''transactions'', JArray [JObject [(''data'', JString ''bb'')], JObject [(''data'', JInt 3)],
          JObject [(''data'', JString ''cc'')]])]) submitter_new) (replicate 80 0) = (True, Some block) \<and>
    block = leHexFromHeaderBE (replicate 80 0) @ encodeVarIntHex 2 @ ''aabb''"
proof -
  let ?doc = "JObject [(''coinbasetxn'', JObject [(''data'', JString ''aa'')]),
       (''transactions'', JArray [JObject [(''data'', JString ''bb'')], JObject [(''data'', JInt 3)],
          JObject [(''data'', JString ''cc'')]])]"
  have "template_coinbase json_model ?doc (submitter_new\<lparr>coinbase_hex := [], txs_hex := [], witness_commitment_hex := None\<rparr>) =
      (submitter_new\<lparr>coinbase_hex := ''aa'', txs_hex := [], witness_commitment_hex := None\<rparr>, True)"
    by (simp add: template_coinbase_def json_model_def submitter_new_def)
  moreover have "transactions_of json_model ?doc = Some ([JObject [(''data'', JString ''bb'')]] @
      JObject [(''data'', JInt 3)] # [JObject [(''data'', JString ''cc'')]])"
    by (simp add: transactions_of_def json_model_def)
  moreover have "\<forall>tx \<in> set [JObject [(''data'', JString ''bb'')]]. j_contains json_model tx ''data'' \<and> tx_data json_model tx \<noteq> None"
    "j_contains json_model (JObject [(''data'', JInt 3)]) ''data''" "tx_data json_model (JObject [(''data'', JInt 3)]) = None"
    by (simp_all add: json_model_def tx_data_def)
  ultimately show ?thesis
    using torn_template_submitted [of json_model ?doc submitter_new "''aa''" "[JObject [(''data'', JString ''bb'')]]"
        "JObject [(''data'', JInt 3)]" "[JObject [(''data'', JString ''cc'')]]" "\<lambda>b. True" "replicate 80 0"]
    by (simp add: tx_data_def json_model_def)
qed

end
