(* ===== verification/Work_Registry.thy ===== *)
theory Work_Registry
  imports Endianness
begin

text \<open>
  \<^verbatim>\<open>src/registry/types.h\<close> and \<^verbatim>\<open>src/registry/work_source_registry.cc\<close>: the slots through which the
  adapters publish work items to the mining loop. \<open>registry_new\<close>, \<open>registry_set\<close> and \<open>registry_get\<close>
  are the constructor and the two operations; exceptions are values of \<open>cpp_error\<close>. The locale
  \<open>slot_store\<close> is what the clients of the registry rely on. The last sections model a \<^verbatim>\<open>set\<close> and
  a \<^verbatim>\<open>get\<close> that run in different threads, one store or load of a member per step; in this program both are
  called by the main thread only, so the generation protocol is for readers it does not have yet.
\<close>

record GpuJobConst =
  midstate_le :: "u32 list"

record WorkItem =
  wi_work_id :: u64
  wi_source_id :: u32
  wi_version :: u32
  wi_ntime :: u32
  wi_nbits :: u32
  wi_nonce_start :: u32
  wi_prevhash_le :: "u32 list"
  wi_merkle_root_le :: "u32 list"
  wi_share_target_le :: "u32 list"
  wi_block_target_le :: "u32 list"
  wi_vmask :: u32
  wi_ntime_min :: u32
  wi_ntime_max :: u32
  wi_extranonce2_size :: u8
  wi_clean_jobs :: bool
  wi_active :: bool
  wi_found_submitted :: bool

record WorkSlot =
  slot_gen :: u64
  slot_item :: WorkItem
  slot_const :: GpuJobConst

record WorkSlotSnapshot =
  snap_gen :: u64
  snap_item :: WorkItem
  snap_const :: GpuJobConst

text \<open>The default member initialisers.\<close>

definition zero8 :: "u32 list" where
  "zero8 = replicate 8 0"

definition default_const :: GpuJobConst where
  "default_const = \<lparr>midstate_le = zero8\<rparr>"

definition default_item :: WorkItem where
  "default_item = \<lparr>wi_work_id = 0, wi_source_id = 0, wi_version = 0, wi_ntime = 0, wi_nbits = 0,
     wi_nonce_start = 0, wi_prevhash_le = zero8, wi_merkle_root_le = zero8,
     wi_share_target_le = zero8, wi_block_target_le = zero8, wi_vmask = 0, wi_ntime_min = 0,
     wi_ntime_max = 0, wi_extranonce2_size = 0, wi_clean_jobs = False, wi_active = False,
     wi_found_submitted = False\<rparr>"

definition default_slot :: WorkSlot where
  "default_slot = \<lparr>slot_gen = 0, slot_item = default_item, slot_const = default_const\<rparr>"

type_synonym WorkSourceRegistry = "WorkSlot list"

definition registry_new :: "nat \<Rightarrow> WorkSourceRegistry result" where
  "registry_new num_slots =
     (if num_slots = 0 then Inl (Invalid_argument ''num_slots must be > 0'')
      else Inr (replicate num_slots default_slot))"

definition registry_set ::
    "WorkSourceRegistry \<Rightarrow> nat \<Rightarrow> WorkItem \<Rightarrow> GpuJobConst \<Rightarrow> WorkSourceRegistry result" where
  "registry_set slots slot_index item job_const =
     (if length slots \<le> slot_index then Inl (Out_of_range ''slot_index'')
      else let slot = slots ! slot_index;
               slot = slot\<lparr>slot_item := item\<rparr>;
               slot = slot\<lparr>slot_const := job_const\<rparr>;
               slot = slot\<lparr>slot_gen := slot_gen slot + 1\<rparr>
           in Inr (slots[slot_index := slot]))"

definition registry_get :: "WorkSourceRegistry \<Rightarrow> nat \<Rightarrow> WorkSlotSnapshot option" where
  "registry_get slots slot_index =
     (if length slots \<le> slot_index then None
      else let src = slots ! slot_index
           in Some \<lparr>snap_gen = slot_gen src, snap_item = slot_item src, snap_const = slot_const src\<rparr>)"

section \<open>The interface of the registry\<close>

text \<open>A sequence of publications, each to a slot; the first error ends it.\<close>

fun publish_all :: "('s \<Rightarrow> nat \<Rightarrow> WorkItem \<Rightarrow> GpuJobConst \<Rightarrow> 's result) \<Rightarrow>
    's \<Rightarrow> (nat \<times> WorkItem \<times> GpuJobConst) list \<Rightarrow> 's result" where
  "publish_all set_op s [] = Inr s"
| "publish_all set_op s ((i, it, jc) # ops) =
     (case set_op s i it jc of Inl e \<Rightarrow> Inl e | Inr s' \<Rightarrow> publish_all set_op s' ops)"

locale slot_store =
  fixes set_op :: "'s \<Rightarrow> nat \<Rightarrow> WorkItem \<Rightarrow> GpuJobConst \<Rightarrow> 's result"
    and get_op :: "'s \<Rightarrow> nat \<Rightarrow> WorkSlotSnapshot option"
    and slots_of :: "'s \<Rightarrow> nat"
  assumes set_ok: "i < slots_of s \<Longrightarrow> \<exists>s'. set_op s i it jc = Inr s'"
    and set_size: "set_op s i it jc = Inr s' \<Longrightarrow> slots_of s' = slots_of s \<and> i < slots_of s"
    and get_none: "get_op s i = None \<longleftrightarrow> slots_of s \<le> i"
    and get_set: "set_op s i it jc = Inr s' \<Longrightarrow> get_op s i = Some old \<Longrightarrow>
      get_op s' i = Some \<lparr>snap_gen = snap_gen old + 1, snap_item = it, snap_const = jc\<rparr>"
    and get_other: "set_op s i it jc = Inr s' \<Longrightarrow> j \<noteq> i \<Longrightarrow> get_op s' j = get_op s j"
begin

lemma publish_all_ok:
  "\<forall>op \<in> set ops. fst op < slots_of s \<Longrightarrow> \<exists>s'. publish_all set_op s ops = Inr s'"
proof (induction ops arbitrary: s)
  case (Cons op ops)
  obtain i it jc where op: "op = (i, it, jc)" by (cases op)
  then obtain s' where s': "set_op s i it jc = Inr s'" using set_ok [of i s it jc] Cons.prems by auto
  with set_size have "slots_of s' = slots_of s" by blast
  with Cons s' op show ?case by simp
qed simp

lemma publish_all_size: "publish_all set_op s ops = Inr s' \<Longrightarrow> slots_of s' = slots_of s"
proof (induction ops arbitrary: s)
  case (Cons op ops)
  then show ?case by (cases op) (auto split: sum.splits dest: set_size)
qed simp

lemma publish_all_gen:
  "publish_all set_op s ops = Inr s' \<Longrightarrow> get_op s j = Some old \<Longrightarrow>
   \<exists>new. get_op s' j = Some new \<and>
     snap_gen new = snap_gen old + of_nat (length (filter (\<lambda>op. fst op = j) ops)) \<and>
     (if filter (\<lambda>op. fst op = j) ops = [] then new = old
      else (snap_item new, snap_const new) = snd (last (filter (\<lambda>op. fst op = j) ops)))"
proof (induction ops arbitrary: s old)
  case (Cons op ops)
  obtain i it jc where op: "op = (i, it, jc)" by (cases op)
  obtain t where t: "set_op s i it jc = Inr t" "publish_all set_op t ops = Inr s'"
    using Cons.prems(1) op by (auto split: sum.splits)
  show ?case
  proof (cases "i = j")
    case True
    with t(1) Cons.prems(2) get_set
    have "get_op t j = Some \<lparr>snap_gen = snap_gen old + 1, snap_item = it, snap_const = jc\<rparr>" by blast
    from Cons.IH [OF t(2) this] show ?thesis using True op by (auto split: if_splits)
  next
    case False
    with t(1) Cons.prems(2) get_other have "get_op t j = Some old" by metis
    from Cons.IH [OF t(2) this] show ?thesis using False op by auto
  qed
qed simp

end

interpretation registry: slot_store registry_set registry_get length
  by unfold_locales
    (auto simp: registry_set_def registry_get_def Let_def split: if_splits)

section \<open>One writer and one reader, step by step\<close>

text \<open>
  A \<^verbatim>\<open>set\<close> and a \<^verbatim>\<open>get\<close> that run in different threads. The copies of the structs take no lock and are not
  atomic; they are modelled as one store or load for every member and every word of an array (a \<open>cell\<close>),
  each of them a step of its own and in any order, since nothing orders them: the generation alone is
  atomic, and \<^verbatim>\<open>get\<close> does not look at it again after it has copied. \<open>rc_hist\<close> records the arguments of the
  calls of \<^verbatim>\<open>set\<close> and \<open>rc_done\<close> how many have returned.
\<close>

datatype cell = C_work_id | C_source_id | C_version | C_ntime | C_nbits | C_nonce_start | C_prevhash nat | C_merkle nat
  | C_share nat | C_block nat | C_vmask | C_ntime_min | C_ntime_max | C_en2_size | C_clean | C_active | C_found | C_midstate nat

type_synonym publication = "WorkItem \<times> GpuJobConst"

fun cell_value :: "publication \<Rightarrow> cell \<Rightarrow> u64" where
  "cell_value (it, jc) C_work_id = wi_work_id it"
| "cell_value (it, jc) C_source_id = ucast (wi_source_id it)"
| "cell_value (it, jc) C_version = ucast (wi_version it)"
| "cell_value (it, jc) C_ntime = ucast (wi_ntime it)"
| "cell_value (it, jc) C_nbits = ucast (wi_nbits it)"
| "cell_value (it, jc) C_nonce_start = ucast (wi_nonce_start it)"
| "cell_value (it, jc) (C_prevhash i) = ucast (wi_prevhash_le it ! i)"
| "cell_value (it, jc) (C_merkle i) = ucast (wi_merkle_root_le it ! i)"
| "cell_value (it, jc) (C_share i) = ucast (wi_share_target_le it ! i)"
| "cell_value (it, jc) (C_block i) = ucast (wi_block_target_le it ! i)"
| "cell_value (it, jc) C_vmask = ucast (wi_vmask it)"
| "cell_value (it, jc) C_ntime_min = ucast (wi_ntime_min it)"
| "cell_value (it, jc) C_ntime_max = ucast (wi_ntime_max it)"
| "cell_value (it, jc) C_en2_size = ucast (wi_extranonce2_size it)"
| "cell_value (it, jc) C_clean = of_bool (wi_clean_jobs it)"
| "cell_value (it, jc) C_active = of_bool (wi_active it)"
| "cell_value (it, jc) C_found = of_bool (wi_found_submitted it)"
| "cell_value (it, jc) (C_midstate i) = ucast (midstate_le jc ! i)"

definition slot_cells :: "cell set" where
  "slot_cells = set ([C_work_id, C_source_id, C_version, C_ntime, C_nbits, C_nonce_start, C_vmask, C_ntime_min, C_ntime_max,
     C_en2_size, C_clean, C_active, C_found] @ concat (map (\<lambda>i. [C_prevhash i, C_merkle i, C_share i, C_block i, C_midstate i]) [0..<8]))"

text \<open>The structs that have given cells.\<close>

definition of_cells :: "(cell \<Rightarrow> u64) \<Rightarrow> publication" where
  "of_cells v = (\<lparr>wi_work_id = v C_work_id, wi_source_id = ucast (v C_source_id), wi_version = ucast (v C_version),
     wi_ntime = ucast (v C_ntime), wi_nbits = ucast (v C_nbits), wi_nonce_start = ucast (v C_nonce_start),
     wi_prevhash_le = map (\<lambda>i. ucast (v (C_prevhash i))) [0..<8], wi_merkle_root_le = map (\<lambda>i. ucast (v (C_merkle i))) [0..<8],
     wi_share_target_le = map (\<lambda>i. ucast (v (C_share i))) [0..<8], wi_block_target_le = map (\<lambda>i. ucast (v (C_block i))) [0..<8],
     wi_vmask = ucast (v C_vmask), wi_ntime_min = ucast (v C_ntime_min), wi_ntime_max = ucast (v C_ntime_max),
     wi_extranonce2_size = ucast (v C_en2_size), wi_clean_jobs = (v C_clean \<noteq> 0), wi_active = (v C_active \<noteq> 0),
     wi_found_submitted = (v C_found \<noteq> 0)\<rparr>, \<lparr>midstate_le = map (\<lambda>i. ucast (v (C_midstate i))) [0..<8]\<rparr>)"

definition snapshot_of :: "u64 \<Rightarrow> (cell \<Rightarrow> u64) \<Rightarrow> WorkSlotSnapshot" where
  "snapshot_of g v = \<lparr>snap_gen = g, snap_item = fst (of_cells v), snap_const = snd (of_cells v)\<rparr>"

text \<open>What is still to be copied.\<close>

datatype writer = W_idle | W_copy publication "cell set"

datatype reader = R_idle | R_copy u64 "cell set" "cell \<Rightarrow> u64" | R_done WorkSlotSnapshot

record slot_race =
  rc_gen :: u64
  rc_cells :: "cell \<Rightarrow> u64"
  rc_writer :: writer
  rc_reader :: reader
  rc_hist :: "publication list"
  rc_done :: nat

inductive race_step :: "slot_race \<Rightarrow> slot_race \<Rightarrow> bool" where
  set_call: "rc_writer s = W_idle \<Longrightarrow>
    race_step s (s\<lparr>rc_writer := W_copy new slot_cells, rc_hist := rc_hist s @ [new]\<rparr>)"
| set_cell: "rc_writer s = W_copy new rem \<Longrightarrow> c \<in> rem \<Longrightarrow>
    race_step s (s\<lparr>rc_cells := (rc_cells s)(c := cell_value new c), rc_writer := W_copy new (rem - {c})\<rparr>)"
| set_gen: "rc_writer s = W_copy new {} \<Longrightarrow>
    race_step s (s\<lparr>rc_gen := rc_gen s + 1, rc_writer := W_idle, rc_done := rc_done s + 1\<rparr>)"
| get_gen: "rc_reader s = R_idle \<or> rc_reader s = R_done sn \<Longrightarrow>
    race_step s (s\<lparr>rc_reader := R_copy (rc_gen s) slot_cells (\<lambda>c. 0)\<rparr>)"
| get_cell: "rc_reader s = R_copy g rem got \<Longrightarrow> c \<in> rem \<Longrightarrow>
    race_step s (s\<lparr>rc_reader := R_copy g (rem - {c}) (got(c := rc_cells s c))\<rparr>)"
| get_return: "rc_reader s = R_copy g {} got \<Longrightarrow> race_step s (s\<lparr>rc_reader := R_done (snapshot_of g got)\<rparr>)"

definition race_init :: slot_race where
  "race_init = \<lparr>rc_gen = 0, rc_cells = cell_value (default_item, default_const), rc_writer = W_idle, rc_reader = R_idle,
     rc_hist = [], rc_done = 0\<rparr>"

definition race_reachable :: "slot_race \<Rightarrow> bool" where
  "race_reachable s \<longleftrightarrow> race_step\<^sup>*\<^sup>* race_init s"

text \<open>What the slot was to hold after \<open>k\<close> calls of \<^verbatim>\<open>set\<close>.\<close>

definition published :: "publication list \<Rightarrow> nat \<Rightarrow> publication" where
  "published h k = (if k = 0 then (default_item, default_const) else h ! (k - 1))"

definition snap_cell :: "WorkSlotSnapshot \<Rightarrow> cell \<Rightarrow> u64" where
  "snap_cell sn = cell_value (snap_item sn, snap_const sn)"

lemma in_slot_cells:
  "c \<in> slot_cells \<longleftrightarrow> (case c of C_prevhash i \<Rightarrow> i < 8 | C_merkle i \<Rightarrow> i < 8 | C_share i \<Rightarrow> i < 8 | C_block i \<Rightarrow> i < 8
     | C_midstate i \<Rightarrow> i < 8 | _ \<Rightarrow> True)"
  by (auto simp: slot_cells_def split: cell.splits)

lemma finite_slot_cells [simp]: "finite slot_cells"
  by (simp add: slot_cells_def)

lemma ucast_ucast_cell [simp]:
  "ucast (ucast (w :: u32) :: u64) = w" "ucast (ucast (b :: u8) :: u64) = b"
  by (rule bit_word_eqI; simp add: bit_simps)+

text \<open>Reading the cells of a publication gives its values back, cell by cell and, for arrays of eight words, as
  a whole.\<close>

lemma snap_cell_of: "c \<in> slot_cells \<Longrightarrow> v c = cell_value x c \<Longrightarrow> snap_cell (snapshot_of g v) c = cell_value x c"
  by (cases x; cases c) (simp_all add: in_slot_cells snap_cell_def snapshot_of_def of_cells_def)

lemma of_cells_value:
  assumes "length (wi_prevhash_le it) = 8" "length (wi_merkle_root_le it) = 8" "length (wi_share_target_le it) = 8"
    "length (wi_block_target_le it) = 8" "length (midstate_le jc) = 8"
  shows "of_cells (cell_value (it, jc)) = (it, jc)"
proof -
  have word: "map ((!) xs) [0..<8] = xs" if "length xs = 8" for xs :: "u32 list"
    using that by (intro nth_equalityI) simp_all
  show ?thesis using assms by (cases it; cases jc) (simp add: of_cells_def word)
qed

lemma of_cells_cong: "(\<And>c. c \<in> slot_cells \<Longrightarrow> v c = w c) \<Longrightarrow> of_cells v = of_cells w"
  by (simp add: of_cells_def in_slot_cells)

section \<open>Invariants of the race\<close>

definition writer_inv :: "slot_race \<Rightarrow> bool" where
  "writer_inv s \<longleftrightarrow> rc_gen s = of_nat (rc_done s) \<and>
     (let h = rc_hist s; d = rc_done s
      in case rc_writer s of
           W_idle \<Rightarrow> length h = d \<and> (\<forall>c \<in> slot_cells. rc_cells s c = cell_value (published h d) c)
         | W_copy new rem \<Rightarrow> length h = d + 1 \<and> published h (d + 1) = new \<and>
             (\<forall>c \<in> slot_cells. rc_cells s c = cell_value (if c \<in> rem then published h d else new) c))"

text \<open>A value that call number \<open>m\<close> or a later one stored or was to store.\<close>

definition fresh :: "publication list \<Rightarrow> nat \<Rightarrow> cell \<Rightarrow> u64 \<Rightarrow> bool" where
  "fresh h m c v \<longleftrightarrow> (\<exists>i. m \<le> i \<and> i \<le> length h \<and> v = cell_value (published h i) c)"

definition reader_inv :: "slot_race \<Rightarrow> bool" where
  "reader_inv s \<longleftrightarrow>
     (case rc_reader s of
        R_idle \<Rightarrow> True
      | R_copy g rem got \<Rightarrow> (\<exists>m \<le> rc_done s. g = of_nat m \<and> (\<forall>c \<in> slot_cells - rem. fresh (rc_hist s) m c (got c)))
      | R_done sn \<Rightarrow> (\<exists>m \<le> rc_done s. snap_gen sn = of_nat m \<and> (\<forall>c \<in> slot_cells. fresh (rc_hist s) m c (snap_cell sn c))))"

lemma published_append: "k \<le> length h \<Longrightarrow> published (h @ xs) k = published h k"
  by (auto simp: published_def nth_append)

lemma published_last [simp]: "length h = n \<Longrightarrow> published (h @ [x]) (Suc n) = x"
  by (auto simp: published_def)

lemma fresh_append: "fresh h m c v \<Longrightarrow> fresh (h @ xs) m c v"
  by (auto simp: fresh_def published_append intro: exI [of _ i for i] le_trans)

lemma fresh_now:
  assumes "writer_inv s" and "m \<le> rc_done s" and "c \<in> slot_cells"
  shows "fresh (rc_hist s) m c (rc_cells s c)"
proof (cases "rc_writer s")
  case W_idle
  then show ?thesis using assms by (auto simp: writer_inv_def fresh_def Let_def)
next
  case (W_copy new rem)
  then have inv: "length (rc_hist s) = rc_done s + 1" "published (rc_hist s) (rc_done s + 1) = new"
    "rc_cells s c = cell_value (if c \<in> rem then published (rc_hist s) (rc_done s) else new) c"
    using assms(1,3) by (simp_all add: writer_inv_def Let_def)
  show ?thesis unfolding fresh_def
    using assms(2) inv by (intro exI [of _ "if c \<in> rem then rc_done s else rc_done s + 1"]) simp
qed

lemma writer_inv_reader [simp]: "writer_inv (s\<lparr>rc_reader := x\<rparr>) = writer_inv s"
  by (cases s) (simp add: writer_inv_def split: writer.split)

lemma race_step_writer_inv: "race_step s t \<Longrightarrow> writer_inv s \<Longrightarrow> writer_inv t"
proof (induction rule: race_step.induct)
  case (set_call s new)
  then show ?case by (simp add: writer_inv_def Let_def published_append)
next
  case (set_cell s new rem c)
  then show ?case by (auto simp: writer_inv_def Let_def)
next
  case (set_gen s new)
  then show ?case by (simp add: writer_inv_def Let_def)
qed simp_all

lemma race_step_reader_inv:
  assumes "race_step s t" and "writer_inv s" and "reader_inv s"
  shows "reader_inv t"
  using assms
proof (induction rule: race_step.induct)
  case (set_call s new)
  then show ?case by (auto simp: reader_inv_def fresh_append split: reader.splits)
next
  case (set_cell s new rem c)
  then show ?case by (simp add: reader_inv_def split: reader.splits)
next
  case (set_gen s new)
  then show ?case by (auto simp: reader_inv_def split: reader.splits intro: le_SucI)
next
  case (get_gen s sn)
  then show ?case by (auto simp: reader_inv_def writer_inv_def)
next
  case (get_cell s g rem got c)
  then obtain m where m: "m \<le> rc_done s" "g = of_nat m" "\<forall>c \<in> slot_cells - rem. fresh (rc_hist s) m c (got c)"
    by (auto simp: reader_inv_def)
  then show ?case using fresh_now [OF get_cell(3) m(1)] by (auto simp: reader_inv_def)
next
  case (get_return s g got)
  then obtain m where m: "m \<le> rc_done s" "g = of_nat m" "\<forall>c \<in> slot_cells. fresh (rc_hist s) m c (got c)"
    by (auto simp: reader_inv_def)
  have "fresh (rc_hist s) m c (snap_cell (snapshot_of g got) c)" if "c \<in> slot_cells" for c
    using m(3) that snap_cell_of [OF that] by (metis fresh_def)
  then show ?case using m(1,2) by (auto simp: reader_inv_def snapshot_of_def)
qed

lemma race_inv: "race_reachable s \<Longrightarrow> writer_inv s \<and> reader_inv s"
  unfolding race_reachable_def
proof (induction rule: rtranclp_induct)
  case base
  then show ?case by (simp add: race_init_def writer_inv_def reader_inv_def published_def)
next
  case (step s t)
  then show ?case using race_step_writer_inv race_step_reader_inv by blast
qed

inductive_simps race_step_simps: "race_step s t"

section \<open>Runs\<close>

text \<open>A writer that stores the cells of a set, and a reader that loads all of them, undisturbed.\<close>

lemma store_cells:
  assumes "finite C" and "C \<subseteq> rem" and "rc_writer s = W_copy new rem"
  shows "race_step\<^sup>*\<^sup>* s (s\<lparr>rc_cells := override_on (rc_cells s) (cell_value new) C, rc_writer := W_copy new (rem - C)\<rparr>)"
  using assms
proof (induction C)
  case empty
  then show ?case by (cases s) simp
next
  case (insert c C)
  let ?s = "s\<lparr>rc_cells := override_on (rc_cells s) (cell_value new) C, rc_writer := W_copy new (rem - C)\<rparr>"
  have "race_step\<^sup>*\<^sup>* s ?s" using insert by simp
  moreover have "race_step ?s (?s\<lparr>rc_cells := (rc_cells ?s)(c := cell_value new c), rc_writer := W_copy new ((rem - C) - {c})\<rparr>)"
    using insert.hyps(2) insert.prems(1) by (intro set_cell) auto
  ultimately have "race_step\<^sup>*\<^sup>* s (?s\<lparr>rc_cells := (rc_cells ?s)(c := cell_value new c), rc_writer := W_copy new ((rem - C) - {c})\<rparr>)"
    by (rule rtranclp.rtrancl_into_rtrancl)
  then show ?case by (simp add: override_on_insert Diff_insert [of rem c C] fun_upd_def)
qed

lemma load_cells:
  assumes "finite C" and "C \<subseteq> rem" and "rc_reader s = R_copy g rem got"
  shows "race_step\<^sup>*\<^sup>* s (s\<lparr>rc_reader := R_copy g (rem - C) (override_on got (rc_cells s) C)\<rparr>)"
  using assms
proof (induction C)
  case empty
  then show ?case by (cases s) simp
next
  case (insert c C)
  let ?s = "s\<lparr>rc_reader := R_copy g (rem - C) (override_on got (rc_cells s) C)\<rparr>"
  have "race_step\<^sup>*\<^sup>* s ?s" using insert by simp
  moreover have "race_step ?s (?s\<lparr>rc_reader := R_copy g ((rem - C) - {c}) ((override_on got (rc_cells s) C)(c := rc_cells ?s c))\<rparr>)"
    using insert.hyps(2) insert.prems(1) by (intro get_cell) auto
  ultimately have "race_step\<^sup>*\<^sup>* s (?s\<lparr>rc_reader := R_copy g ((rem - C) - {c}) ((override_on got (rc_cells s) C)(c := rc_cells ?s c))\<rparr>)"
    by (rule rtranclp.rtrancl_into_rtrancl)
  then show ?case by (simp add: override_on_insert Diff_insert [of rem c C] fun_upd_def)
qed

lemma load_snapshot:
  assumes "rc_reader s = R_idle"
  shows "\<exists>v. (\<forall>c \<in> slot_cells. v c = rc_cells s c) \<and> race_step\<^sup>*\<^sup>* s (s\<lparr>rc_reader := R_done (snapshot_of (rc_gen s) v)\<rparr>)"
proof -
  let ?v = "override_on (\<lambda>c. 0) (rc_cells s) slot_cells"
  let ?s1 = "s\<lparr>rc_reader := R_copy (rc_gen s) slot_cells (\<lambda>c. 0)\<rparr>"
  let ?s2 = "?s1\<lparr>rc_reader := R_copy (rc_gen s) {} ?v\<rparr>"
  have "race_step s ?s1" using assms by (intro get_gen) simp
  moreover have "race_step\<^sup>*\<^sup>* ?s1 ?s2"
    using load_cells [of slot_cells slot_cells ?s1 "rc_gen s" "\<lambda>c. 0"] by simp
  moreover have "race_step ?s2 (?s2\<lparr>rc_reader := R_done (snapshot_of (rc_gen s) ?v)\<rparr>)" by (rule get_return) simp
  ultimately have "race_step\<^sup>*\<^sup>* s (?s2\<lparr>rc_reader := R_done (snapshot_of (rc_gen s) ?v)\<rparr>)"
    by (meson converse_rtranclp_into_rtranclp rtranclp.rtrancl_into_rtrancl)
  then show ?thesis by (intro exI [of _ ?v]) simp
qed

section \<open>Properties\<close>

text \<open>The registry keeps the last publication of every slot. After any sequence of publications to
  slots of the registry, which all succeed, the snapshot of a slot holds the item and the job
  constants of the last publication to it (or is unchanged when there was none), and its generation
  has grown by their number, modulo \<open>2 ^ 64\<close>.\<close>

theorem registry_last_publication:
  assumes "\<forall>op \<in> set ops. fst op < length slots" and "registry_get slots j = Some old"
  shows "\<exists>slots' new. publish_all registry_set slots ops = Inr slots' \<and> length slots' = length slots \<and>
    registry_get slots' j = Some new \<and>
    snap_gen new = snap_gen old + of_nat (length (filter (\<lambda>op. fst op = j) ops)) \<and>
    (if filter (\<lambda>op. fst op = j) ops = [] then new = old
     else (snap_item new, snap_const new) = snd (last (filter (\<lambda>op. fst op = j) ops)))"
proof -
  obtain t where t: "publish_all registry_set slots ops = Inr t"
    using registry.publish_all_ok [OF assms(1)] by blast
  from registry.publish_all_gen [OF t assms(2)] registry.publish_all_size [OF t] t
  show ?thesis by (intro exI [of _ t]) simp
qed

theorem registry_last_publication_witness:
  "\<exists>slots' new. publish_all registry_set [default_slot, default_slot]
      [(1, default_item, default_const), (0, default_item\<lparr>wi_work_id := 7\<rparr>, default_const)] = Inr slots' \<and>
     registry_get slots' 0 = Some new \<and> snap_gen new = 1 \<and> wi_work_id (snap_item new) = 7"
proof -
  have "registry_get [default_slot, default_slot] 0 =
      Some \<lparr>snap_gen = 0, snap_item = default_item, snap_const = default_const\<rparr>"
    by (simp add: registry_get_def default_slot_def)
  from registry_last_publication [OF _ this,
      of "[(1, default_item, default_const), (0, default_item\<lparr>wi_work_id := 7\<rparr>, default_const)]"]
  show ?thesis by auto
qed

text \<open>The error paths. A registry of no slots is refused, \<^verbatim>\<open>set\<close> outside the slots throws
  \<^verbatim>\<open>out_of_range\<close>, \<^verbatim>\<open>get\<close> there returns nothing, and a new registry has the default item with
  generation 0 in each of its slots.\<close>

lemma registry_range_errors:
  "registry_new 0 = Inl (Invalid_argument ''num_slots must be > 0'') \<and>
   (registry_set slots i it jc = Inl (Out_of_range ''slot_index'') \<longleftrightarrow> length slots \<le> i) \<and>
   (registry_get slots i = None \<longleftrightarrow> length slots \<le> i) \<and>
   (case registry_new (Suc n) of
      Inl e \<Rightarrow> False
    | Inr s \<Rightarrow> registry_get s i = (if i \<le> n then Some \<lparr>snap_gen = 0, snap_item = default_item,
                                                     snap_const = default_const\<rparr> else None))"
  by (auto simp: registry_new_def registry_set_def registry_get_def default_slot_def Let_def
      simp del: replicate_Suc)

text \<open>C30: what a concurrent reader may see. In every interleaving of the stores of \<^verbatim>\<open>set\<close>, member by member and
  in any order, with the loads of \<^verbatim>\<open>get\<close>, the generation of a snapshot is a number of finished calls of \<^verbatim>\<open>set\<close>,
  and every member of its item and of its job constants has the value of that publication or of a later
  one: what it says is there, or something newer, though not all from the same publication.\<close>

theorem snapshot_freshness:
  assumes "race_reachable s" and "rc_reader s = R_done sn"
  shows "\<exists>g \<le> rc_done s. snap_gen sn = of_nat g \<and>
    (\<forall>c \<in> slot_cells. \<exists>i. g \<le> i \<and> i \<le> length (rc_hist s) \<and> snap_cell sn c = cell_value (published (rc_hist s) i) c)"
  using race_inv [OF assms(1)] assms(2) by (simp add: reader_inv_def fresh_def)

text \<open>Without interference the race is the registry: a \<^verbatim>\<open>set\<close> followed by a \<^verbatim>\<open>get\<close> gives the snapshot that
  \<open>registry_set\<close> and \<open>registry_get\<close> give.\<close>

lemma race_sequential:
  assumes "length (wi_prevhash_le it) = 8" "length (wi_merkle_root_le it) = 8" "length (wi_share_target_le it) = 8"
    "length (wi_block_target_le it) = 8" "length (midstate_le jc) = 8"
  shows "\<exists>s sn slots. race_reachable s \<and> rc_hist s = [(it, jc)] \<and> rc_reader s = R_done sn \<and>
    registry_set [default_slot] 0 it jc = Inr slots \<and> registry_get slots 0 = Some sn"
proof -
  let ?v = "override_on (rc_cells race_init) (cell_value (it, jc)) slot_cells"
  let ?s1 = "race_init\<lparr>rc_writer := W_copy (it, jc) slot_cells, rc_hist := [(it, jc)]\<rparr>"
  let ?s2 = "?s1\<lparr>rc_cells := ?v, rc_writer := W_copy (it, jc) {}\<rparr>"
  let ?s3 = "?s2\<lparr>rc_gen := 1, rc_writer := W_idle, rc_done := 1\<rparr>"
  have "race_step race_init ?s1" using set_call [of race_init "(it, jc)"] by (simp add: race_init_def)
  moreover have "race_step\<^sup>*\<^sup>* ?s1 ?s2" using store_cells [of slot_cells slot_cells ?s1 "(it, jc)"] by simp
  moreover have "race_step ?s2 ?s3" using set_gen [of ?s2 "(it, jc)"] by (simp add: race_init_def)
  ultimately have s3: "race_reachable ?s3"
    unfolding race_reachable_def by (meson converse_rtranclp_into_rtranclp rtranclp.rtrancl_into_rtrancl)
  obtain v where v: "\<forall>c \<in> slot_cells. v c = cell_value (it, jc) c"
    "race_step\<^sup>*\<^sup>* ?s3 (?s3\<lparr>rc_reader := R_done (snapshot_of 1 v)\<rparr>)"
    using load_snapshot [of ?s3] by (auto simp: race_init_def)
  have "of_cells v = (it, jc)" using of_cells_cong [of v "cell_value (it, jc)"] v(1) of_cells_value [OF assms] by simp
  then have "snapshot_of 1 v = \<lparr>snap_gen = 1, snap_item = it, snap_const = jc\<rparr>" by (simp add: snapshot_of_def)
  then show ?thesis
    using s3 v(2) unfolding race_reachable_def
    by (intro exI [of _ "?s3\<lparr>rc_reader := R_done (snapshot_of 1 v)\<rparr>"])
      (auto simp: registry_set_def registry_get_def default_slot_def intro: rtranclp_trans)
qed

theorem snapshot_freshness_witness:
  "\<exists>s sn. race_reachable s \<and> rc_reader s = R_done sn \<and> snap_gen sn = 1 \<and> wi_work_id (snap_item sn) = 7"
proof -
  let ?it = "default_item\<lparr>wi_work_id := 7\<rparr>"
  obtain s sn where s: "race_reachable s" "rc_hist s = [(?it, default_const)]" "rc_reader s = R_done sn" "snap_gen sn = 1"
    using race_sequential [of ?it default_const]
    by (auto simp: default_item_def default_const_def zero8_def registry_set_def registry_get_def default_slot_def)
  obtain g where g: "snap_gen sn = of_nat g" "\<forall>c \<in> slot_cells. \<exists>i. g \<le> i \<and> i \<le> length (rc_hist s) \<and>
      snap_cell sn c = cell_value (published (rc_hist s) i) c"
    using snapshot_freshness [OF s(1,3)] by blast
  have "C_work_id \<in> slot_cells" by (simp add: in_slot_cells)
  then obtain i where i: "g \<le> i" "i \<le> 1" "snap_cell sn C_work_id = cell_value (published (rc_hist s) i) C_work_id"
    using g(2) s(2) by fastforce
  have "g \<noteq> 0"
  proof
    assume "g = 0"
    then have "snap_gen sn = 0" using g(1) by simp
    then show False using s(4) by simp
  qed
  then have "i = 1" using i(1,2) by simp
  then have "wi_work_id (snap_item sn) = 7" using i(3) s(2) by (simp add: snap_cell_def published_def)
  then show ?thesis using s by blast
qed

text \<open>Bumping the generation last does not make a snapshot consistent. For every publication and every set of
  members there is an interleaving in which \<^verbatim>\<open>get\<close> returns these members of the new publication with all
  others, the midstate for example, of the old one, under the old generation.\<close>

theorem torn_snapshot_reachable:
  assumes "C \<subseteq> slot_cells"
  shows "\<exists>s sn. race_reachable s \<and> rc_reader s = R_done sn \<and> rc_hist s = [new] \<and> snap_gen sn = 0 \<and>
    (\<forall>c \<in> slot_cells. snap_cell sn c = cell_value (if c \<in> C then new else (default_item, default_const)) c)"
proof -
  let ?v = "override_on (rc_cells race_init) (cell_value new) C"
  let ?s1 = "race_init\<lparr>rc_writer := W_copy new slot_cells, rc_hist := [new]\<rparr>"
  let ?s2 = "?s1\<lparr>rc_cells := ?v, rc_writer := W_copy new (slot_cells - C)\<rparr>"
  have "finite C" using assms finite_slot_cells by (rule finite_subset)
  then have "race_step\<^sup>*\<^sup>* ?s1 ?s2" using store_cells [of C slot_cells ?s1 new] assms by simp
  moreover have "race_step race_init ?s1" using set_call [of race_init new] by (simp add: race_init_def)
  ultimately have s2: "race_reachable ?s2" unfolding race_reachable_def by (meson converse_rtranclp_into_rtranclp)
  obtain v where v: "\<forall>c \<in> slot_cells. v c = ?v c" "race_step\<^sup>*\<^sup>* ?s2 (?s2\<lparr>rc_reader := R_done (snapshot_of 0 v)\<rparr>)"
    using load_snapshot [of ?s2] by (auto simp: race_init_def)
  have "snap_cell (snapshot_of 0 v) c = cell_value (if c \<in> C then new else (default_item, default_const)) c" if "c \<in> slot_cells" for c
    by (rule snap_cell_of [OF that]) (use v(1) that in \<open>simp add: race_init_def\<close>)
  moreover have "snap_gen (snapshot_of 0 v) = 0" by (simp add: snapshot_of_def)
  moreover have "race_reachable (?s2\<lparr>rc_reader := R_done (snapshot_of 0 v)\<rparr>)"
    using s2 v(2) unfolding race_reachable_def by (rule rtranclp_trans)
  ultimately show ?thesis
    by (intro exI [of _ "?s2\<lparr>rc_reader := R_done (snapshot_of 0 v)\<rparr>"] exI [of _ "snapshot_of 0 v"]) simp
qed

theorem torn_snapshot_reachable_witness:
  "\<exists>s sn. race_reachable s \<and> rc_reader s = R_done sn \<and> wi_work_id (snap_item sn) = 7 \<and> wi_version (snap_item sn) = 0"
proof -
  have cells: "C_work_id \<in> slot_cells" "C_version \<in> slot_cells" by (simp_all add: in_slot_cells)
  then obtain s sn where s: "race_reachable s" "rc_reader s = R_done sn" and sn: "\<forall>c \<in> slot_cells. snap_cell sn c =
      cell_value (if c \<in> {C_work_id} then (default_item\<lparr>wi_work_id := 7, wi_version := 5\<rparr>, default_const)
        else (default_item, default_const)) c"
    using torn_snapshot_reachable [of "{C_work_id}" "(default_item\<lparr>wi_work_id := 7, wi_version := 5\<rparr>, default_const)"] by blast
  have "ucast (wi_version (snap_item sn)) = (0 :: u64)" "wi_work_id (snap_item sn) = 7"
    using bspec [OF sn cells(1)] bspec [OF sn cells(2)] by (simp_all add: snap_cell_def default_item_def)
  then have "wi_version (snap_item sn) = 0" by (metis ucast_ucast_cell(1) unsigned_0)
  then show ?thesis using s \<open>wi_work_id (snap_item sn) = 7\<close> by blast
qed

end
