(* ===== verification/Block_Hash.thy ===== *)
theory Block_Hash
  imports Miner_Prelude
begin

text \<open>
  The iterated hash construction, independent of the compression function: \<open>md_blocks\<close> folds a
  compression function over the complete 64-byte blocks of a message, \<open>md_pad\<close> is the padding of
  FIPS 180-4 (a one bit, zeros, the bit length as eight big-endian bytes) and \<open>md_hash\<close> the hash.
  The locale \<open>block_hash\<close> is the interface between an implementation of the compression function
  and its users. The CPU verifier, the midstate precomputation and the device code each have their
  own copy of the compression function and each interprets it.
\<close>

type_synonym compression = "u32 list \<Rightarrow> u8 list \<Rightarrow> u32 list"

function md_blocks :: "compression \<Rightarrow> u32 list \<Rightarrow> u8 list \<Rightarrow> u32 list" where
  "md_blocks cf st bs =
     (if length bs < 64 then st else md_blocks cf (cf st (take 64 bs)) (drop 64 bs))"
  by pat_completeness auto
termination
  by (relation "measure (\<lambda>(cf, st, bs). length bs)") auto

declare md_blocks.simps [simp del]

definition md_rest :: "u8 list \<Rightarrow> u8 list" where
  "md_rest bs = drop (64 * (length bs div 64)) bs"

definition u64_be_bytes :: "u64 \<Rightarrow> u8 list" where
  "u64_be_bytes n = map (\<lambda>k. ucast (drop_bit (56 - 8 * k) n)) [0..<8]"

definition md_pad :: "u8 list \<Rightarrow> u8 list" where
  "md_pad msg = msg @ 0x80 # replicate ((119 - length msg mod 64) mod 64) 0 @
     u64_be_bytes (of_nat (8 * length msg))"

definition words_be :: "u32 list \<Rightarrow> u8 list" where
  "words_be ws = concat (map word_be_bytes ws)"

definition md_hash :: "compression \<Rightarrow> u32 list \<Rightarrow> u8 list \<Rightarrow> u8 list" where
  "md_hash cf iv msg = words_be (md_blocks cf iv (md_pad msg))"

lemma md_blocks_short [simp]: "length bs < 64 \<Longrightarrow> md_blocks cf st bs = st"
  by (simp add: md_blocks.simps)

lemma md_blocks_block: "length b = 64 \<Longrightarrow> md_blocks cf st (b @ bs) = md_blocks cf (cf st b) bs"
  by (simp add: md_blocks.simps [of cf st "b @ bs"])

lemma md_blocks_one [simp]: "length b = 64 \<Longrightarrow> md_blocks cf st b = cf st b"
  using md_blocks_block [of b cf st "[]"] by simp

lemma md_rest_short [simp]: "length bs < 64 \<Longrightarrow> md_rest bs = bs"
  by (simp add: md_rest_def)

lemma md_rest_block: "length b = 64 \<Longrightarrow> md_rest (b @ bs) = md_rest bs"
proof -
  have "(64 + length bs) div 64 = Suc (length bs div 64)" by simp
  then show "length b = 64 \<Longrightarrow> md_rest (b @ bs) = md_rest bs" by (simp add: md_rest_def)
qed

lemma length_md_rest: "length (md_rest bs) = length bs mod 64"
  by (simp add: md_rest_def minus_mult_div_eq_mod)

text \<open>Hashing the complete blocks first and the rest with what follows is hashing the whole.\<close>

lemma md_blocks_split: "md_blocks cf st (bs @ cs) = md_blocks cf (md_blocks cf st bs) (md_rest bs @ cs)"
proof (induction cf st bs rule: md_blocks.induct)
  case (1 cf st bs)
  show ?case
  proof (cases "length bs < 64")
    case True
    then show ?thesis by simp
  next
    case False
    let ?b = "take 64 bs" and ?r = "drop 64 bs"
    have bs: "bs = ?b @ ?r" and b: "length ?b = 64" using False by simp_all
    have "md_blocks cf st (bs @ cs) = md_blocks cf (cf st ?b) (?r @ cs)"
      by (metis b append_assoc append_take_drop_id md_blocks_block)
    also have "\<dots> = md_blocks cf (md_blocks cf (cf st ?b) ?r) (md_rest ?r @ cs)"
      using "1.IH" False by simp
    also have "\<dots> = md_blocks cf (md_blocks cf st bs) (md_rest bs @ cs)"
      by (metis b append_take_drop_id md_blocks_block md_rest_block)
    finally show ?thesis .
  qed
qed

lemma length_u64_be_bytes [simp, width_simps]: "length (u64_be_bytes n) = 8"
  by (simp add: u64_be_bytes_def)

lemma u64_be_bytes_list:
  "u64_be_bytes n = [ucast (drop_bit 56 n), ucast (drop_bit 48 n), ucast (drop_bit 40 n),
     ucast (drop_bit 32 n), ucast (drop_bit 24 n), ucast (drop_bit 16 n), ucast (drop_bit 8 n),
     ucast n]"
  by (simp add: u64_be_bytes_def upt_rec)

lemma length_words_be [simp, width_simps]: "length (words_be ws) = 4 * length ws"
  by (simp add: words_be_def length_concat_map_fixed [where n = 4])

lemma md_pad_append:
  "md_pad (xs @ ys) = xs @ ys @ 0x80 # replicate ((119 - (length xs + length ys) mod 64) mod 64) 0 @
     u64_be_bytes (of_nat (8 * (length xs + length ys)))"
  by (simp add: md_pad_def)

lemma pad_zeros: "(119 - x) mod 64 = (if x \<le> 55 then 55 - x else 119 - x)" if "x < 64" for x :: nat
proof (cases "x \<le> 55")
  case True
  then have "(119 - x) mod 64 = (64 + (55 - x)) mod 64" by simp
  also have "\<dots> = 55 - x" by (simp only: mod_add_self1) simp
  finally show ?thesis using True by simp
next
  case False
  then show ?thesis by simp
qed

lemma length_md_pad: "64 dvd length (md_pad msg)"
proof -
  define x where "x = length msg mod 64"
  have x: "x < 64" by (simp add: x_def)
  have "length (md_pad msg) = length msg + 9 + (119 - x) mod 64"
    by (simp add: md_pad_def x_def)
  also have "\<dots> = 64 * (length msg div 64) + (x + 9 + (119 - x) mod 64)"
    by (simp add: x_def)
  also have "x + 9 + (119 - x) mod 64 = (if x \<le> 55 then 64 else 128)"
    unfolding pad_zeros [OF x] using x by simp
  finally show ?thesis by (simp split: if_splits)
qed

text \<open>The eight bytes the two CPU implementations store as the length: bytes 6 and 7 of the count are
  one place too low, byte 5 is missing. Below \<open>2 ^ 40\<close> bits these bytes are zero anyway.\<close>

definition code_len_bytes :: "u64 \<Rightarrow> u8 list" where
  "code_len_bytes n = [0, ucast (drop_bit 56 n), ucast (drop_bit 48 n), ucast (drop_bit 32 n),
     ucast (drop_bit 24 n), ucast (drop_bit 16 n), ucast (drop_bit 8 n), ucast n]"

lemma length_code_len_bytes [simp]: "length (code_len_bytes n) = 8"
  by (simp add: code_len_bytes_def)

lemma length_8_cases:
  assumes "length xs = 8"
  obtains a b c d e f g h where "xs = [a, b, c, d, e, f, g, h]"
  using assms by (auto simp: eval_nat_numeral length_Suc_conv)

lemma drop_bit_u64_0: "unat (n::u64) < 2 ^ k \<Longrightarrow> drop_bit k n = 0"
  by (metis div_less drop_bit_eq_div unat_drop_bit_eq unat_eq_zero)

lemma code_len_bytes_eq:
  assumes "unat n < 2 ^ 40"
  shows "code_len_bytes n = u64_be_bytes n"
proof -
  have "unat n < 2 ^ 48" "unat n < 2 ^ 56" using assms by simp_all
  with assms show ?thesis
    by (simp add: code_len_bytes_def u64_be_bytes_list drop_bit_u64_0)
qed

lemma of_nat_bits_bound: "n < 2 ^ 37 \<Longrightarrow> unat (of_nat (8 * n) :: u64) < 2 ^ 40"
  by (simp add: unat_of_nat del: of_nat_mult)

lemma nth_words_be:
  "length s = 8 \<Longrightarrow> concat (map (\<lambda>j. [byte_at 24 (s ! j), byte_at 16 (s ! j), byte_at 8 (s ! j),
     byte_at 0 (s ! j)]) [0..<8]) = words_be s"
  unfolding words_be_def word_be_bytes_def
  by (rule arg_cong [where f = concat], rule nth_equalityI) simp_all

locale block_hash =
  fixes cf :: compression and iv :: "u32 list"
  assumes iv_width: "length iv = 8"
    and cf_width: "length st = 8 \<Longrightarrow> length b = 64 \<Longrightarrow> length (cf st b) = 8"
begin

lemma md_blocks_width: "length st = 8 \<Longrightarrow> length (md_blocks cf st bs) = 8"
proof (induction "length bs" arbitrary: st bs rule: less_induct)
  case less
  then show ?case
    by (cases "length bs < 64") (simp_all add: md_blocks.simps [of cf st bs] cf_width)
qed

lemma digest_width: "length (md_hash cf iv msg) = 32"
  by (simp add: md_hash_def md_blocks_width iv_width)

text \<open>Resuming from the state after the first block gives the hash of the whole message.\<close>

lemma resume:
  assumes "length first = 64"
  shows "md_hash cf iv (first @ tail) =
     words_be (md_blocks cf (cf iv first) (tail @ 0x80 #
       replicate ((119 - length tail mod 64) mod 64) 0 @
       u64_be_bytes (of_nat (8 * (64 + length tail)))))"
  using assms by (simp add: md_hash_def md_pad_append md_blocks_block)

end

end
