(* ===== verification/Cpu_Sha256.thy ===== *)
theory Cpu_Sha256
  imports Block_Hash
begin

text \<open>
  The CPU hash of \<^verbatim>\<open>src/submit/cpu_verify.cc\<close>: \<^verbatim>\<open>SHA256Ctx\<close> with its 64-byte buffer, the compression
  function \<^verbatim>\<open>sha256_transform\<close>, the byte-wise \<^verbatim>\<open>sha256_update\<close>, the padding of \<^verbatim>\<open>sha256_final\<close>,
  and \<^verbatim>\<open>sha256\<close>, \<^verbatim>\<open>sha256d\<close>. The buffer of a fresh context is not initialised by the code, so
  \<open>sha256_from\<close> takes the context it starts from; a property shows that it does not matter.
  The schedule array \<^verbatim>\<open>m\<close> is the list of the words written so far.
\<close>

record SHA256Ctx =
  sc_bitlen :: u64
  sc_state :: "u32 list"
  sc_data :: "u8 list"
  sc_datalen :: nat

text \<open>The 64 round constants, written in decimal (the source has them in hexadecimal).\<close>

definition K_cpu :: "u32 list" where
  "K_cpu =
    [1116352408, 1899447441, 3049323471, 3921009573, 961987163, 1508970993, 2453635748, 2870763221,
     3624381080, 310598401, 607225278, 1426881987, 1925078388, 2162078206, 2614888103, 3248222580,
     3835390401, 4022224774, 264347078, 604807628, 770255983, 1249150122, 1555081692, 1996064986,
     2554220882, 2821834349, 2952996808, 3210313671, 3336571891, 3584528711, 113926993, 338241895,
     666307205, 773529912, 1294757372, 1396182291, 1695183700, 1986661051, 2177026350, 2456956037,
     2730485921, 2820302411, 3259730800, 3345764771, 3516065817, 3600352804, 4094571909, 275423344,
     430227734, 506948616, 659060556, 883997877, 958139571, 1322822218, 1537002063, 1747873779,
     1955562222, 2024104815, 2227730452, 2361852424, 2428436474, 2756734187, 3204031479, 3329325298]"

definition rotr :: "u32 \<Rightarrow> nat \<Rightarrow> u32" where
  "rotr x n = drop_bit n x OR push_bit (32 - n) x"

text \<open>The first 16 schedule words, then one word per step.\<close>

definition load_block :: "u8 list \<Rightarrow> u32 list" where
  "load_block d =
     map (\<lambda>i. be_word (d ! (4 * i)) (d ! (4 * i + 1)) (d ! (4 * i + 2)) (d ! (4 * i + 3))) [0..<16]"

definition schedule_step :: "nat \<Rightarrow> u32 list \<Rightarrow> u32 list" where
  "schedule_step i m =
     (let s0 = rotr (m ! (i - 15)) 7 XOR rotr (m ! (i - 15)) 18 XOR drop_bit 3 (m ! (i - 15));
          s1 = rotr (m ! (i - 2)) 17 XOR rotr (m ! (i - 2)) 19 XOR drop_bit 10 (m ! (i - 2))
      in m @ [m ! (i - 16) + s0 + m ! (i - 7) + s1])"

type_synonym regs = "u32 \<times> u32 \<times> u32 \<times> u32 \<times> u32 \<times> u32 \<times> u32 \<times> u32"

fun round_step :: "u32 list \<Rightarrow> nat \<Rightarrow> regs \<Rightarrow> regs" where
  "round_step m i (a, b, c, d, e, f, g, h) =
     (let S1 = rotr e 6 XOR rotr e 11 XOR rotr e 25;
          ch = (e AND f) XOR (NOT e AND g);
          temp1 = h + S1 + ch + K_cpu ! i + m ! i;
          S0 = rotr a 2 XOR rotr a 13 XOR rotr a 22;
          maj = (a AND b) XOR (a AND c) XOR (b AND c);
          temp2 = S0 + maj
      in (temp1 + temp2, a, b, c, d + temp1, e, f, g))"

definition regs_of :: "u32 list \<Rightarrow> regs" where
  "regs_of s = (s ! 0, s ! 1, s ! 2, s ! 3, s ! 4, s ! 5, s ! 6, s ! 7)"

fun add_regs :: "u32 list \<Rightarrow> regs \<Rightarrow> u32 list" where
  "add_regs s (a, b, c, d, e, f, g, h) =
     [s ! 0 + a, s ! 1 + b, s ! 2 + c, s ! 3 + d, s ! 4 + e, s ! 5 + f, s ! 6 + g, s ! 7 + h]"

definition sha256_transform :: "SHA256Ctx \<Rightarrow> u8 list \<Rightarrow> SHA256Ctx" where
  "sha256_transform ctx d =
     (let m = fold schedule_step [16..<64] (load_block d);
          r = fold (round_step m) [0..<64] (regs_of (sc_state ctx))
      in ctx\<lparr>sc_state := add_regs (sc_state ctx) r\<rparr>)"

definition sha256_init :: "SHA256Ctx \<Rightarrow> SHA256Ctx" where
  "sha256_init ctx = ctx\<lparr>sc_bitlen := 0, sc_datalen := 0,
     sc_state := [0x6a09e667, 0xbb67ae85, 0x3c6ef372, 0xa54ff53a,
               0x510e527f, 0x9b05688c, 0x1f83d9ab, 0x5be0cd19]\<rparr>"

definition update_byte :: "u8 \<Rightarrow> SHA256Ctx \<Rightarrow> SHA256Ctx" where
  "update_byte b ctx =
     (let c1 = ctx\<lparr>sc_data := (sc_data ctx)[sc_datalen ctx := b], sc_datalen := sc_datalen ctx + 1\<rparr>
      in if sc_datalen c1 = 64
         then (let c2 = sha256_transform c1 (sc_data c1)
               in c2\<lparr>sc_bitlen := sc_bitlen c2 + 512, sc_datalen := 0\<rparr>)
         else c1)"

definition sha256_update :: "SHA256Ctx \<Rightarrow> u8 list \<Rightarrow> SHA256Ctx" where
  "sha256_update ctx d = fold update_byte d ctx"

text \<open>\<^verbatim>\<open>while (i < lim) data[i++] = 0x00\<close> and \<^verbatim>\<open>memset(data, 0, n)\<close>\<close>

definition zero_fill :: "nat \<Rightarrow> nat \<Rightarrow> u8 list \<Rightarrow> u8 list" where
  "zero_fill i lim d = fold (\<lambda>k xs. xs[k := 0]) [i..<lim] d"

text \<open>The eight stores of the length field, in the order of the source.\<close>

definition store_bitlen :: "u64 \<Rightarrow> u8 list \<Rightarrow> u8 list" where
  "store_bitlen n d = d[63 := ucast n, 62 := ucast (drop_bit 8 n), 61 := ucast (drop_bit 16 n),
     60 := ucast (drop_bit 24 n), 59 := ucast (drop_bit 32 n), 58 := ucast (drop_bit 48 n),
     57 := ucast (drop_bit 56 n), 56 := 0]"

definition sha256_pad :: "SHA256Ctx \<Rightarrow> SHA256Ctx" where
  "sha256_pad ctx =
     (let i = sc_datalen ctx; d1 = (sc_data ctx)[i := 0x80]
      in if i < 56 then ctx\<lparr>sc_data := zero_fill (i + 1) 56 d1\<rparr>
         else (let c1 = ctx\<lparr>sc_data := zero_fill (i + 1) 64 d1\<rparr>; c2 = sha256_transform c1 (sc_data c1)
               in c2\<lparr>sc_data := zero_fill 0 56 (sc_data c2)\<rparr>))"

definition sha256_final :: "SHA256Ctx \<Rightarrow> u8 list" where
  "sha256_final ctx =
     (let c1 = sha256_pad ctx;
          c2 = c1\<lparr>sc_bitlen := sc_bitlen c1 + of_nat (sc_datalen c1 * 8)\<rparr>;
          c3 = c2\<lparr>sc_data := store_bitlen (sc_bitlen c2) (sc_data c2)\<rparr>;
          c4 = sha256_transform c3 (sc_data c3)
      in concat (map (\<lambda>j. [byte_at 24 (sc_state c4 ! j), byte_at 16 (sc_state c4 ! j),
                           byte_at 8 (sc_state c4 ! j), byte_at 0 (sc_state c4 ! j)]) [0..<8]))"

definition sha256_from :: "SHA256Ctx \<Rightarrow> u8 list \<Rightarrow> u8 list" where
  "sha256_from ctx0 d = sha256_final (sha256_update (sha256_init ctx0) d)"

definition fresh_ctx :: SHA256Ctx where
  "fresh_ctx = \<lparr>sc_bitlen = 0, sc_state = [], sc_data = replicate 64 0, sc_datalen = 0\<rparr>"

definition sha256 :: "u8 list \<Rightarrow> u8 list" where
  "sha256 d = sha256_from fresh_ctx d"

definition sha256d :: "u8 list \<Rightarrow> u8 list" where
  "sha256d d = sha256 (sha256 d)"

section \<open>The compression function\<close>

definition cpu_compress :: compression where
  "cpu_compress st b = sc_state (sha256_transform (fresh_ctx\<lparr>sc_state := st\<rparr>) b)"

definition cpu_iv :: "u32 list" where
  "cpu_iv = sc_state (sha256_init fresh_ctx)"

lemma sha256_transform_eq: "sha256_transform c b = c\<lparr>sc_state := cpu_compress (sc_state c) b\<rparr>"
  by (simp add: sha256_transform_def cpu_compress_def Let_def)

lemma length_add_regs [simp, width_simps]: "length (add_regs s r) = 8"
  by (induction s r rule: add_regs.induct) simp

interpretation cpu: block_hash cpu_compress cpu_iv
  by unfold_locales
    (simp_all add: cpu_iv_def sha256_init_def cpu_compress_def sha256_transform_def Let_def)

section \<open>Streaming: what the context holds while bytes arrive\<close>

definition ctx_rep :: "u32 list \<Rightarrow> u8 list \<Rightarrow> u64 \<Rightarrow> SHA256Ctx \<Rightarrow> bool" where
  "ctx_rep st buf n c \<longleftrightarrow> length (sc_data c) = 64 \<and> length buf < 64 \<and> sc_datalen c = length buf \<and>
     take (length buf) (sc_data c) = buf \<and> sc_state c = st \<and> sc_bitlen c = n"

lemma take_list_update_snoc:
  assumes "take n d = buf" and "length buf = n" and "n < length d"
  shows "take (Suc n) (d[n := b]) = buf @ [b]"
  using assms by (simp add: take_Suc_conv_app_nth)

lemma update_byte_rep:
  assumes "ctx_rep st buf n c"
  shows "if length buf = 63 then ctx_rep (cpu_compress st (buf @ [b])) [] (n + 512) (update_byte b c)
         else ctx_rep st (buf @ [b]) n (update_byte b c)"
proof -
  let ?d = "(sc_data c)[length buf := b]"
  have d: "length (sc_data c) = 64" "length buf < 64" "sc_datalen c = length buf"
    "take (length buf) (sc_data c) = buf" "sc_state c = st" "sc_bitlen c = n"
    using assms by (simp_all add: ctx_rep_def)
  have t: "take (Suc (length buf)) ?d = buf @ [b]"
    using d by (intro take_list_update_snoc) simp_all
  show ?thesis
  proof (cases "length buf = 63")
    case True
    then have "?d = buf @ [b]" using t d(1) by simp
    with True d show ?thesis
      by (simp add: ctx_rep_def update_byte_def Let_def sha256_transform_eq)
  next
    case False
    with t d show ?thesis by (simp add: ctx_rep_def update_byte_def Let_def)
  qed
qed

lemma sha256_update_rep:
  assumes "ctx_rep st buf n c"
  shows "ctx_rep (md_blocks cpu_compress st (buf @ xs)) (md_rest (buf @ xs))
           (n + 512 * of_nat (length (buf @ xs) div 64)) (sha256_update c xs)"
  using assms
proof (induction xs arbitrary: st buf n c)
  case Nil
  then have "length buf < 64" by (simp add: ctx_rep_def)
  with Nil show ?case by (simp add: sha256_update_def)
next
  case (Cons x xs)
  have upd: "sha256_update c (x # xs) = sha256_update (update_byte x c) xs"
    by (simp add: sha256_update_def)
  show ?case
  proof (cases "length buf = 63")
    case True
    then have b: "length (buf @ [x]) = 64" by simp
    have split: "buf @ x # xs = (buf @ [x]) @ xs" by simp
    have "length (buf @ x # xs) div 64 = Suc (length xs div 64)" using True by simp
    moreover have "ctx_rep (cpu_compress st (buf @ [x])) [] (n + 512) (update_byte x c)"
      using update_byte_rep [OF Cons.prems, of x] True by simp
    from Cons.IH [OF this] upd
    have "ctx_rep (md_blocks cpu_compress st (buf @ x # xs)) (md_rest (buf @ x # xs))
        (n + 512 + 512 * of_nat (length xs div 64)) (sha256_update c (x # xs))"
      unfolding split md_blocks_block [OF b] md_rest_block [OF b] by simp
    ultimately show ?thesis by (simp add: algebra_simps)
  next
    case False
    then have "ctx_rep st (buf @ [x]) n (update_byte x c)"
      using update_byte_rep [OF Cons.prems, of x] by simp
    from Cons.IH [OF this] show ?thesis by (simp add: upd)
  qed
qed

section \<open>Padding\<close>

lemma zero_fill_eq:
  "i \<le> lim \<Longrightarrow> lim \<le> length d \<Longrightarrow>
     zero_fill i lim d = take i d @ replicate (lim - i) 0 @ drop lim d"
proof (induction lim)
  case 0
  then show ?case by (simp add: zero_fill_def)
next
  case (Suc lim)
  show ?case
  proof (cases "i \<le> lim")
    case True
    then have "zero_fill i (Suc lim) d = (zero_fill i lim d)[lim := 0]"
      by (simp add: zero_fill_def)
    also have "\<dots> = take i d @ (replicate (lim - i) 0 @ drop lim d)[lim - i := 0]"
      using True Suc by (simp add: list_update_append)
    also have "\<dots> = take i d @ replicate (Suc lim - i) 0 @ drop (Suc lim) d"
      using True Suc.prems
      by (simp add: list_update_append Suc_diff_le replicate_append_same
          Cons_nth_drop_Suc [symmetric] del: replicate_Suc) (simp add: replicate_app_Cons_same)
    finally show ?thesis .
  next
    case False
    then have "i = Suc lim" using Suc.prems by simp
    then show ?thesis by (simp add: zero_fill_def)
  qed
qed

lemma store_bitlen_eq:
  assumes "length d = 64"
  shows "store_bitlen n d = take 56 d @ code_len_bytes n"
proof -
  have "length (drop 56 d) = 8" using assms by simp
  then obtain a b c e f g h i where s: "drop 56 d = [a, b, c, e, f, g, h, i]"
    by (rule length_8_cases)
  define p where "p = take 56 d"
  have p: "length p = 56" using assms by (simp add: p_def)
  have d: "d = p @ [a, b, c, e, f, g, h, i]" by (metis s p_def append_take_drop_id)
  show ?thesis
    unfolding d store_bitlen_def code_len_bytes_def by (simp add: list_update_append p)
qed

lemma length_cpu_compress [simp, width_simps]: "length (cpu_compress st b) = 8"
  by (simp add: cpu_compress_def sha256_transform_def Let_def)

lemma sha256_final_eq:
  assumes "length (sc_data (sha256_pad c)) = 64"
  shows "sha256_final c = words_be (cpu_compress (sc_state (sha256_pad c))
    (take 56 (sc_data (sha256_pad c)) @
     code_len_bytes (sc_bitlen (sha256_pad c) + of_nat (8 * sc_datalen (sha256_pad c)))))"
  using assms
  by (simp add: sha256_final_def Let_def sha256_transform_eq store_bitlen_eq nth_words_be mult.commute)

lemma sha256_final_rep:
  assumes "ctx_rep st buf n c"
  shows "sha256_final c = words_be (md_blocks cpu_compress st (buf @ 0x80 #
     replicate ((119 - length buf) mod 64) 0 @ code_len_bytes (n + of_nat (8 * length buf))))"
proof -
  define d1 where "d1 = (sc_data c)[length buf := 0x80]"
  have c: "length d1 = 64" "length buf < 64" "sc_datalen c = length buf" "sc_state c = st"
    "sc_bitlen c = n" "length (sc_data c) = 64"
    using assms by (simp_all add: ctx_rep_def d1_def)
  have t: "take (Suc (length buf)) d1 = buf @ [0x80]"
    unfolding d1_def using assms by (intro take_list_update_snoc) (simp_all add: ctx_rep_def)
  show ?thesis
  proof (cases "length buf < 56")
    case True
    let ?blk = "buf @ 0x80 # replicate (55 - length buf) 0"
    have "sc_data (sha256_pad c) = ?blk @ drop 56 d1"
      using True c t by (simp add: sha256_pad_def Let_def zero_fill_eq d1_def [symmetric])
    moreover have "length ?blk = 56" using True by simp
    ultimately have "take 56 (sc_data (sha256_pad c)) = ?blk" "length (sc_data (sha256_pad c)) = 64"
      using c(1) by (simp_all del: append.simps append_assoc)
    moreover have "sc_state (sha256_pad c) = st" "sc_bitlen (sha256_pad c) = n"
      "sc_datalen (sha256_pad c) = length buf"
      using True c by (simp_all add: sha256_pad_def Let_def)
    ultimately have "sha256_final c =
        words_be (cpu_compress st (?blk @ code_len_bytes (n + of_nat (8 * length buf))))"
      by (simp add: sha256_final_eq)
    then show ?thesis using True by (simp add: pad_zeros)
  next
    case False
    let ?b1 = "buf @ 0x80 # replicate (63 - length buf) 0"
    have d: "zero_fill (Suc (length buf)) 64 d1 = ?b1"
      using False c t by (subst zero_fill_eq) simp_all
    have pad: "sha256_pad c = c\<lparr>sc_state := cpu_compress st ?b1,
        sc_data := replicate 56 0 @ drop 56 ?b1\<rparr>"
      using False c d
      by (simp add: sha256_pad_def Let_def d1_def [symmetric] sha256_transform_eq zero_fill_eq)
    have b1: "length ?b1 = 64" using c(2) by simp
    have "sha256_final c = words_be (cpu_compress (cpu_compress st ?b1)
        (replicate 56 0 @ code_len_bytes (n + of_nat (8 * length buf))))"
      using c False by (subst sha256_final_eq) (simp_all add: pad)
    also have "\<dots> = words_be (md_blocks cpu_compress st
        (?b1 @ replicate 56 0 @ code_len_bytes (n + of_nat (8 * length buf))))"
      by (subst md_blocks_block [OF b1]) simp
    also have "?b1 @ replicate 56 0 @ ys = buf @ 0x80 # replicate (119 - length buf) (0::u8) @ ys" for ys
    proof -
      have "63 - length buf + 56 = 119 - length buf" using c(2) by simp
      then show ?thesis by (metis append.assoc append_Cons replicate_add)
    qed
    finally show ?thesis using False c(2) by (simp add: pad_zeros)
  qed
qed

lemma sha256_from_eq:
  assumes "length (sc_data ctx0) = 64"
  shows "sha256_from ctx0 msg = words_be (md_blocks cpu_compress cpu_iv (msg @ 0x80 #
     replicate ((119 - length msg mod 64) mod 64) 0 @ code_len_bytes (of_nat (8 * length msg))))"
proof -
  have "ctx_rep cpu_iv [] 0 (sha256_init ctx0)"
    using assms by (simp add: ctx_rep_def sha256_init_def cpu_iv_def)
  from sha256_update_rep [OF this, of msg]
  have rep: "ctx_rep (md_blocks cpu_compress cpu_iv msg) (md_rest msg)
     (512 * of_nat (length msg div 64)) (sha256_update (sha256_init ctx0) msg)" by simp
  have "512 * (length msg div 64) + 8 * (length msg mod 64) = 8 * length msg"
    using mult_div_mod_eq [of 64 "length msg"] by linarith
  then have "(512 * of_nat (length msg div 64) + of_nat (8 * length (md_rest msg)) :: u64) =
      of_nat (8 * length msg)"
    by (metis length_md_rest of_nat_add of_nat_mult of_nat_numeral)
  then show ?thesis
    unfolding sha256_from_def sha256_final_rep [OF rep] md_blocks_split [of _ cpu_iv msg]
    by (simp add: length_md_rest)
qed

lemma length_sha256_from: "length (sc_data ctx0) = 64 \<Longrightarrow> length (sha256_from ctx0 msg) = 32"
  by (simp add: sha256_from_eq cpu.md_blocks_width cpu.iv_width)

lemma length_sc_data_fresh [simp]: "length (sc_data fresh_ctx) = 64"
  by (simp add: fresh_ctx_def)

lemma length_sha256 [simp, width_simps]: "length (sha256 msg) = 32"
  by (simp add: sha256_def length_sha256_from)

lemma length_sha256d [simp, width_simps]: "length (sha256d msg) = 32"
  by (simp add: sha256d_def)

lemma sha256_md_hash: "length msg < 2 ^ 37 \<Longrightarrow> sha256 msg = md_hash cpu_compress cpu_iv msg"
  using code_len_bytes_eq [OF of_nat_bits_bound]
  by (simp add: sha256_def sha256_from_eq md_hash_def md_pad_def del: of_nat_mult)

end
