(* ===== verification/Fips_Sha256.thy ===== *)
theory Fips_Sha256
  imports Cpu_Sha256
begin

text \<open>
  SHA-256 as FIPS 180-4 defines it, independent of the code: the message schedule as a recursive
  function of the index, rotations of the word library, the constants as the leading bits of the
  fractional parts of roots of primes. The theory shows that the compression function of
  \<^verbatim>\<open>cpu_verify.cc\<close> is this one, so that \<^verbatim>\<open>submit::sha256\<close> computes the standard's hash.
\<close>

section \<open>The standard\<close>

definition fips_Ch :: "u32 \<Rightarrow> u32 \<Rightarrow> u32 \<Rightarrow> u32" where
  "fips_Ch x y z = (x AND y) XOR (NOT x AND z)"

definition fips_Maj :: "u32 \<Rightarrow> u32 \<Rightarrow> u32 \<Rightarrow> u32" where
  "fips_Maj x y z = (x AND y) XOR (x AND z) XOR (y AND z)"

definition fips_rot3 :: "nat \<Rightarrow> nat \<Rightarrow> nat \<Rightarrow> u32 \<Rightarrow> u32" where
  "fips_rot3 i j k x = word_rotr i x XOR word_rotr j x XOR word_rotr k x"

definition fips_rotsh :: "nat \<Rightarrow> nat \<Rightarrow> nat \<Rightarrow> u32 \<Rightarrow> u32" where
  "fips_rotsh i j k x = word_rotr i x XOR word_rotr j x XOR drop_bit k x"

fun fips_W :: "u8 list \<Rightarrow> nat \<Rightarrow> u32" where
  "fips_W b t =
     (if t < 16 then be_word (b ! (4 * t)) (b ! (4 * t + 1)) (b ! (4 * t + 2)) (b ! (4 * t + 3))
      else fips_rotsh 17 19 10 (fips_W b (t - 2)) + fips_W b (t - 7) +
           fips_rotsh 7 18 3 (fips_W b (t - 15)) + fips_W b (t - 16))"

declare fips_W.simps [simp del]

fun fips_round :: "u8 list \<Rightarrow> nat \<Rightarrow> regs \<Rightarrow> regs" where
  "fips_round blk t (a, b, c, d, e, f, g, h) =
     (let T1 = h + fips_rot3 6 11 25 e + fips_Ch e f g + K_cpu ! t + fips_W blk t;
          T2 = fips_rot3 2 13 22 a + fips_Maj a b c
      in (T1 + T2, a, b, c, d + T1, e, f, g))"

definition fips_compress :: compression where
  "fips_compress st blk = add_regs st (fold (fips_round blk) [0..<64] (regs_of st))"

text \<open>\<open>root_word d p k\<close>: \<open>k\<close> is the first 32 bits of the fractional part of the \<open>d\<close>-th root of \<open>p\<close>.
  The integer \<open>r * 2 ^ 32 + k\<close> is the root scaled by \<open>2 ^ 32\<close> and rounded down.\<close>

definition root_word_at :: "nat \<Rightarrow> int \<Rightarrow> int \<Rightarrow> u32 \<Rightarrow> bool" where
  "root_word_at d p r k \<longleftrightarrow>
     (let s = r * 4294967296 + uint k
      in 0 \<le> r \<and> s ^ d \<le> p * 4294967296 ^ d \<and> p * 4294967296 ^ d < (s + 1) ^ d)"

definition root_word :: "nat \<Rightarrow> int \<Rightarrow> u32 \<Rightarrow> bool" where
  "root_word d p k \<longleftrightarrow> (\<exists>r. root_word_at d p r k)"

definition primes64 :: "int list" where
  "primes64 =
    [2, 3, 5, 7, 11, 13, 17, 19, 23, 29, 31, 37, 41, 43, 47, 53, 59, 61, 67, 71, 73, 79, 83, 89, 97,
     101, 103, 107, 109, 113, 127, 131, 137, 139, 149, 151, 157, 163, 167, 173, 179, 181, 191, 193,
     197, 199, 211, 223, 227, 229, 233, 239, 241, 251, 257, 263, 269, 271, 277, 281, 283, 293, 307, 311]"

definition cube_floors :: "int list" where
  "cube_floors = replicate 4 1 @ replicate 5 2 @ replicate 9 3 @ replicate 12 4 @ replicate 17 5 @ replicate 17 6"

section \<open>Constants\<close>

lemma root_words:
  assumes "list_all (\<lambda>(p, r, k). root_word_at d p r k) (zip ps (zip rs ks))"
    and "length ps = length ks" and "length rs = length ks"
  shows "list_all2 (root_word d) ps ks"
proof (rule list_all2_all_nthI [OF assms(2)])
  fix i assume "i < length ps"
  with assms have "root_word_at d (ps ! i) (rs ! i) (ks ! i)"
    by (auto simp: list_all_length)
  then show "root_word d (ps ! i) (ks ! i)" by (auto simp: root_word_def)
qed

lemma K_cpu_roots: "list_all2 (root_word 3) primes64 K_cpu"
proof (rule root_words)
  show "list_all (\<lambda>(p, r, k). root_word_at 3 p r k) (zip primes64 (zip cube_floors K_cpu))"
    by code_simp
  show "length primes64 = length K_cpu" "length cube_floors = length K_cpu" by code_simp+
qed

lemma cpu_iv_roots: "list_all2 (root_word 2) (take 8 primes64) cpu_iv"
proof (rule root_words)
  show "list_all (\<lambda>(p, r, k). root_word_at 2 p r k)
      (zip (take 8 primes64) (zip [1, 1, 2, 2, 3, 3, 4, 4] cpu_iv))"
    by code_simp
  show "length (take 8 primes64) = length cpu_iv" "length [1, 1, 2, 2, 3, 3, 4, 4 :: int] = length cpu_iv"
    by code_simp+
qed

section \<open>The compression function\<close>

lemma rotr_word_rotr:
  assumes "0 < n" and "n < 32"
  shows "rotr x n = word_rotr n x"
proof (rule bit_word_eqI)
  fix k assume "k < LENGTH(32)"
  then have k: "k < 32" by simp
  then have "(k + n) mod 32 = (if k + n < 32 then k + n else k + n - 32)"
    using assms by (auto simp: not_less mod_if)
  moreover have "bit x j \<Longrightarrow> j < 32" for j using bit_imp_le_length [of x j] by simp
  ultimately show "bit (rotr x n) k = bit (word_rotr n x) k"
    using k assms by (auto simp: rotr_def bit_word_rotr_iff bit_simps add.commute)
qed

lemma schedule_fips:
  "n \<le> 48 \<Longrightarrow> fold schedule_step [16..<16 + n] (load_block b) = map (fips_W b) [0..<16 + n]"
proof (induction n)
  case 0
  then show ?case by (simp add: load_block_def fips_W.simps)
next
  case (Suc n)
  have upt: "[k..<16 + Suc n] = [k..<16 + n] @ [16 + n]" if "k \<le> 16" for k
    using that by (metis add_Suc_right le_trans le_add1 upt_Suc_append)
  have "fold schedule_step [16..<16 + Suc n] (load_block b) =
      schedule_step (16 + n) (map (fips_W b) [0..<16 + n])"
    unfolding upt [OF order_refl] using Suc by simp
  also have "\<dots> = map (fips_W b) [0..<16 + n] @ [fips_W b (16 + n)]"
    using fips_W.simps [of b "16 + n"]
    by (simp add: schedule_step_def Let_def fips_rotsh_def rotr_word_rotr add.commute add.left_commute)
  finally show ?case unfolding upt [OF le0] by simp
qed

lemma prod_cases8:
  obtains a b c d e f g h where "r = (a, b, c, d, e, f, g, h)"
  by (metis surj_pair)

lemma round_step_fips:
  assumes "i < 64"
  shows "round_step (map (fips_W b) [0..<64]) i r = fips_round b i r"
  using assms
  by (cases r rule: prod_cases8) (simp add: Let_def fips_rot3_def fips_Ch_def fips_Maj_def rotr_word_rotr)

lemma cpu_compress_fips: "cpu_compress = fips_compress"
proof (intro ext)
  fix st b
  have "fold schedule_step [16..<64] (load_block b) = map (fips_W b) [0..<64]"
    using schedule_fips [of 48 b] by simp
  moreover have "fold (round_step (map (fips_W b) [0..<64])) [0..<64] r = fold (fips_round b) [0..<64] r" for r
    by (rule fold_cong) (simp_all add: fun_eq_iff round_step_fips del: fips_round.simps)
  ultimately show "cpu_compress st b = fips_compress st b"
    by (simp add: cpu_compress_def sha256_transform_def fips_compress_def Let_def)
qed

lemma sha256_from_fips:
  assumes "length (sc_data ctx0) = 64" and "length msg < 2 ^ 37"
  shows "sha256_from ctx0 msg = md_hash fips_compress cpu_iv msg"
  using assms code_len_bytes_eq [OF of_nat_bits_bound [OF assms(2)]]
  by (simp add: sha256_from_eq md_hash_def md_pad_def cpu_compress_fips del: of_nat_mult)

lemma ucast_u8_drop_bit_0:
  assumes "(ucast (drop_bit k n) :: u8) = 0" and "drop_bit (k + 8) n = 0"
  shows "drop_bit k (n :: u64) = 0"
proof (rule bit_word_eqI)
  fix i assume "i < LENGTH(64)"
  have "bit (ucast (drop_bit k n) :: u8) j = bit (drop_bit k n) j" if "j < 8" for j
    using that by (simp add: bit_simps)
  then have lo: "\<not> bit n (k + j)" if "j < 8" for j using assms(1) that by (simp add: bit_simps)
  have "\<not> bit (drop_bit (k + 8) n) j" for j using assms(2) by simp
  then have hi: "\<not> bit n (k + 8 + j)" for j by (simp add: bit_simps)
  show "bit (drop_bit k n) i = bit 0 i"
    using lo [of i] hi [of "i - 8"] by (cases "i < 8") (auto simp: bit_simps)
qed

lemma code_len_bytes_iff: "code_len_bytes n = u64_be_bytes n \<longleftrightarrow> unat n < 2 ^ 40"
proof
  assume "code_len_bytes n = u64_be_bytes n"
  then have z: "(ucast (drop_bit 56 n) :: u8) = 0" "(ucast (drop_bit 48 n) :: u8) = 0"
    "(ucast (drop_bit 40 n) :: u8) = 0"
    unfolding code_len_bytes_def u64_be_bytes_list by (metis list.inject)+
  have "drop_bit 64 n = 0" by (rule bit_word_eqI) (auto simp: bit_simps dest: bit_imp_le_length)
  then have "drop_bit 56 n = 0" using ucast_u8_drop_bit_0 [OF z(1)] by simp
  then have "drop_bit 48 n = 0" using ucast_u8_drop_bit_0 [OF z(2)] by simp
  then have "drop_bit 40 n = 0" using ucast_u8_drop_bit_0 [OF z(3)] by simp
  then have "drop_bit 40 (unat n) = 0" by (metis unat_0 unat_drop_bit_eq)
  then show "unat n < 2 ^ 40" by (simp add: drop_bit_eq_div div_eq_0_iff)
next
  assume "unat n < 2 ^ 40"
  then show "code_len_bytes n = u64_be_bytes n" by (rule code_len_bytes_eq)
qed

section \<open>Properties\<close>

text \<open>C1: the streaming hash of the CPU verifier is SHA-256. From any context, whatever its
  uninitialised buffer and counters hold, init, update byte by byte and final compute the hash of
  FIPS 180-4 of the message: its padding, its schedule and its rounds; for every message below
  \<open>2 ^ 37\<close> bytes.\<close>

theorem sha256_is_fips:
  assumes "length (sc_data ctx0) = 64" and "length msg < 2 ^ 37"
  shows "sha256_from ctx0 msg = md_hash fips_compress cpu_iv msg"
  using assms by (rule sha256_from_fips)

theorem sha256_is_fips_witness:
  "sha256_from \<lparr>sc_bitlen = 9, sc_state = [1], sc_data = replicate 64 5, sc_datalen = 70\<rparr> [97, 98, 99] =
   md_hash fips_compress cpu_iv [97, 98, 99]"
  by (rule sha256_is_fips) simp_all

text \<open>The tables are the standard's. The 64 round constants are the first 32 bits of the
  fractional parts of the cube roots of the first 64 primes, the initial state those of the square
  roots of the first eight.\<close>

theorem sha256_constants:
  "list_all2 (root_word 3) primes64 K_cpu \<and> list_all2 (root_word 2) (take 8 primes64) (sc_state (sha256_init c))"
proof -
  have "sc_state (sha256_init c) = cpu_iv" by (simp add: cpu_iv_def sha256_init_def)
  then show ?thesis using K_cpu_roots cpu_iv_roots by simp
qed

text \<open>The length field the code stores in the last block is the standard's, eight big-endian bytes
  of the bit count, exactly for counts below \<open>2 ^ 40\<close>: the code shifts by 48 and 56 one byte early and
  never stores bits 40 to 47.\<close>

theorem length_field_exact:
  assumes "length d = 64"
  shows "store_bitlen n d = take 56 d @ u64_be_bytes n \<longleftrightarrow> unat n < 2 ^ 40"
  using assms by (simp add: store_bitlen_eq code_len_bytes_iff)

theorem length_field_exact_witness:
  "store_bitlen 640 (replicate 64 0) = take 56 (replicate 64 0) @ u64_be_bytes 640 \<longleftrightarrow> unat (640::u64) < 2 ^ 40"
  by (rule length_field_exact) simp

end
