(* ===== verification/Midstate.thy ===== *)
theory Midstate
  imports Fips_Sha256
begin

text \<open>
  \<^verbatim>\<open>src/normalize/midstate.cc\<close>: a second copy of the compression function, the state after the
  first 64 bytes of a header (\<^verbatim>\<open>sha256_midstate_64\<close>) and the completion of a hash from that state
  (\<^verbatim>\<open>sha256_finish_from_midstate\<close>). The tail pointer and its length are one byte list.
\<close>

record Ctx =
  mc_bitlen :: u64
  mc_state :: "u32 list"

text \<open>The 64 round constants, written in decimal (the source has them in hexadecimal).\<close>

definition K_mid :: "u32 list" where
  "K_mid =
    [1116352408, 1899447441, 3049323471, 3921009573, 961987163, 1508970993, 2453635748, 2870763221,
     3624381080, 310598401, 607225278, 1426881987, 1925078388, 2162078206, 2614888103, 3248222580,
     3835390401, 4022224774, 264347078, 604807628, 770255983, 1249150122, 1555081692, 1996064986,
     2554220882, 2821834349, 2952996808, 3210313671, 3336571891, 3584528711, 113926993, 338241895,
     666307205, 773529912, 1294757372, 1396182291, 1695183700, 1986661051, 2177026350, 2456956037,
     2730485921, 2820302411, 3259730800, 3345764771, 3516065817, 3600352804, 4094571909, 275423344,
     430227734, 506948616, 659060556, 883997877, 958139571, 1322822218, 1537002063, 1747873779,
     1955562222, 2024104815, 2227730452, 2361852424, 2428436474, 2756734187, 3204031479, 3329325298]"

definition rotr_mid :: "u32 \<Rightarrow> nat \<Rightarrow> u32" where
  "rotr_mid x n = drop_bit n x OR push_bit (32 - n) x"

definition mid_schedule_step :: "nat \<Rightarrow> u32 list \<Rightarrow> u32 list" where
  "mid_schedule_step i m =
     (let s0 = rotr_mid (m ! (i - 15)) 7 XOR rotr_mid (m ! (i - 15)) 18 XOR drop_bit 3 (m ! (i - 15));
          s1 = rotr_mid (m ! (i - 2)) 17 XOR rotr_mid (m ! (i - 2)) 19 XOR drop_bit 10 (m ! (i - 2))
      in m @ [m ! (i - 16) + s0 + m ! (i - 7) + s1])"

fun mid_round_step :: "u32 list \<Rightarrow> nat \<Rightarrow> regs \<Rightarrow> regs" where
  "mid_round_step m i (a, b, c, d, e, f, g, h) =
     (let S1 = rotr_mid e 6 XOR rotr_mid e 11 XOR rotr_mid e 25;
          ch = (e AND f) XOR (NOT e AND g);
          temp1 = h + S1 + ch + K_mid ! i + m ! i;
          S0 = rotr_mid a 2 XOR rotr_mid a 13 XOR rotr_mid a 22;
          maj = (a AND b) XOR (a AND c) XOR (b AND c);
          temp2 = S0 + maj
      in (temp1 + temp2, a, b, c, d + temp1, e, f, g))"

definition transform :: "Ctx \<Rightarrow> u8 list \<Rightarrow> Ctx" where
  "transform ctx block =
     (let m0 = map (\<lambda>i. be_word (block ! (4 * i)) (block ! (4 * i + 1)) (block ! (4 * i + 2))
                                 (block ! (4 * i + 3))) [0..<16];
          m = fold mid_schedule_step [16..<64] m0;
          r = fold (mid_round_step m) [0..<64] (regs_of (mc_state ctx))
      in ctx\<lparr>mc_state := add_regs (mc_state ctx) r\<rparr>)"

definition init_mid :: "Ctx \<Rightarrow> Ctx" where
  "init_mid ctx = ctx\<lparr>mc_bitlen := 0,
     mc_state := [0x6a09e667, 0xbb67ae85, 0x3c6ef372, 0xa54ff53a,
                  0x510e527f, 0x9b05688c, 0x1f83d9ab, 0x5be0cd19]\<rparr>"

definition fresh_mid :: Ctx where
  "fresh_mid = \<lparr>mc_bitlen = 0, mc_state = []\<rparr>"

definition sha256_midstate_64 :: "u8 list \<Rightarrow> u32 list" where
  "sha256_midstate_64 first64 =
     (let ctx = transform (init_mid fresh_mid) first64;
          ctx = ctx\<lparr>mc_bitlen := 512\<rparr>
      in map (\<lambda>i. mc_state ctx ! i) [0..<8])"

text \<open>\<^verbatim>\<open>while (rem >= 64) { transform(ctx, tail + offset); offset += 64; rem -= 64; }\<close>: the context
  after the loop and the bytes that remain.\<close>

function full_blocks :: "Ctx \<Rightarrow> u8 list \<Rightarrow> Ctx \<times> u8 list" where
  "full_blocks ctx tail =
     (if 64 \<le> length tail then full_blocks (transform ctx (take 64 tail)) (drop 64 tail)
      else (ctx, tail))"
  by pat_completeness auto
termination
  by (relation "measure (\<lambda>(ctx, tail). length tail)") auto

declare full_blocks.simps [simp del]

definition store_len_mid :: "u64 \<Rightarrow> u8 list \<Rightarrow> u8 list" where
  "store_len_mid n block = block[63 := ucast n, 62 := ucast (drop_bit 8 n),
     61 := ucast (drop_bit 16 n), 60 := ucast (drop_bit 24 n), 59 := ucast (drop_bit 32 n),
     58 := ucast (drop_bit 48 n), 57 := ucast (drop_bit 56 n), 56 := 0]"

definition sha256_finish_from_midstate :: "u32 list \<Rightarrow> u8 list \<Rightarrow> u64 \<Rightarrow> u8 list" where
  "sha256_finish_from_midstate midstate tail total_len_bytes =
     (let ctx0 = \<lparr>mc_bitlen = total_len_bytes * 8, mc_state = map (\<lambda>i. midstate ! i) [0..<8]\<rparr>;
          (ctx1, r) = full_blocks ctx0 tail;
          block = (r @ replicate (64 - length r) 0)[length r := 0x80];
          (ctx2, block) = (if 56 \<le> length r then (transform ctx1 block, replicate 64 0)
                           else (ctx1, block));
          block = store_len_mid (total_len_bytes * 8) block;
          ctx3 = transform ctx2 block
      in concat (map (\<lambda>j. [byte_at 24 (mc_state ctx3 ! j), byte_at 16 (mc_state ctx3 ! j),
                           byte_at 8 (mc_state ctx3 ! j), byte_at 0 (mc_state ctx3 ! j)]) [0..<8]))"

section \<open>The two compression functions agree\<close>

definition mid_compress :: compression where
  "mid_compress st b = mc_state (transform (fresh_mid\<lparr>mc_state := st\<rparr>) b)"

lemma K_mid_eq: "K_mid = K_cpu"
  by (simp add: K_mid_def K_cpu_def)

lemma rotr_mid_eq: "rotr_mid = rotr"
  by (simp add: fun_eq_iff rotr_mid_def rotr_def)

lemma mid_schedule_step_eq: "mid_schedule_step = schedule_step"
  by (simp add: fun_eq_iff mid_schedule_step_def schedule_step_def rotr_mid_eq)

lemma mid_round_step_eq: "mid_round_step m i r = round_step m i r"
  by (induction m i r rule: round_step.induct) (simp add: rotr_mid_eq K_mid_eq)

lemma transform_eq: "transform c b = c\<lparr>mc_state := cpu_compress (mc_state c) b\<rparr>"
proof -
  have "mid_round_step m = round_step m" for m
    by (intro ext) (rule mid_round_step_eq)
  then show ?thesis
    by (simp add: transform_def cpu_compress_def sha256_transform_def load_block_def
        mid_schedule_step_eq Let_def)
qed

lemma mid_compress_eq: "mid_compress = cpu_compress"
  by (simp add: fun_eq_iff mid_compress_def transform_eq)

lemma map_nth_8: "length xs = 8 \<Longrightarrow> map (\<lambda>i. xs ! i) [0..<8] = xs"
  by (metis map_nth)

lemma sha256_midstate_64_eq: "sha256_midstate_64 b = cpu_compress cpu_iv b"
proof -
  have "mc_state (init_mid fresh_mid) = cpu_iv"
    by (simp add: init_mid_def cpu_iv_def sha256_init_def)
  then show ?thesis by (simp add: sha256_midstate_64_def transform_eq map_nth_8)
qed

interpretation mid: block_hash mid_compress "mc_state (init_mid fresh_mid)"
  by unfold_locales (simp_all add: mid_compress_eq init_mid_def)

section \<open>Finishing from a midstate\<close>

lemma full_blocks_eq:
  "full_blocks c bs = (c\<lparr>mc_state := md_blocks cpu_compress (mc_state c) bs\<rparr>, md_rest bs)"
proof (induction c bs rule: full_blocks.induct)
  case (1 c bs)
  show ?case
  proof (cases "64 \<le> length bs")
    case True
    have "md_rest bs = md_rest (drop 64 bs)"
      using True md_rest_block [of "take 64 bs" "drop 64 bs"] by simp
    with True "1.IH" show ?thesis
      by (simp add: full_blocks.simps [of c bs] md_blocks.simps [of _ _ bs] transform_eq)
  next
    case False
    then show ?thesis by (simp add: full_blocks.simps [of c bs])
  qed
qed

lemma store_len_mid_eq: "length d = 64 \<Longrightarrow> store_len_mid n d = take 56 d @ code_len_bytes n"
  using store_bitlen_eq [of d n] by (simp add: store_len_mid_def store_bitlen_def)

lemma final_block:
  assumes "length r < 64"
  shows "(r @ replicate (64 - length r) 0)[length r := 0x80] =
    r @ 0x80 # replicate (63 - length r) (0::u8)"
proof -
  have "replicate (64 - length r) (0::u8) = 0 # replicate (63 - length r) 0"
    using assms by (simp add: replicate_Suc [symmetric] Suc_diff_Suc del: replicate_Suc)
  then show ?thesis by (simp add: list_update_append)
qed

lemma finish_eq:
  assumes "length ms = 8"
  shows "sha256_finish_from_midstate ms tail n = words_be (md_blocks cpu_compress ms (tail @ 0x80 #
     replicate ((119 - length tail mod 64) mod 64) 0 @ code_len_bytes (n * 8)))"
proof -
  let ?st = "md_blocks cpu_compress ms tail" and ?r = "md_rest tail"
  let ?b = "?r @ 0x80 # replicate (63 - length ?r) 0"
  have r: "length ?r < 64" by (simp add: length_md_rest)
  have b: "length ?b = 64" using r by simp
  have "sha256_finish_from_midstate ms tail n =
      (if 56 \<le> length ?r
       then words_be (cpu_compress (cpu_compress ?st ?b) (replicate 56 0 @ code_len_bytes (n * 8)))
       else words_be (cpu_compress ?st (take 56 ?b @ code_len_bytes (n * 8))))"
    using assms b r
    by (simp add: sha256_finish_from_midstate_def Let_def full_blocks_eq map_nth_8 final_block
        transform_eq store_len_mid_eq nth_words_be)
  also have "\<dots> = words_be (md_blocks cpu_compress ?st (?r @ 0x80 #
      replicate ((119 - length ?r) mod 64) 0 @ code_len_bytes (n * 8)))"
  proof (cases "56 \<le> length ?r")
    case True
    have "63 - length ?r + 56 = 119 - length ?r" using r by simp
    then have e: "?r @ 0x80 # replicate (119 - length ?r) 0 @ code_len_bytes (n * 8) =
        ?b @ replicate 56 0 @ code_len_bytes (n * 8)"
      by (metis append.assoc append_Cons replicate_add)
    have "md_blocks cpu_compress ?st (?r @ 0x80 # replicate (119 - length ?r) 0 @ code_len_bytes (n * 8)) =
        cpu_compress (cpu_compress ?st ?b) (replicate 56 0 @ code_len_bytes (n * 8))"
      unfolding e md_blocks_block [OF b] by simp
    with True r show ?thesis by (simp add: pad_zeros)
  next
    case False
    then have "take 56 ?b = ?r @ 0x80 # replicate (55 - length ?r) 0" by (simp add: take_Cons')
    with False r show ?thesis by (simp add: pad_zeros)
  qed
  finally show ?thesis
    by (simp add: md_blocks_split [of _ ms tail] length_md_rest)
qed

lemma finish_from_midstate_sha256:
  assumes "length first = 64" and "64 + length tail < 2 ^ 37"
  shows "sha256_finish_from_midstate (sha256_midstate_64 first) tail (of_nat (64 + length tail)) =
    sha256 (first @ tail)"
proof -
  have n: "of_nat (64 + length tail) * 8 = (of_nat (8 * (64 + length tail)) :: u64)"
    by (simp add: algebra_simps)
  have "sha256_finish_from_midstate (sha256_midstate_64 first) tail (of_nat (64 + length tail)) =
      words_be (md_blocks cpu_compress (cpu_compress cpu_iv first) (tail @ 0x80 #
        replicate ((119 - length tail mod 64) mod 64) 0 @
        u64_be_bytes (of_nat (8 * (64 + length tail)))))"
    unfolding sha256_midstate_64_eq finish_eq [OF length_cpu_compress] n
    using code_len_bytes_eq [OF of_nat_bits_bound [OF assms(2)]] by simp
  also have "\<dots> = md_hash cpu_compress cpu_iv (first @ tail)"
    using cpu.resume [OF assms(1)] by simp
  finally show ?thesis using assms by (simp add: sha256_md_hash)
qed

section \<open>Properties\<close>

text \<open>C28: precomputing the midstate of the first 64 bytes and finishing with the rest of the message and
  its total length gives the hash of the whole, for every tail below \<open>2 ^ 37\<close> bytes, whichever branch
  the padding takes.\<close>

theorem midstate_resume:
  assumes "length first = 64" and "64 + length tail < 2 ^ 37"
  shows "sha256_finish_from_midstate (sha256_midstate_64 first) tail (of_nat (64 + length tail)) =
    sha256 (first @ tail)"
  using assms by (rule finish_from_midstate_sha256)

theorem midstate_resume_witness:
  "sha256_finish_from_midstate (sha256_midstate_64 (replicate 64 1)) (replicate 16 2) 80 =
   sha256 (replicate 64 1 @ replicate 16 2)"
  using midstate_resume [of "replicate 64 1" "replicate 16 2"] by simp

end
