(* ===== verification/Merkle.thy ===== *)
theory Merkle
  imports Cpu_Sha256
begin

text \<open>
  \<^verbatim>\<open>src/normalize/merkle.cc\<close>: the Merkle root of a list of 32-byte transaction ids. \<open>next_level\<close> is the
  body of the \<^verbatim>\<open>while\<close> loop (the last element of an odd level is paired with itself),
  \<open>merkle_loop\<close> the loop, which ends because every pass shortens the level.
\<close>

definition next_level :: "u8 list list \<Rightarrow> u8 list list" where
  "next_level level =
     map (\<lambda>k. let i = 2 * k;
                  a = level ! i;
                  b = (if i + 1 < length level then level ! (i + 1) else level ! i)
              in sha256d (a @ b)) [0..<(length level + 1) div 2]"

lemma length_next_level [simp, width_simps]: "length (next_level level) = (length level + 1) div 2"
  by (simp add: next_level_def)

lemma nth_next_level:
  "k < (length l + 1) div 2 \<Longrightarrow>
   next_level l ! k = sha256d (l ! (2 * k) @ (if 2 * k + 1 < length l then l ! (2 * k + 1) else l ! (2 * k)))"
  unfolding next_level_def Let_def by (subst nth_map) (simp_all del: upt_Suc)

function merkle_loop :: "u8 list list \<Rightarrow> u8 list list" where
  "merkle_loop level = (if 1 < length level then merkle_loop (next_level level) else level)"
  by pat_completeness auto
termination
  by (relation "measure length") auto

declare merkle_loop.simps [simp del]

definition compute_merkle_root_be :: "u8 list list \<Rightarrow> u8 list" where
  "compute_merkle_root_be txids_be =
     (if txids_be = [] then replicate 32 0 else merkle_loop txids_be ! 0)"

section \<open>Specification: the node of a tree\<close>

text \<open>Level \<open>k\<close> of the tree over \<open>n\<close> leaves has \<open>level_size n k\<close> nodes; a position beyond the end of a
  level stands for its last node. Node \<open>i\<close> of level \<open>k + 1\<close> is the hash of nodes \<open>2 * i\<close> and
  \<open>2 * i + 1\<close> of level \<open>k\<close>.\<close>

fun level_size :: "nat \<Rightarrow> nat \<Rightarrow> nat" where
  "level_size n 0 = n"
| "level_size n (Suc k) = (level_size n k + 1) div 2"

fun merkle_node :: "u8 list list \<Rightarrow> nat \<Rightarrow> nat \<Rightarrow> u8 list" where
  "merkle_node xs 0 i = xs ! i"
| "merkle_node xs (Suc k) i =
     (let last = level_size (length xs) k - 1
      in sha256d (merkle_node xs k (min (2 * i) last) @ merkle_node xs k (min (2 * i + 1) last)))"

lemma merkle_levels:
  "(next_level ^^ k) xs = map (merkle_node xs k) [0..<level_size (length xs) k]"
proof (induction k)
  case 0
  then show ?case by (simp add: map_nth)
next
  case (Suc k)
  let ?n = "level_size (length xs) k"
  have "(next_level ^^ Suc k) xs = next_level (map (merkle_node xs k) [0..<?n])"
    using Suc by simp
  also have "\<dots> = map (merkle_node xs (Suc k)) [0..<level_size (length xs) (Suc k)]"
  proof (rule nth_equalityI)
    fix i assume "i < length (next_level (map (merkle_node xs k) [0..<?n]))"
    then have i: "i < (?n + 1) div 2" by simp
    then have a: "2 * i < ?n" by linarith
    then have m: "min (2 * i) (?n - 1) = 2 * i"
      "min (2 * i + 1) (?n - 1) = (if 2 * i + 1 < ?n then 2 * i + 1 else 2 * i)" by auto
    show "next_level (map (merkle_node xs k) [0..<?n]) ! i =
        map (merkle_node xs (Suc k)) [0..<level_size (length xs) (Suc k)] ! i"
      using i a by (simp add: nth_next_level Let_def m [unfolded One_nat_def Suc_eq_plus1 [symmetric] add_Suc_right add_0_right])
  qed simp
  finally show ?case .
qed

text \<open>The loop stops at the first level of at most one node.\<close>

lemma merkle_loop_levels:
  "\<exists>k. merkle_loop xs = (next_level ^^ k) xs \<and> level_size (length xs) k \<le> 1 \<and> (\<forall>i < k. 1 < level_size (length xs) i)"
proof (induction xs rule: merkle_loop.induct)
  case (1 xs)
  show ?case
  proof (cases "1 < length xs")
    case True
    then obtain k where k: "merkle_loop (next_level xs) = (next_level ^^ k) (next_level xs)"
      "level_size (length (next_level xs)) k \<le> 1" "\<forall>i < k. 1 < level_size (length (next_level xs)) i" using 1 by blast
    have shift: "level_size ((n + 1) div 2) k = level_size n (Suc k)" for n k
      by (induction k) simp_all
    then have "level_size (length xs) (Suc k) \<le> 1" using k(2) by simp
    moreover have "\<forall>i < Suc k. 1 < level_size (length xs) i"
    proof (intro allI impI)
      fix i assume "i < Suc k"
      then show "1 < level_size (length xs) i" using True k(3) shift [of "length xs"] by (cases i) auto
    qed
    moreover have "merkle_loop xs = (next_level ^^ Suc k) xs"
      using True k(1) by (simp add: merkle_loop.simps [of xs] funpow_Suc_right del: funpow.simps)
    ultimately show ?thesis by blast
  next
    case False
    then show ?thesis by (intro exI [of _ 0]) (simp add: merkle_loop.simps [of xs])
  qed
qed

lemma level_size_pos: "0 < n \<Longrightarrow> 0 < level_size n k"
  by (induction k) simp_all

lemma merkle_root_node:
  assumes "xs \<noteq> []"
  shows "\<exists>k. level_size (length xs) k = 1 \<and> (\<forall>i < k. 1 < level_size (length xs) i) \<and>
    compute_merkle_root_be xs = merkle_node xs k 0"
proof -
  obtain k where k: "merkle_loop xs = (next_level ^^ k) xs" "level_size (length xs) k \<le> 1"
    "\<forall>i < k. 1 < level_size (length xs) i"
    using merkle_loop_levels by blast
  moreover have "level_size (length xs) k = 1" using k(2) level_size_pos [of "length xs" k] assms by simp
  ultimately show ?thesis
    using assms k(3) by (intro exI [of _ k]) (simp add: compute_merkle_root_be_def merkle_levels)
qed

section \<open>Widths, duplication, binding\<close>

definition txids :: "u8 list list \<Rightarrow> bool" where
  "txids xs \<longleftrightarrow> (\<forall>x \<in> set xs. length x = 32)"

lemma txids_next_level [simp]: "txids (next_level xs)"
  by (auto simp: txids_def next_level_def Let_def)

lemma merkle_loop_stop: "\<not> 1 < length xs \<Longrightarrow> merkle_loop xs = xs"
  by (subst merkle_loop.simps) simp

lemma txids_merkle_loop: "txids xs \<Longrightarrow> txids (merkle_loop xs) \<and> (xs \<noteq> [] \<longrightarrow> length (merkle_loop xs) = 1)"
proof (induction xs rule: merkle_loop.induct)
  case (1 xs)
  show ?case
  proof (cases "1 < length xs")
    case True
    then have "0 < length (next_level xs)" by simp
    then have "next_level xs \<noteq> []" by (simp only: length_greater_0_conv) simp
    with 1 True show ?thesis by (simp add: merkle_loop.simps [of xs])
  next
    case False
    then show ?thesis using 1(2) by (cases xs) (simp_all add: merkle_loop_stop)
  qed
qed

lemma next_level_duplicate:
  assumes "odd (length xs)"
  shows "next_level (xs @ [last xs]) = next_level xs"
proof -
  obtain n where n: "length xs = 2 * n + 1" using assms by (auto elim: oddE)
  have "xs \<noteq> []" using n by auto
  then have last: "last xs = xs ! (2 * n)" using n by (simp add: last_conv_nth)
  show ?thesis
  proof (rule nth_equalityI)
    fix i assume "i < length (next_level (xs @ [last xs]))"
    then have i: "i \<le> n" using n by simp
    then show "next_level (xs @ [last xs]) ! i = next_level xs ! i"
      using n last by (cases "i = n") (simp_all add: nth_next_level nth_append)
  qed (simp add: n)
qed

lemma merkle_loop_step: "1 < length xs \<Longrightarrow> merkle_loop xs = merkle_loop (next_level xs)"
  by (simp add: merkle_loop.simps [of xs])

definition sha256d_collision :: bool where
  "sha256d_collision \<longleftrightarrow> (\<exists>a b. length a = 64 \<and> length b = 64 \<and> a \<noteq> b \<and> sha256d a = sha256d b)"

lemma next_level_inject:
  assumes "txids xs" and "txids ys" and "length xs = length ys" and "next_level xs = next_level ys"
    and "\<not> sha256d_collision"
  shows "xs = ys"
proof (rule nth_equalityI [OF assms(3)])
  fix i assume i: "i < length xs"
  define k where "k = i div 2"
  let ?pair = "\<lambda>l. l ! (2 * k) @ (if 2 * k + 1 < length xs then l ! (2 * k + 1) else l ! (2 * k))"
  have k: "k < (length xs + 1) div 2" "2 * k < length xs" using i unfolding k_def by linarith+
  have "sha256d (?pair xs) = sha256d (?pair ys)"
    using arg_cong [OF assms(4), of "\<lambda>l. l ! k"] k(1) assms(3) by (simp only: nth_next_level)
  moreover have w: "length (xs ! j) = 32" "length (ys ! j) = 32" if "j < length xs" for j
    using assms(1-3) that by (simp_all add: txids_def)
  moreover have "length (?pair xs) = 64" "length (?pair ys) = 64"
    using w k(2) by simp_all
  ultimately have "?pair xs = ?pair ys"
    using assms(5) unfolding sha256d_collision_def by blast
  then have "xs ! (2 * k) = ys ! (2 * k)" "2 * k + 1 < length xs \<Longrightarrow> xs ! (2 * k + 1) = ys ! (2 * k + 1)"
    using w k(2) by (auto split: if_splits)
  moreover have "i = 2 * k \<or> i = 2 * k + 1" unfolding k_def by linarith
  ultimately show "xs ! i = ys ! i" using i by auto
qed

lemma merkle_loop_inject:
  "txids xs \<Longrightarrow> txids ys \<Longrightarrow> length xs = length ys \<Longrightarrow> merkle_loop xs = merkle_loop ys \<Longrightarrow>
   \<not> sha256d_collision \<Longrightarrow> xs = ys"
proof (induction xs arbitrary: ys rule: merkle_loop.induct)
  case (1 xs)
  show ?case
  proof (cases "1 < length xs")
    case True
    moreover have "merkle_loop (next_level xs) = merkle_loop (next_level ys)"
      using True 1(4,5) by (metis merkle_loop_step)
    moreover have "length (next_level xs) = length (next_level ys)" using 1(4) by simp
    ultimately have "next_level xs = next_level ys"
      using 1(1,6) txids_next_level by blast
    then show ?thesis using next_level_inject [OF 1(2,3,4) _ 1(6)] by blast
  next
    case False
    then have "\<not> 1 < length ys" using 1(4) by simp
    with False show ?thesis using 1(5) merkle_loop_stop by metis
  qed
qed

section \<open>Properties\<close>

text \<open>C9: the loop computes the root of the tree. For a nonempty list the result is the single node of
  the first level that has one node, where node \<open>i\<close> of a level is the double hash of nodes \<open>2 i\<close> and
  \<open>2 i + 1\<close> of the level below and the last node of an odd level is its own partner. In particular a
  single transaction is its own root.\<close>

theorem merkle_root_is_tree_root:
  assumes "txids_be \<noteq> []"
  shows "\<exists>k. level_size (length txids_be) k = 1 \<and> (\<forall>i < k. 1 < level_size (length txids_be) i) \<and>
    compute_merkle_root_be txids_be = merkle_node txids_be k 0"
  using assms by (rule merkle_root_node)

theorem merkle_root_is_tree_root_witness:
  "compute_merkle_root_be [replicate 32 7] = replicate 32 7 \<and>
   (\<exists>k. level_size 3 k = 1 \<and> (\<forall>i < k. 1 < level_size 3 i) \<and>
     compute_merkle_root_be [replicate 32 1, replicate 32 2, replicate 32 3] =
     merkle_node [replicate 32 1, replicate 32 2, replicate 32 3] k 0)"
proof -
  obtain k where k: "\<forall>i < k. 1 < level_size 1 i" "compute_merkle_root_be [replicate 32 7] = merkle_node [replicate 32 7] k 0"
    using merkle_root_is_tree_root [of "[replicate 32 7]"] by auto
  have "k = 0" using k(1) by (cases k) auto
  then show ?thesis
    using k(2) merkle_root_is_tree_root [of "[replicate 32 1, replicate 32 2, replicate 32 3]"] by (simp add: numeral_3_eq_3)
qed

text \<open>The root binds the transactions. Two lists of the same number of 32-byte ids with the same
  root are equal, unless they exhibit two different 64-byte inputs on which \<^verbatim>\<open>sha256d\<close> collides.\<close>

theorem merkle_root_binding:
  assumes "txids xs" and "txids ys" and "length xs = length ys"
    and "compute_merkle_root_be xs = compute_merkle_root_be ys"
  shows "xs = ys \<or> sha256d_collision"
proof (cases "xs = []")
  case True
  then show ?thesis using assms(3) by simp
next
  case False
  then have ys: "ys \<noteq> []" using assms(3) by auto
  have l: "length (merkle_loop xs) = 1" "length (merkle_loop ys) = 1"
    using txids_merkle_loop [OF assms(1)] txids_merkle_loop [OF assms(2)] False ys by blast+
  have "merkle_loop xs ! 0 = merkle_loop ys ! 0"
    using assms(4) False ys by (simp add: compute_merkle_root_be_def)
  then have "merkle_loop xs = merkle_loop ys"
    using l by (intro nth_equalityI) auto
  then show ?thesis using merkle_loop_inject [OF assms(1-3)] by blast
qed

theorem merkle_root_binding_witness:
  "[replicate 32 1, replicate 32 (2::u8)] = [replicate 32 1, replicate 32 2] \<or> sha256d_collision"
  by (rule merkle_root_binding) (simp_all add: txids_def)

text \<open>Repeating the last transaction of a list of odd length, three or more, does not change the
  root: the list cannot be recovered from the root alone when its length is not known.\<close>

theorem merkle_root_duplicate:
  assumes "odd (length xs)" and "3 \<le> length xs"
  shows "compute_merkle_root_be (xs @ [last xs]) = compute_merkle_root_be xs"
proof -
  have ne: "xs \<noteq> []" using assms(2) by auto
  then have "merkle_loop (xs @ [last xs]) = merkle_loop (next_level (xs @ [last xs]))"
    by (intro merkle_loop_step) simp
  also have "\<dots> = merkle_loop xs"
    using assms next_level_duplicate [OF assms(1)] merkle_loop_step [of xs] by simp
  finally have "merkle_loop (xs @ [last xs]) = merkle_loop xs" .
  with ne show ?thesis by (simp add: compute_merkle_root_be_def)
qed

theorem merkle_root_duplicate_witness:
  "compute_merkle_root_be [replicate 32 1, replicate 32 2, replicate 32 3, replicate 32 3] =
   compute_merkle_root_be [replicate 32 1, replicate 32 2, replicate 32 3]"
  using merkle_root_duplicate [of "[replicate 32 1, replicate 32 2, replicate 32 3]"] by simp

end
