(* ===== verification/Normalizer.thy ===== *)
theory Normalizer
  imports Work_Registry Targets Midstate Merkle
begin

text \<open>
  \<^verbatim>\<open>src/normalize/normalizer.cc\<close>, \<^verbatim>\<open>coinbase.cc\<close> and \<^verbatim>\<open>rolling_caps.h\<close>: a parsed job becomes the work
  item and the job constants the kernel reads. \<open>normalizeJob\<close> propagates the out-of-bounds write of
  \<open>compactToTargetU32LE\<close> as an error.
\<close>

record RawJob =
  job_source_name :: string
  job_work_id :: u64
  job_version :: u32
  job_nbits :: u32
  job_ntime :: u32

record NormalizerResult =
  nr_item :: WorkItem
  nr_job_const :: GpuJobConst

record RawJobInputs =
  in_source_id :: u32
  in_job :: RawJob
  in_prevhash_be :: "u8 list"
  in_merkle_root_be :: "u8 list"
  in_header_first64 :: "u8 list"
  in_share_nbits :: u32
  in_vmask :: u32
  in_ntime_min :: u32
  in_ntime_max :: u32
  in_extranonce2_size :: u8
  in_clean_jobs :: bool

definition default_inputs :: RawJobInputs where
  "default_inputs = \<lparr>in_source_id = 0,
     in_job = \<lparr>job_source_name = '''', job_work_id = 0, job_version = 0, job_nbits = 0, job_ntime = 0\<rparr>,
     in_prevhash_be = replicate 32 0, in_merkle_root_be = replicate 32 0,
     in_header_first64 = replicate 64 0, in_share_nbits = 0, in_vmask = 0, in_ntime_min = 0,
     in_ntime_max = 0, in_extranonce2_size = 0, in_clean_jobs = True\<rparr>"

record CoinbaseParts =
  cb_prefix :: "u8 list"
  cb_suffix :: "u8 list"
  cb_has_witness :: bool
  cb_witness_commitment :: "u8 list"

definition assembleCoinbaseTx :: "CoinbaseParts \<Rightarrow> string \<Rightarrow> u8 list \<Rightarrow> u8 list" where
  "assembleCoinbaseTx parts extranonce1 extranonce2 =
     (let tx = [];
          tx = tx @ cb_prefix parts;
          tx = tx @ map (\<lambda>c. of_char c) extranonce1;
          tx = tx @ extranonce2;
          tx = tx @ cb_suffix parts
      in tx)"

definition computeWitnessCommitmentPlaceholder :: "CoinbaseParts \<Rightarrow> u8 list" where
  "computeWitnessCommitmentPlaceholder parts =
     (if cb_has_witness parts then cb_witness_commitment parts else replicate 32 0)"

definition clampRollingVersion :: "u32 \<Rightarrow> u32 \<Rightarrow> u32" where
  "clampRollingVersion version vmask = (version AND NOT vmask) OR (version AND vmask)"

definition clampNtime :: "u32 \<Rightarrow> u32 \<Rightarrow> u32 \<Rightarrow> u32" where
  "clampNtime ntime ntime_min ntime_max =
     (if ntime < ntime_min then ntime_min else if ntime > ntime_max then ntime_max else ntime)"

definition normalizeJob :: "RawJobInputs \<Rightarrow> NormalizerResult option result" where
  "normalizeJob inp =
     (let item = default_item;
          item = item\<lparr>wi_work_id := job_work_id (in_job inp), wi_source_id := in_source_id inp,
                      wi_version := job_version (in_job inp), wi_nbits := job_nbits (in_job inp),
                      wi_ntime := job_ntime (in_job inp), wi_nonce_start := 0\<rparr>;
          item = item\<lparr>wi_prevhash_le := be32BytesToLeU32Words (in_prevhash_be inp),
                      wi_merkle_root_le := be32BytesToLeU32Words (in_merkle_root_be inp)\<rparr>
      in case compactToTargetU32LE (job_nbits (in_job inp)) of
           Inl e \<Rightarrow> Inl e
         | Inr block_target \<Rightarrow>
      case compactToTargetU32LE (in_share_nbits inp) of
           Inl e \<Rightarrow> Inl e
         | Inr share_target \<Rightarrow>
      let item = item\<lparr>wi_block_target_le := block_target, wi_share_target_le := share_target\<rparr>;
          item = item\<lparr>wi_vmask := in_vmask inp,
                      wi_ntime_min := (if in_ntime_min inp \<noteq> 0 then in_ntime_min inp else wi_ntime item),
                      wi_ntime_max := (if in_ntime_max inp \<noteq> 0 then in_ntime_max inp else wi_ntime item),
                      wi_extranonce2_size := in_extranonce2_size inp,
                      wi_clean_jobs := in_clean_jobs inp, wi_active := True,
                      wi_found_submitted := False\<rparr>;
          job_const = default_const\<lparr>midstate_le := sha256_midstate_64 (in_header_first64 inp)\<rparr>
      in Inr (Some \<lparr>nr_item = item, nr_job_const = job_const\<rparr>))"

section \<open>Well-formed inputs and work items\<close>

definition item_ok :: "WorkItem \<Rightarrow> bool" where
  "item_ok w \<longleftrightarrow> length (wi_prevhash_le w) = 8 \<and> length (wi_merkle_root_le w) = 8 \<and>
     length (wi_share_target_le w) = 8 \<and> length (wi_block_target_le w) = 8"

definition inputs_ok :: "RawJobInputs \<Rightarrow> bool" where
  "inputs_ok inp \<longleftrightarrow> length (in_prevhash_be inp) = 32 \<and> length (in_merkle_root_be inp) = 32 \<and>
     length (in_header_first64 inp) = 64"

text \<open>The compact targets on which the expansion stays inside its array.\<close>

definition compact_safe :: "u32 \<Rightarrow> bool" where
  "compact_safe nBits \<longleftrightarrow> mantissa_of nBits = 0 \<or> exponent_of nBits \<noteq> 0"

lemma default_item_ok [simp]: "item_ok default_item"
  by (simp add: item_ok_def default_item_def zero8_def)

lemma compact_safe_Inr:
  "compact_safe n \<Longrightarrow> \<exists>t. compactToTargetU32LE n = Inr t \<and> length t = 8 \<and> target_nat t = code_target n"
  using compact_cases [of n] by (auto simp: compact_safe_def split: if_splits)

lemma compact_unsafe_Inl: "\<not> compact_safe n \<Longrightarrow> compactToTargetU32LE n = Inl Out_of_bounds"
  using compact_cases [of n] by (auto simp: compact_safe_def split: if_splits)

lemma normalizeJob_safe:
  assumes "compact_safe (job_nbits (in_job inp))" and "compact_safe (in_share_nbits inp)"
  obtains r where "normalizeJob inp = Inr (Some r)" and "item_ok (nr_item r)"
    and "target_nat (wi_block_target_le (nr_item r)) = code_target (job_nbits (in_job inp))"
    and "target_nat (wi_share_target_le (nr_item r)) = code_target (in_share_nbits inp)"
    and "wi_prevhash_le (nr_item r) = be32BytesToLeU32Words (in_prevhash_be inp)"
    and "wi_merkle_root_le (nr_item r) = be32BytesToLeU32Words (in_merkle_root_be inp)"
    and "midstate_le (nr_job_const r) = sha256_midstate_64 (in_header_first64 inp)"
    and "wi_work_id (nr_item r) = job_work_id (in_job inp)"
    and "wi_clean_jobs (nr_item r) = in_clean_jobs inp"
proof -
  obtain b s where bs: "compactToTargetU32LE (job_nbits (in_job inp)) = Inr b" "length b = 8"
     "target_nat b = code_target (job_nbits (in_job inp))"
     "compactToTargetU32LE (in_share_nbits inp) = Inr s" "length s = 8"
     "target_nat s = code_target (in_share_nbits inp)"
    using compact_safe_Inr [OF assms(1)] compact_safe_Inr [OF assms(2)] by blast
  have "\<exists>r. normalizeJob inp = Inr (Some r) \<and>
      wi_block_target_le (nr_item r) = b \<and> wi_share_target_le (nr_item r) = s \<and>
      wi_prevhash_le (nr_item r) = be32BytesToLeU32Words (in_prevhash_be inp) \<and>
      wi_merkle_root_le (nr_item r) = be32BytesToLeU32Words (in_merkle_root_be inp) \<and>
      midstate_le (nr_job_const r) = sha256_midstate_64 (in_header_first64 inp) \<and>
      wi_work_id (nr_item r) = job_work_id (in_job inp) \<and> wi_clean_jobs (nr_item r) = in_clean_jobs inp"
    using bs by (simp add: normalizeJob_def Let_def)
  then show ?thesis using that bs by (auto simp: item_ok_def)
qed

lemma normalizeJob_unsafe:
  "\<not> (compact_safe (job_nbits (in_job inp)) \<and> compact_safe (in_share_nbits inp)) \<Longrightarrow>
   normalizeJob inp = Inl Out_of_bounds"
  by (cases "compact_safe (job_nbits (in_job inp))")
    (auto simp: normalizeJob_def Let_def compact_unsafe_Inl dest: compact_safe_Inr)

lemma normalizeJob_item_ok: "normalizeJob inp = Inr (Some r) \<Longrightarrow> item_ok (nr_item r)"
  by (metis Inl_Inr_False Inr_inject normalizeJob_safe normalizeJob_unsafe option.inject)

text \<open>The members that are copied, and the window of times, which is the time itself where the inputs give
  no bound.\<close>

lemma normalizeJob_members:
  assumes "normalizeJob inp = Inr (Some r)"
  shows "wi_work_id (nr_item r) = job_work_id (in_job inp)" "wi_source_id (nr_item r) = in_source_id inp"
    "wi_version (nr_item r) = job_version (in_job inp)" "wi_nbits (nr_item r) = job_nbits (in_job inp)"
    "wi_ntime (nr_item r) = job_ntime (in_job inp)" "wi_nonce_start (nr_item r) = 0" "wi_vmask (nr_item r) = in_vmask inp"
    "wi_ntime_min (nr_item r) = (if in_ntime_min inp \<noteq> 0 then in_ntime_min inp else job_ntime (in_job inp))"
    "wi_ntime_max (nr_item r) = (if in_ntime_max inp \<noteq> 0 then in_ntime_max inp else job_ntime (in_job inp))"
    "wi_extranonce2_size (nr_item r) = in_extranonce2_size inp" "wi_clean_jobs (nr_item r) = in_clean_jobs inp"
    "wi_active (nr_item r)" "\<not> wi_found_submitted (nr_item r)"
    "wi_prevhash_le (nr_item r) = be32BytesToLeU32Words (in_prevhash_be inp)"
    "wi_merkle_root_le (nr_item r) = be32BytesToLeU32Words (in_merkle_root_be inp)"
    "midstate_le (nr_job_const r) = sha256_midstate_64 (in_header_first64 inp)"
  using assms by (auto simp: normalizeJob_def Let_def split: sum.splits)

section \<open>Properties\<close>

text \<open>C36: a normalised work item stands for the job. For well-formed inputs whose compact targets have
  no zero exponent, \<^verbatim>\<open>normalizeJob\<close> returns an active item with the job's id, source, version, target bits
  and time, its mask, size of the second extranonce and clean flag, a window of times that is the given one
  or, where a bound is missing, the time itself; from its words the CPU rebuilds exactly the previous hash
  and the Merkle root of the job, its targets have the values of the two compact targets, and from the job
  constants every hash of the 64-byte prefix with a 16-byte tail can be finished.\<close>

theorem normalize_job_represents:
  assumes "inputs_ok inp" and "compact_safe (job_nbits (in_job inp))" and "compact_safe (in_share_nbits inp)"
  shows "\<exists>r. normalizeJob inp = Inr (Some r) \<and>
    wi_work_id (nr_item r) = job_work_id (in_job inp) \<and> wi_source_id (nr_item r) = in_source_id inp \<and>
    wi_version (nr_item r) = job_version (in_job inp) \<and> wi_nbits (nr_item r) = job_nbits (in_job inp) \<and>
    wi_ntime (nr_item r) = job_ntime (in_job inp) \<and> wi_nonce_start (nr_item r) = 0 \<and> wi_vmask (nr_item r) = in_vmask inp \<and>
    wi_ntime_min (nr_item r) = (if in_ntime_min inp \<noteq> 0 then in_ntime_min inp else job_ntime (in_job inp)) \<and>
    wi_ntime_max (nr_item r) = (if in_ntime_max inp \<noteq> 0 then in_ntime_max inp else job_ntime (in_job inp)) \<and>
    wi_extranonce2_size (nr_item r) = in_extranonce2_size inp \<and> wi_clean_jobs (nr_item r) = in_clean_jobs inp \<and>
    wi_active (nr_item r) \<and> \<not> wi_found_submitted (nr_item r) \<and>
    leU32WordsToBe32Bytes (wi_prevhash_le (nr_item r)) = in_prevhash_be inp \<and>
    leU32WordsToBe32Bytes (wi_merkle_root_le (nr_item r)) = in_merkle_root_be inp \<and>
    target_nat (wi_block_target_le (nr_item r)) = code_target (job_nbits (in_job inp)) \<and>
    target_nat (wi_share_target_le (nr_item r)) = code_target (in_share_nbits inp) \<and>
    (\<forall>tail. length tail = 16 \<longrightarrow>
       sha256_finish_from_midstate (midstate_le (nr_job_const r)) tail 80 =
       sha256 (in_header_first64 inp @ tail))"
proof -
  obtain r where r: "normalizeJob inp = Inr (Some r)"
    "target_nat (wi_block_target_le (nr_item r)) = code_target (job_nbits (in_job inp))"
    "target_nat (wi_share_target_le (nr_item r)) = code_target (in_share_nbits inp)"
    "wi_prevhash_le (nr_item r) = be32BytesToLeU32Words (in_prevhash_be inp)"
    "wi_merkle_root_le (nr_item r) = be32BytesToLeU32Words (in_merkle_root_be inp)"
    "midstate_le (nr_job_const r) = sha256_midstate_64 (in_header_first64 inp)"
    using normalizeJob_safe [OF assms(2,3)] by metis
  have "sha256_finish_from_midstate (sha256_midstate_64 (in_header_first64 inp)) tail 80 =
      sha256 (in_header_first64 inp @ tail)" if "length tail = 16" for tail
    using finish_from_midstate_sha256 [of "in_header_first64 inp" tail] assms(1) that
    by (simp add: inputs_ok_def)
  then show ?thesis
    using r assms(1) normalizeJob_members [OF r(1)] by (intro exI [of _ r]) (simp add: inputs_ok_def bytes_of_words)
qed

definition sample_inputs :: RawJobInputs where
  "sample_inputs = default_inputs
     \<lparr>in_job := \<lparr>job_source_name = ''pool'', job_work_id = 5, job_version = 0x20000000,
                 job_nbits = 0x1d00ffff, job_ntime = 1700000000\<rparr>,
      in_share_nbits := 0x1f00ffff\<rparr>"

lemma sample_inputs_ok:
  "inputs_ok sample_inputs" "compact_safe (job_nbits (in_job sample_inputs))"
  "compact_safe (in_share_nbits sample_inputs)"
  by (simp_all add: inputs_ok_def sample_inputs_def default_inputs_def compact_safe_def exponent_of_def)

theorem normalize_job_represents_witness:
  "\<exists>r. normalizeJob sample_inputs = Inr (Some r) \<and> wi_work_id (nr_item r) = 5 \<and> wi_version (nr_item r) = 0x20000000 \<and>
    wi_nbits (nr_item r) = 0x1d00ffff \<and> wi_ntime (nr_item r) = 1700000000 \<and> wi_ntime_max (nr_item r) = 1700000000 \<and>
    leU32WordsToBe32Bytes (wi_prevhash_le (nr_item r)) = replicate 32 0"
proof -
  obtain r where "normalizeJob sample_inputs = Inr (Some r)" "wi_work_id (nr_item r) = job_work_id (in_job sample_inputs)"
    "wi_version (nr_item r) = job_version (in_job sample_inputs)" "wi_nbits (nr_item r) = job_nbits (in_job sample_inputs)"
    "wi_ntime (nr_item r) = job_ntime (in_job sample_inputs)"
    "wi_ntime_max (nr_item r) = (if in_ntime_max sample_inputs \<noteq> 0 then in_ntime_max sample_inputs else job_ntime (in_job sample_inputs))"
    "leU32WordsToBe32Bytes (wi_prevhash_le (nr_item r)) = in_prevhash_be sample_inputs"
    using normalize_job_represents [OF sample_inputs_ok] by blast
  then show ?thesis by (intro exI [of _ r]) (simp add: sample_inputs_def default_inputs_def)
qed

text \<open>The rolling caps. A clamped time lies in the window when the window is not empty, and clamping
  again changes nothing; but \<^verbatim>\<open>clampRollingVersion\<close> returns its argument for every mask, so it
  confines nothing to the mask.\<close>

theorem rolling_caps:
  "(ntime_min \<le> ntime_max \<longrightarrow>
      ntime_min \<le> clampNtime ntime ntime_min ntime_max \<and> clampNtime ntime ntime_min ntime_max \<le> ntime_max \<and>
      clampNtime (clampNtime ntime ntime_min ntime_max) ntime_min ntime_max =
        clampNtime ntime ntime_min ntime_max \<and>
      (ntime_min \<le> ntime \<and> ntime \<le> ntime_max \<longrightarrow> clampNtime ntime ntime_min ntime_max = ntime)) \<and>
   clampRollingVersion version vmask = version"
proof -
  have "clampRollingVersion version vmask = version"
    by (rule bit_word_eqI) (auto simp: clampRollingVersion_def bit_simps)
  then show ?thesis by (auto simp: clampNtime_def)
qed

theorem rolling_caps_witness:
  "clampNtime 5 10 20 \<le> 20 \<and> clampRollingVersion 0xFFFFFFFF 0 = 0xFFFFFFFF"
  using rolling_caps [of 10 20 5 "0xFFFFFFFF" 0] by simp

end
