(* ===== verification/Adapters.thy ===== *)
theory Adapters
  imports Normalizer
begin

text \<open>
  \<^verbatim>\<open>src/adapters/stratum_adapter.*\<close>, \<^verbatim>\<open>gbt_adapter.*\<close>, \<^verbatim>\<open>pool_router.*\<close> and \<^verbatim>\<open>pool_profiles.*\<close>: the queues of
  normalised jobs, the policy a pool imposes on them, and the router that takes work from several
  adapters. Every method locks its adapter's mutex, so a method is one atomic operation on the
  adapter's record. A \<^verbatim>\<open>std::shared_ptr\<close> in the router is an index into a store of adapters, or \<open>None\<close>
  for a null pointer, so that one adapter may be registered twice. The call of the submitter in
  \<^verbatim>\<open>GbtAdapter::submitShare\<close> is the header handed to it.
\<close>

datatype State = kDisconnected | kConnecting | kSubscribed | kAuthorized

record StratumAdapter =
  sa_name :: string
  sa_q :: "NormalizerResult list"
  sa_state :: State
  sa_extranonce2_size :: u8
  sa_extranonce1_hex :: string
  policy_share_nbits :: u32
  policy_vmask :: u32
  policy_ntime_min :: u32
  policy_ntime_max :: u32
  policy_clean_jobs :: bool
  force_clean_jobs :: bool

definition stratum_adapter_new :: "string \<Rightarrow> StratumAdapter" where
  "stratum_adapter_new name = \<lparr>sa_name = name, sa_q = [], sa_state = kDisconnected,
     sa_extranonce2_size = 0, sa_extranonce1_hex = '''', policy_share_nbits = 0, policy_vmask = 0,
     policy_ntime_min = 0, policy_ntime_max = 0, policy_clean_jobs = True, force_clean_jobs = False\<rparr>"

definition pollNormalized_stratum :: "StratumAdapter \<Rightarrow> WorkItem option \<times> StratumAdapter" where
  "pollNormalized_stratum a =
     (case sa_q a of [] \<Rightarrow> (None, a) | it # q \<Rightarrow> (Some (nr_item it), a\<lparr>sa_q := q\<rparr>))"

definition pollNormalizedFull_stratum :: "StratumAdapter \<Rightarrow> NormalizerResult option \<times> StratumAdapter" where
  "pollNormalizedFull_stratum a =
     (case sa_q a of [] \<Rightarrow> (None, a) | it # q \<Rightarrow> (Some it, a\<lparr>sa_q := q\<rparr>))"

definition enqueueDummy :: "StratumAdapter \<Rightarrow> u64 \<Rightarrow> u32 \<Rightarrow> StratumAdapter result" where
  "enqueueDummy a work_id nbits =
     (let w = default_item\<lparr>wi_work_id := work_id, wi_source_id := 0, wi_version := 0x20000000,
                           wi_ntime := 0, wi_nbits := nbits, wi_nonce_start := 0\<rparr>
      in case compactToTargetU32LE nbits of
           Inl e \<Rightarrow> Inl e
         | Inr t \<Rightarrow>
             let w = w\<lparr>wi_block_target_le := t, wi_share_target_le := t\<rparr>
             in Inr (a\<lparr>sa_q := sa_q a @ [\<lparr>nr_item = w, nr_job_const = default_const\<rparr>]\<rparr>))"

definition ingestJob :: "StratumAdapter \<Rightarrow> RawJobInputs \<Rightarrow> StratumAdapter result" where
  "ingestJob a inputs =
     (case normalizeJob inputs of
        Inl e \<Rightarrow> Inl e
      | Inr None \<Rightarrow> Inr a
      | Inr (Some out) \<Rightarrow> Inr (a\<lparr>sa_q := sa_q a @ [out]\<rparr>))"

definition apply_policy :: "StratumAdapter \<Rightarrow> RawJobInputs \<Rightarrow> RawJobInputs" where
  "apply_policy a inputs =
     (let i1 = (if policy_share_nbits a \<noteq> 0 then inputs\<lparr>in_share_nbits := policy_share_nbits a\<rparr> else inputs);
          i2 = (if policy_vmask a \<noteq> 0 then i1\<lparr>in_vmask := policy_vmask a\<rparr> else i1);
          i3 = (if policy_ntime_min a \<noteq> 0 then i2\<lparr>in_ntime_min := policy_ntime_min a\<rparr> else i2);
          i4 = (if policy_ntime_max a \<noteq> 0 then i3\<lparr>in_ntime_max := policy_ntime_max a\<rparr> else i3)
      in if force_clean_jobs a then i4\<lparr>in_clean_jobs := policy_clean_jobs a\<rparr> else i4)"

definition ingestJobWithPolicy :: "StratumAdapter \<Rightarrow> RawJobInputs \<Rightarrow> StratumAdapter result" where
  "ingestJobWithPolicy a inputs =
     (case normalizeJob (apply_policy a inputs) of
        Inl e \<Rightarrow> Inl e
      | Inr None \<Rightarrow> Inr a
      | Inr (Some out) \<Rightarrow> Inr (a\<lparr>sa_q := sa_q a @ [out]\<rparr>))"

definition connect_stratum :: "StratumAdapter \<Rightarrow> StratumAdapter" where
  "connect_stratum a = a\<lparr>sa_state := kConnecting\<rparr>"

definition onSubscribed :: "StratumAdapter \<Rightarrow> string \<Rightarrow> u8 \<Rightarrow> StratumAdapter" where
  "onSubscribed a extranonce1_hex extranonce2_size =
     a\<lparr>sa_extranonce1_hex := extranonce1_hex, sa_extranonce2_size := extranonce2_size,
       sa_state := kSubscribed\<rparr>"

definition onAuthorizeOk :: "StratumAdapter \<Rightarrow> StratumAdapter" where
  "onAuthorizeOk a = a\<lparr>sa_state := kAuthorized\<rparr>"

definition updateVarDiff :: "StratumAdapter \<Rightarrow> u32 \<Rightarrow> StratumAdapter" where
  "updateVarDiff a share_nbits = a\<lparr>policy_share_nbits := share_nbits\<rparr>"

definition setVersionMask :: "StratumAdapter \<Rightarrow> u32 \<Rightarrow> StratumAdapter" where
  "setVersionMask a vmask = a\<lparr>policy_vmask := vmask\<rparr>"

definition setNtimeCaps :: "StratumAdapter \<Rightarrow> u32 \<Rightarrow> u32 \<Rightarrow> StratumAdapter" where
  "setNtimeCaps a nmin nmax = a\<lparr>policy_ntime_min := nmin, policy_ntime_max := nmax\<rparr>"

definition setCleanJobs :: "StratumAdapter \<Rightarrow> bool \<Rightarrow> StratumAdapter" where
  "setCleanJobs a flag = a\<lparr>policy_clean_jobs := flag\<rparr>"

definition forceCleanJobs :: "StratumAdapter \<Rightarrow> bool \<Rightarrow> StratumAdapter" where
  "forceCleanJobs a force = a\<lparr>force_clean_jobs := force\<rparr>"

record GbtAdapter =
  ga_name :: string
  ga_q :: "NormalizerResult list"
  ga_has_submitter :: bool

definition pollNormalized_gbt :: "GbtAdapter \<Rightarrow> WorkItem option \<times> GbtAdapter" where
  "pollNormalized_gbt a =
     (case ga_q a of [] \<Rightarrow> (None, a) | it # q \<Rightarrow> (Some (nr_item it), a\<lparr>ga_q := q\<rparr>))"

definition pollNormalizedFull_gbt :: "GbtAdapter \<Rightarrow> NormalizerResult option \<times> GbtAdapter" where
  "pollNormalizedFull_gbt a =
     (case ga_q a of [] \<Rightarrow> (None, a) | it # q \<Rightarrow> (Some it, a\<lparr>ga_q := q\<rparr>))"

definition ingestTemplate :: "GbtAdapter \<Rightarrow> RawJobInputs \<Rightarrow> GbtAdapter result" where
  "ingestTemplate a inputs =
     (case normalizeJob inputs of
        Inl e \<Rightarrow> Inl e
      | Inr None \<Rightarrow> Inr a
      | Inr (Some out) \<Rightarrow> Inr (a\<lparr>ga_q := ga_q a @ [out]\<rparr>))"

definition submitShare_gbt :: "GbtAdapter \<Rightarrow> u8 list \<Rightarrow> u8 list option" where
  "submitShare_gbt a header80_be = (if ga_has_submitter a then Some header80_be else None)"

section \<open>Pool router\<close>

datatype Adapter = Stratum StratumAdapter | Gbt GbtAdapter

fun pollNormalized :: "Adapter \<Rightarrow> WorkItem option \<times> Adapter" where
  "pollNormalized (Stratum a) = (let (w, a') = pollNormalized_stratum a in (w, Stratum a'))"
| "pollNormalized (Gbt a) = (let (w, a') = pollNormalized_gbt a in (w, Gbt a'))"

datatype Strategy = kFailover | kRoundRobin

record PoolRouter =
  pr_strategy :: Strategy
  pr_adapters :: "nat option list"
  pr_rr_index :: nat

definition pool_router_new :: "Strategy \<Rightarrow> PoolRouter" where
  "pool_router_new s = \<lparr>pr_strategy = s, pr_adapters = [], pr_rr_index = 0\<rparr>"

definition addAdapter :: "PoolRouter \<Rightarrow> nat option \<Rightarrow> PoolRouter" where
  "addAdapter r p = r\<lparr>pr_adapters := pr_adapters r @ [p]\<rparr>"

definition setStrategy :: "PoolRouter \<Rightarrow> Strategy \<Rightarrow> PoolRouter" where
  "setStrategy r s = r\<lparr>pr_strategy := s\<rparr>"

text \<open>The two loops of \<^verbatim>\<open>pollNext\<close>; the second returns the index of the adapter that produced work.\<close>

fun failover_loop :: "Adapter list \<Rightarrow> nat option list \<Rightarrow> WorkItem option \<times> Adapter list" where
  "failover_loop store [] = (None, store)"
| "failover_loop store (None # ps) = failover_loop store ps"
| "failover_loop store (Some p # ps) =
     (let (w, a') = pollNormalized (store ! p); store' = store[p := a']
      in if w \<noteq> None then (w, store') else failover_loop store' ps)"

fun rr_loop :: "Adapter list \<Rightarrow> nat option list \<Rightarrow> nat list \<Rightarrow> (nat \<times> WorkItem) option \<times> Adapter list" where
  "rr_loop store ptrs [] = (None, store)"
| "rr_loop store ptrs (idx # is) =
     (case ptrs ! idx of
        None \<Rightarrow> rr_loop store ptrs is
      | Some p \<Rightarrow>
          let (w, a') = pollNormalized (store ! p); store' = store[p := a']
          in case w of Some x \<Rightarrow> (Some (idx, x), store') | None \<Rightarrow> rr_loop store' ptrs is)"

definition pollNext :: "PoolRouter \<Rightarrow> Adapter list \<Rightarrow> WorkItem option \<times> PoolRouter \<times> Adapter list" where
  "pollNext r store =
     (let n = length (pr_adapters r)
      in if pr_adapters r = [] then (None, r, store)
         else if pr_strategy r = kFailover
         then (let (w, store') = failover_loop store (pr_adapters r) in (w, r, store'))
         else (case rr_loop store (pr_adapters r) (map (\<lambda>i. (pr_rr_index r + i) mod n) [0..<n]) of
                 (Some (idx, x), store') \<Rightarrow> (Some x, r\<lparr>pr_rr_index := (idx + 1) mod n\<rparr>, store')
               | (None, store') \<Rightarrow> (None, r\<lparr>pr_rr_index := (pr_rr_index r + 1) mod n\<rparr>, store')))"

section \<open>Pool profiles\<close>

datatype PoolProfile = kGeneric | kViaBTC | kF2Pool

definition formatStratumCredentials ::
    "PoolProfile \<Rightarrow> string \<Rightarrow> string \<Rightarrow> string \<Rightarrow> string \<times> string" where
  "formatStratumCredentials profile wallet_address worker_name password_hint =
     (let user = wallet_address;
          user = (if worker_name \<noteq> '''' then (user @ ''.'') @ worker_name else user);
          pass = (if password_hint = '''' then ''x'' else password_hint)
      in case profile of kViaBTC \<Rightarrow> (user, pass) | kF2Pool \<Rightarrow> (user, pass) | kGeneric \<Rightarrow> (user, pass))"

section \<open>Adapters as sources of work\<close>

text \<open>What the router relies on: polling takes the first pending item, or nothing.\<close>

locale work_source =
  fixes poll :: "'a \<Rightarrow> WorkItem option \<times> 'a" and pending :: "'a \<Rightarrow> WorkItem list"
  assumes poll_empty: "pending a = [] \<Longrightarrow> poll a = (None, a)"
    and poll_some: "pending a = w # ws \<Longrightarrow> \<exists>a'. poll a = (Some w, a') \<and> pending a' = ws"
begin

lemma poll_none_iff: "fst (poll a) = None \<longleftrightarrow> pending a = []"
proof (cases "pending a")
  case (Cons w ws)
  then obtain a' where "poll a = (Some w, a')" using poll_some by blast
  then show ?thesis using Cons by simp
qed (simp add: poll_empty)

lemma poll_hd: "pending a \<noteq> [] \<Longrightarrow> fst (poll a) = Some (hd (pending a)) \<and> pending (snd (poll a)) = tl (pending a)"
  using poll_some [of a "hd (pending a)" "tl (pending a)"] by auto


end

definition pending_stratum :: "StratumAdapter \<Rightarrow> WorkItem list" where
  "pending_stratum a = map nr_item (sa_q a)"

definition pending_gbt :: "GbtAdapter \<Rightarrow> WorkItem list" where
  "pending_gbt a = map nr_item (ga_q a)"

fun pending_adapter :: "Adapter \<Rightarrow> WorkItem list" where
  "pending_adapter (Stratum a) = pending_stratum a"
| "pending_adapter (Gbt a) = pending_gbt a"

interpretation stratum_source: work_source pollNormalized_stratum pending_stratum
  by unfold_locales (auto simp: pollNormalized_stratum_def pending_stratum_def)

interpretation gbt_source: work_source pollNormalized_gbt pending_gbt
  by unfold_locales (auto simp: pollNormalized_gbt_def pending_gbt_def)

interpretation adapter_source: work_source pollNormalized pending_adapter
proof
  fix a w ws
  show "pending_adapter a = [] \<Longrightarrow> pollNormalized a = (None, a)"
    by (cases a) (simp_all add: stratum_source.poll_empty gbt_source.poll_empty)
  show "pending_adapter a = w # ws \<Longrightarrow> \<exists>a'. pollNormalized a = (Some w, a') \<and> pending_adapter a' = ws"
    by (cases a) (auto dest!: stratum_source.poll_some gbt_source.poll_some)
qed

section \<open>The router\<close>

definition ready :: "Adapter list \<Rightarrow> nat option \<Rightarrow> bool" where
  "ready store ptr = (case ptr of None \<Rightarrow> False | Some p \<Rightarrow> pending_adapter (store ! p) \<noteq> [])"

definition take_from :: "Adapter list \<Rightarrow> nat option \<Rightarrow> WorkItem \<times> Adapter list" where
  "take_from store ptr = (let p = the ptr
     in (hd (pending_adapter (store ! p)), store[p := snd (pollNormalized (store ! p))]))"

lemma poll_cases:
  "pollNormalized a = (if pending_adapter a = [] then (None, a)
     else (Some (hd (pending_adapter a)), snd (pollNormalized a)))"
  using adapter_source.poll_empty [of a] adapter_source.poll_hd [of a]
  by (cases "pollNormalized a") auto

lemma failover_loop_find:
  "failover_loop store ps = (case find (ready store) ps of
     None \<Rightarrow> (None, store)
   | Some ptr \<Rightarrow> (let (w, store') = take_from store ptr in (Some w, store')))"
proof (induction ps)
  case (Cons ptr ps)
  show ?case
  proof (cases "ready store ptr")
    case True
    then obtain p where p: "ptr = Some p" "pending_adapter (store ! p) \<noteq> []"
      by (auto simp: ready_def split: option.splits)
    then show ?thesis
      using True poll_cases [of "store ! p"] by (auto simp: take_from_def Let_def split: prod.splits)
  next
    case False
    then show ?thesis
      using Cons adapter_source.poll_empty by (auto simp: ready_def Let_def split: option.splits)
  qed
qed simp

lemma rr_loop_find:
  "rr_loop store ptrs is = (case find (\<lambda>idx. ready store (ptrs ! idx)) is of
     None \<Rightarrow> (None, store)
   | Some idx \<Rightarrow> (let (w, store') = take_from store (ptrs ! idx) in (Some (idx, w), store')))"
proof (induction "is")
  case (Cons idx "is")
  show ?case
  proof (cases "ready store (ptrs ! idx)")
    case True
    then obtain p where p: "ptrs ! idx = Some p" "pending_adapter (store ! p) \<noteq> []"
      by (auto simp: ready_def split: option.splits)
    then show ?thesis
      using True poll_cases [of "store ! p"] by (auto simp: take_from_def Let_def split: prod.splits option.splits)
  next
    case False
    then show ?thesis
      using Cons adapter_source.poll_empty by (auto simp: ready_def Let_def split: option.splits)
  qed
qed simp

lemma take_from_served:
  assumes "p < length store" and "pending_adapter (store ! p) \<noteq> []"
  shows "fst (take_from store (Some p)) = hd (pending_adapter (store ! p))"
    and "pending_adapter (snd (take_from store (Some p)) ! p) = tl (pending_adapter (store ! p))"
    and "q \<noteq> p \<Longrightarrow> snd (take_from store (Some p)) ! q = store ! q"
  using assms adapter_source.poll_hd [OF assms(2)] by (simp_all add: take_from_def Let_def)

text \<open>How far the round robin start is from position \<open>k\<close>.\<close>

definition rr_dist :: "PoolRouter \<Rightarrow> nat \<Rightarrow> nat" where
  "rr_dist r k = (k + length (pr_adapters r) - pr_rr_index r) mod length (pr_adapters r)"

definition router_ok :: "PoolRouter \<Rightarrow> Adapter list \<Rightarrow> bool" where
  "router_ok r store \<longleftrightarrow> (\<forall>p. Some p \<in> set (pr_adapters r) \<longrightarrow> p < length store) \<and>
     (pr_adapters r \<noteq> [] \<longrightarrow> pr_rr_index r < length (pr_adapters r)) \<and> (pr_adapters r = [] \<longrightarrow> pr_rr_index r = 0)"

lemma rr_dist_index:
  fixes k n s :: nat
  assumes "k < n" and "s < n"
  shows "(k + n - s) mod n < n \<and> (s + (k + n - s) mod n) mod n = k"
proof -
  have "(s + (k + n - s) mod n) mod n = (s + (k + n - s)) mod n" by (rule mod_add_right_eq)
  also have "s + (k + n - s) = k + n" using assms by simp
  finally show ?thesis using assms by simp
qed

lemma find_map_upt:
  assumes "i0 < n" and "P (f i0)"
  obtains i where "i \<le> i0" and "find P (map f [0..<n]) = Some (f i)" and "P (f i)"
    and "\<And>j. j < i \<Longrightarrow> \<not> P (f j)"
proof -
  define i where "i = (LEAST j. P (f j))"
  have i: "P (f i)" "i \<le> i0" using assms(2) by (auto simp: i_def intro: LeastI Least_le)
  have least: "\<not> P (f j)" if "j < i" for j using that not_less_Least by (auto simp: i_def)
  have "find P (map f [0..<n]) = Some (f i)"
    unfolding find_Some_iff using i least assms(1) by (intro exI [of _ i]) auto
  with i least show ?thesis using that by blast
qed

lemma rr_dist_step:
  fixes k n s i :: nat
  assumes "k < n" and "s < n" and "i < (k + n - s) mod n"
  shows "(k + n - ((s + i) mod n + 1) mod n) mod n < (k + n - s) mod n"
proof -
  define d where "d = (k + n - s) mod n"
  have d: "d < n" "(s + d) mod n = k" using rr_dist_index [OF assms(1,2)] by (simp_all add: d_def)
  have s': "((s + i) mod n + 1) mod n = (s + i + 1) mod n" by (simp add: mod_Suc_eq)
  have "(k + n - (s + i + 1) mod n) mod n = d - (i + 1)"
  proof (cases "s + d < n")
    case True
    then have "(s + i + 1) mod n = s + i + 1" "k = s + d" using assms(3) d by (simp_all add: d_def)
    then have "k + n - (s + i + 1) mod n = n + (d - (i + 1))" using assms(3) by (simp add: d_def)
    then show ?thesis using d(1) by simp
  next
    case False
    then have k: "k + n = s + d" using d assms(2) by (simp add: le_mod_geq not_less)
    show ?thesis
    proof (cases "s + i + 1 < n")
      case True
      then show ?thesis using k d(1) assms(3) by (simp add: d_def [symmetric])
    next
      case False
      then have "(s + i + 1) mod n = s + i + 1 - n"
        using assms(2,3) d(1) by (simp add: le_mod_geq d_def [symmetric])
      then have "k + n - (s + i + 1) mod n = n + (d - (i + 1))"
        using k assms(2,3) False d(1) by (simp add: d_def [symmetric])
      then show ?thesis using d(1) by simp
    qed
  qed
  then show ?thesis unfolding s' using assms(3) by (simp add: d_def [symmetric])
qed

lemma pollNext_rr:
  assumes "router_ok r store" and "pr_strategy r = kRoundRobin"
    and "k < length (pr_adapters r)" and "pr_adapters r ! k = Some p"
    and "pending_adapter (store ! p) \<noteq> []"
  obtains i q r' where "i \<le> rr_dist r k" and "r' = r\<lparr>pr_rr_index := ((pr_rr_index r + i) mod length (pr_adapters r) + 1) mod length (pr_adapters r)\<rparr>"
    and "pr_adapters r ! ((pr_rr_index r + i) mod length (pr_adapters r)) = Some q"
    and "pending_adapter (store ! q) \<noteq> []" and "q < length store"
    and "pollNext r store = (Some (fst (take_from store (Some q))), r', snd (take_from store (Some q)))"
proof -
  let ?n = "length (pr_adapters r)" and ?s = "pr_rr_index r"
  let ?f = "\<lambda>i. (?s + i) mod ?n" and ?P = "\<lambda>idx. ready store (pr_adapters r ! idx)"
  have n: "pr_adapters r \<noteq> []" "?s < ?n" using assms(1,3) by (auto simp: router_ok_def)
  have d: "rr_dist r k < ?n" "?f (rr_dist r k) = k"
    using rr_dist_index [OF assms(3) n(2)] by (simp_all add: rr_dist_def)
  have "?P (?f (rr_dist r k))" using assms(4,5) d(2) by (simp add: ready_def)
  with d(1) obtain i where i: "i \<le> rr_dist r k" "find ?P (map ?f [0..<?n]) = Some (?f i)" "?P (?f i)"
    by (rule find_map_upt)
  then obtain q where q: "pr_adapters r ! ?f i = Some q" "pending_adapter (store ! q) \<noteq> []"
    by (auto simp: ready_def split: option.splits)
  have "?f i < ?n" using n by simp
  then have "Some q \<in> set (pr_adapters r)" using q(1) nth_mem by metis
  then have "q < length store" using assms(1) by (simp add: router_ok_def)
  moreover have "pollNext r store = (Some (fst (take_from store (Some q))),
      r\<lparr>pr_rr_index := (?f i + 1) mod ?n\<rparr>, snd (take_from store (Some q)))"
    using n(1) assms(2) i(2) q(1)
    by (simp add: pollNext_def rr_loop_find Let_def split: prod.splits)
  ultimately show ?thesis using that i(1) q by blast
qed

text \<open>\<open>poll_times m r store\<close>: the router and the adapters after \<open>m\<close> calls of \<^verbatim>\<open>pollNext\<close>.\<close>

primrec poll_times :: "nat \<Rightarrow> PoolRouter \<Rightarrow> Adapter list \<Rightarrow> PoolRouter \<times> Adapter list" where
  "poll_times 0 r store = (r, store)"
| "poll_times (Suc m) r store = (let (w, r', store') = pollNext r store in poll_times m r' store')"

text \<open>The call of \<^verbatim>\<open>pollNext\<close> after \<open>j\<close> others returns \<open>w\<close>, taken from adapter \<open>p\<close>, which keeps \<open>ws\<close>.\<close>

definition serves_at :: "PoolRouter \<Rightarrow> Adapter list \<Rightarrow> nat \<Rightarrow> WorkItem \<Rightarrow> WorkItem list \<Rightarrow> nat \<Rightarrow> bool" where
  "serves_at r store p w ws j = (case poll_times j r store of (r', store') \<Rightarrow>
     case pollNext r' store' of (x, r'', store'') \<Rightarrow> x = Some w \<and> pending_adapter (store'' ! p) = ws)"

lemma serves_at_Suc:
  "pollNext r store = (x, r', store') \<Longrightarrow> serves_at r store p w ws (Suc j) = serves_at r' store' p w ws j"
  by (simp add: serves_at_def)

lemma rr_served_within:
  assumes "router_ok r store" and "pr_strategy r = kRoundRobin"
    and "k < length (pr_adapters r)" and "pr_adapters r ! k = Some p"
    and "pending_adapter (store ! p) = w # ws"
  shows "\<exists>j \<le> rr_dist r k. serves_at r store p w ws j"
  using assms
proof (induction "rr_dist r k" arbitrary: r store rule: less_induct)
  case less
  let ?n = "length (pr_adapters r)"
  have ne: "pending_adapter (store ! p) \<noteq> []" using less.prems(5) by simp
  obtain i q r' where i: "i \<le> rr_dist r k"
    and r': "r' = r\<lparr>pr_rr_index := ((pr_rr_index r + i) mod ?n + 1) mod ?n\<rparr>"
    and q: "pr_adapters r ! ((pr_rr_index r + i) mod ?n) = Some q" "pending_adapter (store ! q) \<noteq> []"
      "q < length store"
    and step: "pollNext r store = (Some (fst (take_from store (Some q))), r', snd (take_from store (Some q)))"
    using pollNext_rr [OF less.prems(1-4) ne] by metis
  show ?case
  proof (cases "q = p")
    case True
    then show ?thesis
      using step take_from_served [OF q(3,2)] less.prems(5)
      by (intro exI [of _ 0]) (simp add: serves_at_def)
  next
    case False
    have s: "pr_rr_index r < ?n" using less.prems(1,3) by (auto simp: router_ok_def)
    then have n: "0 < ?n" by linarith
    have "i \<noteq> rr_dist r k"
      using False q(1) less.prems(4) rr_dist_index [OF less.prems(3) s] by (auto simp: rr_dist_def)
    then have dist: "rr_dist r' k < rr_dist r k"
      using rr_dist_step [OF less.prems(3) s] i by (simp add: rr_dist_def r')
    have store': "snd (take_from store (Some q)) ! p = store ! p"
      using False take_from_served [OF q(3,2)] by metis
    have a: "pr_adapters r' = pr_adapters r" "pr_rr_index r' < ?n" "pr_strategy r' = kRoundRobin"
      using less.prems(2) by (simp_all add: r' mod_less_divisor [OF n])
    have ok: "router_ok r' (snd (take_from store (Some q)))"
      using less.prems(1,3) a by (auto simp: router_ok_def take_from_def Let_def)
    have k': "k < length (pr_adapters r')" "pr_adapters r' ! k = Some p"
      using less.prems(3,4) by (simp_all only: a)
    have "pending_adapter (snd (take_from store (Some q)) ! p) = w # ws"
      using less.prems(5) by (simp only: store')
    from less.hyps [OF dist ok a(3) k' this]
    obtain j where "j \<le> rr_dist r' k" "serves_at r' (snd (take_from store (Some q))) p w ws j" by blast
    then have "Suc j \<le> rr_dist r k \<and> serves_at r store p w ws (Suc j)"
      using dist serves_at_Suc [OF step] by simp
    then show ?thesis by blast
  qed
qed

lemma find_ready_None: "find P xs = None \<longleftrightarrow> (\<forall>x \<in> set xs. \<not> P x)"
  by (auto simp: find_None_iff)

lemma rr_positions:
  assumes "s < n"
  shows "set (map (\<lambda>i. (s + i) mod n) [0..<n]) = {0..<n}"
proof -
  have "\<exists>i < n. (s + i) mod n = k" if "k < n" for k
    using rr_dist_index [OF that assms] by (intro exI [of _ "(k + n - s) mod n"]) simp
  then show ?thesis using assms by (force simp: image_iff)
qed

lemma find_Some_ready: "find P xs = Some x \<Longrightarrow> P x"
  by (auto simp: find_Some_iff)

lemma pollNext_None_iff:
  assumes "router_ok r store"
  shows "fst (pollNext r store) = None \<longleftrightarrow> (\<forall>ptr \<in> set (pr_adapters r). \<not> ready store ptr)"
proof (cases "pr_adapters r = []")
  case True
  then show ?thesis by (simp add: pollNext_def)
next
  case False
  let ?n = "length (pr_adapters r)"
  have s: "pr_rr_index r < ?n" using assms False by (simp add: router_ok_def)
  show ?thesis
  proof (cases "pr_strategy r")
    case kFailover
    then show ?thesis using False find_ready_None [of "ready store" "pr_adapters r"]
      by (auto simp: pollNext_def failover_loop_find Let_def split: option.splits prod.splits)
  next
    case kRoundRobin
    let ?is = "map (\<lambda>i. (pr_rr_index r + i) mod ?n) [0..<?n]"
    have "find (\<lambda>idx. ready store (pr_adapters r ! idx)) ?is = None \<longleftrightarrow>
        (\<forall>ptr \<in> set (pr_adapters r). \<not> ready store ptr)"
      unfolding find_ready_None rr_positions [OF s] by (auto simp: in_set_conv_nth Ball_def)
    then show ?thesis using False kRoundRobin
      by (auto simp: pollNext_def rr_loop_find Let_def split: option.splits prod.splits)
  qed
qed

section \<open>Properties\<close>

text \<open>Round robin starves nobody. From any state of a router with valid pointers, an adapter with
  pending work is served, with its first pending item, within as many calls of \<^verbatim>\<open>pollNext\<close> as the
  router has adapters, whatever the others have pending.\<close>

theorem round_robin_serves:
  assumes "router_ok r store" and "pr_strategy r = kRoundRobin"
    and "Some p \<in> set (pr_adapters r)" and "pending_adapter (store ! p) = w # ws"
  shows "\<exists>j < length (pr_adapters r). (case poll_times j r store of (r', store') \<Rightarrow>
     case pollNext r' store' of (x, r'', store'') \<Rightarrow> x = Some w \<and> pending_adapter (store'' ! p) = ws)"
proof -
  obtain k where k: "k < length (pr_adapters r)" "pr_adapters r ! k = Some p"
    using assms(3) by (auto simp: in_set_conv_nth)
  have "0 < length (pr_adapters r)" using k(1) by linarith
  then have "rr_dist r k < length (pr_adapters r)" by (simp add: rr_dist_def)
  then show ?thesis using rr_served_within [OF assms(1,2) k assms(4)] unfolding serves_at_def [symmetric]
    by (meson order_le_less_trans)
qed

text \<open>Two adapters, the second with one job.\<close>

definition sample_result :: NormalizerResult where
  "sample_result = \<lparr>nr_item = default_item\<lparr>wi_work_id := 9\<rparr>, nr_job_const = default_const\<rparr>"

definition sample_store :: "Adapter list" where
  "sample_store = [Stratum (stratum_adapter_new ''a''),
     Gbt \<lparr>ga_name = ''b'', ga_q = [sample_result], ga_has_submitter = False\<rparr>]"

definition sample_router :: PoolRouter where
  "sample_router = \<lparr>pr_strategy = kRoundRobin, pr_adapters = [Some 0, Some 1], pr_rr_index = 0\<rparr>"

theorem round_robin_serves_witness:
  "\<exists>j < 2. (case poll_times j sample_router sample_store of (r', store') \<Rightarrow>
     case pollNext r' store' of (x, r'', store'') \<Rightarrow>
       x = Some (nr_item sample_result) \<and> pending_adapter (store'' ! 1) = [])"
  using round_robin_serves [of sample_router sample_store 1 "nr_item sample_result" "[]"]
  by (simp add: router_ok_def sample_router_def sample_store_def pending_gbt_def numeral_2_eq_2)

text \<open>The router finds work if there is any. With either strategy \<^verbatim>\<open>pollNext\<close> returns nothing exactly
  when every registered adapter is a null pointer or has nothing pending.\<close>

theorem router_work_conserving:
  assumes "router_ok r store"
  shows "fst (pollNext r store) = None \<longleftrightarrow>
    (\<forall>p. Some p \<in> set (pr_adapters r) \<longrightarrow> pending_adapter (store ! p) = [])"
  using pollNext_None_iff [OF assms] by (auto simp: ready_def split: option.splits)

theorem router_work_conserving_witness:
  "fst (pollNext sample_router sample_store) \<noteq> None"
  using router_work_conserving [of sample_router sample_store]
  by (auto simp: router_ok_def sample_router_def sample_store_def pending_gbt_def)

text \<open>The policy of a pool overrides a job only where it is set. \<^verbatim>\<open>ingestJobWithPolicy\<close> appends one
  well-formed result to the queue, leaving the work already queued in place, or reports the error
  of the expansion and leaves the adapter alone; an adapter with no policy behaves as \<^verbatim>\<open>ingestJob\<close>.\<close>

theorem ingest_with_policy:
  "(case ingestJobWithPolicy a inputs of
      Inl e \<Rightarrow> e = Out_of_bounds
    | Inr a' \<Rightarrow> \<exists>out. sa_q a' = sa_q a @ [out] \<and> a' = a\<lparr>sa_q := sa_q a'\<rparr> \<and> item_ok (nr_item out) \<and>
        wi_clean_jobs (nr_item out) = (if force_clean_jobs a then policy_clean_jobs a else in_clean_jobs inputs) \<and>
        target_nat (wi_share_target_le (nr_item out)) =
          code_target (if policy_share_nbits a \<noteq> 0 then policy_share_nbits a else in_share_nbits inputs)) \<and>
   ingestJobWithPolicy (stratum_adapter_new name) inputs = ingestJob (stratum_adapter_new name) inputs"
proof
  let ?i = "apply_policy a inputs"
  have i: "in_clean_jobs ?i = (if force_clean_jobs a then policy_clean_jobs a else in_clean_jobs inputs)"
    "in_share_nbits ?i = (if policy_share_nbits a \<noteq> 0 then policy_share_nbits a else in_share_nbits inputs)"
    by (simp_all add: apply_policy_def Let_def)
  show "case ingestJobWithPolicy a inputs of
      Inl e \<Rightarrow> e = Out_of_bounds
    | Inr a' \<Rightarrow> \<exists>out. sa_q a' = sa_q a @ [out] \<and> a' = a\<lparr>sa_q := sa_q a'\<rparr> \<and> item_ok (nr_item out) \<and>
        wi_clean_jobs (nr_item out) = (if force_clean_jobs a then policy_clean_jobs a else in_clean_jobs inputs) \<and>
        target_nat (wi_share_target_le (nr_item out)) =
          code_target (if policy_share_nbits a \<noteq> 0 then policy_share_nbits a else in_share_nbits inputs)"
  proof (cases "compact_safe (job_nbits (in_job ?i)) \<and> compact_safe (in_share_nbits ?i)")
    case True
    then obtain out where "normalizeJob ?i = Inr (Some out)" "item_ok (nr_item out)"
      "target_nat (wi_share_target_le (nr_item out)) = code_target (in_share_nbits ?i)"
      "wi_clean_jobs (nr_item out) = in_clean_jobs ?i"
      using normalizeJob_safe [of ?i] by metis
    then show ?thesis by (simp add: ingestJobWithPolicy_def i)
  next
    case False
    then show ?thesis using normalizeJob_unsafe [of ?i] by (simp add: ingestJobWithPolicy_def)
  qed
  have "apply_policy (stratum_adapter_new name) inputs = inputs"
    by (simp add: apply_policy_def stratum_adapter_new_def Let_def)
  then show "ingestJobWithPolicy (stratum_adapter_new name) inputs = ingestJob (stratum_adapter_new name) inputs"
    by (simp add: ingestJobWithPolicy_def ingestJob_def)
qed

end
