(* ===== verification/Stratum_Client.thy ===== *)
theory Stratum_Client
  imports Json_Library "HOL-Library.Sublist"
begin

text \<open>
  \<^verbatim>\<open>src/net/stratum_client.cc\<close>: the line protocol of a pool connection. Sending repeats until the socket
  has taken everything; receiving reads one byte at a time up to a line feed. The socket is a parameter:
  for sending the number of bytes it takes at every call, for receiving the events it reports.
\<close>

section \<open>Sending\<close>

text \<open>The answer and what was transmitted. \<open>sock i n\<close> is the result of the \<open>i\<close>-th call with \<open>n\<close> bytes left.\<close>

function send_loop :: "(nat \<Rightarrow> nat \<Rightarrow> int) \<Rightarrow> nat \<Rightarrow> string \<Rightarrow> bool \<times> string" where
  "send_loop sock i data =
     (if data = [] then (True, [])
      else let sent = sock i (length data)
           in if sent \<le> 0 then (False, [])
              else case send_loop sock (i + 1) (drop (nat sent) data) of
                     (ok, out) \<Rightarrow> (ok, take (nat sent) data @ out))"
  by pat_completeness auto
termination
  by (relation "measure (\<lambda>(sock, i, data). length data)") auto

declare send_loop.simps [simp del]

definition sendJson :: "(json \<Rightarrow> string) \<Rightarrow> (nat \<Rightarrow> nat \<Rightarrow> int) option \<Rightarrow> json \<Rightarrow> bool \<times> string" where
  "sendJson dump sock j =
     (case sock of
        None \<Rightarrow> (False, [])
      | Some s \<Rightarrow> send_loop s 0 (dump j @ [CHR 0x0D, CHR 0x0A]))"

definition message :: "int \<Rightarrow> string \<Rightarrow> string list \<Rightarrow> json" where
  "message i m ps = JObject [(''id'', JInt i), (''method'', JString m), (''params'', JArray (map JString ps))]"

definition subscribe_message :: json where
  "subscribe_message = message 1 ''mining.subscribe'' [''MyCustomBTCMiner/0.1'']"

definition authorize_message :: "string \<Rightarrow> string \<Rightarrow> json" where
  "authorize_message username password = message 2 ''mining.authorize'' [username, password]"

definition submit_message :: "string \<Rightarrow> string \<Rightarrow> string \<Rightarrow> string \<Rightarrow> string \<Rightarrow> json" where
  "submit_message worker_name job_id extranonce2_hex ntime_hex nonce_hex =
     message 3 ''mining.submit'' [worker_name, job_id, extranonce2_hex, ntime_hex, nonce_hex]"

section \<open>Receiving\<close>

text \<open>A byte, an expired wait (\<^verbatim>\<open>-2\<close>), the end of the stream or a failure (\<^verbatim>\<open>0\<close>, \<^verbatim>\<open>-1\<close>).\<close>

datatype byte_event = Byte char | Expired | Ended

datatype RecvStatus = kLine | kTimeout | kClosed

text \<open>\<open>None\<close> while the events leave the call waiting.\<close>

fun recv_loop :: "byte_event list \<Rightarrow> string \<Rightarrow> ((RecvStatus \<times> string) \<times> byte_event list) option" where
  "recv_loop [] line = None"
| "recv_loop (Expired # es) line = Some ((kTimeout, []), es)"
| "recv_loop (Ended # es) line = Some (if line = [] then (kClosed, []) else (kLine, line), es)"
| "recv_loop (Byte ch # es) line =
     (if ch = CHR 0x0A then Some ((kLine, line), es) else recv_loop es (line @ [ch]))"

definition recvLine :: "byte_event list option \<Rightarrow> ((RecvStatus \<times> string) \<times> byte_event list option) option" where
  "recvLine sock =
     (case sock of
        None \<Rightarrow> Some ((kClosed, []), None)
      | Some es \<Rightarrow> map_option (\<lambda>(r, es). (r, Some es)) (recv_loop es []))"

text \<open>The results of \<open>n\<close> calls in a row.\<close>

fun recv_lines :: "nat \<Rightarrow> byte_event list \<Rightarrow> ((RecvStatus \<times> string) list \<times> byte_event list) option" where
  "recv_lines 0 es = Some ([], es)"
| "recv_lines (Suc n) es =
     (case recvLine (Some es) of
        Some (r, Some es) \<Rightarrow> map_option (\<lambda>(rs, es). (r # rs, es)) (recv_lines n es)
      | _ \<Rightarrow> None)"

definition line_events :: "string \<Rightarrow> byte_event list" where
  "line_events l = map Byte l @ [Byte (CHR 0x0A)]"

lemma recv_loop_bytes:
  "CHR 0x0A \<notin> set l \<Longrightarrow> recv_loop (map Byte l @ es) acc = recv_loop es (acc @ l)"
  by (induction l arbitrary: acc) auto

lemma recv_loop_line: "CHR 0x0A \<notin> set l \<Longrightarrow> recv_loop (line_events l @ es) [] = Some ((kLine, l), es)"
  by (simp add: line_events_def recv_loop_bytes)

lemma send_loop_cases:
  "send_loop sock i [] = (True, [])"
  "data \<noteq> [] \<Longrightarrow> sock i (length data) \<le> 0 \<Longrightarrow> send_loop sock i data = (False, [])"
  "data \<noteq> [] \<Longrightarrow> 0 < sock i (length data) \<Longrightarrow> n = nat (sock i (length data)) \<Longrightarrow>
     send_loop sock i data = (fst (send_loop sock (i + 1) (drop n data)),
       take n data @ snd (send_loop sock (i + 1) (drop n data)))"
  by (simp_all add: send_loop.simps [of sock i data] send_loop.simps [of sock i "[]"] Let_def split: prod.splits)

lemma send_loop_induct [case_names empty fail step]:
  assumes "\<And>i. P i []" and "\<And>i data. data \<noteq> [] \<Longrightarrow> sock i (length data) \<le> 0 \<Longrightarrow> P i data"
    and "\<And>i data n. data \<noteq> [] \<Longrightarrow> 0 < sock i (length data) \<Longrightarrow> n = nat (sock i (length data)) \<Longrightarrow>
      P (i + 1) (drop n data) \<Longrightarrow> P i data"
  shows "P i (data :: string)"
proof (induction "length data" arbitrary: i data rule: less_induct)
  case less
  show ?case
  proof (cases "data = [] \<or> sock i (length data) \<le> 0")
    case True
    then show ?thesis using assms(1) [of i] assms(2) [of data i] by blast
  next
    case False
    then have "length (drop (nat (sock i (length data))) data) < length data" by simp
    then have "P (i + 1) (drop (nat (sock i (length data))) data)" by (rule less)
    moreover have "data \<noteq> []" "0 < sock i (length data)" using False by simp_all
    ultimately show ?thesis using assms(3) [OF _ _ refl, of data i] by blast
  qed
qed

lemma send_loop_complete:
  assumes "\<forall>i n. 0 < n \<longrightarrow> 0 < sock i n \<and> sock i n \<le> int n"
  shows "send_loop sock i data = (True, data)"
proof (induction i data rule: send_loop_induct [where sock = sock])
  case (fail i data)
  then show ?case using assms by (metis length_greater_0_conv not_le)
next
  case (step i data n)
  then show ?case by (simp add: send_loop_cases(3) [of data sock i n, OF step(1-3)])
qed (simp add: send_loop_cases)

lemma send_loop_prefix: "prefix (snd (send_loop sock i data)) data"
proof (induction i data rule: send_loop_induct [where sock = sock])
  case (step i data n)
  then have "prefix (take n data @ snd (send_loop sock (i + 1) (drop n data))) (take n data @ drop n data)"
    by (simp only: same_prefix_prefix)
  then show ?case by (simp add: send_loop_cases(3) [of data sock i n, OF step(1-3)])
qed (simp_all add: send_loop_cases)

lemma send_loop_ok: "fst (send_loop sock i data) \<Longrightarrow> snd (send_loop sock i data) = data"
proof (induction i data rule: send_loop_induct [where sock = sock])
  case (step i data n)
  then show ?case by (simp add: send_loop_cases(3) [of data sock i n, OF step(1-3)])
qed (simp_all add: send_loop_cases)

section \<open>Properties\<close>

text \<open>Sending a message. Without a socket nothing is sent. With one, whatever it takes at every call,
  what is transmitted is a beginning of the line (document, carriage return, line feed), and when the
  answer is yes it is the whole line; a socket that always takes at least one of the bytes offered
  makes the loop end with yes.\<close>

theorem send_message:
  assumes "line = dump j @ [CHR 0x0D, CHR 0x0A]" and "\<forall>i n. 0 < n \<longrightarrow> 0 < good i n \<and> good i n \<le> int n"
  shows "prefix (snd (sendJson dump (Some sock) j)) line \<and>
    (fst (sendJson dump (Some sock) j) \<longrightarrow> snd (sendJson dump (Some sock) j) = line) \<and>
    sendJson dump (Some good) j = (True, line) \<and> sendJson dump None j = (False, [])"
  using send_loop_prefix [of sock 0 line] send_loop_ok [of sock 0 line] send_loop_complete [OF assms(2), of 0 line]
  by (simp add: sendJson_def assms(1))

theorem send_message_witness:
  "sendJson (\<lambda>j. ''ab'') (Some (\<lambda>i n. 1)) (submit_message [] [] [] [] []) = (True, ''ab'' @ [CHR 0x0D, CHR 0x0A])"
  using send_message [OF refl, of "\<lambda>i n. 1" "\<lambda>j. ''ab''"] by simp

text \<open>Receiving lines. Lines without line feeds inside come out one per call and in order, expired
  waits between them included; but a wait that expires inside a line throws away what was read of it,
  and the next call returns the rest as if it were a line. A last line without line feed before the end
  of the stream is returned.\<close>

theorem receive_lines:
  assumes "\<forall>l \<in> set ls. CHR 0x0A \<notin> set l" and "CHR 0x0A \<notin> set (p @ q)" and "p \<noteq> []"
  shows "recv_lines (2 * length ls) (concat (map (\<lambda>l. Expired # line_events l) ls) @ es) =
      Some (concat (map (\<lambda>l. [(kTimeout, []), (kLine, l)]) ls), es) \<and>
    recv_lines 1 (line_events (p @ q) @ es) = Some ([(kLine, p @ q)], es) \<and>
    recv_lines 2 (map Byte p @ Expired # line_events q @ es) = Some ([(kTimeout, []), (kLine, q)], es) \<and>
    recv_lines 2 (map Byte p @ Ended # Ended # es) = Some ([(kLine, p), (kClosed, [])], es)"
proof (intro conjI)
  show "recv_lines (2 * length ls) (concat (map (\<lambda>l. Expired # line_events l) ls) @ es) =
      Some (concat (map (\<lambda>l. [(kTimeout, []), (kLine, l)]) ls), es)"
    using assms(1) by (induction ls) (simp_all add: recvLine_def recv_loop_line)
  have nl: "CHR 0x0A \<notin> set p" "CHR 0x0A \<notin> set q" using assms(2) by simp_all
  show "recv_lines 1 (line_events (p @ q) @ es) = Some ([(kLine, p @ q)], es)"
    using recv_loop_line [OF assms(2), of es] by (simp add: recvLine_def)
  show "recv_lines 2 (map Byte p @ Expired # line_events q @ es) = Some ([(kTimeout, []), (kLine, q)], es)"
    using nl by (simp add: numeral_2_eq_2 recvLine_def recv_loop_bytes recv_loop_line)
  show "recv_lines 2 (map Byte p @ Ended # Ended # es) = Some ([(kLine, p), (kClosed, [])], es)"
    using nl assms(3) by (simp add: numeral_2_eq_2 recvLine_def recv_loop_bytes)
qed

theorem receive_lines_witness:
  "recv_lines 2 (map Byte ''ab'' @ Expired # line_events ''c'') = Some ([(kTimeout, []), (kLine, ''c'')], [])"
  using receive_lines [of "[]" "''ab''" "''c''" "[]"] by simp

end
