(* ===== verification/Stratum_Runner.thy ===== *)
theory Stratum_Runner
  imports Adapters Merkle Cpu_Sha256 Hex_Codec Json_Library Stratum_Client
begin

text \<open>
  \<^verbatim>\<open>src/adapters/stratum_runner.cc\<close> and \<^verbatim>\<open>src/submit/stratum_submitter.h\<close>: the session with a Stratum
  pool. The receive loop handles one line at a time; every reaction to a line is a function of the
  runner's state, the \<^verbatim>\<open>try\<close> blocks keep what was assigned before an exception. The JSON library, the
  hash of strings that makes work ids and the clock are parameters. An exception outside a \<^verbatim>\<open>try\<close> block
  ends the thread and with it the program: it is the error \<open>Invalid_argument\<close>. \<^verbatim>\<open>int\<close> counters are
  unbounded here; they count replies. The order in which its thread makes these steps is in \<open>Runner_Thread\<close>.
\<close>

record 'j stratum_env =
  se_json :: "'j json_lib"
  se_parse :: "string \<Rightarrow> 'j option"
  se_hash :: "string \<Rightarrow> u64"
  se_junk :: u32

record StratumRunner =
  rn_adapter :: StratumAdapter
  rn_client :: bool
  rn_attempt :: nat
  rn_last_job_id :: string
  rn_extranonce1 :: string
  rn_extranonce2_size :: u8
  rn_connect_failures :: int
  rn_quick_disconnects :: int
  rn_accepted :: int
  rn_rejected :: int
  rn_avg_ms :: int
  rn_last_submit_sent :: int
  rn_pending_work_id :: u64
  rn_pending_nonce :: u32
  rn_callback :: bool
  rn_calls :: "(u64 \<times> u32) list"

definition runner_new :: "StratumAdapter \<Rightarrow> bool \<Rightarrow> StratumRunner" where
  "runner_new a cb = \<lparr>rn_adapter = a, rn_client = False, rn_attempt = 0, rn_last_job_id = [],
     rn_extranonce1 = [], rn_extranonce2_size = 0, rn_connect_failures = 0, rn_quick_disconnects = 0,
     rn_accepted = 0, rn_rejected = 0, rn_avg_ms = 0, rn_last_submit_sent = 0, rn_pending_work_id = 0,
     rn_pending_nonce = 0, rn_callback = cb, rn_calls = []\<rparr>"

section \<open>Connecting\<close>

definition backoff_s :: "nat \<Rightarrow> int" where
  "backoff_s attempt = min 30 (2 ^ min attempt 4)"

definition on_start :: "StratumRunner \<Rightarrow> StratumRunner" where
  "on_start r = r\<lparr>rn_client := True, rn_attempt := 0\<rparr>"

definition on_connect_failed :: "StratumRunner \<Rightarrow> StratumRunner" where
  "on_connect_failed r = r\<lparr>rn_connect_failures := rn_connect_failures r + 1, rn_attempt := rn_attempt r + 1\<rparr>"

definition on_connected :: "StratumRunner \<Rightarrow> StratumRunner" where
  "on_connected r = r\<lparr>rn_connect_failures := 0, rn_attempt := 0\<rparr>"

text \<open>After the three messages of the greeting.\<close>

definition on_greeted :: "StratumRunner \<Rightarrow> StratumRunner" where
  "on_greeted r = r\<lparr>rn_adapter := connect_stratum (rn_adapter r)\<rparr>"

definition on_disconnected :: "StratumRunner \<Rightarrow> StratumRunner" where
  "on_disconnected r = r\<lparr>rn_quick_disconnects := rn_quick_disconnects r + 1\<rparr>"

section \<open>Replies\<close>

definition on_subscribe :: "'j stratum_env \<Rightarrow> 'j \<Rightarrow> StratumRunner \<Rightarrow> StratumRunner" where
  "on_subscribe E j r =
     (let J = se_json E; part = (\<lambda>i. Option.bind (j_field J j ''result'') (\<lambda>v. j_item J v i))
      in case Option.bind (part 1) (j_string J) of
           None \<Rightarrow> r
         | Some en1 \<Rightarrow>
             let r = r\<lparr>rn_extranonce1 := en1\<rparr>
             in case Option.bind (part 2) (j_int J) of
                  None \<Rightarrow> r
                | Some n \<Rightarrow>
                    let r = r\<lparr>rn_extranonce2_size := ucast n\<rparr>
                    in r\<lparr>rn_adapter := onSubscribed (rn_adapter r) (rn_extranonce1 r) (rn_extranonce2_size r)\<rparr>)"

definition on_configure :: "'j stratum_env \<Rightarrow> 'j \<Rightarrow> StratumRunner \<Rightarrow> StratumRunner" where
  "on_configure E j r =
     (let J = se_json E
      in case j_field J j ''result'' of
           None \<Rightarrow> r
         | Some res \<Rightarrow>
             if j_contains J res ''version-rolling'' \<and>
                Option.bind (j_field J res ''version-rolling'') (j_bool J) = Some True
             then (case j_string_or J res ''version-rolling.mask'' ''00000000'' of
                     None \<Rightarrow> r
                   | Some mask_hex \<Rightarrow>
                       let mask = (case stoul16 mask_hex of None \<Rightarrow> 0 | Some m \<Rightarrow> ucast m)
                       in r\<lparr>rn_adapter := setVersionMask (rn_adapter r) mask\<rparr>)
             else r)"

text \<open>The bookkeeping of the reply time, dead unless the time of sending is recorded.\<close>

definition record_latency :: "int \<Rightarrow> StratumRunner \<Rightarrow> StratumRunner" where
  "record_latency now r =
     (let ms = now - rn_last_submit_sent r; prev = rn_avg_ms r;
          ewma = (if prev = 0 then ms else (prev * 7 + ms) div 8)
      in r\<lparr>rn_avg_ms := ewma, rn_last_submit_sent := 0\<rparr>)"

definition on_submit_reply :: "'j stratum_env \<Rightarrow> int \<Rightarrow> 'j \<Rightarrow> StratumRunner \<Rightarrow> StratumRunner" where
  "on_submit_reply E now j r =
     (let J = se_json E
      in if j_contains J j ''result''
         then (case Option.bind (j_field J j ''result'') (j_bool J) of
                 None \<Rightarrow> r
               | Some ok \<Rightarrow>
                   let r = (if ok then r\<lparr>rn_accepted := rn_accepted r + 1\<rparr> else r\<lparr>rn_rejected := rn_rejected r + 1\<rparr>)
                   in if rn_last_submit_sent r \<noteq> 0
                      then let r = record_latency now r
                           in if ok \<and> rn_callback r
                              then r\<lparr>rn_calls := rn_calls r @ [(rn_pending_work_id r, rn_pending_nonce r)]\<rparr> else r
                      else r)
         else if j_contains J j ''error'' \<and> map_option (j_is_null J) (j_field J j ''error'') = Some False
         then let r = r\<lparr>rn_rejected := rn_rejected r + 1\<rparr>
              in if rn_last_submit_sent r \<noteq> 0 then record_latency now r else r
         else r)"

section \<open>Notifications\<close>

definition compactFromDifficulty :: u32 where
  "compactFromDifficulty = 0x1f00ffff"

definition on_set_difficulty :: "'j stratum_env \<Rightarrow> 'j \<Rightarrow> StratumRunner \<Rightarrow> StratumRunner" where
  "on_set_difficulty E j r =
     (let J = se_json E
      in case Option.bind (j_field J j ''params'') (\<lambda>p. j_item J p 0) of
           None \<Rightarrow> r
         | Some d \<Rightarrow> if j_is_number J d
                     then r\<lparr>rn_adapter := updateVarDiff (rn_adapter r) compactFromDifficulty\<rparr> else r)"

definition scan_byte :: "u32 \<Rightarrow> string \<Rightarrow> u8" where
  "scan_byte junk s = (case scan_hex2 s of None \<Rightarrow> ucast junk | Some v \<Rightarrow> ucast v)"

text \<open>The first \<open>n\<close> byte pairs of a text; \<open>hexToBytes\<close> into an array that is zero before.\<close>

definition scan_bytes :: "u32 \<Rightarrow> string \<Rightarrow> nat \<Rightarrow> u8 list" where
  "scan_bytes junk hex n = map (\<lambda>i. scan_byte junk (drop (2 * i) hex)) [0..<n]"

definition hexToBytes :: "u32 \<Rightarrow> string \<Rightarrow> nat \<Rightarrow> u8 list" where
  "hexToBytes junk hex out_len =
     (let n = min (length hex div 2) out_len in scan_bytes junk hex n @ replicate (out_len - n) 0)"

text \<open>A branch entry is read without looking at its length.\<close>

definition branch_entry :: "u32 \<Rightarrow> string \<Rightarrow> u8 list result" where
  "branch_entry junk h = (if length h < 62 then Inl Out_of_bounds else Inr (scan_bytes junk h 32))"

fun branch_entries :: "u32 \<Rightarrow> string list \<Rightarrow> u8 list list result" where
  "branch_entries junk [] = Inr []"
| "branch_entries junk (h # hs) =
     (case branch_entry junk h of
        Inl e \<Rightarrow> Inl e
      | Inr b \<Rightarrow> (case branch_entries junk hs of Inl e \<Rightarrow> Inl e | Inr bs \<Rightarrow> Inr (b # bs)))"

text \<open>The strings at the head of a list of documents (the exception of the first other one is caught).\<close>

fun leading_strings :: "'j json_lib \<Rightarrow> 'j list \<Rightarrow> string list" where
  "leading_strings J [] = []"
| "leading_strings J (d # ds) = (case j_string J d of None \<Rightarrow> [] | Some s \<Rightarrow> s # leading_strings J ds)"

definition coinbase_txid_be :: "u8 list \<Rightarrow> u8 list" where
  "coinbase_txid_be coinbase = (let h2 = sha256d coinbase in map (\<lambda>i. h2 ! (31 - i)) [0..<32])"

record notify_fields =
  nf_version :: u32
  nf_nbits :: u32
  nf_ntime :: u32
  nf_prevhash :: string
  nf_coinb1 :: string
  nf_coinb2 :: string
  nf_branch :: "string list"
  nf_clean :: bool

text \<open>The fields read from the parameters; \<open>None\<close> when one of the throwing accesses throws.\<close>

definition read_notify :: "'j json_lib \<Rightarrow> 'j \<Rightarrow> notify_fields option" where
  "read_notify J params =
     (let text = (\<lambda>i. Option.bind (j_item J params i) (j_string J));
          number = (\<lambda>i. Option.bind (text i) stoul16)
      in case number 8 of None \<Rightarrow> None | Some v \<Rightarrow>
         (case number 9 of None \<Rightarrow> None | Some nb \<Rightarrow>
         (case number 10 of None \<Rightarrow> None | Some nt \<Rightarrow>
         (case text 1 of None \<Rightarrow> None | Some ph \<Rightarrow>
         (case text 2 of None \<Rightarrow> None | Some c1 \<Rightarrow>
         (case text 3 of None \<Rightarrow> None | Some c2 \<Rightarrow>
            Some \<lparr>nf_version = ucast v, nf_nbits = ucast nb, nf_ntime = ucast nt, nf_prevhash = ph,
              nf_coinb1 = c1, nf_coinb2 = c2,
              nf_branch = (case j_item J params 4 of None \<Rightarrow> [] | Some b \<Rightarrow> leading_strings J (j_elements J b)),
              nf_clean = (Option.bind (j_item J params 7) (j_bool J) = Some True)\<rparr>))))))"

definition notify_inputs :: "'j stratum_env \<Rightarrow> StratumRunner \<Rightarrow> string \<Rightarrow> notify_fields \<Rightarrow> RawJobInputs result" where
  "notify_inputs E r job_id f =
     (let junk = se_junk E;
          coinb1 = scan_bytes junk (nf_coinb1 f) (length (nf_coinb1 f) div 2);
          coinb2 = scan_bytes junk (nf_coinb2 f) (length (nf_coinb2 f) div 2);
          en2_zero = replicate (unat (rn_extranonce2_size r)) 0;
          cbp = \<lparr>cb_prefix = coinb1, cb_suffix = coinb2, cb_has_witness = False, cb_witness_commitment = replicate 32 0\<rparr>;
          coinbase = assembleCoinbaseTx cbp (rn_extranonce1 r) en2_zero
      in case branch_entries junk (nf_branch f) of
           Inl e \<Rightarrow> Inl e
         | Inr entries \<Rightarrow>
             let prevhash_be = hexToBytes junk (nf_prevhash f) 32;
                 mr_be = compute_merkle_root_be (coinbase_txid_be coinbase # entries);
                 version = nf_version f;
                 header_first64 = [byte_at 0 version, byte_at 8 version, byte_at 16 version, byte_at 24 version] @
                   prevhash_be @ take 28 mr_be
             in Inr \<lparr>in_source_id = 0,
                  in_job = \<lparr>job_source_name = ''stratum'', job_work_id = se_hash E job_id, job_version = version,
                    job_nbits = nf_nbits f, job_ntime = nf_ntime f\<rparr>,
                  in_prevhash_be = prevhash_be, in_merkle_root_be = mr_be, in_header_first64 = header_first64,
                  in_share_nbits = 0, in_vmask = 0, in_ntime_min = nf_ntime f, in_ntime_max = nf_ntime f + 2,
                  in_extranonce2_size = rn_extranonce2_size r, in_clean_jobs = nf_clean f\<rparr>)"

definition on_notify :: "'j stratum_env \<Rightarrow> 'j \<Rightarrow> StratumRunner \<Rightarrow> StratumRunner result" where
  "on_notify E j r =
     (let J = se_json E
      in case j_field J j ''params'' of
           None \<Rightarrow> Inr r
         | Some params \<Rightarrow>
             (case Option.bind (j_item J params 0) (j_string J) of
                None \<Rightarrow> Inr r
              | Some job_id \<Rightarrow>
                  let r = r\<lparr>rn_last_job_id := job_id\<rparr>
                  in case read_notify J params of
                       None \<Rightarrow> Inr r
                     | Some f \<Rightarrow>
                         (case notify_inputs E r job_id f of
                            Inl e \<Rightarrow> Inl e
                          | Inr inputs \<Rightarrow>
                              let a = setCleanJobs (rn_adapter r) (nf_clean f)
                              in case ingestJobWithPolicy a inputs of
                                   Inl e \<Rightarrow> Inl e
                                 | Inr a \<Rightarrow> Inr (r\<lparr>rn_adapter := a\<rparr>))))"

section \<open>The receive loop\<close>

definition id_is :: "'j json_lib \<Rightarrow> 'j \<Rightarrow> int \<Rightarrow> bool" where
  "id_is J j n = (case j_field J j ''id'' of None \<Rightarrow> False | Some v \<Rightarrow> j_equals_int J v n)"

definition on_line :: "'j stratum_env \<Rightarrow> int \<Rightarrow> string \<Rightarrow> StratumRunner \<Rightarrow> StratumRunner result" where
  "on_line E now line r =
     (let J = se_json E
      in case se_parse E line of
           None \<Rightarrow> Inr r
         | Some j \<Rightarrow>
             if j_contains J j ''result'' \<and> id_is J j 1 then Inr (on_subscribe E j r)
             else if j_contains J j ''result'' \<and> id_is J j 2 then Inr r
             else if j_contains J j ''result'' \<and> id_is J j 100 then Inr (on_configure E j r)
             else if j_contains J j ''id'' \<and> id_is J j 3 then Inr (on_submit_reply E now j r)
             else if j_contains J j ''method''
             then (case Option.bind (j_field J j ''method'') (j_string J) of
                     None \<Rightarrow> Inl (Invalid_argument ''method'')
                   | Some m \<Rightarrow>
                       if m = ''mining.set_difficulty'' then Inr (on_set_difficulty E j r)
                       else if m = ''mining.notify'' then on_notify E j r
                       else Inr r)
             else Inr r)"

section \<open>Submitting\<close>

definition submitShare :: "string \<Rightarrow> string \<Rightarrow> string \<Rightarrow> string \<Rightarrow> StratumRunner \<Rightarrow> json option" where
  "submitShare username extranonce2_hex ntime_hex nonce_hex r =
     (if \<not> rn_client r then None
      else if rn_last_job_id r = [] then None
      else Some (submit_message username (rn_last_job_id r) extranonce2_hex ntime_hex nonce_hex))"

definition submitShareHex :: "string \<Rightarrow> string \<Rightarrow> string \<Rightarrow> string \<Rightarrow> StratumRunner option \<Rightarrow> json option" where
  "submitShareHex username extranonce2_hex ntime_hex nonce_hex runner =
     (case runner of None \<Rightarrow> None | Some r \<Rightarrow> submitShare username extranonce2_hex ntime_hex nonce_hex r)"

definition setPendingSubmit :: "u64 \<Rightarrow> u32 \<Rightarrow> StratumRunner \<Rightarrow> StratumRunner" where
  "setPendingSubmit work_id nonce r = r\<lparr>rn_pending_work_id := work_id, rn_pending_nonce := nonce\<rparr>"

definition resetCounters :: "StratumRunner \<Rightarrow> StratumRunner" where
  "resetCounters r = r\<lparr>rn_connect_failures := 0, rn_quick_disconnects := 0\<rparr>"

definition toHex8 :: "u8 list \<Rightarrow> string" where
  "toHex8 p = concat (map (\<lambda>i. hex_byte (p ! i)) [0..<4])"

definition submitFromHeader :: "string \<Rightarrow> u8 list \<Rightarrow> string \<Rightarrow> StratumRunner option \<Rightarrow> json option" where
  "submitFromHeader username header80_be extranonce2_hex runner =
     (case runner of
        None \<Rightarrow> None
      | Some r \<Rightarrow> submitShare username extranonce2_hex (toHex8 (drop 68 header80_be)) (toHex8 (drop 76 header80_be)) r)"

section \<open>The session as a state machine\<close>

text \<open>What happens to a runner: its thread starts, connecting fails or succeeds, the greeting is sent, a line
  arrives, the connection is lost, the submit path records a pending submission, the counters are reset, the main
  loop takes a job from the queue.\<close>

datatype runner_event = Started | Connect_failed | Connected | Greeted | Received int string | Disconnected
  | Pending u64 u32 | Reset | Polled

fun runner_step :: "'j stratum_env \<Rightarrow> runner_event \<Rightarrow> StratumRunner \<Rightarrow> StratumRunner result" where
  "runner_step E Started r = Inr (on_start r)"
| "runner_step E Connect_failed r = Inr (on_connect_failed r)"
| "runner_step E Connected r = Inr (on_connected r)"
| "runner_step E Greeted r = Inr (on_greeted r)"
| "runner_step E (Received now line) r = on_line E now line r"
| "runner_step E Disconnected r = Inr (on_disconnected r)"
| "runner_step E (Pending w n) r = Inr (setPendingSubmit w n r)"
| "runner_step E Reset r = Inr (resetCounters r)"
| "runner_step E Polled r = Inr (r\<lparr>rn_adapter := snd (pollNormalizedFull_stratum (rn_adapter r))\<rparr>)"

fun runner_run :: "'j stratum_env \<Rightarrow> runner_event list \<Rightarrow> StratumRunner \<Rightarrow> StratumRunner result" where
  "runner_run E [] r = Inr r"
| "runner_run E (ev # evs) r = (case runner_step E ev r of Inl e \<Rightarrow> Inl e | Inr r' \<Rightarrow> runner_run E evs r')"

inductive runner_reachable :: "'j stratum_env \<Rightarrow> StratumRunner \<Rightarrow> StratumRunner \<Rightarrow> bool" for E r0 where
  reachable_start: "runner_reachable E r0 r0"
| reachable_step: "runner_reachable E r0 r \<Longrightarrow> runner_step E ev r = Inr r' \<Longrightarrow> runner_reachable E r0 r'"

definition result_ok :: "NormalizerResult \<Rightarrow> bool" where
  "result_ok n \<longleftrightarrow> item_ok (nr_item n) \<and> length (midstate_le (nr_job_const n)) = 8"

definition queue_ok :: "StratumRunner \<Rightarrow> bool" where
  "queue_ok r \<longleftrightarrow> (\<forall>n \<in> set (sa_q (rn_adapter r)). result_ok n)"

definition silent :: "StratumRunner \<Rightarrow> bool" where
  "silent r \<longleftrightarrow> rn_last_submit_sent r = 0 \<and> rn_avg_ms r = 0 \<and> rn_calls r = [] \<and>
     sa_state (rn_adapter r) \<noteq> kAuthorized \<and>
     sa_extranonce2_size (rn_adapter r) = rn_extranonce2_size r"

lemmas handler_defs = on_start_def on_connect_failed_def on_connected_def on_greeted_def on_disconnected_def
  on_subscribe_def on_configure_def on_submit_reply_def on_set_difficulty_def setPendingSubmit_def
  resetCounters_def record_latency_def connect_stratum_def onSubscribed_def setVersionMask_def
  updateVarDiff_def setCleanJobs_def

lemma normalizeJob_result_ok: "normalizeJob inp = Inr (Some out) \<Longrightarrow> result_ok out"
  using normalizeJob_item_ok [of inp out]
  by (auto simp: result_ok_def normalizeJob_def Let_def sha256_midstate_64_eq default_const_def
      split: sum.splits)

lemma ingest_cases:
  assumes "ingestJobWithPolicy a inputs = Inr a'"
  obtains ns where "\<forall>n \<in> set ns. result_ok n" and "a' = a\<lparr>sa_q := sa_q a @ ns\<rparr>"
proof (cases "normalizeJob (apply_policy a inputs)")
  case (Inr x)
  then show ?thesis
  proof (cases x)
    case None
    then show ?thesis using that [of "[]"] assms Inr by (simp add: ingestJobWithPolicy_def)
  next
    case (Some out)
    then show ?thesis using that [of "[out]"] assms Inr normalizeJob_result_ok [of _ out]
      by (simp add: ingestJobWithPolicy_def)
  qed
qed (use assms in \<open>simp add: ingestJobWithPolicy_def\<close>)

text \<open>Whatever a notification carries, it changes at most the last job id, the policy's clean flag and
  the queue.\<close>

lemma on_notify_cases:
  assumes "on_notify E j r = Inr r'"
  obtains "r' = r" | id where "r' = r\<lparr>rn_last_job_id := id\<rparr>"
  | id clean ns where "\<forall>n \<in> set ns. result_ok n"
    and "r' = r\<lparr>rn_last_job_id := id,
      rn_adapter := (rn_adapter r)\<lparr>policy_clean_jobs := clean, sa_q := sa_q (rn_adapter r) @ ns\<rparr>\<rparr>"
proof (cases "j_field (se_json E) j ''params''")
  case None
  then show ?thesis using that(1) assms by (simp add: on_notify_def)
next
  case params: (Some params)
  show ?thesis
  proof (cases "Option.bind (j_item (se_json E) params 0) (j_string (se_json E))")
    case None
    then show ?thesis using that(1) assms params by (simp add: on_notify_def)
  next
    case id: (Some id)
    show ?thesis
    proof (cases "read_notify (se_json E) params")
      case None
      then show ?thesis using that(2) [of id] assms params id by (simp add: on_notify_def)
    next
      case f: (Some f)
      obtain inputs a where a: "ingestJobWithPolicy (setCleanJobs (rn_adapter r) (nf_clean f)) inputs = Inr a"
        and r': "r' = r\<lparr>rn_last_job_id := id, rn_adapter := a\<rparr>"
        using assms params id f by (auto simp: on_notify_def Let_def split: sum.splits)
      from ingest_cases [OF a] obtain ns where "\<forall>n \<in> set ns. result_ok n"
        and "a = (setCleanJobs (rn_adapter r) (nf_clean f))\<lparr>sa_q := sa_q (setCleanJobs (rn_adapter r) (nf_clean f)) @ ns\<rparr>"
        by blast
      then show ?thesis using that(3) [of ns "nf_clean f" id] r' by (simp add: setCleanJobs_def)
    qed
  qed
qed

section \<open>Frames and invariants\<close>

text \<open>Which documents are taken for the reply to a submission.\<close>

definition is_reply :: "'j stratum_env \<Rightarrow> 'j \<Rightarrow> bool" where
  "is_reply E j \<longleftrightarrow> (let J = se_json E in
     \<not> (j_contains J j ''result'' \<and> id_is J j 1) \<and> \<not> (j_contains J j ''result'' \<and> id_is J j 2) \<and>
     \<not> (j_contains J j ''result'' \<and> id_is J j 100) \<and> j_contains J j ''id'' \<and> id_is J j 3)"

lemma result_if_chain:
  "(if a then Inr x1 else if b then Inr x2 else if c then Inr x3 else if d then Inr x4 else y) = Inr r \<Longrightarrow>
   (if \<not> a \<and> \<not> b \<and> \<not> c \<and> d then r = x4 else r = x1 \<or> r = x2 \<or> r = x3 \<or> y = Inr r)"
  by (auto split: if_split_asm)

lemma result_if_three:
  "(if a then Inr x1 else if b then y else Inr x2) = Inr r \<Longrightarrow> r = x1 \<or> r = x2 \<or> y = Inr r"
  by (auto split: if_split_asm)

lemma on_line_cases:
  assumes "on_line E now line r = Inr r'" and j: "se_parse E line = Some j"
  shows "if is_reply E j then r' = on_submit_reply E now j r
    else r' = r \<or> r' = on_subscribe E j r \<or> r' = on_configure E j r \<or> r' = on_set_difficulty E j r \<or>
      on_notify E j r = Inr r'"
proof -
  let ?J = "se_json E"
  let ?requested = "if j_contains ?J j ''method''
    then case Option.bind (j_field ?J j ''method'') (j_string ?J) of
        None \<Rightarrow> Inl (Invalid_argument ''method'')
      | Some m \<Rightarrow> if m = ''mining.set_difficulty'' then Inr (on_set_difficulty E j r)
          else if m = ''mining.notify'' then on_notify E j r else Inr r
    else Inr r"
  have "if is_reply E j then r' = on_submit_reply E now j r
    else r' = on_subscribe E j r \<or> r' = r \<or> r' = on_configure E j r \<or> ?requested = Inr r'"
    unfolding is_reply_def Let_def
    by (rule result_if_chain) (use assms in \<open>simp only: on_line_def Let_def option.case\<close>)
  moreover have "?requested = Inr r' \<Longrightarrow> r' = on_set_difficulty E j r \<or> r' = r \<or> on_notify E j r = Inr r'"
  proof (cases "Option.bind (j_field ?J j ''method'') (j_string ?J)")
    case None
    then show "?requested = Inr r' \<Longrightarrow> ?thesis"
      by (cases "j_contains ?J j ''method''") (simp_all only: if_True if_False option.case sum.distinct sum.inject simp_thms)
  next
    case (Some m)
    assume "?requested = Inr r'"
    then show ?thesis
      by (cases "j_contains ?J j ''method''")
        (simp_all only: Some if_True if_False option.case sum.inject simp_thms, rule result_if_three, assumption)
  qed
  ultimately show ?thesis by (cases "is_reply E j") auto
qed

lemma on_line_invariant:
  assumes "on_line E now line r = Inr r'" and "P r"
    and "\<And>j. P (on_subscribe E j r)" and "\<And>j. P (on_configure E j r)" and "\<And>j. P (on_submit_reply E now j r)"
    and "\<And>j. P (on_set_difficulty E j r)" and "\<And>j r'. on_notify E j r = Inr r' \<Longrightarrow> P r'"
  shows "P r'"
proof (cases "se_parse E line")
  case None
  then show ?thesis using assms(1,2) by (simp add: on_line_def)
next
  case (Some j)
  then show ?thesis using on_line_cases [OF assms(1) Some] assms(2-7)
    by (cases "is_reply E j") auto
qed

lemma polled_cases:
  obtains "snd (pollNormalizedFull_stratum a) = a"
  | x where "x # sa_q (snd (pollNormalizedFull_stratum a)) = sa_q a"
      and "snd (pollNormalizedFull_stratum a) = a\<lparr>sa_q := tl (sa_q a)\<rparr>"
  by (cases "sa_q a") (auto simp: pollNormalizedFull_stratum_def)

lemma on_subscribe_cases:
  "on_subscribe E j r = r \<or> (\<exists>en1. on_subscribe E j r = r\<lparr>rn_extranonce1 := en1\<rparr>) \<or>
   (\<exists>en1 n. on_subscribe E j r = r\<lparr>rn_extranonce1 := en1, rn_extranonce2_size := n,
      rn_adapter := onSubscribed (rn_adapter r) en1 n\<rparr>)"
proof -
  let ?J = "se_json E"
  let ?part = "\<lambda>i. Option.bind (j_field ?J j ''result'') (\<lambda>v. j_item ?J v i)"
  show ?thesis
  proof (cases "Option.bind (?part 1) (j_string ?J)")
    case en1: (Some en1)
    show ?thesis
    proof (cases "Option.bind (?part 2) (j_int ?J)")
      case None
      then have "on_subscribe E j r = r\<lparr>rn_extranonce1 := en1\<rparr>"
        unfolding on_subscribe_def Let_def en1 by simp
      then show ?thesis by blast
    next
      case (Some n)
      then have "on_subscribe E j r = r\<lparr>rn_extranonce1 := en1, rn_extranonce2_size := ucast n,
          rn_adapter := onSubscribed (rn_adapter r) en1 (ucast n)\<rparr>"
        unfolding on_subscribe_def Let_def en1 by simp
      then show ?thesis by blast
    qed
  qed (unfold on_subscribe_def Let_def, simp)
qed

lemma on_configure_cases:
  "on_configure E j r = r \<or> (\<exists>m. on_configure E j r = r\<lparr>rn_adapter := setVersionMask (rn_adapter r) m\<rparr>)"
  unfolding on_configure_def Let_def
  by (cases "j_field (se_json E) j ''result''")
    (auto simp del: bind_eq_Some_conv split: option.split)

lemma on_set_difficulty_cases:
  "on_set_difficulty E j r = r \<or>
   on_set_difficulty E j r = r\<lparr>rn_adapter := updateVarDiff (rn_adapter r) compactFromDifficulty\<rparr>"
  unfolding on_set_difficulty_def Let_def
  by (cases "Option.bind (j_field (se_json E) j ''params'') (\<lambda>p. j_item (se_json E) p 0)") simp_all

text \<open>Replies touch the counters, the reply time and the reported submissions; while no time of sending
  is recorded, the counters only.\<close>

lemma on_submit_reply_idle:
  assumes "rn_last_submit_sent r = 0"
  shows "on_submit_reply E now j r = r \<or> on_submit_reply E now j r = r\<lparr>rn_accepted := rn_accepted r + 1\<rparr> \<or>
    on_submit_reply E now j r = r\<lparr>rn_rejected := rn_rejected r + 1\<rparr>"
  using assms unfolding on_submit_reply_def Let_def
  by (cases "Option.bind (j_field (se_json E) j ''result'') (j_bool (se_json E))") simp_all

lemma on_submit_reply_adapter [simp]: "rn_adapter (on_submit_reply E now j r) = rn_adapter r"
  unfolding on_submit_reply_def Let_def record_latency_def
  by (cases "Option.bind (j_field (se_json E) j ''result'') (j_bool (se_json E))") simp_all

lemma handlers_silent:
  assumes "silent r"
  shows "silent (on_start r)" "silent (on_connect_failed r)" "silent (on_connected r)" "silent (on_greeted r)" "silent (on_disconnected r)"
    "silent (setPendingSubmit w n r)" "silent (resetCounters r)"
  using assms by (simp_all add: silent_def handler_defs)

lemma on_subscribe_silent: "silent r \<Longrightarrow> silent (on_subscribe E j r)"
  using on_subscribe_cases [of E j r] by (auto simp: silent_def onSubscribed_def)

lemma on_configure_silent: "silent r \<Longrightarrow> silent (on_configure E j r)"
  using on_configure_cases [of E j r] by (auto simp: silent_def setVersionMask_def)

lemma on_set_difficulty_silent: "silent r \<Longrightarrow> silent (on_set_difficulty E j r)"
  using on_set_difficulty_cases [of E j r] by (auto simp: silent_def updateVarDiff_def)

lemma on_submit_reply_silent: "silent r \<Longrightarrow> silent (on_submit_reply E now j r)"
  using on_submit_reply_idle [of r E now j] by (auto simp: silent_def)

lemma handlers_queue:
  "sa_q (rn_adapter (on_start r)) = sa_q (rn_adapter r)" "sa_q (rn_adapter (on_connect_failed r)) = sa_q (rn_adapter r)"
  "sa_q (rn_adapter (on_connected r)) = sa_q (rn_adapter r)" "sa_q (rn_adapter (on_greeted r)) = sa_q (rn_adapter r)" "sa_q (rn_adapter (on_disconnected r)) = sa_q (rn_adapter r)"
  "sa_q (rn_adapter (setPendingSubmit w n r)) = sa_q (rn_adapter r)" "sa_q (rn_adapter (resetCounters r)) = sa_q (rn_adapter r)"
  by (simp_all add: handler_defs)

lemma on_subscribe_queue: "sa_q (rn_adapter (on_subscribe E j r)) = sa_q (rn_adapter r)"
  using on_subscribe_cases [of E j r] by (auto simp: onSubscribed_def)

lemma on_configure_queue: "sa_q (rn_adapter (on_configure E j r)) = sa_q (rn_adapter r)"
  using on_configure_cases [of E j r] by (auto simp: setVersionMask_def)

lemma on_set_difficulty_queue: "sa_q (rn_adapter (on_set_difficulty E j r)) = sa_q (rn_adapter r)"
  using on_set_difficulty_cases [of E j r] by (auto simp: updateVarDiff_def)

lemmas message_silent = on_subscribe_silent on_configure_silent on_set_difficulty_silent
  on_submit_reply_silent handlers_silent
lemmas message_queue = on_subscribe_queue on_configure_queue on_set_difficulty_queue handlers_queue

lemma notify_silent: "on_notify E j r = Inr r' \<Longrightarrow> silent r \<Longrightarrow> silent r'"
  by (erule on_notify_cases) (simp_all add: silent_def)

lemma notify_queue: "on_notify E j r = Inr r' \<Longrightarrow> queue_ok r \<Longrightarrow> queue_ok r'"
  by (erule on_notify_cases) (auto simp: queue_ok_def)

lemma step_silent: "runner_step E ev r = Inr r' \<Longrightarrow> silent r \<Longrightarrow> silent r'"
proof (cases ev)
  case (Received now line)
  assume "runner_step E ev r = Inr r'" "silent r"
  then show ?thesis using Received by (auto intro: on_line_invariant message_silent notify_silent)
next
  case Polled
  assume "runner_step E ev r = Inr r'" "silent r"
  then show ?thesis using Polled
    by (cases rule: polled_cases [of "rn_adapter r"]) (auto simp: silent_def)
qed (auto intro: handlers_silent)

lemma step_queue: "runner_step E ev r = Inr r' \<Longrightarrow> queue_ok r \<Longrightarrow> queue_ok r'"
proof (cases ev)
  case (Received now line)
  assume "runner_step E ev r = Inr r'" "queue_ok r"
  then have "on_line E now line r = Inr r'" using Received by simp
  then show ?thesis
    by (rule on_line_invariant [where P = queue_ok])
      (use \<open>queue_ok r\<close> notify_queue in \<open>simp_all add: queue_ok_def message_queue\<close>)
next
  case Polled
  assume "runner_step E ev r = Inr r'" "queue_ok r"
  then show ?thesis using Polled
    by (cases "sa_q (rn_adapter r)") (auto simp: queue_ok_def pollNormalizedFull_stratum_def)
qed (auto simp: queue_ok_def handlers_queue)

lemma reachable_silent: "runner_reachable E r0 r \<Longrightarrow> silent r0 \<Longrightarrow> silent r"
  by (induction rule: runner_reachable.induct) (auto intro: step_silent)

lemma reachable_queue: "runner_reachable E r0 r \<Longrightarrow> queue_ok r0 \<Longrightarrow> queue_ok r"
  by (induction rule: runner_reachable.induct) (auto intro: step_queue)

section \<open>Reading a notification\<close>

lemma scan_byte_hex: "scan_byte junk (bytesToHex (b # bs)) = b"
proof -
  obtain c d where cd: "hex_byte b = [c, d]" by (simp add: hex_byte_def)
  have "scan_hex2 (c # d # bytesToHex bs) = Some (ucast b)"
    using scan_hex2_pair [of c d "[]" b "[]"] unhex_hex_byte [of b] by (simp only: cd)
  then have "scan_byte junk (bytesToHex (b # bs)) = ucast (ucast b :: u32)"
    by (simp only: scan_byte_def bytesToHex_def list.map concat.simps cd append_Cons append_Nil option.case)
  moreover have "ucast (ucast b :: u32) = b" by (rule ucast_up_ucast_id) (simp add: is_up)
  ultimately show ?thesis by simp
qed

lemma drop_bytesToHex: "drop (2 * i) (bytesToHex bs) = bytesToHex (drop i bs)"
proof (induction i arbitrary: bs)
  case (Suc i)
  then show ?case by (cases bs) (simp_all add: bytesToHex_def hex_byte_def)
qed simp

lemma scan_bytes_hex: "n \<le> length bs \<Longrightarrow> scan_bytes junk (bytesToHex bs) n = take n bs"
proof (rule nth_equalityI)
  fix i assume "n \<le> length bs" "i < length (scan_bytes junk (bytesToHex bs) n)"
  then have "i < n" "drop i bs = bs ! i # drop (Suc i) bs" by (simp_all add: scan_bytes_def Cons_nth_drop_Suc)
  then show "scan_bytes junk (bytesToHex bs) n ! i = take n bs ! i"
    by (simp add: scan_bytes_def drop_bytesToHex scan_byte_hex)
qed (simp add: scan_bytes_def)

lemma hexToBytes_hex: "length bs = n \<Longrightarrow> hexToBytes junk (bytesToHex bs) n = bs"
  by (simp add: hexToBytes_def scan_bytes_hex)

lemma branch_entries_hex: "txids bs \<Longrightarrow> branch_entries junk (map bytesToHex bs) = Inr bs"
  by (induction bs) (simp_all add: branch_entry_def scan_bytes_hex txids_def)

lemma branch_entries_short: "\<exists>h \<in> set hs. length h < 62 \<Longrightarrow> branch_entries junk hs = Inl Out_of_bounds"
proof (induction hs)
  case (Cons h hs)
  then show ?case
    by (cases "length h < 62") (auto simp: branch_entry_def)
qed simp

lemma branch_entries_long: "\<forall>h \<in> set hs. 62 \<le> length h \<Longrightarrow> \<exists>bs. branch_entries junk hs = Inr bs"
  by (induction hs) (auto simp: branch_entry_def)

lemma coinbase_txid_be_rev: "coinbase_txid_be c = rev (sha256d c)"
  by (rule nth_equalityI) (simp_all add: coinbase_txid_be_def Let_def rev_nth)

lemma apply_policy_fields [simp]:
  "in_job (apply_policy a i) = in_job i" "in_prevhash_be (apply_policy a i) = in_prevhash_be i"
  "in_merkle_root_be (apply_policy a i) = in_merkle_root_be i"
  "in_header_first64 (apply_policy a i) = in_header_first64 i" "in_source_id (apply_policy a i) = in_source_id i"
  "in_extranonce2_size (apply_policy a i) = in_extranonce2_size i"
  "in_vmask (apply_policy a i) = (if policy_vmask a \<noteq> 0 then policy_vmask a else in_vmask i)"
  "in_ntime_min (apply_policy a i) = (if policy_ntime_min a \<noteq> 0 then policy_ntime_min a else in_ntime_min i)"
  "in_ntime_max (apply_policy a i) = (if policy_ntime_max a \<noteq> 0 then policy_ntime_max a else in_ntime_max i)"
  "in_share_nbits (apply_policy a i) = (if policy_share_nbits a \<noteq> 0 then policy_share_nbits a else in_share_nbits i)"
  "in_clean_jobs (apply_policy a i) = (if force_clean_jobs a then policy_clean_jobs a else in_clean_jobs i)"
  by (simp_all add: apply_policy_def Let_def)

lemma on_notify_read:
  assumes "j_field (se_json E) j ''params'' = Some params"
    and "Option.bind (j_item (se_json E) params 0) (j_string (se_json E)) = Some job_id"
  shows "read_notify (se_json E) params = None \<Longrightarrow> on_notify E j r = Inr (r\<lparr>rn_last_job_id := job_id\<rparr>)"
    and "read_notify (se_json E) params = Some f \<Longrightarrow>
      on_notify E j r = (case notify_inputs E (r\<lparr>rn_last_job_id := job_id\<rparr>) job_id f of
        Inl e \<Rightarrow> Inl e
      | Inr inputs \<Rightarrow> (case ingestJobWithPolicy (setCleanJobs (rn_adapter r) (nf_clean f)) inputs of
          Inl e \<Rightarrow> Inl e
        | Inr a \<Rightarrow> Inr (r\<lparr>rn_last_job_id := job_id, rn_adapter := a\<rparr>)))"
  using assms by (simp_all add: on_notify_def Let_def cong: sum.case_cong)

lemma ingest_safe:
  assumes "compact_safe (job_nbits (in_job i))" and "compact_safe (in_share_nbits (apply_policy a i))"
  obtains n where "ingestJobWithPolicy a i = Inr (a\<lparr>sa_q := sa_q a @ [n]\<rparr>)"
    and "normalizeJob (apply_policy a i) = Inr (Some n)"
proof -
  have "compact_safe (job_nbits (in_job (apply_policy a i)))" using assms(1) by simp
  from normalizeJob_safe [OF this assms(2)] obtain n where "normalizeJob (apply_policy a i) = Inr (Some n)" by blast
  then show ?thesis using that [of n] by (simp add: ingestJobWithPolicy_def)
qed

lemma ingest_unsafe:
  "\<not> compact_safe (job_nbits (in_job i)) \<Longrightarrow> ingestJobWithPolicy a i = Inl Out_of_bounds"
  using normalizeJob_unsafe [of "apply_policy a i"] by (simp add: ingestJobWithPolicy_def)

section \<open>What a queued job says about itself\<close>

text \<open>A job agrees with itself: its block target is that of its target bits, its share target that of one of
  \<open>shares\<close>, its midstate that of its own version, previous hash and Merkle root, and its window of times is the
  policy's or the two seconds from its time on.\<close>

definition job_coherent :: "u32 \<Rightarrow> u32 \<Rightarrow> u32 set \<Rightarrow> NormalizerResult \<Rightarrow> bool" where
  "job_coherent tmin tmax shares n \<longleftrightarrow> (let item = nr_item n; t = wi_ntime item in
     item_ok item \<and> wi_source_id item = 0 \<and> wi_nonce_start item = 0 \<and> wi_active item \<and> \<not> wi_found_submitted item \<and>
     compactToTargetU32LE (wi_nbits item) = Inr (wi_block_target_le item) \<and>
     (\<exists>s \<in> shares. compactToTargetU32LE s = Inr (wi_share_target_le item)) \<and>
     wi_ntime_min item = (if tmin \<noteq> 0 then tmin else t) \<and>
     wi_ntime_max item = (if tmax \<noteq> 0 then tmax else if t + 2 = 0 then t else t + 2) \<and>
     midstate_le (nr_job_const n) = sha256_midstate_64 (rev (word_be_bytes (wi_version item)) @
       leU32WordsToBe32Bytes (wi_prevhash_le item) @ take 28 (leU32WordsToBe32Bytes (wi_merkle_root_le item))))"

definition coherent :: "StratumAdapter \<Rightarrow> StratumRunner \<Rightarrow> bool" where
  "coherent a0 r \<longleftrightarrow>
     policy_ntime_min (rn_adapter r) = policy_ntime_min a0 \<and> policy_ntime_max (rn_adapter r) = policy_ntime_max a0 \<and>
     policy_share_nbits (rn_adapter r) \<in> {policy_share_nbits a0, compactFromDifficulty} \<and>
     (\<forall>n \<in> set (sa_q (rn_adapter r)).
       job_coherent (policy_ntime_min a0) (policy_ntime_max a0) {policy_share_nbits a0, compactFromDifficulty} n)"

lemma branch_entries_txids: "branch_entries junk hs = Inr bs \<Longrightarrow> txids bs"
proof (induction hs arbitrary: bs)
  case (Cons h hs)
  then show ?case by (auto simp: branch_entry_def scan_bytes_def txids_def split: sum.splits if_splits)
qed (simp add: txids_def)

lemma merkle_root_width: "txids xs \<Longrightarrow> xs \<noteq> [] \<Longrightarrow> length (compute_merkle_root_be xs) = 32"
  using txids_merkle_loop [of xs] by (auto simp: compute_merkle_root_be_def txids_def)

lemma notify_inputs_coherent:
  assumes "notify_inputs E r job_id f = Inr i" and "normalizeJob (apply_policy a i) = Inr (Some n)"
    and "policy_share_nbits a \<in> shares"
  shows "job_coherent (policy_ntime_min a) (policy_ntime_max a) shares n"
proof -
  have i: "in_source_id i = 0" "in_share_nbits i = 0" "in_ntime_min i = job_ntime (in_job i)"
    "in_ntime_max i = job_ntime (in_job i) + 2" "length (in_prevhash_be i) = 32" "length (in_merkle_root_be i) = 32"
    "in_header_first64 i = rev (word_be_bytes (job_version (in_job i))) @ in_prevhash_be i @ take 28 (in_merkle_root_be i)"
    using assms(1) branch_entries_txids [of "se_junk E" "nf_branch f"]
    by (auto simp: notify_inputs_def Let_def hexToBytes_def scan_bytes_def word_be_bytes_def coinbase_txid_be_rev
        txids_def intro!: merkle_root_width split: sum.splits)
  have "in_share_nbits (apply_policy a i) = policy_share_nbits a" by (simp add: i(2))
  then have targets: "compactToTargetU32LE (job_nbits (in_job i)) = Inr (wi_block_target_le (nr_item n))"
    "compactToTargetU32LE (policy_share_nbits a) = Inr (wi_share_target_le (nr_item n))"
    using assms(2) by (auto simp: normalizeJob_def Let_def split: sum.splits)
  have "leU32WordsToBe32Bytes (be32BytesToLeU32Words (in_prevhash_be i)) = in_prevhash_be i"
    "leU32WordsToBe32Bytes (be32BytesToLeU32Words (in_merkle_root_be i)) = in_merkle_root_be i"
    using i(5,6) by (simp_all add: bytes_of_words)
  then show ?thesis
    using normalizeJob_item_ok [OF assms(2)] targets assms(3)
    by (auto simp: job_coherent_def Let_def normalizeJob_members [OF assms(2)] i)
qed

lemma notify_coherent:
  assumes "on_notify E j r = Inr r'" and "coherent a0 r"
  shows "coherent a0 r'"
proof (cases "j_field (se_json E) j ''params''")
  case None
  then show ?thesis using assms by (simp add: on_notify_def)
next
  case params: (Some params)
  show ?thesis
  proof (cases "Option.bind (j_item (se_json E) params 0) (j_string (se_json E))")
    case None
    then show ?thesis using assms params by (simp add: on_notify_def)
  next
    case id: (Some job_id)
    show ?thesis
    proof (cases "read_notify (se_json E) params")
      case None
      then have "r' = r\<lparr>rn_last_job_id := job_id\<rparr>" using assms(1) on_notify_read(1) [OF params id] by simp
      then show ?thesis using assms(2) by (simp add: coherent_def)
    next
      case f: (Some f)
      let ?a = "setCleanJobs (rn_adapter r) (nf_clean f)"
      obtain i a where i: "notify_inputs E (r\<lparr>rn_last_job_id := job_id\<rparr>) job_id f = Inr i" "ingestJobWithPolicy ?a i = Inr a"
        "r' = r\<lparr>rn_last_job_id := job_id, rn_adapter := a\<rparr>"
        using assms(1) on_notify_read(2) [OF params id f] by (auto split: sum.splits)
      have a: "policy_ntime_min ?a = policy_ntime_min a0" "policy_ntime_max ?a = policy_ntime_max a0"
        "policy_share_nbits ?a \<in> {policy_share_nbits a0, compactFromDifficulty}" "sa_q ?a = sa_q (rn_adapter r)"
        using assms(2) by (simp_all add: coherent_def setCleanJobs_def Let_def)
      have "a = ?a \<or> (\<exists>n. normalizeJob (apply_policy ?a i) = Inr (Some n) \<and> a = ?a\<lparr>sa_q := sa_q ?a @ [n]\<rparr>)"
        using i(2) by (auto simp: ingestJobWithPolicy_def split: sum.splits option.splits)
      then show ?thesis
      proof
        assume "a = ?a"
        then show ?thesis using assms(2) a i(3) by (auto simp: coherent_def Let_def)
      next
        assume "\<exists>n. normalizeJob (apply_policy ?a i) = Inr (Some n) \<and> a = ?a\<lparr>sa_q := sa_q ?a @ [n]\<rparr>"
        then obtain n where n: "normalizeJob (apply_policy ?a i) = Inr (Some n)" "a = ?a\<lparr>sa_q := sa_q ?a @ [n]\<rparr>" by blast
        have "job_coherent (policy_ntime_min a0) (policy_ntime_max a0) {policy_share_nbits a0, compactFromDifficulty} n"
          using notify_inputs_coherent [OF i(1) n(1) a(3)] a(1,2) by simp
        then show ?thesis using assms(2) a i(3) n(2) by (auto simp: coherent_def Let_def)
      qed
    qed
  qed
qed

lemma step_coherent: "runner_step E ev r = Inr r' \<Longrightarrow> coherent a0 r \<Longrightarrow> coherent a0 r'"
proof (cases ev)
  case (Received now line)
  assume "runner_step E ev r = Inr r'" "coherent a0 r"
  then have "on_line E now line r = Inr r'" using Received by simp
  then show ?thesis
  proof (rule on_line_invariant [where P = "coherent a0"])
    show "coherent a0 (on_subscribe E j r)" for j
      using \<open>coherent a0 r\<close> on_subscribe_cases [of E j r] by (auto simp: coherent_def onSubscribed_def)
    show "coherent a0 (on_configure E j r)" for j
      using \<open>coherent a0 r\<close> on_configure_cases [of E j r] by (auto simp: coherent_def setVersionMask_def)
    show "coherent a0 (on_set_difficulty E j r)" for j
      using \<open>coherent a0 r\<close> on_set_difficulty_cases [of E j r] by (auto simp: coherent_def updateVarDiff_def)
    show "coherent a0 r2" if "on_notify E j r = Inr r2" for j r2 using that \<open>coherent a0 r\<close> by (rule notify_coherent)
  qed (use \<open>coherent a0 r\<close> in \<open>simp_all add: coherent_def\<close>)
next
  case Polled
  assume "runner_step E ev r = Inr r'" "coherent a0 r"
  then show ?thesis using Polled
    by (cases "sa_q (rn_adapter r)") (auto simp: coherent_def pollNormalizedFull_stratum_def)
qed (auto simp: coherent_def handler_defs)

lemma reachable_coherent: "runner_reachable E r0 r \<Longrightarrow> coherent a0 r0 \<Longrightarrow> coherent a0 r"
  by (induction rule: runner_reachable.induct) (auto intro: step_coherent)

section \<open>Submitted texts and counted replies\<close>

lemma unhex_toHex8: "4 \<le> length p \<Longrightarrow> unhex (toHex8 p) = Some (take 4 p)"
proof -
  assume "4 \<le> length p"
  then have "take 4 p = map ((!) p) [0..<4]"
    by (intro nth_equalityI) simp_all
  then have "toHex8 p = bytesToHex (take 4 p)" by (simp only: toHex8_def bytesToHex_def map_map comp_def)
  then show ?thesis by (simp only: unhex_bytesToHex)
qed

text \<open>What a line of the pool says about a submission, as the code sees it.\<close>

datatype verdict = Accepted | Refused | Nothing

definition verdict :: "'j stratum_env \<Rightarrow> string \<Rightarrow> verdict" where
  "verdict E line =
     (let J = se_json E
      in case se_parse E line of
           None \<Rightarrow> Nothing
         | Some j \<Rightarrow>
             if \<not> is_reply E j then Nothing
             else if j_contains J j ''result''
             then (case Option.bind (j_field J j ''result'') (j_bool J) of
                     None \<Rightarrow> Nothing | Some ok \<Rightarrow> if ok then Accepted else Refused)
             else if j_contains J j ''error'' \<and> map_option (j_is_null J) (j_field J j ''error'') = Some False
             then Refused else Nothing)"

fun event_verdict :: "'j stratum_env \<Rightarrow> runner_event \<Rightarrow> verdict" where
  "event_verdict E (Received now line) = verdict E line"
| "event_verdict E _ = Nothing"

text \<open>The number of failed connection attempts since the last success.\<close>

fun failures :: "int \<Rightarrow> runner_event list \<Rightarrow> int" where
  "failures n [] = n"
| "failures n (Connect_failed # evs) = failures (n + 1) evs"
| "failures n (Connected # evs) = failures 0 evs"
| "failures n (Reset # evs) = failures 0 evs"
| "failures n (ev # evs) = failures n evs"

text \<open>The number of lost connections since the last reset.\<close>

fun disconnections :: "int \<Rightarrow> runner_event list \<Rightarrow> int" where
  "disconnections n [] = n"
| "disconnections n (Disconnected # evs) = disconnections (n + 1) evs"
| "disconnections n (Reset # evs) = disconnections 0 evs"
| "disconnections n (ev # evs) = disconnections n evs"

definition counts :: "StratumRunner \<Rightarrow> int \<times> int \<times> int \<times> int" where
  "counts r = (rn_accepted r, rn_rejected r, rn_connect_failures r, rn_quick_disconnects r)"

lemma on_submit_reply_counts:
  "rn_connect_failures (on_submit_reply E now j r) = rn_connect_failures r"
  "rn_quick_disconnects (on_submit_reply E now j r) = rn_quick_disconnects r"
  unfolding on_submit_reply_def Let_def record_latency_def
  by (cases "Option.bind (j_field (se_json E) j ''result'') (j_bool (se_json E))"; simp)+

lemma message_counts:
  "counts (on_subscribe E j r) = counts r" "counts (on_configure E j r) = counts r"
  "counts (on_set_difficulty E j r) = counts r"
  using on_subscribe_cases [of E j r] on_configure_cases [of E j r] on_set_difficulty_cases [of E j r]
  by (auto simp: counts_def)

lemma notify_counts: "on_notify E j r = Inr r' \<Longrightarrow> counts r' = counts r"
  by (erule on_notify_cases) (simp_all add: counts_def)

lemma submit_reply_counts:
  assumes "se_parse E line = Some j" and "is_reply E j"
  shows "counts (on_submit_reply E now j r) = (rn_accepted r + of_bool (verdict E line = Accepted),
    rn_rejected r + of_bool (verdict E line = Refused), rn_connect_failures r, rn_quick_disconnects r)"
  using assms unfolding counts_def on_submit_reply_counts verdict_def on_submit_reply_def Let_def record_latency_def
  by (cases "Option.bind (j_field (se_json E) j ''result'') (j_bool (se_json E))") auto

lemma on_line_counts:
  assumes "on_line E now line r = Inr r'"
  shows "counts r' = (rn_accepted r + of_bool (verdict E line = Accepted),
    rn_rejected r + of_bool (verdict E line = Refused), rn_connect_failures r, rn_quick_disconnects r)"
proof (cases "se_parse E line")
  case None
  then show ?thesis using assms by (simp add: on_line_def verdict_def counts_def)
next
  case j: (Some j)
  show ?thesis
  proof (cases "is_reply E j")
    case True
    then show ?thesis using on_line_cases [OF assms j] submit_reply_counts [OF j True] by simp
  next
    case False
    then have "verdict E line = Nothing" by (simp add: verdict_def j)
    moreover have "counts r' = counts r"
      using on_line_cases [OF assms j] False message_counts notify_counts [of E j r r'] by auto
    ultimately show ?thesis by (simp add: counts_def)
  qed
qed

lemma run_counts:
  "runner_run E evs r = Inr r' \<Longrightarrow> counts r' =
    (rn_accepted r + of_nat (length (filter (\<lambda>ev. event_verdict E ev = Accepted) evs)),
     rn_rejected r + of_nat (length (filter (\<lambda>ev. event_verdict E ev = Refused) evs)),
     failures (rn_connect_failures r) evs, disconnections (rn_quick_disconnects r) evs)"
proof (induction evs arbitrary: r)
  case (Cons ev evs)
  then obtain r1 where r1: "runner_step E ev r = Inr r1" "runner_run E evs r1 = Inr r'"
    by (auto split: sum.splits)
  note IH = Cons.IH [OF r1(2)]
  show ?case
  proof (cases ev)
    case (Received now line)
    then have "on_line E now line r = Inr r1" using r1(1) by simp
    from on_line_counts [OF this] show ?thesis using IH Received by (simp add: counts_def)
  qed (use IH r1(1) in \<open>auto simp: counts_def handler_defs\<close>)
qed (simp add: counts_def)

section \<open>Properties\<close>

text \<open>The runner never reports an accepted submission. In every state it reaches, on whatever lines,
  connections and submissions, the callback has not been called, the average reply time is 0 (nothing
  ever records when a submission is sent), and the adapter never counts as authorised; the adapter's
  extranonce size agrees with the runner's throughout.\<close>

theorem runner_never_reports:
  assumes "runner_reachable E (runner_new (stratum_adapter_new name) cb) r"
  shows "rn_calls r = [] \<and> rn_avg_ms r = 0 \<and> rn_last_submit_sent r = 0 \<and>
    sa_state (rn_adapter r) \<noteq> kAuthorized \<and>
    sa_extranonce2_size (rn_adapter r) = rn_extranonce2_size r"
  using reachable_silent [OF assms]
  by (simp add: silent_def runner_new_def stratum_adapter_new_def)

definition sample_env :: "string \<Rightarrow> json \<Rightarrow> json stratum_env" where
  "sample_env text doc = \<lparr>se_json = json_model, se_parse = (\<lambda>s. if s = text then Some doc else None),
     se_hash = (\<lambda>s. of_nat (length s)), se_junk = 7\<rparr>"

lemma sample_env_json [simp]: "se_json (sample_env text doc) = json_model"
  by (simp add: sample_env_def)

theorem runner_never_reports_witness:
  "\<exists>r. runner_step (sample_env ''x'' (JObject [(''id'', JInt 3), (''result'', JBool True)])) (Received 9 ''x'')
      (setPendingSubmit 5 6 (runner_new (stratum_adapter_new ''a'') True)) = Inr r \<and>
    rn_accepted r = 1 \<and> rn_calls r = []"
proof -
  let ?E = "sample_env ''x'' (JObject [(''id'', JInt 3), (''result'', JBool True)])"
  let ?r0 = "runner_new (stratum_adapter_new ''a'') True"
  have a: "runner_reachable ?E ?r0 (setPendingSubmit 5 6 ?r0)"
    using reachable_step [OF reachable_start, of ?E "Pending 5 6" ?r0] by simp
  obtain r where r: "runner_step ?E (Received 9 ''x'') (setPendingSubmit 5 6 ?r0) = Inr r" "rn_accepted r = 1"
    by (simp add: sample_env_def on_line_def json_model_def id_is_def on_submit_reply_def setPendingSubmit_def runner_new_def)
  from runner_never_reports [OF reachable_step [OF a r(1)]] r show ?thesis by blast
qed

lemma on_notify_queues:
  assumes "j_field (se_json E) j ''params'' = Some params"
    and "Option.bind (j_item (se_json E) params 0) (j_string (se_json E)) = Some job_id"
    and "read_notify (se_json E) params = Some f"
    and "notify_inputs E (r\<lparr>rn_last_job_id := job_id\<rparr>) job_id f = Inr i"
    and "compact_safe (job_nbits (in_job i))" and "in_share_nbits i = 0"
    and "compact_safe (policy_share_nbits (rn_adapter r))"
  shows "\<exists>n. on_notify E j r = Inr (r\<lparr>rn_last_job_id := job_id, rn_adapter := (rn_adapter r)\<lparr>
        policy_clean_jobs := nf_clean f, sa_q := sa_q (rn_adapter r) @ [n]\<rparr>\<rparr>) \<and>
    normalizeJob (apply_policy (setCleanJobs (rn_adapter r) (nf_clean f)) i) = Inr (Some n)"
proof -
  let ?a = "setCleanJobs (rn_adapter r) (nf_clean f)"
  have "in_share_nbits (apply_policy ?a i) = policy_share_nbits (rn_adapter r)"
    by (simp add: assms(6) setCleanJobs_def)
  then obtain n where n: "ingestJobWithPolicy ?a i = Inr (?a\<lparr>sa_q := sa_q ?a @ [n]\<rparr>)" "normalizeJob (apply_policy ?a i) = Inr (Some n)"
    using ingest_safe [of i ?a] assms(5,7) by auto
  with on_notify_read(2) [OF assms(1-3)] assms(4) show ?thesis
    by (auto simp: setCleanJobs_def)
qed

lemma stoul16_samples: "stoul16 ''20000000'' = Some 0x20000000" "stoul16 ''1d00ffff'' = Some 0x1d00ffff"
  "stoul16 ''007fffff'' = Some 0x7fffff" "stoul16 ''65000000'' = Some 0x65000000"
  by (simp_all add: stoul16_def split_sign_def skip_0x_def is_space_def hex_value_def hex_number_def)

definition sample_notify :: "string \<Rightarrow> json list \<Rightarrow> json" where
  "sample_notify nbits branch = JObject [(''method'', JString ''mining.notify''), (''params'', JArray [JString ''j1'', JString (bytesToHex (replicate 32 0)),
     JString (bytesToHex [1]), JString (bytesToHex [2]), JArray branch, JNull, JNull, JBool True,
     JString ''20000000'', JString nbits, JString ''65000000''])]"

definition sample_fields :: "u32 \<Rightarrow> string list \<Rightarrow> notify_fields" where
  "sample_fields nbits branch = \<lparr>nf_version = 0x20000000, nf_nbits = nbits, nf_ntime = 0x65000000,
     nf_prevhash = bytesToHex (replicate 32 0), nf_coinb1 = bytesToHex [1], nf_coinb2 = bytesToHex [2],
     nf_branch = branch, nf_clean = True\<rparr>"

lemma sample_notify_read:
  "\<exists>p. j_field json_model (sample_notify nbits branch) ''params'' = Some p \<and>
    Option.bind (j_item json_model p 0) (j_string json_model) = Some ''j1'' \<and>
    (\<forall>v. stoul16 nbits = Some v \<longrightarrow>
      read_notify json_model p = Some (sample_fields (ucast v) (leading_strings json_model branch)))"
  by (simp add: sample_notify_def json_model_def read_notify_def stoul16_samples sample_fields_def)

text \<open>C33: every job waiting in the runner's queue agrees with itself, however the pool behaves: eight words in each
  array, a block target that is the expansion of its own target bits, a share target that is the
  expansion of the adapter's first one or of the one that \<^verbatim>\<open>set_difficulty\<close> puts in its place, a midstate made
  of its own version, previous hash and Merkle root, the window of times of the policy or of the two
  seconds from its own time on, active, not yet submitted, under source 0. All steps preserve this,
  the taking of jobs by the main loop included.\<close>

theorem queued_jobs_coherent:
  assumes "runner_reachable E (runner_new a cb) r" and "sa_q a = []" and "n \<in> set (sa_q (rn_adapter r))"
    and "item = nr_item n"
  shows "length (wi_prevhash_le item) = 8 \<and> length (wi_merkle_root_le item) = 8 \<and>
    compactToTargetU32LE (wi_nbits item) = Inr (wi_block_target_le item) \<and>
    (\<exists>s \<in> {policy_share_nbits a, 0x1f00ffff}. compactToTargetU32LE s = Inr (wi_share_target_le item)) \<and>
    midstate_le (nr_job_const n) = sha256_midstate_64 (rev (word_be_bytes (wi_version item)) @
      leU32WordsToBe32Bytes (wi_prevhash_le item) @ take 28 (leU32WordsToBe32Bytes (wi_merkle_root_le item))) \<and>
    wi_ntime_min item = (if policy_ntime_min a \<noteq> 0 then policy_ntime_min a else wi_ntime item) \<and>
    wi_ntime_max item = (if policy_ntime_max a \<noteq> 0 then policy_ntime_max a
      else if wi_ntime item + 2 = 0 then wi_ntime item else wi_ntime item + 2) \<and>
    wi_source_id item = 0 \<and> wi_active item \<and> \<not> wi_found_submitted item"
proof -
  have "coherent a (runner_new a cb)" using assms(2) by (simp add: coherent_def runner_new_def)
  from reachable_coherent [OF assms(1) this] assms(3,4) show ?thesis
    by (auto simp: coherent_def job_coherent_def Let_def item_ok_def compactFromDifficulty_def)
qed

theorem queued_jobs_coherent_witness:
  "\<exists>r n. runner_step (sample_env ''x'' (sample_notify ''1d00ffff'' [])) (Received 0 ''x'')
      (runner_new (stratum_adapter_new ''a'') True) = Inr r \<and> sa_q (rn_adapter r) = [n] \<and>
    compactToTargetU32LE (wi_nbits (nr_item n)) = Inr (wi_block_target_le (nr_item n)) \<and>
    wi_ntime_min (nr_item n) = wi_ntime (nr_item n)"
proof -
  let ?j = "sample_notify ''1d00ffff'' []"
  let ?E = "sample_env ''x'' ?j"
  let ?r = "runner_new (stratum_adapter_new ''a'') True"
  obtain p where p: "j_field json_model ?j ''params'' = Some p"
    "Option.bind (j_item json_model p 0) (j_string json_model) = Some ''j1''"
    "read_notify json_model p = Some (sample_fields (ucast (0x1d00ffff :: u64)) (leading_strings json_model []))"
    using sample_notify_read [of "''1d00ffff''" "[]"] stoul16_samples(2) by blast
  obtain i where i: "notify_inputs ?E (?r\<lparr>rn_last_job_id := ''j1''\<rparr>) ''j1''
      (sample_fields (ucast (0x1d00ffff :: u64)) (leading_strings json_model [])) = Inr i"
    "job_nbits (in_job i) = 0x1d00ffff" "in_share_nbits i = 0"
    by (simp add: notify_inputs_def Let_def sample_fields_def)
  have safe: "compact_safe (job_nbits (in_job i))" "compact_safe (policy_share_nbits (rn_adapter ?r))"
    by (simp_all add: i(2) compact_safe_def exponent_of_def mantissa_of_def runner_new_def stratum_adapter_new_def)
  have "nf_clean (sample_fields (ucast (0x1d00ffff :: u64)) (leading_strings json_model []))"
    by (simp add: sample_fields_def)
  with on_notify_queues [where E = ?E and r = ?r, unfolded sample_env_json, OF p i(1) safe(1) i(3) safe(2)]
  obtain n where "on_notify ?E ?j ?r = Inr (?r\<lparr>rn_last_job_id := ''j1'', rn_adapter := (rn_adapter ?r)\<lparr>
      policy_clean_jobs := True, sa_q := sa_q (rn_adapter ?r) @ [n]\<rparr>\<rparr>)"
    by auto
  then have step: "runner_step ?E (Received 0 ''x'') ?r = Inr (?r\<lparr>rn_last_job_id := ''j1'', rn_adapter := (rn_adapter ?r)\<lparr>
      policy_clean_jobs := True, sa_q := sa_q (rn_adapter ?r) @ [n]\<rparr>\<rparr>)"
    by (simp add: on_line_def id_is_def sample_env_def json_model_def sample_notify_def)
  from queued_jobs_coherent [OF reachable_step [OF reachable_start step] _ _ refl, of n] step show ?thesis
    by (auto simp: runner_new_def stratum_adapter_new_def)
qed

text \<open>The counters over a run. After any sequence of events, the accepted and rejected submissions are
  as many as the lines that say so, the connection failures are those since the last connection (or
  reset), and the lost connections those since the last reset. A refusal in the usual form, with a null result and an error, is not among them: the attempt
  to read the result as a truth value throws, and nothing is counted.\<close>

theorem reply_counters:
  assumes "runner_run E evs r = Inr r'"
  shows "rn_accepted r' = rn_accepted r + of_nat (length (filter (\<lambda>ev. event_verdict E ev = Accepted) evs)) \<and>
    rn_rejected r' = rn_rejected r + of_nat (length (filter (\<lambda>ev. event_verdict E ev = Refused) evs)) \<and>
    rn_connect_failures r' = failures (rn_connect_failures r) evs \<and>
    rn_quick_disconnects r' = disconnections (rn_quick_disconnects r) evs \<and>
    verdict (sample_env line (JObject [(''id'', JInt 3), (''result'', JNull), (''error'', err)])) line = Nothing"
  using run_counts [OF assms]
  by (simp add: counts_def verdict_def is_reply_def id_is_def sample_env_def json_model_def)

theorem reply_counters_witness:
  "rn_connect_failures (on_connect_failed (on_connected (on_connect_failed (runner_new (stratum_adapter_new ''a'') True)))) = 1"
  using reply_counters [of "sample_env [] JNull" "[Connect_failed, Connected, Connect_failed]"
      "runner_new (stratum_adapter_new ''a'') True", simplified runner_run.simps runner_step.simps sum.case, OF refl]
  by (simp add: runner_new_def)

text \<open>C17: a well-formed notification becomes one job. When the fields can be read, the previous hash and the
  branch entries are hexadecimal of 32 bytes, the coinbase parts hexadecimal, and neither the block
  target nor the share target of the policy overruns its array, then exactly one job is queued, and the
  job id, the clean flag and nothing else of the runner change. The job carries the hash of the job id,
  the version, the target bits, the time and the clean flag of the notification, the times from that one
  to two seconds later and all bits of the mask unless the policy says otherwise, the runner's size of the
  second extranonce, the previous hash, the block and share targets and a Merkle root: that of the list
  whose first entry is the reversed double hash of the coinbase and whose other entries are the branch; its
  midstate is that of the version, least significant byte first, the previous hash and the first 28
  bytes of the root. The coinbase holds the characters of the extranonce text themselves between the pool's
  two parts, not the bytes the text stands for.\<close>

theorem notify_queues_job:
  assumes "j_field (se_json E) j ''params'' = Some params"
    and "Option.bind (j_item (se_json E) params 0) (j_string (se_json E)) = Some job_id"
    and "read_notify (se_json E) params = Some f"
    and "nf_prevhash f = bytesToHex ph" and "length ph = 32"
    and "nf_coinb1 f = bytesToHex pre" and "nf_coinb2 f = bytesToHex suf"
    and "nf_branch f = map bytesToHex bs" and "txids bs"
    and "compact_safe (nf_nbits f)" and "compact_safe (policy_share_nbits (rn_adapter r))"
    and "mr = compute_merkle_root_be (rev (sha256d (pre @ map of_char (rn_extranonce1 r) @
        replicate (unat (rn_extranonce2_size r)) 0 @ suf)) # bs)"
  shows "\<exists>n. on_notify E j r = Inr (r\<lparr>rn_last_job_id := job_id, rn_adapter := (rn_adapter r)\<lparr>
        policy_clean_jobs := nf_clean f, sa_q := sa_q (rn_adapter r) @ [n]\<rparr>\<rparr>) \<and>
    wi_work_id (nr_item n) = se_hash E job_id \<and> wi_clean_jobs (nr_item n) = nf_clean f \<and> wi_source_id (nr_item n) = 0 \<and>
    wi_version (nr_item n) = nf_version f \<and> wi_nbits (nr_item n) = nf_nbits f \<and> wi_ntime (nr_item n) = nf_ntime f \<and>
    wi_ntime_min (nr_item n) = (if policy_ntime_min (rn_adapter r) \<noteq> 0 then policy_ntime_min (rn_adapter r) else nf_ntime f) \<and>
    wi_ntime_max (nr_item n) = (if policy_ntime_max (rn_adapter r) \<noteq> 0 then policy_ntime_max (rn_adapter r)
      else if nf_ntime f + 2 = 0 then nf_ntime f else nf_ntime f + 2) \<and>
    wi_vmask (nr_item n) = policy_vmask (rn_adapter r) \<and> wi_extranonce2_size (nr_item n) = rn_extranonce2_size r \<and>
    leU32WordsToBe32Bytes (wi_prevhash_le (nr_item n)) = ph \<and> leU32WordsToBe32Bytes (wi_merkle_root_le (nr_item n)) = mr \<and>
    midstate_le (nr_job_const n) = sha256_midstate_64 (rev (word_be_bytes (nf_version f)) @ ph @ take 28 mr) \<and>
    target_nat (wi_block_target_le (nr_item n)) = code_target (nf_nbits f) \<and>
    target_nat (wi_share_target_le (nr_item n)) = code_target (policy_share_nbits (rn_adapter r))"
proof -
  let ?r = "r\<lparr>rn_last_job_id := job_id\<rparr>"
  let ?a = "setCleanJobs (rn_adapter r) (nf_clean f)"
  have "\<exists>i. notify_inputs E ?r job_id f = Inr i \<and> in_share_nbits i = 0 \<and> in_job i = \<lparr>job_source_name = ''stratum'',
      job_work_id = se_hash E job_id, job_version = nf_version f, job_nbits = nf_nbits f, job_ntime = nf_ntime f\<rparr> \<and>
    in_prevhash_be i = ph \<and> in_merkle_root_be i = mr \<and> in_clean_jobs i = nf_clean f \<and> in_source_id i = 0 \<and> in_vmask i = 0 \<and>
    in_ntime_min i = nf_ntime f \<and> in_ntime_max i = nf_ntime f + 2 \<and> in_extranonce2_size i = rn_extranonce2_size r \<and>
    in_header_first64 i = rev (word_be_bytes (nf_version f)) @ ph @ take 28 mr"
    using assms(4-9,12)
    by (simp add: notify_inputs_def Let_def branch_entries_hex hexToBytes_hex scan_bytes_hex coinbase_txid_be_rev
        assembleCoinbaseTx_def word_be_bytes_def)
  then obtain i where i: "notify_inputs E ?r job_id f = Inr i" "in_share_nbits i = 0"
    "in_job i = \<lparr>job_source_name = ''stratum'', job_work_id = se_hash E job_id, job_version = nf_version f,
      job_nbits = nf_nbits f, job_ntime = nf_ntime f\<rparr>"
    "in_prevhash_be i = ph" "in_merkle_root_be i = mr" "in_clean_jobs i = nf_clean f" "in_source_id i = 0" "in_vmask i = 0"
    "in_ntime_min i = nf_ntime f" "in_ntime_max i = nf_ntime f + 2" "in_extranonce2_size i = rn_extranonce2_size r"
    "in_header_first64 i = rev (word_be_bytes (nf_version f)) @ ph @ take 28 mr" by blast
  have share: "in_share_nbits (apply_policy ?a i) = policy_share_nbits (rn_adapter r)"
    by (simp add: i(2) setCleanJobs_def)
  obtain n where n: "on_notify E j r = Inr (r\<lparr>rn_last_job_id := job_id, rn_adapter := (rn_adapter r)\<lparr>
        policy_clean_jobs := nf_clean f, sa_q := sa_q (rn_adapter r) @ [n]\<rparr>\<rparr>)" "normalizeJob (apply_policy ?a i) = Inr (Some n)"
    using on_notify_queues [OF assms(1-3) i(1)] i(2,3) assms(10,11) by auto
  have safe: "compact_safe (job_nbits (in_job (apply_policy ?a i)))" "compact_safe (in_share_nbits (apply_policy ?a i))"
    using assms(10,11) i(3) share by simp_all
  have targets: "target_nat (wi_block_target_le (nr_item n)) = code_target (nf_nbits f)"
    "target_nat (wi_share_target_le (nr_item n)) = code_target (policy_share_nbits (rn_adapter r))"
    using normalizeJob_safe [OF safe] n(2) share i(3)
    by (metis Inr_inject RawJob.select_convs(4) apply_policy_fields(1) option.inject)+
  have "length mr = 32"
    using txids_merkle_loop [of "rev (sha256d (pre @ map of_char (rn_extranonce1 r) @ replicate (unat (rn_extranonce2_size r)) 0 @ suf)) # bs"]
      assms(9,12) by (auto simp: compute_merkle_root_be_def txids_def)
  then show ?thesis
    using n(1) targets assms(5) by (intro exI [of _ n])
      (simp add: normalizeJob_members [OF n(2)] bytes_of_words i(3-12) setCleanJobs_def)
qed

theorem notify_queues_job_witness:
  "\<exists>n. on_notify (sample_env [] JNull) (sample_notify ''1d00ffff'' []) (runner_new (stratum_adapter_new ''a'') True) =
      Inr (runner_new (stratum_adapter_new ''a'') True\<lparr>rn_last_job_id := ''j1'', rn_adapter :=
        (stratum_adapter_new ''a'')\<lparr>policy_clean_jobs := True, sa_q := [n]\<rparr>\<rparr>) \<and>
    wi_version (nr_item n) = 0x20000000 \<and> wi_ntime (nr_item n) = 0x65000000 \<and> wi_ntime_max (nr_item n) = 0x65000002 \<and>
    target_nat (wi_block_target_le (nr_item n)) = code_target 0x1d00ffff \<and> target_nat (wi_share_target_le (nr_item n)) = code_target 0"
proof -
  obtain p where p: "j_field json_model (sample_notify ''1d00ffff'' []) ''params'' = Some p"
    "Option.bind (j_item json_model p 0) (j_string json_model) = Some ''j1''"
    "read_notify json_model p = Some (sample_fields (ucast (0x1d00ffff :: u64)) (leading_strings json_model []))"
    using sample_notify_read [of "''1d00ffff''" "[]"] stoul16_samples(2) by blast
  show ?thesis
    using notify_queues_job [where E = "sample_env [] JNull" and ph = "replicate 32 0" and bs = "[]" and
        pre = "[1]" and suf = "[2]" and r = "runner_new (stratum_adapter_new ''a'') True",
        unfolded sample_env_json, OF p _ _ _ _ _ _ _ _ refl]
    by (auto simp: sample_fields_def txids_def compact_safe_def exponent_of_def runner_new_def stratum_adapter_new_def
        mantissa_of_def)
qed

text \<open>C34: notifications that fail. A notification whose fields cannot be read, in particular any with no text
  at position 9 (the standard message has nine parameters), queues nothing, but the job id of the next
  submissions is already replaced by its. A branch entry of less than 62 characters is read past its
  end, and a block target with exponent 0 and a mantissa is written past the end of its array. A line
  whose \<^verbatim>\<open>"method"\<close> is not a text throws outside every \<^verbatim>\<open>try\<close>.\<close>

theorem notify_failures:
  assumes "j_field (se_json E) j ''params'' = Some params"
    and "Option.bind (j_item (se_json E) params 0) (j_string (se_json E)) = Some job_id"
  shows "(Option.bind (j_item (se_json E) params 9) (j_string (se_json E)) = None \<longrightarrow> read_notify (se_json E) params = None) \<and>
    (read_notify (se_json E) params = None \<longrightarrow> on_notify E j r = Inr (r\<lparr>rn_last_job_id := job_id\<rparr>)) \<and>
    (\<forall>f. read_notify (se_json E) params = Some f \<longrightarrow>
       ((\<exists>h \<in> set (nf_branch f). length h < 62) \<or> \<not> compact_safe (nf_nbits f)) \<longrightarrow>
       on_notify E j r = Inl Out_of_bounds) \<and>
    on_line (sample_env line (JObject [(''method'', JNull)])) now line r = Inl (Invalid_argument ''method'')"
proof (intro conjI allI impI)
  fix f assume f: "read_notify (se_json E) params = Some f"
    and bad: "(\<exists>h \<in> set (nf_branch f). length h < 62) \<or> \<not> compact_safe (nf_nbits f)"
  let ?r = "r\<lparr>rn_last_job_id := job_id\<rparr>"
  show "on_notify E j r = Inl Out_of_bounds"
  proof (cases "\<exists>h \<in> set (nf_branch f). length h < 62")
    case True
    from branch_entries_short [OF this] have "notify_inputs E ?r job_id f = Inl Out_of_bounds"
      by (simp add: notify_inputs_def)
    then show ?thesis using on_notify_read(2) [OF assms f] by simp
  next
    case False
    then obtain bs where "branch_entries (se_junk E) (nf_branch f) = Inr bs"
      using branch_entries_long [of "nf_branch f" "se_junk E"] by (auto simp: not_less)
    then obtain i where "notify_inputs E ?r job_id f = Inr i" "job_nbits (in_job i) = nf_nbits f"
      by (simp add: notify_inputs_def Let_def)
    then show ?thesis using on_notify_read(2) [OF assms f] ingest_unsafe [of i] False bad by simp
  qed
next
  assume "Option.bind (j_item (se_json E) params 9) (j_string (se_json E)) = None"
  then have "Option.bind (Option.bind (j_item (se_json E) params 9) (j_string (se_json E))) stoul16 = None" by simp
  then show "read_notify (se_json E) params = None"
    unfolding read_notify_def Let_def
    by (cases "Option.bind (Option.bind (j_item (se_json E) params 8) (j_string (se_json E))) stoul16")
      (simp_all only: option.case)
qed (use on_notify_read(1) [OF assms] in \<open>simp_all add: on_line_def sample_env_def json_model_def id_is_def\<close>)

theorem notify_failures_witness:
  "on_notify (sample_env [] JNull) (sample_notify ''007fffff'' []) (runner_new (stratum_adapter_new ''a'') True) = Inl Out_of_bounds"
proof -
  obtain p where p: "j_field json_model (sample_notify ''007fffff'' []) ''params'' = Some p"
    "Option.bind (j_item json_model p 0) (j_string json_model) = Some ''j1''"
    "read_notify json_model p = Some (sample_fields (ucast (0x7fffff :: u64)) (leading_strings json_model []))"
    using sample_notify_read [of "''007fffff''" "[]"] stoul16_samples(3) by blast
  have "\<not> compact_safe (nf_nbits (sample_fields (ucast (0x7fffff :: u64)) (leading_strings json_model [])))"
    by (simp add: sample_fields_def compact_safe_def exponent_of_def mantissa_of_def)
  then show ?thesis
    using notify_failures [where E = "sample_env [] JNull" and r = "runner_new (stratum_adapter_new ''a'') True",
        unfolded sample_env_json, OF p(1,2)] p(3) by blast
qed

text \<open>What is submitted. Without a connection or before the first job nothing is; otherwise the message
  carries the last job id, whatever job the header belongs to, and two texts that decode to the bytes 68
  to 71 (the time) and 76 to 79 (the nonce) of the header, in the order they have there.\<close>

theorem submitted_texts:
  assumes "length header80_be = 80"
  shows "\<exists>nt nn. unhex nt = Some (take 4 (drop 68 header80_be)) \<and> unhex nn = Some (take 4 (drop 76 header80_be)) \<and>
    submitFromHeader username header80_be en2 (Some r) =
      (if rn_client r \<and> rn_last_job_id r \<noteq> [] then Some (submit_message username (rn_last_job_id r) en2 nt nn) else None) \<and>
    submitFromHeader username header80_be en2 None = None"
  using unhex_toHex8 [of "drop 68 header80_be"] unhex_toHex8 [of "drop 76 header80_be"] assms
  by (intro exI [of _ "toHex8 (drop 68 header80_be)"] exI [of _ "toHex8 (drop 76 header80_be)"])
    (simp add: submitFromHeader_def submitShare_def)

theorem submitted_texts_witness:
  "\<exists>nt nn. unhex nt = Some [0, 0, 0, 5] \<and> submitFromHeader ''u'' (replicate 71 0 @ 5 # replicate 8 0) []
      (Some ((on_start (runner_new (stratum_adapter_new ''a'') True))\<lparr>rn_last_job_id := ''j''\<rparr>)) =
    Some (submit_message ''u'' ''j'' [] nt nn)"
  using submitted_texts [of "replicate 71 0 @ 5 # replicate 8 0" "''u''" "[]"
      "(on_start (runner_new (stratum_adapter_new ''a'') True))\<lparr>rn_last_job_id := ''j''\<rparr>"]
  by (simp add: on_start_def runner_new_def numeral_3_eq_3) blast

end
