(* ===== verification/Gbt_Runner.thy ===== *)
theory Gbt_Runner
  imports Config Gbt_Submitter Stratum_Runner
begin

text \<open>
  \<^verbatim>\<open>src/adapters/gbt_runner.cc\<close> and the inline members of \<^verbatim>\<open>src/submit/gbt_submitter.h\<close>: polling a node for
  block templates. One iteration of the loop is one call of \<open>gbt_poll\<close>; the RPC call, the JSON library
  and the hash of strings are parameters (the call itself is modelled in \<open>Rpc_Client\<close> and \<open>Rpc_Url\<close>,
  the thread that makes it in \<open>Gbt_Thread\<close>). What was assigned before an exception stays.
\<close>

definition setAllowSynthCoinbase :: "bool \<Rightarrow> GbtSubmitter \<Rightarrow> GbtSubmitter" where
  "setAllowSynthCoinbase allow s = s\<lparr>allow_synth_coinbase := allow\<rparr>"

definition setPayoutScriptHex :: "string \<Rightarrow> GbtSubmitter \<Rightarrow> GbtSubmitter" where
  "setPayoutScriptHex hex s = s\<lparr>payout_script_hex := hex\<rparr>"

definition setCoinbaseTag :: "string \<Rightarrow> GbtSubmitter \<Rightarrow> GbtSubmitter" where
  "setCoinbaseTag tag s = s\<lparr>coinbase_tag := tag\<rparr>"

record GbtRunner =
  gr_adapter :: GbtAdapter
  gr_pool :: PoolEntry
  gr_submitter :: "GbtSubmitter option"
  gr_last_prevhash :: string

definition gbt_runner_new :: "GbtAdapter \<Rightarrow> PoolEntry \<Rightarrow> GbtRunner" where
  "gbt_runner_new adapter pool =
     (let r = \<lparr>gr_adapter = adapter, gr_pool = pool, gr_submitter = None, gr_last_prevhash = []\<rparr>
      in case pe_rpc pool of
           None \<Rightarrow> r
         | Some rpc \<Rightarrow>
             let s = submitter_new;
                 s = (case pe_gbt pool of None \<Rightarrow> s
                      | Some g \<Rightarrow> if gc_allow_synth_coinbase g then setAllowSynthCoinbase True s else s);
                 s = (case pe_gbt pool of None \<Rightarrow> s
                      | Some g \<Rightarrow> if gc_payout_script_hex g \<noteq> [] then setPayoutScriptHex (gc_payout_script_hex g) s else s);
                 s = (case pe_gbt pool of None \<Rightarrow> s
                      | Some g \<Rightarrow> if gc_cb_tag g \<noteq> [] then setCoinbaseTag (gc_cb_tag g) s else s)
             in r\<lparr>gr_submitter := Some s, gr_adapter := adapter\<lparr>ga_has_submitter := True\<rparr>\<rparr>)"

definition template_request :: "PoolEntry \<Rightarrow> json" where
  "template_request pool =
     (let rules = (case pe_gbt pool of Some g \<Rightarrow> map JString (gc_rules g) | None \<Rightarrow> [JString ''segwit''])
      in JArray [JObject [(''rules'', JArray rules)]])"

definition fetchTemplate :: "(string \<Rightarrow> json \<Rightarrow> 'j option) \<Rightarrow> PoolEntry \<Rightarrow> 'j option" where
  "fetchTemplate call pool =
     (case pe_rpc pool of None \<Rightarrow> None | Some rpc \<Rightarrow> call ''getblocktemplate'' (template_request pool))"

definition template_inputs :: "u32 \<Rightarrow> u64 \<Rightarrow> string \<Rightarrow> string \<Rightarrow> u32 \<Rightarrow> u32 \<Rightarrow> u32 \<Rightarrow> RawJobInputs" where
  "template_inputs junk work_id prevhash mr version nbits ntime =
     default_inputs\<lparr>in_source_id := 0,
       in_job := \<lparr>job_source_name = ''gbt'', job_work_id = work_id, job_version = version, job_nbits = nbits,
         job_ntime = ntime\<rparr>,
       in_prevhash_be := hexToBytes junk prevhash 32, in_merkle_root_be := hexToBytes junk mr 32,
       in_share_nbits := nbits, in_clean_jobs := True\<rparr>"

definition merkleroot_text :: "'j json_lib \<Rightarrow> 'j \<Rightarrow> string option" where
  "merkleroot_text J gbt =
     (if j_contains J gbt ''merkleroot'' \<and> map_option (j_is_string J) (j_field J gbt ''merkleroot'') = Some True
      then Option.bind (j_field J gbt ''merkleroot'') (j_string J)
      else Some (replicate 64 (CHR ''0'')))"

text \<open>The body of the \<^verbatim>\<open>try\<close> block.\<close>

definition on_template :: "'j stratum_env \<Rightarrow> 'j \<Rightarrow> GbtRunner \<Rightarrow> GbtRunner result" where
  "on_template E gbt r =
     (let J = se_json E; field = j_field J gbt
      in case Option.bind (field ''previousblockhash'') (j_string J) of
           None \<Rightarrow> Inr r
         | Some prevhash \<Rightarrow>
             if prevhash = gr_last_prevhash r then Inr r
             else let r = r\<lparr>gr_last_prevhash := prevhash\<rparr>
                  in case Option.bind (field ''version'') (j_int J) of None \<Rightarrow> Inr r | Some version \<Rightarrow>
                     (case Option.bind (Option.bind (field ''bits'') (j_string J)) stoul16 of None \<Rightarrow> Inr r | Some bits \<Rightarrow>
                     (case Option.bind (field ''curtime'') (j_int64 J) of None \<Rightarrow> Inr r | Some curtime \<Rightarrow>
                     (case merkleroot_text J gbt of None \<Rightarrow> Inr r | Some mr \<Rightarrow>
                     (case ingestTemplate (gr_adapter r)
                         (template_inputs (se_junk E) (se_hash E prevhash) prevhash mr version (ucast bits) (ucast curtime)) of
                        Inl e \<Rightarrow> Inl e
                      | Inr a \<Rightarrow>
                          let r = r\<lparr>gr_adapter := a\<rparr>
                          in Inr (case gr_submitter r of None \<Rightarrow> r
                             | Some s \<Rightarrow> r\<lparr>gr_submitter := Some (updateTemplate J gbt s)\<rparr>))))))"

definition gbt_poll :: "'j stratum_env \<Rightarrow> (string \<Rightarrow> json \<Rightarrow> 'j option) \<Rightarrow> GbtRunner \<Rightarrow> GbtRunner result" where
  "gbt_poll E call r =
     (case fetchTemplate call (gr_pool r) of None \<Rightarrow> Inr r | Some gbt \<Rightarrow> on_template E gbt r)"

section \<open>Lemmas\<close>

lemma ingest_template_safe:
  assumes "compact_safe (job_nbits (in_job i))" and "compact_safe (in_share_nbits i)"
  obtains n where "ingestTemplate a i = Inr (a\<lparr>ga_q := ga_q a @ [n]\<rparr>)" and "normalizeJob i = Inr (Some n)"
proof -
  from normalizeJob_safe [OF assms] obtain n where "normalizeJob i = Inr (Some n)" by blast
  then show ?thesis using that [of n] by (simp add: ingestTemplate_def)
qed

lemma on_template_same:
  "Option.bind (j_field (se_json E) gbt ''previousblockhash'') (j_string (se_json E)) = Some (gr_last_prevhash r) \<Longrightarrow>
   on_template E gbt r = Inr r"
  by (simp add: on_template_def)

section \<open>Properties\<close>

text \<open>A template with a new previous hash becomes one job, and is never looked at again. When its
  members can be read and its target does not overrun, one item is queued, with the previous hash, the
  Merkle root of the member \<^verbatim>\<open>"merkleroot"\<close> or else 32 zero bytes, and the block target in both places;
  the midstate is that of 64 zero bytes whatever the template says, because the runner never fills the
  header prefix; the submitter takes the template over. Every later template with the same previous hash
  is ignored.\<close>

theorem template_becomes_job:
  assumes "J = se_json E"
    and "Option.bind (j_field J gbt ''previousblockhash'') (j_string J) = Some (bytesToHex ph)" and "length ph = 32"
    and "bytesToHex ph \<noteq> gr_last_prevhash r" and "gr_submitter r = Some s"
    and "Option.bind (j_field J gbt ''version'') (j_int J) = Some version"
    and "Option.bind (Option.bind (j_field J gbt ''bits'') (j_string J)) stoul16 = Some bits"
    and "Option.bind (j_field J gbt ''curtime'') (j_int64 J) = Some curtime"
    and "merkleroot_text J gbt = Some (bytesToHex mr)" and "length mr = 32"
    and "compact_safe (ucast bits)"
  shows "\<exists>n. let r' = r\<lparr>gr_last_prevhash := bytesToHex ph, gr_submitter := Some (updateTemplate J gbt s),
        gr_adapter := (gr_adapter r)\<lparr>ga_q := ga_q (gr_adapter r) @ [n]\<rparr>\<rparr>
    in on_template E gbt r = Inr r' \<and> on_template E gbt r' = Inr r' \<and>
      leU32WordsToBe32Bytes (wi_prevhash_le (nr_item n)) = ph \<and>
      leU32WordsToBe32Bytes (wi_merkle_root_le (nr_item n)) = mr \<and>
      target_nat (wi_block_target_le (nr_item n)) = code_target (ucast bits) \<and>
      target_nat (wi_share_target_le (nr_item n)) = code_target (ucast bits) \<and>
      midstate_le (nr_job_const n) = sha256_midstate_64 (replicate 64 0)"
proof -
  let ?i = "template_inputs (se_junk E) (se_hash E (bytesToHex ph)) (bytesToHex ph) (bytesToHex mr) version (ucast bits) (ucast curtime)"
  have i: "job_nbits (in_job ?i) = ucast bits" "in_share_nbits ?i = ucast bits" "in_prevhash_be ?i = ph"
    "in_merkle_root_be ?i = mr" "in_header_first64 ?i = replicate 64 0"
    using assms(3,10) by (simp_all add: template_inputs_def default_inputs_def hexToBytes_hex)
  have safe: "compact_safe (job_nbits (in_job ?i))" "compact_safe (in_share_nbits ?i)" using assms(11) i by simp_all
  from ingest_template_safe [OF safe, of "gr_adapter r"] obtain n where n:
    "ingestTemplate (gr_adapter r) ?i = Inr ((gr_adapter r)\<lparr>ga_q := ga_q (gr_adapter r) @ [n]\<rparr>)"
    "normalizeJob ?i = Inr (Some n)" by blast
  from normalizeJob_safe [OF safe] obtain m where m: "normalizeJob ?i = Inr (Some m)"
    "target_nat (wi_block_target_le (nr_item m)) = code_target (ucast bits)"
    "target_nat (wi_share_target_le (nr_item m)) = code_target (ucast bits)"
    "wi_prevhash_le (nr_item m) = be32BytesToLeU32Words ph" "wi_merkle_root_le (nr_item m) = be32BytesToLeU32Words mr"
    "midstate_le (nr_job_const m) = sha256_midstate_64 (replicate 64 0)" unfolding i by blast
  have "m = n" using m(1) n(2) by simp
  let ?r = "r\<lparr>gr_last_prevhash := bytesToHex ph, gr_submitter := Some (updateTemplate J gbt s),
        gr_adapter := (gr_adapter r)\<lparr>ga_q := ga_q (gr_adapter r) @ [n]\<rparr>\<rparr>"
  have "on_template E gbt r = Inr ?r"
    using assms(4,5) n(1)
    unfolding on_template_def Let_def assms(1) [symmetric] assms(2) option.case assms(6-9)
    by simp
  moreover have "on_template E gbt ?r = Inr ?r" using assms(1,2) by (intro on_template_same) simp
  ultimately show ?thesis using m(2-6) assms(3,10) unfolding \<open>m = n\<close>
    by (intro exI [of _ n]) (simp add: Let_def bytes_of_words)
qed

definition sample_template :: json where
  "sample_template = JObject [(''previousblockhash'', JString (bytesToHex (replicate 32 0))), (''version'', JInt 1),
     (''bits'', JString ''1d00ffff''), (''curtime'', JInt 5)]"

definition sample_gbt_runner :: GbtRunner where
  "sample_gbt_runner = \<lparr>gr_adapter = \<lparr>ga_name = ''gbt'', ga_q = [], ga_has_submitter = True\<rparr>, gr_pool = default_pool,
     gr_submitter = Some submitter_new, gr_last_prevhash = []\<rparr>"

lemma zero_hash_text: "bytesToHex (replicate 32 0) = replicate 64 (CHR ''0'')"
  by (simp add: bytesToHex_def hex_byte_def kHex_def numeral_eq_Suc)

theorem template_becomes_job_witness:
  "\<exists>n. ga_q (gr_adapter (case on_template (sample_env [] JNull) sample_template sample_gbt_runner of Inr r \<Rightarrow> r)) = [n] \<and>
    midstate_le (nr_job_const n) = sha256_midstate_64 (replicate 64 0)"
proof -
  have p: "Option.bind (j_field json_model sample_template ''previousblockhash'') (j_string json_model) = Some (bytesToHex (replicate 32 0))"
    "Option.bind (j_field json_model sample_template ''version'') (j_int json_model) = Some 1"
    "Option.bind (Option.bind (j_field json_model sample_template ''bits'') (j_string json_model)) stoul16 = Some 0x1d00ffff"
    "Option.bind (j_field json_model sample_template ''curtime'') (j_int64 json_model) = Some 5"
    "merkleroot_text json_model sample_template = Some (bytesToHex (replicate 32 0))"
    by (simp_all add: sample_template_def stoul16_samples merkleroot_text_def zero_hash_text)
  have "compact_safe (ucast (0x1d00ffff :: u64))" by (simp add: compact_safe_def exponent_of_def)
  with template_becomes_job [OF sample_env_json [symmetric], OF p(1) _ _ _ p(2-5), of sample_gbt_runner submitter_new "[]" JNull]
  show ?thesis by (auto simp: Let_def sample_gbt_runner_def bytesToHex_def hex_byte_def)
qed

text \<open>A template that fails halfway is not tried again. When the previous hash is new and the version,
  the target or the time cannot be read, nothing is queued and the submitter keeps its old template, but
  the hash is remembered: any later template with it, however well formed, changes nothing.\<close>

theorem failed_template_blocks_hash:
  assumes "J = se_json E"
    and "Option.bind (j_field J gbt ''previousblockhash'') (j_string J) = Some prevhash" and "prevhash \<noteq> gr_last_prevhash r"
    and "Option.bind (j_field J gbt ''version'') (j_int J) = None \<or>
      Option.bind (Option.bind (j_field J gbt ''bits'') (j_string J)) stoul16 = None \<or>
      Option.bind (j_field J gbt ''curtime'') (j_int64 J) = None"
    and "Option.bind (j_field J gbt' ''previousblockhash'') (j_string J) = Some prevhash"
  shows "on_template E gbt r = Inr (r\<lparr>gr_last_prevhash := prevhash\<rparr>) \<and>
    on_template E gbt' (r\<lparr>gr_last_prevhash := prevhash\<rparr>) = Inr (r\<lparr>gr_last_prevhash := prevhash\<rparr>)"
proof
  show "on_template E gbt r = Inr (r\<lparr>gr_last_prevhash := prevhash\<rparr>)"
    using assms(3,4) unfolding on_template_def Let_def assms(1) [symmetric] assms(2) option.case
    by (cases "Option.bind (j_field J gbt ''version'') (j_int J)";
        cases "Option.bind (Option.bind (j_field J gbt ''bits'') (j_string J)) stoul16") auto
  show "on_template E gbt' (r\<lparr>gr_last_prevhash := prevhash\<rparr>) = Inr (r\<lparr>gr_last_prevhash := prevhash\<rparr>)"
    using assms(1,5) by (intro on_template_same) simp
qed

theorem failed_template_blocks_hash_witness:
  "on_template (sample_env [] JNull) sample_template
      (sample_gbt_runner\<lparr>gr_last_prevhash := bytesToHex (replicate 32 0)\<rparr>) =
    Inr (sample_gbt_runner\<lparr>gr_last_prevhash := bytesToHex (replicate 32 0)\<rparr>)"
  using failed_template_blocks_hash [OF sample_env_json [symmetric], of
      "JObject [(''previousblockhash'', JString (bytesToHex (replicate 32 0)))]" "bytesToHex (replicate 32 0)" sample_gbt_runner
      sample_template "[]" JNull]
  by (simp add: sample_template_def sample_gbt_runner_def bytesToHex_def hex_byte_def)

end
