(* ===== verification/Rpc_Client.thy ===== *)
theory Rpc_Client
  imports Json_Library "HOL-Library.Char_ord"
begin

text \<open>
  \<^verbatim>\<open>src/net/rpc_client.cc\<close>: the credentials from the cookie file, the base64 header, the HTTP request and
  response, the JSON-RPC call. The file system and the socket are parameters, so is the way the URL is
  split, which \<open>Rpc_Url\<close> models; texts are strings of 8-bit characters.
\<close>

record RpcClient =
  rpc_username :: string
  rpc_password :: string
  rpc_cookie_path :: string
  rpc_last_error :: string

text \<open>\<^verbatim>\<open>content.find(sep)\<close> with the parts before and after the first occurrence.\<close>

fun split_at :: "string \<Rightarrow> string \<Rightarrow> (string \<times> string) option" where
  "split_at sep s =
     (if take (length sep) s = sep then Some ([], drop (length sep) s)
      else (case s of [] \<Rightarrow> None
            | c # r \<Rightarrow> map_option (\<lambda>(a, b). (c # a, b)) (split_at sep r)))"

declare split_at.simps [simp del]

text \<open>\<open>home_cookie\<close> is the default path, \<open>first_line\<close> the first line of a file that can be read.\<close>

definition ensureCookie :: "string \<Rightarrow> (string \<Rightarrow> string option) \<Rightarrow> RpcClient \<Rightarrow> bool \<times> RpcClient" where
  "ensureCookie home_cookie first_line c =
     (if rpc_username c \<noteq> [] then (True, c)
      else let path = (if rpc_cookie_path c = [] then home_cookie else rpc_cookie_path c)
           in case first_line path of
                None \<Rightarrow> (False, c\<lparr>rpc_last_error := ''cookie_not_found''\<rparr>)
              | Some content \<Rightarrow>
                  (case split_at '':'' content of
                     None \<Rightarrow> (False, c\<lparr>rpc_last_error := ''invalid_cookie''\<rparr>)
                   | Some (u, p) \<Rightarrow> (True, c\<lparr>rpc_username := u, rpc_password := p\<rparr>)))"

section \<open>Base64\<close>

definition b64 :: string where
  "b64 = ''ABCDEFGHIJKLMNOPQRSTUVWXYZabcdefghijklmnopqrstuvwxyz0123456789+/''"

text \<open>\<^verbatim>\<open>while (valb >= 0) { enc.push_back(b64[(val >> valb) & 0x3F]); valb -= 6; }\<close>\<close>

function b64_while :: "u32 \<Rightarrow> int \<Rightarrow> string \<Rightarrow> int \<times> string" where
  "b64_while val valb enc =
     (if valb \<ge> 0 then b64_while val (valb - 6) (enc @ [b64 ! unat (drop_bit (nat valb) val AND 0x3F)])
      else (valb, enc))"
  by pat_completeness auto
termination
  by (relation "measure (\<lambda>(val, valb, enc). nat (valb + 6))") auto

declare b64_while.simps [simp del]

fun b64_loop :: "u8 list \<Rightarrow> u32 \<Rightarrow> int \<Rightarrow> string \<Rightarrow> u32 \<times> int \<times> string" where
  "b64_loop [] val valb enc = (val, valb, enc)"
| "b64_loop (c # up) val valb enc =
     (let val = push_bit 8 val + ucast c; (valb, enc) = b64_while val (valb + 8) enc
      in b64_loop up val valb enc)"

text \<open>\<^verbatim>\<open>while (enc.size() % 4) enc.push_back('=')\<close>\<close>

definition b64_pad :: "string \<Rightarrow> string" where
  "b64_pad enc = enc @ replicate ((4 - length enc mod 4) mod 4) (CHR ''='')"

definition base64 :: "u8 list \<Rightarrow> string" where
  "base64 up =
     (case b64_loop up 0 (-6) [] of (val, valb, enc) \<Rightarrow>
        b64_pad (if valb > -6
                 then enc @ [b64 ! unat (drop_bit (nat (valb + 8)) (push_bit 8 val) AND 0x3F)]
                 else enc))"

section \<open>Request, response, call\<close>

definition crlf :: string where
  "crlf = [CHR 0x0D, CHR 0x0A]"

definition string_bytes :: "string \<Rightarrow> u8 list" where
  "string_bytes s = map of_char s"

definition auth_header :: "RpcClient \<Rightarrow> string" where
  "auth_header c =
     (if rpc_username c \<noteq> []
      then ''Authorization: Basic '' @ base64 (string_bytes (rpc_username c @ '':'' @ rpc_password c)) @ crlf
      else [])"

fun dec_string :: "nat \<Rightarrow> string" where
  "dec_string n = (if n < 10 then [char_of (48 + n)] else dec_string (n div 10) @ [char_of (48 + n mod 10)])"

declare dec_string.simps [simp del]

definition http_request :: "string \<Rightarrow> string \<Rightarrow> RpcClient \<Rightarrow> string \<Rightarrow> string" where
  "http_request path host c body =
     ''POST '' @ path @ '' HTTP/1.1'' @ crlf @ ''Host: '' @ host @ crlf @
     ''User-Agent: MyCustomBTCMiner/0.1'' @ crlf @ ''Content-Type: application/json'' @ crlf @
     auth_header c @ ''Content-Length: '' @ dec_string (length body) @ crlf @ ''Connection: close'' @ crlf @ crlf @ body"

text \<open>What a socket reports: data, the end of the stream, an expired wait, a failure.\<close>

datatype recv_event = Data string | Closed | Timeout | Failed

text \<open>The receive loop: \<open>None\<close> while the stream of events leaves it waiting, \<open>Some (Inl _)\<close> for a failure.\<close>

fun recv_all :: "recv_event list \<Rightarrow> string \<Rightarrow> (unit + string) option" where
  "recv_all [] resp = None"
| "recv_all (Data d # es) resp = recv_all es (resp @ d)"
| "recv_all (Timeout # es) resp = recv_all es resp"
| "recv_all (Closed # es) resp = Some (Inr resp)"
| "recv_all (Failed # es) resp = Some (Inl ())"

text \<open>\<^verbatim>\<open>httpPostJson\<close> behind the URL: \<open>parts\<close> are host and path (\<open>None\<close> for a URL that does not match),
  \<open>server\<close> the events that answer a request (\<open>None\<close> when the connection or the sending fails, with its
  error).\<close>

definition httpPostJson ::
    "(string \<times> string) option \<Rightarrow> (string \<Rightarrow> string + recv_event list) \<Rightarrow> RpcClient \<Rightarrow> string \<Rightarrow>
     (string option \<times> RpcClient) option" where
  "httpPostJson parts server c body =
     (case parts of
        None \<Rightarrow> Some (None, c\<lparr>rpc_last_error := ''bad_url''\<rparr>)
      | Some (host, path) \<Rightarrow>
          (case server (http_request (if path \<noteq> [] then path else ''/'') host c body) of
             Inl err \<Rightarrow> Some (None, c\<lparr>rpc_last_error := err\<rparr>)
           | Inr es \<Rightarrow>
               (case recv_all es [] of
                  None \<Rightarrow> None
                | Some (Inl _) \<Rightarrow> Some (None, c\<lparr>rpc_last_error := ''recv_failed''\<rparr>)
                | Some (Inr resp) \<Rightarrow>
                    (case split_at (crlf @ crlf) resp of
                       None \<Rightarrow> Some (None, c\<lparr>rpc_last_error := ''bad_http''\<rparr>)
                     | Some (_, body) \<Rightarrow> Some (Some body, c)))))"

text \<open>\<^verbatim>\<open>call\<close>: \<open>body\<close> is the request document as text, \<open>parse\<close> and \<open>dump\<close> the text functions of the JSON
  library.\<close>

definition rpc_answer :: "'j json_lib \<Rightarrow> (string \<Rightarrow> 'j option) \<Rightarrow> ('j \<Rightarrow> string) \<Rightarrow> RpcClient \<Rightarrow> string \<Rightarrow>
    'j option \<times> RpcClient" where
  "rpc_answer J parse dump c resp_body =
     (case parse resp_body of
        None \<Rightarrow> (None, c\<lparr>rpc_last_error := ''bad_json''\<rparr>)
      | Some resp \<Rightarrow>
          if \<not> j_contains J resp ''error'' then (None, c)
          else (case j_field J resp ''error'' of
                  None \<Rightarrow> (None, c)
                | Some err \<Rightarrow>
                    if \<not> j_is_null J err then (None, c\<lparr>rpc_last_error := dump err\<rparr>)
                    else if \<not> j_contains J resp ''result'' then (None, c\<lparr>rpc_last_error := ''no_result''\<rparr>)
                    else (j_field J resp ''result'', c)))"

definition rpc_call ::
    "'j json_lib \<Rightarrow> (string \<Rightarrow> 'j option) \<Rightarrow> ('j \<Rightarrow> string) \<Rightarrow> string \<Rightarrow> (string \<Rightarrow> string option) \<Rightarrow>
     (string \<times> string) option \<Rightarrow> (string \<Rightarrow> string + recv_event list) \<Rightarrow> RpcClient \<Rightarrow> string \<Rightarrow>
     ('j option \<times> RpcClient) option" where
  "rpc_call J parse dump home_cookie first_line parts server c body =
     (case ensureCookie home_cookie first_line c of (ok, c) \<Rightarrow>
        if \<not> ok \<and> rpc_username c = [] then Some (None, c)
        else (case httpPostJson parts server c body of
                None \<Rightarrow> None
              | Some (None, c) \<Rightarrow> Some (None, c)
              | Some (Some resp_body, c) \<Rightarrow> Some (rpc_answer J parse dump c resp_body)))"

section \<open>The standard encoding\<close>

text \<open>Groups of three bytes become four digits of six bits; one or two bytes left over are padded.\<close>

definition b64_digit :: "nat \<Rightarrow> char" where
  "b64_digit n = b64 ! (n mod 64)"

fun base64_groups :: "u8 list \<Rightarrow> string" where
  "base64_groups [] = []"
| "base64_groups [a] = [b64_digit (unat a div 4), b64_digit (unat a * 16), CHR ''='', CHR ''='']"
| "base64_groups [a, b] =
     (let n = unat a * 256 + unat b in [b64_digit (n div 2 ^ 10), b64_digit (n div 2 ^ 4), b64_digit (n * 4), CHR ''=''])"
| "base64_groups (a # b # c # bs) =
     (let n = unat a * 2 ^ 16 + unat b * 256 + unat c
      in [b64_digit (n div 2 ^ 18), b64_digit (n div 2 ^ 12), b64_digit (n div 2 ^ 6), b64_digit n]) @ base64_groups bs"

lemma six_bits: "unat (drop_bit k v AND 0x3F) = unat v div 2 ^ k mod 64" for v :: u32
proof -
  have "(0x3F :: u32) = mask 6" by (simp add: mask_numeral)
  then have "drop_bit k v AND 0x3F = take_bit 6 (drop_bit k v)" by (simp only: take_bit_eq_mask)
  then have "unat (drop_bit k v AND 0x3F) = take_bit 6 (drop_bit k (unat v))"
    by (simp only: unsigned_take_bit_eq unat_drop_bit_eq)
  then show ?thesis by (simp add: take_bit_eq_mod drop_bit_eq_div)
qed

text \<open>The digits that a byte completes depend on the last three bytes only.\<close>

lemma unat_shift_in: "unat (push_bit 8 v + ucast c :: u32) = (unat v * 256 + unat c) mod 2 ^ 32" for c :: u8
  by (simp add: unat_word_ariths unsigned_push_bit_eq unsigned_ucast_eq take_bit_eq_mod push_bit_eq_mult mod_simps
      take_bit_nat_eq_self)

lemma digits_mod: "k \<le> 26 \<Longrightarrow> n mod 2 ^ 32 div 2 ^ k mod 64 = n div 2 ^ k mod 64" for n :: nat
proof -
  assume k: "k \<le> 26"
  then have "take_bit 6 (drop_bit k (take_bit 32 n)) = take_bit 6 (drop_bit k n)"
    by (simp add: drop_bit_take_bit)
  then show ?thesis by (simp add: take_bit_eq_mod drop_bit_eq_div)
qed

lemma b64_step:
  "k \<le> 26 \<Longrightarrow> b64 ! unat (drop_bit k (push_bit 8 v + ucast c :: u32) AND 0x3F) =
     b64_digit ((unat v * 256 + unat c) div 2 ^ k)" for c :: u8
  by (simp only: six_bits unat_shift_in digits_mod b64_digit_def)

lemma b64_digit_cong:
  assumes "x mod 2 ^ m = y mod 2 ^ m" and "k + 6 \<le> m"
  shows "b64_digit (x div 2 ^ k) = b64_digit (y div 2 ^ k)"
proof -
  have "6 \<le> m - k" using assms(2) by linarith
  then have "take_bit 6 (drop_bit k z) = take_bit 6 (drop_bit k (take_bit m z))" for z :: nat
    by (simp add: drop_bit_take_bit min_def)
  then have "take_bit 6 (drop_bit k x) = take_bit 6 (drop_bit k y)"
    using assms(1) by (metis take_bit_eq_mod)
  then show ?thesis by (simp add: b64_digit_def take_bit_eq_mod drop_bit_eq_div)
qed

lemma shift_in_mod:
  fixes c :: u8
  assumes "unat v mod 2 ^ m = x mod 2 ^ m" and "m + 8 \<le> 32"
  shows "unat (push_bit 8 v + ucast c :: u32) mod 2 ^ (m + 8) = (x * 256 + unat c) mod 2 ^ (m + 8)"
proof -
  have "(2 :: nat) ^ (m + 8) dvd 2 ^ 32" using assms(2) by (rule le_imp_power_dvd)
  then have "unat (push_bit 8 v + ucast c :: u32) mod 2 ^ (m + 8) = (unat v * 256 + unat c) mod 2 ^ (m + 8)"
    by (simp only: unat_shift_in mod_mod_cancel)
  also have "2 ^ (m + 8) = 2 ^ m * (256 :: nat)" by (simp add: power_add)
  also have "(unat v * 256 + unat c) mod (2 ^ m * 256) = (unat v * 256 mod (2 ^ m * 256) + unat c) mod (2 ^ m * 256)"
    by (rule mod_add_left_eq [symmetric])
  also have "unat v * 256 mod (2 ^ m * 256) = x * 256 mod (2 ^ m * 256)"
    by (simp only: mult_mod_left [symmetric] assms(1))
  also have "(x * 256 mod (2 ^ m * 256) + unat c) mod (2 ^ m * 256) = (x * 256 + unat c) mod (2 ^ m * 256)"
    by (rule mod_add_left_eq)
  also have "2 ^ m * (256 :: nat) = 2 ^ (m + 8)" by (simp add: power_add)
  finally show ?thesis .
qed

lemma b64_while_digits:
  "b64_while val 2 enc = (-4, enc @ [b64 ! unat (drop_bit 2 val AND 0x3F)])"
  "b64_while val 4 enc = (-2, enc @ [b64 ! unat (drop_bit 4 val AND 0x3F)])"
  "b64_while val 6 enc = (-6, enc @ [b64 ! unat (drop_bit 6 val AND 0x3F), b64 ! unat (drop_bit 0 val AND 0x3F)])"
  by (simp_all add: b64_while.simps)

text \<open>The accumulator after one, two and three bytes, and the digits pushed on the way.\<close>

lemma b64_bytes:
  fixes a b c :: u8 and v :: u32
  assumes "v1 = push_bit 8 v + ucast a" and "v2 = push_bit 8 v1 + ucast b" and "v3 = push_bit 8 v2 + ucast c"
  shows "unat v1 mod 2 ^ 8 = unat a mod 2 ^ 8"
    and "unat v2 mod 2 ^ 16 = (unat a * 256 + unat b) mod 2 ^ 16"
    and "unat v3 mod 2 ^ 24 = ((unat a * 256 + unat b) * 256 + unat c) mod 2 ^ 24"
proof -
  show v1: "unat v1 mod 2 ^ 8 = unat a mod 2 ^ 8"
    using shift_in_mod [of v 0 0 a] by (simp only: assms(1)) simp
  then show v2: "unat v2 mod 2 ^ 16 = (unat a * 256 + unat b) mod 2 ^ 16"
    using shift_in_mod [of v1 8 "unat a" b] by (simp only: assms(2)) simp
  then show "unat v3 mod 2 ^ 24 = ((unat a * 256 + unat b) * 256 + unat c) mod 2 ^ 24"
    using shift_in_mod [of v2 16 "unat a * 256 + unat b" c] by (simp only: assms(3)) simp
qed

lemma digit_of_acc:
  "unat w mod 2 ^ m = x mod 2 ^ m \<Longrightarrow> k + 6 \<le> m \<Longrightarrow> b64 ! unat (drop_bit k w AND 0x3F) = b64_digit (x div 2 ^ k)" for w :: u32
  using b64_digit_cong [of "unat w" m x k] by (simp only: six_bits) (simp add: b64_digit_def)

lemma b64_loop_3:
  "\<exists>w. b64_loop (a # b # c # bs) v (-6) enc = b64_loop bs w (-6)
     (enc @ [b64_digit (unat a div 4), b64_digit ((unat a * 256 + unat b) div 2 ^ 4),
        b64_digit (((unat a * 256 + unat b) * 256 + unat c) div 2 ^ 6),
        b64_digit ((unat a * 256 + unat b) * 256 + unat c)])"
proof -
  let ?v1 = "push_bit 8 v + ucast a :: u32"
  let ?v2 = "push_bit 8 ?v1 + ucast b :: u32"
  let ?v3 = "push_bit 8 ?v2 + ucast c :: u32"
  have "b64 ! unat (drop_bit 2 ?v1 AND 0x3F) = b64_digit (unat a div 2 ^ 2)"
    "b64 ! unat (drop_bit 4 ?v2 AND 0x3F) = b64_digit ((unat a * 256 + unat b) div 2 ^ 4)"
    "b64 ! unat (drop_bit 6 ?v3 AND 0x3F) = b64_digit (((unat a * 256 + unat b) * 256 + unat c) div 2 ^ 6)"
    "b64 ! unat (drop_bit 0 ?v3 AND 0x3F) = b64_digit (((unat a * 256 + unat b) * 256 + unat c) div 2 ^ 0)"
    by (rule digit_of_acc [OF b64_bytes(1) [OF refl refl refl]], simp) (rule digit_of_acc [OF b64_bytes(2) [OF refl refl refl]], simp,
        (rule digit_of_acc [OF b64_bytes(3) [OF refl refl refl]], simp)+)
  then show ?thesis
    by (intro exI [of _ ?v3]) (simp add: Let_def b64_while_digits del: drop_bit_0 push_bit_eq_mult)
qed

lemma b64_loop_rest:
  "\<exists>w. b64_loop [a] v (-6) enc = (w, -4, enc @ [b64_digit (unat a div 4)]) \<and> unat w mod 2 ^ 8 = unat a mod 2 ^ 8"
  "\<exists>w. b64_loop [a, b] v (-6) enc = (w, -2, enc @ [b64_digit (unat a div 4), b64_digit ((unat a * 256 + unat b) div 2 ^ 4)]) \<and>
     unat w mod 2 ^ 16 = (unat a * 256 + unat b) mod 2 ^ 16"
proof -
  let ?v1 = "push_bit 8 v + ucast a :: u32"
  let ?v2 = "push_bit 8 ?v1 + ucast b :: u32"
  have d: "b64 ! unat (drop_bit 2 ?v1 AND 0x3F) = b64_digit (unat a div 2 ^ 2)"
    "b64 ! unat (drop_bit 4 ?v2 AND 0x3F) = b64_digit ((unat a * 256 + unat b) div 2 ^ 4)"
    by (rule digit_of_acc [OF b64_bytes(1) [OF refl refl refl]], simp)
      (rule digit_of_acc [OF b64_bytes(2) [OF refl refl refl]], simp)
  show "\<exists>w. b64_loop [a] v (-6) enc = (w, -4, enc @ [b64_digit (unat a div 4)]) \<and> unat w mod 2 ^ 8 = unat a mod 2 ^ 8"
    using d(1) b64_bytes(1) [OF refl refl refl, of v a]
    by (intro exI [of _ ?v1]) (simp add: Let_def b64_while_digits del: push_bit_eq_mult)
  show "\<exists>w. b64_loop [a, b] v (-6) enc = (w, -2, enc @ [b64_digit (unat a div 4), b64_digit ((unat a * 256 + unat b) div 2 ^ 4)]) \<and>
     unat w mod 2 ^ 16 = (unat a * 256 + unat b) mod 2 ^ 16"
    using d b64_bytes(2) [OF refl refl refl, of v a b]
    by (intro exI [of _ ?v2]) (simp add: Let_def b64_while_digits del: push_bit_eq_mult)
qed

text \<open>The digit the code adds for a remainder, read from the accumulator shifted once more.\<close>

lemma last_digit:
  fixes w :: u32
  assumes "unat w mod 2 ^ m = x mod 2 ^ m" and "m \<le> 16" and "k + 6 \<le> m + 8"
  shows "b64 ! unat (drop_bit k (push_bit 8 w) AND 0x3F) = b64_digit (x * 256 div 2 ^ k)"
proof (rule digit_of_acc)
  show "unat (push_bit 8 w :: u32) mod 2 ^ (m + 8) = x * 256 mod 2 ^ (m + 8)"
    using shift_in_mod [OF assms(1), of 0] assms(2) by simp
qed (use assms in simp)

definition b64_finish :: "u32 \<times> int \<times> string \<Rightarrow> string" where
  "b64_finish r = (case r of (val, valb, enc) \<Rightarrow>
     b64_pad (if valb > -6 then enc @ [b64 ! unat (drop_bit (nat (valb + 8)) (push_bit 8 val) AND 0x3F)] else enc))"

lemma b64_pad_multiple: "length enc mod 4 = 0 \<Longrightarrow> b64_pad enc = enc"
  by (simp add: b64_pad_def)

lemma b64_finish_groups:
  "length enc mod 4 = 0 \<Longrightarrow> b64_finish (b64_loop up v (-6) enc) = enc @ base64_groups up"
proof (induction up arbitrary: v enc rule: base64_groups.induct)
  case 1
  then show ?case by (simp add: b64_finish_def b64_pad_multiple)
next
  case (2 a)
  obtain w where w: "b64_loop [a] v (-6) enc = (w, -4, enc @ [b64_digit (unat a div 4)])" "unat w mod 2 ^ 8 = unat a mod 2 ^ 8"
    using b64_loop_rest(1) by blast
  have "b64 ! unat (drop_bit 4 (push_bit 8 w) AND 0x3F) = b64_digit (unat a * 256 div 2 ^ 4)"
    by (rule last_digit [OF w(2)]) simp_all
  moreover have "b64_pad (enc @ [x, y]) = enc @ [x, y, CHR ''='', CHR ''='']" for x y
    using 2 by (simp add: b64_pad_def mod_Suc numeral_2_eq_2 flip: mod_Suc_eq)
  ultimately show ?case using w(1) by (simp add: b64_finish_def mult.commute)
next
  case (3 a b)
  obtain w where w: "b64_loop [a, b] v (-6) enc =
      (w, -2, enc @ [b64_digit (unat a div 4), b64_digit ((unat a * 256 + unat b) div 2 ^ 4)])"
    "unat w mod 2 ^ 16 = (unat a * 256 + unat b) mod 2 ^ 16"
    using b64_loop_rest(2) by blast
  have "b64 ! unat (drop_bit 6 (push_bit 8 w) AND 0x3F) = b64_digit ((unat a * 256 + unat b) * 256 div 2 ^ 6)"
    by (rule last_digit [OF w(2)]) simp_all
  moreover have "b64_pad (enc @ [x, y, z]) = enc @ [x, y, z, CHR ''='']" for x y z
    using 3 by (simp add: b64_pad_def mod_Suc flip: mod_Suc_eq)
  moreover have "(unat a * 256 + unat b) div 2 ^ 10 = unat a div 4"
    using div_mult2_eq [of "unat a * 256 + unat b" 256 4] unat_u8_less [of b] by simp
  ultimately show ?case using w(1) by (simp add: b64_finish_def Let_def mult.commute)
next
  case (4 a b c bs)
  let ?n = "(unat a * 256 + unat b) * 256 + unat c"
  let ?d = "[b64_digit (unat a div 4), b64_digit ((unat a * 256 + unat b) div 2 ^ 4), b64_digit (?n div 2 ^ 6), b64_digit ?n]"
  obtain w where w: "b64_loop (a # b # c # bs) v (-6) enc = b64_loop bs w (-6) (enc @ ?d)"
    using b64_loop_3 by blast
  have n: "unat a * 2 ^ 16 + unat b * 256 + unat c = ?n" by simp
  have q: "(x * 256 + unat z) div 256 = x" for x and z :: u8
    using unat_u8_less [of z] by simp
  have pow: "(2 :: nat) ^ 18 = 256 * (256 * 4)" "(2 :: nat) ^ 12 = 256 * 2 ^ 4" by simp_all
  have "?n div 2 ^ 18 = unat a div 4" "?n div 2 ^ 12 = (unat a * 256 + unat b) div 2 ^ 4"
    by (simp_all only: pow div_mult2_eq q)
  then have "base64_groups (a # b # c # bs) = ?d @ base64_groups bs" by (simp only: base64_groups.simps Let_def n append.simps)
  moreover have "length (enc @ ?d) mod 4 = 0" using "4.prems" by simp
  from "4.IH" [OF this, of w] have "b64_finish (b64_loop bs w (-6) (enc @ ?d)) = (enc @ ?d) @ base64_groups bs" .
  ultimately show ?case using w by simp
qed

section \<open>Responses\<close>

lemma recv_all_chunks: "recv_all (concat (map (\<lambda>d. [Timeout, Data d]) ds) @ es) resp = recv_all es (resp @ concat ds)"
  by (induction ds arbitrary: resp) simp_all

lemma recv_all_waits: "recv_all (replicate n Timeout) resp = None"
  by (induction n) simp_all

lemma split_at_first:
  "(\<forall>i < length a. take (length sep) (drop i (a @ sep @ b)) \<noteq> sep) \<Longrightarrow> split_at sep (a @ sep @ b) = Some (a, b)"
proof (induction a)
  case Nil
  then show ?case by (simp add: split_at.simps [of sep "sep @ b"])
next
  case (Cons c a)
  have "take (length sep) ((c # a) @ sep @ b) \<noteq> sep" using Cons.prems by (metis drop_0 length_greater_0_conv list.distinct(1))
  moreover have "split_at sep (a @ sep @ b) = Some (a, b)"
    using Cons.prems by (intro Cons.IH) auto
  ultimately show ?case by (simp add: split_at.simps [of sep "c # a @ sep @ b"])
qed

lemma base64_is_groups: "base64 up = base64_groups up"
  using b64_finish_groups [of "[]" up 0] by (simp add: base64_def b64_finish_def)

section \<open>Properties\<close>

text \<open>C29: the authorisation header. The shift-and-mask loop, its last digit and its padding produce the
  standard base64 encoding of every byte string, and the header carries the encoding of user, colon
  and password whenever there is a user.\<close>

theorem base64_standard:
  "base64 up = base64_groups up \<and>
   (rpc_username c \<noteq> [] \<longrightarrow> auth_header c = ''Authorization: Basic '' @
      base64_groups (string_bytes (rpc_username c @ '':'' @ rpc_password c)) @ crlf)"
  by (simp add: base64_is_groups auth_header_def)

theorem base64_standard_witness:
  "base64 [77, 97, 110, 77] = ''TWFuTQ=='' \<and>
   auth_header \<lparr>rpc_username = ''user'', rpc_password = ''pw'', rpc_cookie_path = [], rpc_last_error = []\<rparr> =
     ''Authorization: Basic '' @ base64_groups (string_bytes ''user:pw'') @ crlf"
proof -
  have "base64_groups [77, 97, 110, 77] = ''TWFuTQ==''" by (simp add: b64_digit_def b64_def)
  then show ?thesis
    using base64_standard [of "[77, 97, 110, 77]" "\<lparr>rpc_username = ''user'', rpc_password = ''pw'',
        rpc_cookie_path = [], rpc_last_error = []\<rparr>"] by simp
qed

text \<open>A call over the network. If the server's answer is a header without a blank line, a blank line and
  a body, cut into pieces in any way with expired waits between them and then closed, the call yields
  the document's result exactly when it is an object with a null error and a result; an answer without
  the error member, allowed in later versions of the protocol, yields nothing and no error text. While
  the server stays silent the call does not return.\<close>

theorem rpc_call_answer:
  assumes "rpc_username c \<noteq> []" and "concat ds = hdr @ crlf @ crlf @ body"
    and "\<forall>i < length hdr. take 4 (drop i (hdr @ (crlf @ crlf) @ body)) \<noteq> crlf @ crlf"
    and "\<forall>r. server r = Inr (concat (map (\<lambda>d. [Timeout, Data d]) ds) @ [Closed])"
  shows "rpc_call J parse dump home line (Some (host, path)) server c request = Some (rpc_answer J parse dump c body) \<and>
    (fst (rpc_answer J parse dump c body) =
       (case parse body of None \<Rightarrow> None
        | Some doc \<Rightarrow> if j_contains J doc ''error'' \<and> map_option (j_is_null J) (j_field J doc ''error'') = Some True \<and>
            j_contains J doc ''result'' then j_field J doc ''result'' else None)) \<and>
    rpc_call J parse dump home line (Some (host, path)) (\<lambda>r. Inr (replicate n Timeout)) c request = None"
proof (intro conjI)
  have four: "length (crlf @ crlf) = 4" by (simp add: crlf_def)
  have "split_at (crlf @ crlf) (hdr @ (crlf @ crlf) @ body) = Some (hdr, body)"
    by (rule split_at_first) (use assms(3) four in simp)
  then have split: "split_at (crlf @ crlf) (concat ds) = Some (hdr, body)" using assms(2) by simp
  show "rpc_call J parse dump home line (Some (host, path)) server c request = Some (rpc_answer J parse dump c body)"
    using assms(1,4) split by (simp add: rpc_call_def ensureCookie_def httpPostJson_def recv_all_chunks)
  show "fst (rpc_answer J parse dump c body) =
       (case parse body of None \<Rightarrow> None
        | Some doc \<Rightarrow> if j_contains J doc ''error'' \<and> map_option (j_is_null J) (j_field J doc ''error'') = Some True \<and>
            j_contains J doc ''result'' then j_field J doc ''result'' else None)"
    by (simp add: rpc_answer_def split: option.splits)
  show "rpc_call J parse dump home line (Some (host, path)) (\<lambda>r. Inr (replicate n Timeout)) c request = None"
    using assms(1) by (simp add: rpc_call_def ensureCookie_def httpPostJson_def recv_all_waits)
qed

definition sample_client :: RpcClient where
  "sample_client = \<lparr>rpc_username = ''user'', rpc_password = ''pw'', rpc_cookie_path = [], rpc_last_error = []\<rparr>"

theorem rpc_call_answer_witness:
  "rpc_call json_model (\<lambda>s. Some (JObject [(''error'', JNull), (''result'', JString s)])) (\<lambda>j. []) [] (\<lambda>p. None)
     (Some (''host'', [])) (\<lambda>r. Inr [Timeout, Data (''OK'' @ crlf), Timeout, Data (crlf @ ''ab''), Closed]) sample_client [] =
   Some (Some (JString ''ab''), sample_client)"
proof -
  let ?ds = "[''OK'' @ crlf, crlf @ ''ab'']"
  have "\<forall>i < length ''OK''. take 4 (drop i (''OK'' @ (crlf @ crlf) @ ''ab'')) \<noteq> crlf @ crlf"
    by (simp add: crlf_def less_Suc_eq)
  moreover have "concat ?ds = ''OK'' @ crlf @ crlf @ ''ab''" "rpc_username sample_client \<noteq> []"
    by (simp_all add: sample_client_def)
  ultimately show ?thesis
    using rpc_call_answer [of sample_client ?ds "''OK''" "''ab''"
        "\<lambda>r. Inr (concat (map (\<lambda>d. [Timeout, Data d]) ?ds) @ [Closed])" json_model
        "\<lambda>s. Some (JObject [(''error'', JNull), (''result'', JString s)])" "\<lambda>j. []" "[]" "\<lambda>p. None" "''host''" "[]" "[]"]
    by (simp add: rpc_answer_def json_model_def)
qed

end
