(* ===== verification/Outbox.thy ===== *)
theory Outbox
  imports Endianness
begin

text \<open>
  \<^verbatim>\<open>src/store/outbox.h\<close>: the queue of pending submissions with its set of seen keys, and its binary
  log. The queue is a list, the set of seen keys a set, and every method, which locks the mutex, one
  operation on the record. A file system is a map from paths to contents with what it permits:
  opening a path for writing, renaming one path to another. Opening to append or truncate creates
  the file; writes to an open stream succeed. The integers of a record are written in the byte
  order of the host, which is little-endian.
\<close>

record PendingSubmit =
  ps_work_id :: u64
  ps_nonce :: u32
  ps_header80 :: "u8 list"

record Outbox =
  ob_q :: "PendingSubmit list"
  ob_seen :: "u64 set"

definition outbox_new :: Outbox where
  "outbox_new = \<lparr>ob_q = [], ob_seen = {}\<rparr>"

definition outbox_key :: "PendingSubmit \<Rightarrow> u64" where
  "outbox_key s = push_bit 32 (ps_work_id s) XOR ucast (ps_nonce s)"

definition enqueue :: "Outbox \<Rightarrow> PendingSubmit \<Rightarrow> Outbox" where
  "enqueue ob s =
     (let key = outbox_key s
      in if key \<in> ob_seen ob then ob
         else ob\<lparr>ob_seen := insert key (ob_seen ob), ob_q := ob_q ob @ [s]\<rparr>)"

definition tryDequeue :: "Outbox \<Rightarrow> PendingSubmit option \<times> Outbox" where
  "tryDequeue ob = (case ob_q ob of [] \<Rightarrow> (None, ob) | s # q \<Rightarrow> (Some s, ob\<lparr>ob_q := q\<rparr>))"

definition outbox_empty :: "Outbox \<Rightarrow> bool" where
  "outbox_empty ob = (ob_q ob = [])"

text \<open>The loop of \<^verbatim>\<open>drop\<close>: \<open>tmp\<close> collects what stays.\<close>

fun drop_loop :: "u64 \<Rightarrow> u32 \<Rightarrow> PendingSubmit list \<Rightarrow> bool \<Rightarrow> PendingSubmit list \<Rightarrow> u64 set \<Rightarrow>
    bool \<times> PendingSubmit list \<times> u64 set" where
  "drop_loop work_id nonce [] removed tmp seen = (removed, tmp, seen)"
| "drop_loop work_id nonce (s # q) removed tmp seen =
     (if \<not> removed \<and> ps_work_id s = work_id \<and> ps_nonce s = nonce
      then drop_loop work_id nonce q True tmp (seen - {outbox_key s})
      else drop_loop work_id nonce q removed (tmp @ [s]) seen)"

definition outbox_drop :: "Outbox \<Rightarrow> u64 \<Rightarrow> u32 \<Rightarrow> bool \<times> Outbox" where
  "outbox_drop ob work_id nonce =
     (if ob_q ob = [] then (False, ob)
      else case drop_loop work_id nonce (ob_q ob) False [] (ob_seen ob) of
             (removed, tmp, seen) \<Rightarrow> (removed, ob\<lparr>ob_q := tmp, ob_seen := seen\<rparr>))"

section \<open>Files\<close>

record file_system =
  fs_files :: "string \<rightharpoonup> u8 list"
  fs_can_write :: "string \<Rightarrow> bool"
  fs_can_rename :: "string \<Rightarrow> string \<Rightarrow> bool"

definition open_trunc :: "file_system \<Rightarrow> string \<Rightarrow> file_system option" where
  "open_trunc fs p = (if fs_can_write fs p then Some (fs\<lparr>fs_files := (fs_files fs)(p \<mapsto> [])\<rparr>) else None)"

definition open_append :: "file_system \<Rightarrow> string \<Rightarrow> file_system option" where
  "open_append fs p =
     (if fs_can_write fs p
      then Some (case fs_files fs p of None \<Rightarrow> fs\<lparr>fs_files := (fs_files fs)(p \<mapsto> [])\<rparr> | Some _ \<Rightarrow> fs)
      else None)"

definition write_bytes :: "string \<Rightarrow> u8 list \<Rightarrow> file_system \<Rightarrow> file_system" where
  "write_bytes p bs fs = fs\<lparr>fs_files := (fs_files fs)(p \<mapsto> the (fs_files fs p) @ bs)\<rparr>"

definition le32_bytes :: "u32 \<Rightarrow> u8 list" where
  "le32_bytes w = [byte_at 0 w, byte_at 8 w, byte_at 16 w, byte_at 24 w]"

definition le64_bytes :: "u64 \<Rightarrow> u8 list" where
  "le64_bytes v = le32_bytes (ucast v) @ le32_bytes (ucast (drop_bit 32 v))"

definition le32_word :: "u8 list \<Rightarrow> u32" where
  "le32_word bs = be_word (bs ! 3) (bs ! 2) (bs ! 1) (bs ! 0)"

definition le64_word :: "u8 list \<Rightarrow> u64" where
  "le64_word bs = push_bit 32 (ucast (le32_word (drop 4 bs))) OR ucast (le32_word (take 4 bs))"

definition write_record :: "string \<Rightarrow> PendingSubmit \<Rightarrow> file_system \<Rightarrow> file_system" where
  "write_record p s fs =
     write_bytes p (ps_header80 s) (write_bytes p (le32_bytes (ps_nonce s))
       (write_bytes p (le64_bytes (ps_work_id s)) fs))"

definition appendToFile :: "file_system \<Rightarrow> string \<Rightarrow> PendingSubmit \<Rightarrow> bool \<times> file_system" where
  "appendToFile fs filepath s =
     (case open_append fs filepath of
        None \<Rightarrow> (False, fs)
      | Some fs1 \<Rightarrow> (True, write_record filepath s fs1))"

text \<open>\<^verbatim>\<open>ifs.read(p, n)\<close>: the next \<open>n\<close> bytes, or failure when fewer are left.\<close>

definition read_bytes :: "nat \<Rightarrow> u8 list \<Rightarrow> (u8 list \<times> u8 list) option" where
  "read_bytes n bs = (if length bs < n then None else Some (take n bs, drop n bs))"

function load_loop :: "u8 list \<Rightarrow> Outbox \<Rightarrow> Outbox" where
  "load_loop bs ob =
     (case read_bytes 8 bs of
        None \<Rightarrow> ob
      | Some (b1, r1) \<Rightarrow>
     (case read_bytes 4 r1 of
        None \<Rightarrow> ob
      | Some (b2, r2) \<Rightarrow>
     (case read_bytes 80 r2 of
        None \<Rightarrow> ob
      | Some (b3, r3) \<Rightarrow>
          let s = \<lparr>ps_work_id = le64_word b1, ps_nonce = le32_word b2, ps_header80 = b3\<rparr>;
              key = outbox_key s
          in load_loop r3 (if key \<notin> ob_seen ob
               then ob\<lparr>ob_seen := insert key (ob_seen ob), ob_q := ob_q ob @ [s]\<rparr> else ob))))"
  by pat_completeness auto
termination
  by (relation "measure (\<lambda>(bs, ob). length bs)") (auto simp: read_bytes_def split: if_splits)

declare load_loop.simps [simp del]

definition loadFromFile :: "file_system \<Rightarrow> string \<Rightarrow> Outbox \<Rightarrow> bool \<times> Outbox" where
  "loadFromFile fs filepath ob =
     (case fs_files fs filepath of
        None \<Rightarrow> (False, ob)
      | Some bs \<Rightarrow> (True, load_loop bs (ob\<lparr>ob_q := [], ob_seen := {}\<rparr>)))"

definition rewriteFile :: "file_system \<Rightarrow> string \<Rightarrow> Outbox \<Rightarrow> bool \<times> file_system" where
  "rewriteFile fs filepath ob =
     (case open_trunc fs filepath of
        None \<Rightarrow> (False, fs)
      | Some fs1 \<Rightarrow> (True, fold (write_record filepath) (ob_q ob) fs1))"

definition clearFile :: "file_system \<Rightarrow> string \<Rightarrow> bool \<times> file_system" where
  "clearFile fs filepath =
     (case open_trunc fs filepath of None \<Rightarrow> (False, fs) | Some fs1 \<Rightarrow> (True, fs1))"

definition fs_rename :: "file_system \<Rightarrow> string \<Rightarrow> string \<Rightarrow> file_system option" where
  "fs_rename fs old new =
     (case fs_files fs old of
        None \<Rightarrow> None
      | Some c \<Rightarrow> if fs_can_rename fs old new
                  then Some (fs\<lparr>fs_files := ((fs_files fs)(old := None))(new \<mapsto> c)\<rparr>) else None)"

definition fs_copy_file :: "file_system \<Rightarrow> string \<Rightarrow> string \<Rightarrow> file_system option" where
  "fs_copy_file fs old new =
     (case fs_files fs old of
        None \<Rightarrow> None
      | Some c \<Rightarrow> if fs_can_write fs new then Some (fs\<lparr>fs_files := (fs_files fs)(new \<mapsto> c)\<rparr>) else None)"

definition rotateFile :: "file_system \<Rightarrow> string \<Rightarrow> string \<Rightarrow> bool \<times> file_system" where
  "rotateFile fs filepath newpath =
     (case fs_rename fs filepath newpath of
        Some fs1 \<Rightarrow> (True, fs1)
      | None \<Rightarrow>
          let fs1 = (case fs_copy_file fs filepath newpath of None \<Rightarrow> fs | Some fs1 \<Rightarrow> fs1)
          in case open_trunc fs1 filepath of None \<Rightarrow> (False, fs1) | Some fs2 \<Rightarrow> (True, fs2))"

section \<open>The record codec\<close>

definition enc_record :: "PendingSubmit \<Rightarrow> u8 list" where
  "enc_record s = le64_bytes (ps_work_id s) @ le32_bytes (ps_nonce s) @ ps_header80 s"

definition dec_record :: "u8 list \<Rightarrow> PendingSubmit" where
  "dec_record bs = \<lparr>ps_work_id = le64_word (take 8 bs), ps_nonce = le32_word (take 4 (drop 8 bs)),
     ps_header80 = take 80 (drop 12 bs)\<rparr>"

definition valid_record :: "PendingSubmit \<Rightarrow> bool" where
  "valid_record s \<longleftrightarrow> length (ps_header80 s) = 80"

lemma length_le [simp, width_simps]: "length (le32_bytes w) = 4" "length (le64_bytes v) = 8"
  by (simp_all add: le32_bytes_def le64_bytes_def)

lemma le32_roundtrip [simp]: "le32_word (le32_bytes w) = w"
  by (cases w rule: be_word_cases) (simp add: le32_word_def le32_bytes_def numeral_2_eq_2 numeral_3_eq_3)

lemma u64_of_halves:
  "(ucast (push_bit 32 (ucast h) OR ucast l :: u64) :: u32) = l"
  "(ucast (drop_bit 32 (push_bit 32 (ucast h) OR ucast l :: u64)) :: u32) = h"
  for h l :: u32
  by (rule bit_word_eqI; auto simp: bit_simps)+

lemma le64_roundtrip [simp]: "le64_word (le64_bytes v) = v"
proof -
  have "le64_word (le64_bytes v) = push_bit 32 (ucast (ucast (drop_bit 32 v) :: u32)) OR ucast (ucast v :: u32)"
    by (simp add: le64_word_def le64_bytes_def)
  then show ?thesis by (simp only:) (rule u64_halves_eqI, simp_all only: u64_of_halves)
qed

interpretation record_codec: byte_codec enc_record dec_record valid_record 92
  by unfold_locales (simp_all add: enc_record_def dec_record_def valid_record_def)

section \<open>Invariant of the queue\<close>

text \<open>The keys of the queued records are distinct and seen; the records have 80-byte headers.\<close>

definition outbox_ok :: "Outbox \<Rightarrow> bool" where
  "outbox_ok ob \<longleftrightarrow> distinct (map outbox_key (ob_q ob)) \<and>
     set (map outbox_key (ob_q ob)) \<subseteq> ob_seen ob \<and> (\<forall>s \<in> set (ob_q ob). valid_record s)"

lemma outbox_new_ok: "outbox_ok outbox_new"
  by (simp add: outbox_ok_def outbox_new_def)

lemma enqueue_ok: "outbox_ok ob \<Longrightarrow> valid_record s \<Longrightarrow> outbox_ok (enqueue ob s)"
  by (auto simp: outbox_ok_def enqueue_def Let_def)

lemma tryDequeue_ok: "outbox_ok ob \<Longrightarrow> outbox_ok (snd (tryDequeue ob))"
  by (auto simp: outbox_ok_def tryDequeue_def split: list.splits)

lemma outbox_key_iff:
  "outbox_key s = outbox_key t \<longleftrightarrow>
     (ucast (ps_work_id s) :: u32) = ucast (ps_work_id t) \<and> ps_nonce s = ps_nonce t"
proof -
  have lo: "(ucast (outbox_key x) :: u32) = ps_nonce x" for x
    unfolding outbox_key_def by (rule bit_word_eqI) (auto simp: bit_simps)
  have hi: "(ucast (drop_bit 32 (outbox_key x)) :: u32) = ucast (ps_work_id x)" for x
    unfolding outbox_key_def by (rule bit_word_eqI) (auto simp: bit_simps)
  show ?thesis
    using u64_halves_eqI [of "outbox_key s" "outbox_key t"] lo hi by metis
qed

lemma drop_loop_removed:
  "drop_loop w n q True tmp seen = (True, tmp @ q, seen)"
  by (induction q arbitrary: tmp) simp_all

text \<open>On a queue with distinct keys at most one record matches.\<close>

definition same_id :: "u64 \<Rightarrow> u32 \<Rightarrow> PendingSubmit \<Rightarrow> bool" where
  "same_id w n s \<longleftrightarrow> ps_work_id s = w \<and> ps_nonce s = n"

lemma drop_loop_eq:
  "distinct (map outbox_key q) \<Longrightarrow>
   drop_loop w n q False tmp seen =
     (\<exists>s \<in> set q. same_id w n s, tmp @ filter (\<lambda>s. \<not> same_id w n s) q,
      seen - {k. \<exists>s \<in> set q. same_id w n s \<and> k = outbox_key s})"
proof (induction q arbitrary: tmp)
  case (Cons s q)
  show ?case
  proof (cases "same_id w n s")
    case True
    then have none: "\<not> same_id w n t" if "t \<in> set q" for t
      using Cons.prems True that by (auto simp: same_id_def outbox_key_def image_iff)
    then have "filter (\<lambda>s. \<not> same_id w n s) q = q" by simp
    moreover have "{k. \<exists>t \<in> set (s # q). same_id w n t \<and> k = outbox_key t} = {outbox_key s}"
      using True none by auto
    ultimately show ?thesis
      using True by (simp add: same_id_def [of w n s] drop_loop_removed)
  next
    case False
    then have "drop_loop w n (s # q) False tmp seen = drop_loop w n q False (tmp @ [s]) seen"
      by (auto simp: same_id_def)
    moreover have "{k. \<exists>t \<in> set (s # q). same_id w n t \<and> k = outbox_key t} =
        {k. \<exists>t \<in> set q. same_id w n t \<and> k = outbox_key t}"
      using False by auto
    ultimately show ?thesis using Cons False by simp
  qed
qed simp

lemma outbox_drop_eq:
  assumes "outbox_ok ob"
  shows "fst (outbox_drop ob w n) \<longleftrightarrow> (\<exists>s \<in> set (ob_q ob). same_id w n s)"
    and "ob_q (snd (outbox_drop ob w n)) = filter (\<lambda>s. \<not> same_id w n s) (ob_q ob)"
    and "ob_seen (snd (outbox_drop ob w n)) =
      ob_seen ob - {k. \<exists>s \<in> set (ob_q ob). same_id w n s \<and> k = outbox_key s}"
  using assms by (auto simp: outbox_drop_def outbox_ok_def drop_loop_eq)

lemma distinct_map_filter_key: "distinct (map f xs) \<Longrightarrow> distinct (map f (filter P xs))"
  by (induction xs) auto

lemma outbox_drop_ok:
  assumes "outbox_ok ob"
  shows "outbox_ok (snd (outbox_drop ob w n))"
proof -
  have "inj_on outbox_key (set (ob_q ob))"
    using assms by (simp add: outbox_ok_def distinct_map)
  then show ?thesis
    using assms outbox_drop_eq [OF assms, of w n]
    by (auto simp: outbox_ok_def distinct_map_filter_key dest: inj_onD)
qed

section \<open>Loading\<close>

lemma load_loop_records: "load_loop bs ob = fold (\<lambda>s ob. enqueue ob s) (records dec_record 92 bs) ob"
proof (induction "length bs" arbitrary: bs ob rule: less_induct)
  case (less bs ob)
  show ?case
  proof (cases "length bs < 92")
    case True
    then show ?thesis
      by (subst load_loop.simps) (auto simp: read_bytes_def records_short)
  next
    case False
    let ?s = "dec_record (take 92 bs)"
    have s: "\<lparr>ps_work_id = le64_word (take 8 bs), ps_nonce = le32_word (take 4 (drop 8 bs)),
        ps_header80 = take 80 (drop 12 bs)\<rparr> = ?s"
      by (simp add: dec_record_def min_def drop_take)
    have "load_loop bs ob = load_loop (drop 92 bs) (enqueue ob ?s)"
      using False
      by (subst load_loop.simps) (simp add: read_bytes_def Let_def enqueue_def s)
    also have "\<dots> = fold (\<lambda>s ob. enqueue ob s) (records dec_record 92 (drop 92 bs)) (enqueue ob ?s)"
      using False
      by (intro less.hyps) simp
    finally show ?thesis using False by (simp add: records.simps [of dec_record 92 bs])
  qed
qed

text \<open>The records whose key is new, in order.\<close>

fun keep_new :: "u64 set \<Rightarrow> PendingSubmit list \<Rightarrow> PendingSubmit list" where
  "keep_new seen [] = []"
| "keep_new seen (s # xs) =
     (if outbox_key s \<in> seen then keep_new seen xs else s # keep_new (insert (outbox_key s) seen) xs)"

lemma fold_enqueue:
  "fold (\<lambda>s ob. enqueue ob s) xs ob =
     ob\<lparr>ob_q := ob_q ob @ keep_new (ob_seen ob) xs, ob_seen := ob_seen ob \<union> outbox_key ` set xs\<rparr>"
  by (induction xs arbitrary: ob) (auto simp: enqueue_def Let_def insert_absorb)

lemma keep_new_distinct:
  "distinct (map outbox_key xs) \<Longrightarrow> outbox_key ` set xs \<inter> seen = {} \<Longrightarrow> keep_new seen xs = xs"
  by (induction xs arbitrary: seen) auto

lemma set_keep_new: "set (keep_new seen xs) \<subseteq> set xs"
  by (induction xs arbitrary: seen) auto

lemma keep_new_keys:
  "distinct (map outbox_key (keep_new seen xs)) \<and> outbox_key ` set (keep_new seen xs) = outbox_key ` set xs - seen"
  by (induction xs arbitrary: seen) auto

lemma loadFromFile_eq:
  assumes "fs_files fs p = Some bs"
  shows "loadFromFile fs p ob = (True, \<lparr>ob_q = keep_new {} (records dec_record 92 bs),
     ob_seen = outbox_key ` set (records dec_record 92 bs)\<rparr>)"
  using assms by (simp add: loadFromFile_def load_loop_records fold_enqueue)

lemma valid_records: "s \<in> set (records dec_record 92 bs) \<Longrightarrow> valid_record s"
proof (induction "length bs" arbitrary: bs rule: less_induct)
  case less
  show ?case
  proof (cases "length bs < 92")
    case True
    then show ?thesis using less.prems by (simp add: records_short)
  next
    case False
    then have "s = dec_record (take 92 bs) \<or> s \<in> set (records dec_record 92 (drop 92 bs))"
      using less.prems by (simp add: records.simps [of dec_record 92 bs])
    then show ?thesis
      using less.hyps [of "drop 92 bs"] False by (auto simp: valid_record_def dec_record_def)
  qed
qed

lemma loadFromFile_ok: "outbox_ok ob \<Longrightarrow> outbox_ok (snd (loadFromFile fs p ob))"
proof (cases "fs_files fs p")
  case (Some bs)
  have "set (keep_new {} (records dec_record 92 bs)) \<subseteq> set (records dec_record 92 bs)" by (rule set_keep_new)
  then show ?thesis
    using keep_new_keys [of "{}" "records dec_record 92 bs"] valid_records
    by (auto simp: loadFromFile_eq [OF Some] outbox_ok_def)
qed (simp add: loadFromFile_def)

lemma write_record_eq: "write_record p s fs = write_bytes p (enc_record s) fs"
  by (simp add: write_record_def write_bytes_def enc_record_def)

lemma fold_write_record:
  "fs_files fs p = Some c \<Longrightarrow>
   fs_files (fold (write_record p) xs fs) p = Some (c @ concat (map enc_record xs)) \<and>
   (\<forall>q. q \<noteq> p \<longrightarrow> fs_files (fold (write_record p) xs fs) q = fs_files fs q)"
  by (induction xs arbitrary: fs c) (auto simp: write_record_eq write_bytes_def)

section \<open>The interface the submit router uses\<close>

locale pending_store =
  fixes enq :: "'s \<Rightarrow> PendingSubmit \<Rightarrow> 's" and drop_op :: "'s \<Rightarrow> u64 \<Rightarrow> u32 \<Rightarrow> bool \<times> 's"
    and queue :: "'s \<Rightarrow> PendingSubmit list" and inv :: "'s \<Rightarrow> bool"
  assumes enq_inv: "inv s \<Longrightarrow> valid_record x \<Longrightarrow> inv (enq s x)"
    and enq_queue: "queue (enq s x) = queue s \<or> queue (enq s x) = queue s @ [x]"
    and enq_idem: "enq (enq s x) x = enq s x"
    and drop_inv: "inv s \<Longrightarrow> inv (snd (drop_op s w n))"
    and drop_found: "inv s \<Longrightarrow> fst (drop_op s w n) \<longleftrightarrow> (\<exists>x \<in> set (queue s). same_id w n x)"
    and drop_queue: "inv s \<Longrightarrow> queue (snd (drop_op s w n)) = filter (\<lambda>x. \<not> same_id w n x) (queue s)"
begin

text \<open>Entering hits, some of them twice, and dropping the accepted ones leaves no accepted hit.\<close>

lemma fold_drop_queue:
  "inv s \<Longrightarrow> queue (fold (\<lambda>(w, n) s. snd (drop_op s w n)) ids s) =
     filter (\<lambda>x. (ps_work_id x, ps_nonce x) \<notin> set ids) (queue s) \<and>
   inv (fold (\<lambda>(w, n) s. snd (drop_op s w n)) ids s)"
proof (induction ids arbitrary: s)
  case (Cons i ids)
  obtain w n where i: "i = (w, n)" by (cases i)
  have "inv (snd (drop_op s w n))" using Cons.prems by (rule drop_inv)
  from Cons.IH [OF this] drop_queue [OF Cons.prems, of w n] show ?case
    by (simp add: i same_id_def conj_commute de_Morgan_conj)
qed simp

lemma fold_enq_inv: "inv s \<Longrightarrow> \<forall>x \<in> set xs. valid_record x \<Longrightarrow> inv (fold (\<lambda>x s. enq s x) xs s)"
  by (induction xs arbitrary: s) (simp_all add: enq_inv)

lemma fold_enq_subset: "set (queue (fold (\<lambda>x s. enq s x) xs s)) \<subseteq> set (queue s) \<union> set xs"
proof (induction xs arbitrary: s)
  case (Cons x xs)
  then show ?case using enq_queue [of s x] by (auto simp: subset_iff) fastforce+
qed simp

end

interpretation outbox: pending_store enqueue outbox_drop ob_q outbox_ok
  by unfold_locales
    (simp_all add: enqueue_ok outbox_drop_ok outbox_drop_eq, simp_all add: enqueue_def Let_def)

section \<open>Properties\<close>

text \<open>Every operation keeps the queue free of duplicates: the keys of the queued records stay
  distinct, recorded as seen, and every queued header has 80 bytes; whatever file is loaded.\<close>

theorem outbox_invariant:
  assumes "outbox_ok ob" and "valid_record s"
  shows "outbox_ok outbox_new \<and> outbox_ok (enqueue ob s) \<and> outbox_ok (snd (tryDequeue ob)) \<and>
    outbox_ok (snd (outbox_drop ob w n)) \<and> outbox_ok (snd (loadFromFile fs p ob))"
  using assms outbox_new_ok enqueue_ok tryDequeue_ok outbox_drop_ok loadFromFile_ok by blast

definition sample_submit :: PendingSubmit where
  "sample_submit = \<lparr>ps_work_id = 7, ps_nonce = 3, ps_header80 = replicate 80 1\<rparr>"

theorem outbox_invariant_witness:
  "outbox_ok (snd (outbox_drop (enqueue outbox_new sample_submit) 7 3))"
proof -
  have v: "valid_record sample_submit" by (simp add: valid_record_def sample_submit_def)
  from outbox_invariant [OF _ v] outbox_new_ok have "outbox_ok (enqueue outbox_new sample_submit)" by blast
  from outbox_invariant [OF this v] show ?thesis by blast
qed

text \<open>C25: rewriting the log and loading it gives the queue back, whatever the file and the outbox held
  before, and leaves every other file alone. Of the keys that were seen it gives back those of the queue
  and no others: a submission that was taken from the queue before is refused by the outbox that was saved
  and accepted again by the one that was loaded.\<close>

theorem rewrite_load_roundtrip:
  assumes "outbox_ok ob" and "fs_can_write fs p"
  shows "\<exists>fs'. rewriteFile fs p ob = (True, fs') \<and> (\<forall>q. q \<noteq> p \<longrightarrow> fs_files fs' q = fs_files fs q) \<and>
    loadFromFile fs' p old = (True, \<lparr>ob_q = ob_q ob, ob_seen = outbox_key ` set (ob_q ob)\<rparr>) \<and>
    (\<forall>s. outbox_key s \<in> ob_seen ob - outbox_key ` set (ob_q ob) \<longrightarrow>
       enqueue ob s = ob \<and> ob_q (enqueue (snd (loadFromFile fs' p old)) s) = ob_q ob @ [s])"
proof -
  let ?trunc = "fs\<lparr>fs_files := (fs_files fs)(p \<mapsto> [])\<rparr>"
  let ?fs = "fold (write_record p) (ob_q ob) ?trunc"
  have f: "fs_files ?fs p = Some (concat (map enc_record (ob_q ob)))"
    "\<forall>q. q \<noteq> p \<longrightarrow> fs_files ?fs q = fs_files fs q"
    using fold_write_record [of ?trunc p "[]" "ob_q ob"] by simp_all
  have "records dec_record 92 (concat (map enc_record (ob_q ob))) = ob_q ob"
    using record_codec.records_concat_enc [of "ob_q ob" "[]"] assms(1) by (simp add: outbox_ok_def)
  moreover have "keep_new {} (ob_q ob) = ob_q ob"
    using assms(1) by (intro keep_new_distinct) (simp_all add: outbox_ok_def)
  ultimately have load: "loadFromFile ?fs p old = (True, \<lparr>ob_q = ob_q ob, ob_seen = outbox_key ` set (ob_q ob)\<rparr>)"
    using loadFromFile_eq [OF f(1)] by simp
  have "rewriteFile fs p ob = (True, ?fs)" using assms(2) by (simp add: rewriteFile_def open_trunc_def)
  with f(2) show ?thesis by (intro exI [of _ ?fs]) (simp add: load enqueue_def Let_def)
qed

definition sample_fs :: file_system where
  "sample_fs = \<lparr>fs_files = Map.empty, fs_can_write = (\<lambda>p. True), fs_can_rename = (\<lambda>p q. True)\<rparr>"

theorem rewrite_load_roundtrip_witness:
  "\<exists>fs' ob. ob = snd (tryDequeue (enqueue (enqueue outbox_new sample_submit) (sample_submit\<lparr>ps_nonce := 9\<rparr>))) \<and>
     rewriteFile sample_fs ''log'' ob = (True, fs') \<and> enqueue ob sample_submit = ob \<and>
     ob_q (enqueue (snd (loadFromFile fs' ''log'' outbox_new)) sample_submit) = [sample_submit\<lparr>ps_nonce := 9\<rparr>, sample_submit]"
proof -
  let ?ob = "snd (tryDequeue (enqueue (enqueue outbox_new sample_submit) (sample_submit\<lparr>ps_nonce := 9\<rparr>)))"
  have keys: "outbox_key (sample_submit\<lparr>ps_nonce := 9\<rparr>) \<noteq> outbox_key sample_submit"
    by (simp add: sample_submit_def outbox_key_def)
  have ob: "ob_q ?ob = [sample_submit\<lparr>ps_nonce := 9\<rparr>]"
    "ob_seen ?ob = {outbox_key (sample_submit\<lparr>ps_nonce := 9\<rparr>), outbox_key sample_submit}"
    using keys by (simp_all add: enqueue_def outbox_new_def tryDequeue_def Let_def)
  have ok: "outbox_ok ?ob"
    using ob by (simp add: outbox_ok_def valid_record_def sample_submit_def)
  have w: "fs_can_write sample_fs ''log''" by (simp add: sample_fs_def)
  have "outbox_key sample_submit \<in> ob_seen ?ob - outbox_key ` set (ob_q ?ob)" using ob keys by auto
  then show ?thesis using rewrite_load_roundtrip [OF ok w, of outbox_new] ob(1) by auto
qed

text \<open>A log whose last write was cut short loads exactly its complete records, in order, each key
  once. Appending to such a log does not repair it: the reader takes the torn bytes and the head of
  the appended record for one record, and drops the rest.\<close>

theorem torn_log_load:
  assumes "\<forall>s \<in> set xs. valid_record s" and "length tail < 92" and "valid_record s"
    and "fs_files fs p = Some (concat (map enc_record xs) @ tail)"
  shows "ob_q (snd (loadFromFile fs p ob)) = keep_new {} xs \<and>
    (tail \<noteq> [] \<longrightarrow> records dec_record 92 (concat (map enc_record xs) @ tail @ enc_record s) =
       xs @ [dec_record (take 92 (tail @ enc_record s))])"
proof -
  have "length (enc_record s) = 92" by (rule record_codec.length_enc [OF assms(3)])
  then have "tail \<noteq> [] \<Longrightarrow>
      records dec_record 92 (tail @ enc_record s) = [dec_record (take 92 (tail @ enc_record s))]"
    using assms(2) by (simp add: records.simps [of dec_record 92 "tail @ enc_record s"] records_short)
  moreover have "records dec_record 92 (concat (map enc_record xs) @ ys) = xs @ records dec_record 92 ys" for ys
    using assms(1)
    by (induction xs) (simp_all add: records_append record_codec.length_enc record_codec.dec_enc)
  ultimately show ?thesis
    using record_codec.records_concat_enc [OF assms(1,2)] by (simp add: loadFromFile_eq [OF assms(4)])
qed

theorem torn_log_load_witness:
  "ob_q (snd (loadFromFile (sample_fs\<lparr>fs_files := [''a'' \<mapsto> enc_record sample_submit @ [1, 2]]\<rparr>) ''a'' outbox_new)) =
     [sample_submit]"
proof -
  have "valid_record sample_submit" by (simp add: valid_record_def sample_submit_def)
  then show ?thesis
    using torn_log_load [of "[sample_submit]" "[1, 2]" sample_submit
        "sample_fs\<lparr>fs_files := [''a'' \<mapsto> enc_record sample_submit @ [1, 2]]\<rparr>" "''a''" outbox_new]
    by simp
qed

text \<open>What the deduplication identifies. Two submissions have the same key exactly when their nonces
  and the low 32 bits of their work ids agree; so a submission of another work item whose id differs
  only above bit 32 is silently dropped.\<close>

theorem dedup_key:
  "(outbox_key s = outbox_key t \<longleftrightarrow>
      (ucast (ps_work_id s) :: u32) = ucast (ps_work_id t) \<and> ps_nonce s = ps_nonce t) \<and>
   enqueue (enqueue ob s) (s\<lparr>ps_work_id := ps_work_id s + 2 ^ 32\<rparr>) = enqueue ob s"
proof -
  have "push_bit 32 (2 ^ 32 :: u64) = 0" by code_simp
  then have "push_bit 32 (v + 2 ^ 32) = push_bit 32 v" for v :: u64
    by (simp only: push_bit_add add_0_right)
  then have "outbox_key (s\<lparr>ps_work_id := ps_work_id s + 2 ^ 32\<rparr>) = outbox_key s"
    by (simp add: outbox_key_def)
  then show ?thesis using outbox_key_iff [of s t] by (simp add: enqueue_def Let_def)
qed

text \<open>\<^verbatim>\<open>drop\<close> removes exactly the record with the given work id and nonce, says whether there was
  one, and forgets its key, so that the same submission can be entered again; but a record taken out
  with \<^verbatim>\<open>tryDequeue\<close> stays seen and entering it again does nothing.\<close>

theorem drop_and_dequeue:
  assumes "outbox_ok ob"
  shows "fst (outbox_drop ob w n) = (\<exists>s \<in> set (ob_q ob). ps_work_id s = w \<and> ps_nonce s = n) \<and>
    ob_q (snd (outbox_drop ob w n)) = filter (\<lambda>s. \<not> (ps_work_id s = w \<and> ps_nonce s = n)) (ob_q ob) \<and>
    (s \<in> set (ob_q ob) \<longrightarrow>
       s \<in> set (ob_q (enqueue (snd (outbox_drop ob (ps_work_id s) (ps_nonce s))) s))) \<and>
    (tryDequeue ob = (Some s, ob') \<longrightarrow> enqueue ob' s = ob' \<and> s \<notin> set (ob_q ob'))"
proof (intro conjI impI)
  show "fst (outbox_drop ob w n) = (\<exists>s \<in> set (ob_q ob). ps_work_id s = w \<and> ps_nonce s = n)"
    using outbox_drop_eq(1) [OF assms, of w n] by (simp add: same_id_def)
  show "ob_q (snd (outbox_drop ob w n)) = filter (\<lambda>s. \<not> (ps_work_id s = w \<and> ps_nonce s = n)) (ob_q ob)"
    using outbox_drop_eq(2) [OF assms, of w n] by (simp add: same_id_def)
  assume "s \<in> set (ob_q ob)"
  then have "outbox_key s \<notin> ob_seen (snd (outbox_drop ob (ps_work_id s) (ps_nonce s)))"
    using outbox_drop_eq(3) [OF assms] by (auto simp: same_id_def)
  then show "s \<in> set (ob_q (enqueue (snd (outbox_drop ob (ps_work_id s) (ps_nonce s))) s))"
    by (simp add: enqueue_def Let_def)
next
  assume "tryDequeue ob = (Some s, ob')"
  then show "enqueue ob' s = ob'" "s \<notin> set (ob_q ob')"
    using assms by (auto simp: tryDequeue_def enqueue_def outbox_ok_def Let_def split: list.splits)
qed

theorem drop_and_dequeue_witness:
  "enqueue \<lparr>ob_q = [], ob_seen = {outbox_key sample_submit}\<rparr> sample_submit =
     \<lparr>ob_q = [], ob_seen = {outbox_key sample_submit}\<rparr>"
proof -
  have ok: "outbox_ok \<lparr>ob_q = [sample_submit], ob_seen = {outbox_key sample_submit}\<rparr>"
    by (simp add: outbox_ok_def valid_record_def sample_submit_def)
  show ?thesis using drop_and_dequeue [OF ok, of _ _ sample_submit] by (simp add: tryDequeue_def)
qed

text \<open>Rotation. When the rename or the copy is possible, the new path holds the old log afterwards and
  the log is gone or empty; when neither is and the log can be opened for writing, \<^verbatim>\<open>rotateFile\<close>
  empties the log without having copied it, and reports success.\<close>

theorem rotate_log:
  assumes "fs_files fs p = Some c" and "p \<noteq> q" and "rotateFile fs p q = (ok, fs')"
  shows "(fs_can_rename fs p q \<or> fs_can_write fs q \<longrightarrow>
      fs_files fs' q = Some c \<and> (ok \<longrightarrow> fs_files fs' p = None \<or> fs_files fs' p = Some [])) \<and>
    (\<not> fs_can_rename fs p q \<and> \<not> fs_can_write fs q \<and> fs_can_write fs p \<longrightarrow>
      ok \<and> fs_files fs' p = Some [] \<and> fs_files fs' q = fs_files fs q)"
  using assms
  by (auto simp: rotateFile_def fs_rename_def fs_copy_file_def open_trunc_def Let_def split: if_splits)

theorem rotate_log_witness:
  "fs_files (snd (rotateFile (sample_fs\<lparr>fs_files := [''a'' \<mapsto> [1, 2]]\<rparr>) ''a'' ''b'')) ''b'' = Some [1, 2]"
  using rotate_log [of "sample_fs\<lparr>fs_files := [''a'' \<mapsto> [1, 2]]\<rparr>" "''a''" "[1, 2]" "''b''"]
  by (cases "rotateFile (sample_fs\<lparr>fs_files := [''a'' \<mapsto> [1, 2]]\<rparr>) ''a'' ''b''") (simp add: sample_fs_def)

end
