(* ===== verification/Device_Sha256.thy ===== *)
theory Device_Sha256
  imports Midstate
begin

text \<open>
  \<^verbatim>\<open>src/cuda/sha256d.cuh\<close>, the hash the mining kernels run. The device code compresses 16 words that
  the caller has assembled, and hashes exactly 80 bytes (a block header) and then the 32 bytes of
  the first digest, with the padding written out. \<^verbatim>\<open>w\<close> is the list of the schedule words written so far.
\<close>

text \<open>The 64 round constants, written in decimal (the source has them in hexadecimal).\<close>

definition kSha256K :: "u32 list" where
  "kSha256K =
    [1116352408, 1899447441, 3049323471, 3921009573, 961987163, 1508970993, 2453635748, 2870763221,
     3624381080, 310598401, 607225278, 1426881987, 1925078388, 2162078206, 2614888103, 3248222580,
     3835390401, 4022224774, 264347078, 604807628, 770255983, 1249150122, 1555081692, 1996064986,
     2554220882, 2821834349, 2952996808, 3210313671, 3336571891, 3584528711, 113926993, 338241895,
     666307205, 773529912, 1294757372, 1396182291, 1695183700, 1986661051, 2177026350, 2456956037,
     2730485921, 2820302411, 3259730800, 3345764771, 3516065817, 3600352804, 4094571909, 275423344,
     430227734, 506948616, 659060556, 883997877, 958139571, 1322822218, 1537002063, 1747873779,
     1955562222, 2024104815, 2227730452, 2361852424, 2428436474, 2756734187, 3204031479, 3329325298]"

definition kSha256IV :: "u32 list" where
  "kSha256IV = [0x6a09e667, 0xbb67ae85, 0x3c6ef372, 0xa54ff53a,
                0x510e527f, 0x9b05688c, 0x1f83d9ab, 0x5be0cd19]"

definition rotr_dev :: "u32 \<Rightarrow> nat \<Rightarrow> u32" where
  "rotr_dev x n = drop_bit n x OR push_bit (32 - n) x"

definition Ch :: "u32 \<Rightarrow> u32 \<Rightarrow> u32 \<Rightarrow> u32" where
  "Ch x y z = (x AND y) XOR (NOT x AND z)"

definition Maj :: "u32 \<Rightarrow> u32 \<Rightarrow> u32 \<Rightarrow> u32" where
  "Maj x y z = (x AND y) XOR (x AND z) XOR (y AND z)"

definition Sig0 :: "u32 \<Rightarrow> u32" where
  "Sig0 x = rotr_dev x 2 XOR rotr_dev x 13 XOR rotr_dev x 22"

definition Sig1 :: "u32 \<Rightarrow> u32" where
  "Sig1 x = rotr_dev x 6 XOR rotr_dev x 11 XOR rotr_dev x 25"

definition sig0 :: "u32 \<Rightarrow> u32" where
  "sig0 x = rotr_dev x 7 XOR rotr_dev x 18 XOR drop_bit 3 x"

definition sig1 :: "u32 \<Rightarrow> u32" where
  "sig1 x = rotr_dev x 17 XOR rotr_dev x 19 XOR drop_bit 10 x"

definition dev_schedule_step :: "nat \<Rightarrow> u32 list \<Rightarrow> u32 list" where
  "dev_schedule_step i w = w @ [sig1 (w ! (i - 2)) + w ! (i - 7) + sig0 (w ! (i - 15)) + w ! (i - 16)]"

fun dev_round_step :: "u32 list \<Rightarrow> nat \<Rightarrow> regs \<Rightarrow> regs" where
  "dev_round_step w i (a, b, c, d, e, f, g, h) =
     (let t1 = h + Sig1 e + Ch e f g + kSha256K ! i + w ! i;
          t2 = Sig0 a + Maj a b c
      in (t1 + t2, a, b, c, d + t1, e, f, g))"

definition sha256_compress :: "u32 list \<Rightarrow> u32 list \<Rightarrow> u32 list" where
  "sha256_compress state w0_15_be =
     (let w = fold dev_schedule_step [16..<64] (map (\<lambda>i. w0_15_be ! i) [0..<16]);
          a = state ! 0; b = state ! 1; c = state ! 2; d = state ! 3;
          e = state ! 4; f = state ! 5; g = state ! 6; h = state ! 7;
          r = fold (dev_round_step w) [0..<64] (a, b, c, d, e, f, g, h)
      in case r of (a, b, c, d, e, f, g, h) \<Rightarrow>
           [state ! 0 + a, state ! 1 + b, state ! 2 + c, state ! 3 + d,
            state ! 4 + e, state ! 5 + f, state ! 6 + g, state ! 7 + h])"

text \<open>16 big-endian words of 64 bytes; a digest of eight words as 32 bytes.\<close>

definition dev_words :: "u8 list \<Rightarrow> nat \<Rightarrow> u32 list" where
  "dev_words bs n = map (\<lambda>i. let ofs = i * 4
       in be_word (bs ! ofs) (bs ! (ofs + 1)) (bs ! (ofs + 2)) (bs ! (ofs + 3))) [0..<n]"

definition dev_digest :: "u32 list \<Rightarrow> u8 list" where
  "dev_digest st = concat (map (\<lambda>i. [byte_at 24 (st ! i), byte_at 16 (st ! i),
                                     byte_at 8 (st ! i), byte_at 0 (st ! i)]) [0..<8])"

definition sha256_80_be :: "u8 list \<Rightarrow> u8 list" where
  "sha256_80_be header80 =
     (let st = map (\<lambda>i. kSha256IV ! i) [0..<8];
          st = sha256_compress st (dev_words header80 16);
          bitlen = (640 :: u64);
          block = map (\<lambda>i. header80 ! (64 + i)) [0..<16] @ [0x80] @ map (\<lambda>i. 0) [17..<56] @
                  map (\<lambda>i. ucast (drop_bit (56 - 8 * i) bitlen AND 0xFF)) [0..<8];
          st = sha256_compress st (dev_words block 16)
      in dev_digest st)"

definition sha256d_80_be :: "u8 list \<Rightarrow> u8 list" where
  "sha256d_80_be header80 =
     (let t1 = sha256_80_be header80;
          st = map (\<lambda>i. kSha256IV ! i) [0..<8];
          w0_15 = dev_words t1 8 @ [0x80000000] @ map (\<lambda>i. 0) [9..<15] @ [256];
          st = sha256_compress st w0_15
      in dev_digest st)"

section \<open>The device compression function is the CPU's\<close>

lemma kSha256K_eq: "kSha256K = K_cpu"
  by (simp add: kSha256K_def K_cpu_def)

lemma kSha256IV_eq: "kSha256IV = cpu_iv"
  by (simp add: kSha256IV_def cpu_iv_def sha256_init_def)

lemma rotr_dev_eq: "rotr_dev = rotr"
  by (simp add: fun_eq_iff rotr_dev_def rotr_def)

lemma dev_schedule_step_eq: "dev_schedule_step = schedule_step"
  by (simp add: fun_eq_iff dev_schedule_step_def schedule_step_def sig0_def sig1_def rotr_dev_eq Let_def
      ac_simps)

lemma dev_round_step_eq: "dev_round_step m = round_step m"
proof (intro ext)
  fix i r
  show "dev_round_step m i r = round_step m i r"
    by (induction m i r rule: round_step.induct)
      (simp add: rotr_dev_eq kSha256K_eq Sig0_def Sig1_def Ch_def Maj_def)
qed

lemma dev_words_load_block: "dev_words b 16 = load_block b"
  by (simp add: dev_words_def load_block_def Let_def mult.commute)

lemma sha256_compress_load: "sha256_compress st (load_block b) = cpu_compress st b"
proof -
  have "map (\<lambda>i. load_block b ! i) [0..<16] = load_block b"
    by (rule nth_equalityI) (simp_all add: load_block_def)
  then show ?thesis
    by (simp add: sha256_compress_def cpu_compress_def sha256_transform_def Let_def
        dev_schedule_step_eq dev_round_step_eq regs_of_def split: prod.split)
qed

definition dev_compress :: compression where
  "dev_compress st b = sha256_compress st (dev_words b 16)"

lemma dev_compress_eq: "dev_compress = cpu_compress"
  by (simp add: fun_eq_iff dev_compress_def dev_words_load_block sha256_compress_load)

interpretation dev: block_hash dev_compress kSha256IV
  by unfold_locales (simp_all add: dev_compress_eq kSha256IV_eq cpu.iv_width)

section \<open>Hashing a header\<close>

lemma load_block_append: "length a = 4 * n \<Longrightarrow> n \<le> 16 \<Longrightarrow>
   load_block (a @ b) = dev_words a n @ dev_words b (16 - n)"
  unfolding load_block_def dev_words_def Let_def
  by (rule nth_equalityI) (auto simp: nth_append mult.commute diff_mult_distrib Suc_diff_le)

lemma dev_digest_words_be: "length st = 8 \<Longrightarrow> dev_digest st = words_be st"
  by (simp add: dev_digest_def nth_words_be)

lemma sha256_80_be_sha256:
  assumes "length h = 80"
  shows "sha256_80_be h = sha256 h"
proof -
  have h: "h = take 64 h @ drop 64 h" "length (take 64 h) = 64" "length (drop 64 h) = 16"
    using assms by simp_all
  have tail: "map (\<lambda>i. h ! (64 + i)) [0..<16] = drop 64 h"
    using assms by (intro nth_equalityI) simp_all
  have len: "map (\<lambda>i. ucast (drop_bit (56 - 8 * i) (640::u64) AND 0xFF)) [0..<8] = u64_be_bytes 640"
    by code_simp
  have zeros: "map (\<lambda>i. 0 :: u8) [17..<56] = replicate 39 0" by code_simp
  have first: "load_block h = load_block (take 64 h)"
    using assms by (simp add: load_block_def)
  have "sha256_80_be h = words_be (cpu_compress (cpu_compress cpu_iv (take 64 h))
      (drop 64 h @ 0x80 # replicate 39 0 @ u64_be_bytes 640))"
    unfolding sha256_80_be_def Let_def tail len zeros dev_words_load_block first sha256_compress_load
    by (simp add: dev_digest_words_be kSha256IV_eq map_nth_8 cpu.iv_width)
  also have "\<dots> = md_hash cpu_compress cpu_iv h"
    using cpu.resume [OF h(2), of "drop 64 h"] h by simp
  finally show ?thesis using assms by (simp add: sha256_md_hash)
qed

lemma dev_iv: "map (\<lambda>i. kSha256IV ! i) [0..<8] = cpu_iv"
  by (simp add: kSha256IV_eq map_nth_8 cpu.iv_width)

text \<open>The single block of a 32-byte message, and the last block of a message of 80 bytes whose first
  64 bytes are already in the state.\<close>

lemma second_hash:
  assumes "length t = 32"
  shows "dev_digest (sha256_compress cpu_iv (dev_words t 8 @ [0x80000000] @ replicate 6 0 @ [256])) = sha256 t"
proof -
  let ?pad = "0x80 # replicate 23 0 @ u64_be_bytes 256"
  have "dev_words ?pad 8 = [0x80000000] @ replicate 6 0 @ [256]" by code_simp
  then have "dev_words t 8 @ [0x80000000] @ replicate 6 0 @ [256] = load_block (t @ ?pad)"
    using load_block_append [of t 8 ?pad] assms by simp
  then have "dev_digest (sha256_compress cpu_iv (dev_words t 8 @ [0x80000000] @ replicate 6 0 @ [256])) =
      words_be (cpu_compress cpu_iv (t @ ?pad))"
    by (simp only: sha256_compress_load dev_digest_words_be length_cpu_compress)
  also have "\<dots> = md_hash cpu_compress cpu_iv t"
    using assms by (simp add: md_hash_def md_pad_def)
  finally show ?thesis using assms by (simp add: sha256_md_hash)
qed

lemma last_block_80:
  assumes "length first = 64" and "length tail = 16"
  shows "dev_digest (sha256_compress (sha256_midstate_64 first)
    (dev_words tail 4 @ [0x80000000] @ replicate 10 0 @ [640])) = sha256 (first @ tail)"
proof -
  let ?pad = "0x80 # replicate 39 0 @ u64_be_bytes 640"
  have "dev_words ?pad 12 = [0x80000000] @ replicate 10 0 @ [640]" by code_simp
  then have "dev_words tail 4 @ [0x80000000] @ replicate 10 0 @ [640] = load_block (tail @ ?pad)"
    using load_block_append [of tail 4 ?pad] assms(2) by simp
  then have "dev_digest (sha256_compress (sha256_midstate_64 first)
      (dev_words tail 4 @ [0x80000000] @ replicate 10 0 @ [640])) =
      words_be (cpu_compress (cpu_compress cpu_iv first) (tail @ ?pad))"
    by (simp only: sha256_midstate_64_eq sha256_compress_load dev_digest_words_be length_cpu_compress)
  also have "\<dots> = md_hash cpu_compress cpu_iv (first @ tail)"
    using cpu.resume [OF assms(1), of tail] assms(2) by simp
  finally show ?thesis using assms by (simp add: sha256_md_hash)
qed

lemma sha256d_80_be_sha256d:
  assumes "length h = 80"
  shows "sha256d_80_be h = sha256d h"
proof -
  have "map (\<lambda>i. 0 :: u32) [9..<15] = replicate 6 0" by code_simp
  then show ?thesis
    unfolding sha256d_80_be_def Let_def sha256_80_be_sha256 [OF assms] dev_iv sha256d_def
    using second_hash [of "sha256 h"] by simp
qed

section \<open>Properties\<close>

text \<open>C5: the kernel's double hash of an 80-byte header, with its hand-written padding, is the CPU
  verifier's \<^verbatim>\<open>sha256d\<close>, and both are the standard's hash applied twice.\<close>

theorem device_hash_is_cpu_hash:
  assumes "length header80 = 80"
  shows "sha256d_80_be header80 = sha256d header80 \<and>
    sha256d_80_be header80 =
      md_hash fips_compress cpu_iv (md_hash fips_compress cpu_iv header80)"
  using assms sha256d_80_be_sha256d [OF assms]
  by (simp add: sha256d_def sha256_def sha256_from_fips cpu.digest_width cpu_compress_fips [symmetric])

theorem device_hash_is_cpu_hash_witness:
  "sha256d_80_be (replicate 80 3) = sha256d (replicate 80 3)"
  using device_hash_is_cpu_hash [of "replicate 80 3"] by simp

end
