(* ===== verification/Submit_Router.thy ===== *)
theory Submit_Router
  imports Outbox Targets Device_Sha256 Normalizer
begin

text \<open>
  \<^verbatim>\<open>src/submit/submit_router.*\<close> and the in-memory part of \<^verbatim>\<open>src/store/ledger.h\<close>. The outbox the router
  points to is passed explicitly (\<open>None\<close> when none is attached); the calls of the callback are a list
  of hits. A router without callback is one whose \<^verbatim>\<open>std::function\<close> is empty.
\<close>

section \<open>Ledger\<close>

type_synonym Ledger = "u64 \<rightharpoonup> WorkItem"

definition ledger_put :: "Ledger \<Rightarrow> WorkItem \<Rightarrow> Ledger" where
  "ledger_put l item = l(wi_work_id item \<mapsto> item)"

definition ledger_get :: "Ledger \<Rightarrow> u64 \<Rightarrow> WorkItem option" where
  "ledger_get l work_id = l work_id"

definition ledger_erase :: "Ledger \<Rightarrow> u64 \<Rightarrow> Ledger" where
  "ledger_erase l work_id = l(work_id := None)"

section \<open>Router\<close>

record SubmitHit =
  sh_work_id :: u64
  sh_nonce :: u32
  sh_header80 :: "u8 list"

record SubmitRouter =
  sr_has_cb :: bool
  sr_calls :: "SubmitHit list"
  sr_outbox :: "Outbox option"

definition pending_of :: "SubmitHit \<Rightarrow> PendingSubmit" where
  "pending_of rec = \<lparr>ps_work_id = sh_work_id rec, ps_nonce = sh_nonce rec, ps_header80 = take 80 (sh_header80 rec)\<rparr>"

definition router_call_cb :: "SubmitRouter \<Rightarrow> SubmitHit \<Rightarrow> SubmitRouter" where
  "router_call_cb r rec = (if sr_has_cb r then r\<lparr>sr_calls := sr_calls r @ [rec]\<rparr> else r)"

definition router_enqueue :: "SubmitRouter \<Rightarrow> SubmitHit \<Rightarrow> SubmitRouter" where
  "router_enqueue r rec =
     (case sr_outbox r of None \<Rightarrow> r | Some ob \<Rightarrow> r\<lparr>sr_outbox := Some (enqueue ob (pending_of rec))\<rparr>)"

definition verifyAndSubmit :: "SubmitRouter \<Rightarrow> u8 list \<Rightarrow> u32 list \<Rightarrow> u64 \<Rightarrow> u32 \<Rightarrow> bool \<times> SubmitRouter" where
  "verifyAndSubmit r header80_be target_le work_id nonce =
     (let h1 = sha256 (take 80 header80_be);
          h2 = sha256 (take 32 h1)
      in if \<not> isHashLEQTarget h2 target_le then (False, r)
         else let rec = \<lparr>sh_work_id = work_id, sh_nonce = nonce, sh_header80 = take 80 header80_be\<rparr>;
                  r = router_enqueue r rec;
                  r = router_call_cb r rec
              in (True, r))"

definition routeRaw :: "SubmitRouter \<Rightarrow> SubmitHit \<Rightarrow> bool \<times> SubmitRouter" where
  "routeRaw r rec =
     (let r = router_enqueue r rec
      in if sr_has_cb r then (True, router_call_cb r rec) else (False, r))"

definition router_onAccepted :: "SubmitRouter \<Rightarrow> u64 \<Rightarrow> u32 \<Rightarrow> SubmitRouter" where
  "router_onAccepted r work_id nonce =
     (case sr_outbox r of None \<Rightarrow> r | Some ob \<Rightarrow> r\<lparr>sr_outbox := Some (snd (outbox_drop ob work_id nonce))\<rparr>)"

section \<open>Lemmas\<close>

definition hash_value :: "u8 list \<Rightarrow> nat" where
  "hash_value header = be_nat (sha256d header)"

lemma verify_accepts:
  assumes "length header = 80"
  shows "fst (verifyAndSubmit r header target w n) \<longleftrightarrow> hash_value header \<le> target_nat target"
  using assms isHashLEQTarget_target_nat [of "sha256d header" target]
  by (simp add: verifyAndSubmit_def sha256d_def hash_value_def Let_def)

lemma pending_of_valid: "80 \<le> length (sh_header80 rec) \<Longrightarrow> valid_record (pending_of rec)"
  by (simp add: valid_record_def pending_of_def)

lemma router_enqueue_frame [simp]:
  "sr_calls (router_enqueue r rec) = sr_calls r" "sr_has_cb (router_enqueue r rec) = sr_has_cb r"
  by (simp_all add: router_enqueue_def split: option.splits)

lemma router_call_cb_frame [simp]:
  "sr_outbox (router_call_cb r rec) = sr_outbox r"
  "sr_calls (router_call_cb r rec) = (if sr_has_cb r then sr_calls r @ [rec] else sr_calls r)"
  by (simp_all add: router_call_cb_def)

lemma router_enqueue_ok:
  "sr_outbox r = Some ob \<Longrightarrow> outbox_ok ob \<Longrightarrow> 80 \<le> length (sh_header80 rec) \<Longrightarrow>
   \<exists>ob'. sr_outbox (router_enqueue r rec) = Some ob' \<and> outbox_ok ob'"
  by (simp add: router_enqueue_def enqueue_ok pending_of_valid)

section \<open>Properties\<close>

text \<open>Only proven work is submitted, exactly once, and not before it is persisted in the outbox. For an
  80-byte header \<^verbatim>\<open>verifyAndSubmit\<close> succeeds exactly when the double hash of the header, as a number,
  is at most the target; then the callback gets exactly this hit and the outbox the same record
  (unless its key was seen); otherwise nothing changes.\<close>

theorem verify_and_submit_sound:
  assumes "length header = 80"
  shows "case verifyAndSubmit r header target w n of (accepted, r') \<Rightarrow>
    (accepted \<longleftrightarrow> be_nat (sha256d header) \<le> target_nat target) \<and>
    (if accepted
     then sr_calls r' = sr_calls r @ (if sr_has_cb r
            then [\<lparr>sh_work_id = w, sh_nonce = n, sh_header80 = header\<rparr>] else []) \<and>
          sr_outbox r' = map_option (\<lambda>ob. enqueue ob
            \<lparr>ps_work_id = w, ps_nonce = n, ps_header80 = header\<rparr>) (sr_outbox r)
     else r' = r)"
proof -
  have "fst (verifyAndSubmit r header target w n) \<longleftrightarrow> be_nat (sha256d header) \<le> target_nat target"
    using verify_accepts [OF assms] by (simp add: hash_value_def)
  then show ?thesis
    using assms by (auto simp: verifyAndSubmit_def Let_def router_enqueue_def router_call_cb_def
        pending_of_def split: option.splits prod.splits)
qed

definition empty_router :: SubmitRouter where
  "empty_router = \<lparr>sr_has_cb = True, sr_calls = [], sr_outbox = Some outbox_new\<rparr>"

theorem verify_and_submit_sound_witness:
  "fst (verifyAndSubmit empty_router (replicate 80 1) (replicate 8 0xFFFFFFFF) 7 3)"
proof -
  have "be_nat (sha256d (replicate 80 1)) < 256 ^ 32"
    using be_nat_bound [of "sha256d (replicate 80 1)"] by simp
  then have "be_nat (sha256d (replicate 80 1)) \<le> target_nat (replicate 8 0xFFFFFFFF)"
    unfolding target_nat_max by simp
  then show ?thesis
    using verify_and_submit_sound [where header = "replicate 80 1" and r = empty_router
        and target = "replicate 8 0xFFFFFFFF" and w = 7 and n = 3]
    by (auto split: prod.splits)
qed

text \<open>C2: from the pool's compact share target to the decision. Whatever the share target of a job that was
  normalised, the router accepts an 80-byte header exactly when its standard double SHA-256, as a
  big-endian number, is at most a bound: for an exponent from 3 to 32 Bitcoin's value of the compact target;
  for a larger exponent the greatest 256-bit number, so that every header is accepted, unless the
  mantissa is zero; for the exponent 2 the 256th part of Bitcoin's value, and for 0 and 1 zero.\<close>

theorem share_acceptance_end_to_end:
  assumes "normalizeJob inp = Inr (Some job)" and "length header = 80"
    and "e = exponent_of (in_share_nbits inp)" and "spec = compact_spec (in_share_nbits inp)"
  shows "fst (verifyAndSubmit r header (wi_share_target_le (nr_item job)) w n) \<longleftrightarrow>
    be_nat (md_hash fips_compress cpu_iv (md_hash fips_compress cpu_iv header)) \<le>
      (if 3 \<le> e \<and> e \<le> 32 then spec
       else if 32 < e then (if mantissa_of (in_share_nbits inp) = 0 then 0 else 2 ^ 256 - 1)
       else if e = 2 then spec div 256 else 0)"
proof -
  have safe: "compact_safe (job_nbits (in_job inp)) \<and> compact_safe (in_share_nbits inp)"
    using normalizeJob_unsafe [of inp] assms(1) by fastforce
  then have "target_nat (wi_share_target_le (nr_item job)) = code_target (in_share_nbits inp)"
    using normalizeJob_safe [of inp] assms(1) by (metis Inr_inject option.inject)
  moreover have "code_target (in_share_nbits inp) = (if 3 \<le> e \<and> e \<le> 32 then spec
       else if 32 < e then (if mantissa_of (in_share_nbits inp) = 0 then 0 else 2 ^ 256 - 1)
       else if e = 2 then spec div 256 else 0)"
    unfolding assms(3,4) by (simp only: code_target_spec Let_def)
  moreover have "sha256d header = md_hash fips_compress cpu_iv (md_hash fips_compress cpu_iv header)"
    using assms(2) by (simp add: sha256d_def sha256_def sha256_from_fips cpu.digest_width
        cpu_compress_fips [symmetric])
  ultimately show ?thesis using verify_accepts [OF assms(2)] by (simp add: hash_value_def)
qed

theorem share_acceptance_end_to_end_witness:
  "\<exists>job easy. normalizeJob sample_inputs = Inr (Some job) \<and>
    (fst (verifyAndSubmit empty_router (replicate 80 1) (wi_share_target_le (nr_item job)) 7 3) \<longleftrightarrow>
      be_nat (md_hash fips_compress cpu_iv (md_hash fips_compress cpu_iv (replicate 80 1))) \<le> 0xffff * 256 ^ 28) \<and>
    normalizeJob (sample_inputs\<lparr>in_share_nbits := 0x21000001\<rparr>) = Inr (Some easy) \<and>
    fst (verifyAndSubmit empty_router (replicate 80 1) (wi_share_target_le (nr_item easy)) 7 3)"
proof -
  let ?easy = "sample_inputs\<lparr>in_share_nbits := 0x21000001\<rparr>"
  have safe: "compact_safe (job_nbits (in_job ?easy))" "compact_safe (in_share_nbits ?easy)"
    using sample_inputs_ok(2) by (simp_all add: compact_safe_def exponent_of_def)
  obtain job easy where jobs: "normalizeJob sample_inputs = Inr (Some job)" "normalizeJob ?easy = Inr (Some easy)"
    using normalizeJob_safe [OF sample_inputs_ok(2,3)] normalizeJob_safe [OF safe] by metis
  have len: "length (replicate 80 (1::u8)) = 80" by simp
  have "be_nat (md_hash fips_compress cpu_iv h) < 256 ^ 32" for h
    using be_nat_bound [of "md_hash fips_compress cpu_iv h"] by (simp only: cpu.digest_width [unfolded cpu_compress_fips])
  then have bound: "be_nat (md_hash fips_compress cpu_iv h) \<le> 2 ^ 256 - 1" for h
    by (simp add: Suc_leI less_eq_Suc_le)
  show ?thesis
    using jobs share_acceptance_end_to_end [OF jobs(1) len refl refl, of empty_router 7 3]
      share_acceptance_end_to_end [OF jobs(2) len refl refl, of empty_router 7 3] bound
    by (intro exI [of _ job] exI [of _ easy])
      (simp add: sample_inputs_def exponent_of_def mantissa_of_def compact_spec_def)
qed

text \<open>The life of a pending submission. What the router routes while its outbox is intact stays in an
  intact outbox, an accepted submission leaves it, and one that was taken out with \<^verbatim>\<open>tryDequeue\<close> and is
  routed again is sent to the callback but does not return to the queue.\<close>

theorem pending_submission_life:
  assumes "sr_outbox r = Some ob" and "outbox_ok ob" and "length (sh_header80 rec) = 80"
  shows "(\<exists>ob'. sr_outbox (snd (routeRaw r rec)) = Some ob' \<and> outbox_ok ob' \<and>
      (outbox_key (pending_of rec) \<notin> ob_seen ob \<longrightarrow> ob_q ob' = ob_q ob @ [pending_of rec]) \<and>
      (\<exists>ob''. sr_outbox (router_onAccepted (snd (routeRaw r rec)) (sh_work_id rec) (sh_nonce rec)) = Some ob'' \<and>
         outbox_ok ob'' \<and> (\<forall>s \<in> set (ob_q ob''). \<not> (ps_work_id s = sh_work_id rec \<and> ps_nonce s = sh_nonce rec)))) \<and>
    (tryDequeue ob = (Some (pending_of rec), ob1) \<longrightarrow>
       sr_outbox (snd (routeRaw (r\<lparr>sr_outbox := Some ob1\<rparr>) rec)) = Some ob1)"
proof
  let ?ob = "enqueue ob (pending_of rec)"
  have route: "sr_outbox (snd (routeRaw s rec)) = sr_outbox (router_enqueue s rec)" for s
    by (simp add: routeRaw_def Let_def)
  have ok: "outbox_ok ?ob" using assms(2,3) by (intro outbox.enq_inv pending_of_valid) simp_all
  have "outbox_ok (snd (outbox_drop ?ob (sh_work_id rec) (sh_nonce rec)))" by (rule outbox.drop_inv [OF ok])
  moreover have "ob_q (snd (outbox_drop ?ob (sh_work_id rec) (sh_nonce rec))) =
      filter (\<lambda>x. \<not> same_id (sh_work_id rec) (sh_nonce rec) x) (ob_q ?ob)"
    by (rule outbox.drop_queue [OF ok])
  ultimately show "\<exists>ob'. sr_outbox (snd (routeRaw r rec)) = Some ob' \<and> outbox_ok ob' \<and>
      (outbox_key (pending_of rec) \<notin> ob_seen ob \<longrightarrow> ob_q ob' = ob_q ob @ [pending_of rec]) \<and>
      (\<exists>ob''. sr_outbox (router_onAccepted (snd (routeRaw r rec)) (sh_work_id rec) (sh_nonce rec)) = Some ob'' \<and>
         outbox_ok ob'' \<and> (\<forall>s \<in> set (ob_q ob''). \<not> (ps_work_id s = sh_work_id rec \<and> ps_nonce s = sh_nonce rec)))"
    using ok assms(1) by (simp add: route router_enqueue_def router_onAccepted_def same_id_def)
      (simp add: enqueue_def Let_def)
  have "enqueue ob1 (pending_of rec) = ob1" if "tryDequeue ob = (Some (pending_of rec), ob1)"
    using that assms(2)
    by (auto simp: tryDequeue_def enqueue_def outbox_ok_def Let_def split: list.splits)
  then show "tryDequeue ob = (Some (pending_of rec), ob1) \<longrightarrow>
       sr_outbox (snd (routeRaw (r\<lparr>sr_outbox := Some ob1\<rparr>) rec)) = Some ob1"
    by (simp add: route router_enqueue_def)
qed

theorem pending_submission_life_witness:
  "\<exists>ob'. sr_outbox (snd (routeRaw empty_router
     \<lparr>sh_work_id = 7, sh_nonce = 3, sh_header80 = replicate 80 1\<rparr>)) = Some ob' \<and> outbox_ok ob'"
  using pending_submission_life [of empty_router outbox_new
      "\<lparr>sh_work_id = 7, sh_nonce = 3, sh_header80 = replicate 80 1\<rparr>"] outbox_new_ok
  by (auto simp: empty_router_def)

end
