(* ===== verification/Scheduler.thy ===== *)
theory Scheduler
  imports Work_Registry
begin

text \<open>
  \<^verbatim>\<open>src/scheduler/scheduler.h\<close>: the choice of the work ids of the next kernel launch. Each id is repeated
  according to the weight of its source, reduced by the penalty of the source, up to a cap on the
  number of ids. The unordered maps are maps, \<^verbatim>\<open>std::size_t\<close> is \<open>nat\<close>.
\<close>

record SchedulerState =
  source_weight :: "u32 \<rightharpoonup> u32"
  ss_tick :: u64
  source_penalty :: "u32 \<rightharpoonup> u32"
  max_weight_cap :: u32

definition scheduler_new :: SchedulerState where
  "scheduler_new = \<lparr>source_weight = Map.empty, ss_tick = 0, source_penalty = Map.empty, max_weight_cap = 4\<rparr>"

text \<open>The weight \<open>w\<close> computed in the body of the outer loop.\<close>

definition effective_weight :: "SchedulerState \<Rightarrow> u32 \<Rightarrow> u32" where
  "effective_weight st sid =
     (let w = (1 :: u32);
          w = (case source_weight st sid of
                 None \<Rightarrow> w
               | Some wt \<Rightarrow> if 0 < wt
                   then (let cap = (if max_weight_cap st = 0 then 1 else max_weight_cap st)
                         in if wt > cap then cap else wt)
                   else w);
          w = (case source_penalty st sid of
                 None \<Rightarrow> w
               | Some pen \<Rightarrow> if 0 < pen then (if pen \<ge> w then 1 else w - pen) else w)
      in w)"

text \<open>The inner loop pushes one id up to \<open>k\<close> times, the outer loop goes through the ids; both stop as
  soon as \<open>max_ids\<close> entries are reached.\<close>

fun push_loop :: "nat \<Rightarrow> u64 \<Rightarrow> nat \<Rightarrow> u64 list \<Rightarrow> u64 list" where
  "push_loop 0 wid max_ids out = out"
| "push_loop (Suc k) wid max_ids out =
     (let out = out @ [wid]
      in if length out \<ge> max_ids then out else push_loop k wid max_ids out)"

fun select_loop :: "SchedulerState \<Rightarrow> (u64 \<rightharpoonup> WorkSlotSnapshot) \<Rightarrow> nat \<Rightarrow> u64 list \<Rightarrow> u64 list \<Rightarrow> u64 list" where
  "select_loop st snaps max_ids [] out = out"
| "select_loop st snaps max_ids (wid # wids) out =
     (case snaps wid of
        None \<Rightarrow> select_loop st snaps max_ids wids out
      | Some sn \<Rightarrow>
          let sid = wi_source_id (snap_item sn);
              w = effective_weight st sid;
              out = push_loop (unat w) wid max_ids out
          in if length out \<ge> max_ids then out else select_loop st snaps max_ids wids out)"

definition select :: "SchedulerState \<Rightarrow> u64 list \<Rightarrow> (u64 \<rightharpoonup> WorkSlotSnapshot) \<Rightarrow> nat \<Rightarrow>
    u64 list \<times> SchedulerState" where
  "select st work_ids snaps max_ids =
     (let out = select_loop st snaps max_ids work_ids []
      in (out, st\<lparr>ss_tick := ss_tick st + 1\<rparr>))"

section \<open>Specification\<close>

text \<open>All the entries the weights ask for, in order; the selection is a prefix of them.\<close>

definition weighted_ids :: "SchedulerState \<Rightarrow> (u64 \<rightharpoonup> WorkSlotSnapshot) \<Rightarrow> u64 list \<Rightarrow> u64 list" where
  "weighted_ids st snaps wids = concat (map (\<lambda>wid. case snaps wid of
     None \<Rightarrow> [] | Some sn \<Rightarrow> replicate (unat (effective_weight st (wi_source_id (snap_item sn)))) wid) wids)"

lemma weighted_ids_simps [simp]:
  "weighted_ids st snaps [] = []"
  "weighted_ids st snaps (wid # wids) = (case snaps wid of None \<Rightarrow> []
     | Some sn \<Rightarrow> replicate (unat (effective_weight st (wi_source_id (snap_item sn)))) wid) @
     weighted_ids st snaps wids"
  by (simp_all add: weighted_ids_def)

lemma u32_le_1 [simp]: "(1 :: u32) \<le> w \<longleftrightarrow> w \<noteq> 0"
  by (simp add: word_le_nat_alt Suc_le_eq unat_gt_0)

lemma effective_weight_bounds:
  "1 \<le> effective_weight st sid \<and>
   effective_weight st sid \<le> (if max_weight_cap st = 0 then 1 else max_weight_cap st)"
proof -
  define w0 :: u32 where "w0 = (case source_weight st sid of None \<Rightarrow> 1
     | Some wt \<Rightarrow> if 0 < wt then (let cap = (if max_weight_cap st = 0 then 1 else max_weight_cap st)
         in if wt > cap then cap else wt) else 1)"
  have w0: "w0 \<noteq> 0" "w0 \<le> (if max_weight_cap st = 0 then 1 else max_weight_cap st)"
    by (auto simp: w0_def Let_def word_gt_0 split: option.splits)
  have "effective_weight st sid = (case source_penalty st sid of None \<Rightarrow> w0
     | Some pen \<Rightarrow> if 0 < pen then (if pen \<ge> w0 then 1 else w0 - pen) else w0)"
    unfolding effective_weight_def w0_def Let_def by (rule refl)
  moreover have "w0 - pen \<noteq> 0 \<and> w0 - pen \<le> w0" if "\<not> pen \<ge> w0" for pen
    using that by (auto simp: word_le_nat_alt unat_sub not_le word_less_nat_alt)
  moreover from this have "w0 - pen \<le> (if max_weight_cap st = 0 then 1 else max_weight_cap st)"
    if "\<not> pen \<ge> w0" for pen
    using that w0(2) order_trans by blast
  ultimately show ?thesis using w0 by (auto split: option.splits simp del: if_split split: if_splits)
qed

lemma push_loop_eq:
  "length out < m \<or> m = 0 \<Longrightarrow> push_loop k wid m out =
     (if m = 0 then out @ replicate (min k 1) wid else take m (out @ replicate k wid))"
proof (induction k arbitrary: out)
  case (Suc k)
  show ?case
  proof (cases "m = 0")
    case False
    then have l: "length out < m" using Suc.prems by simp
    show ?thesis
    proof (cases "Suc (length out) \<ge> m")
      case True
      then have "m = Suc (length out)" using l by simp
      then show ?thesis by simp
    next
      case False
      then show ?thesis using Suc.IH [of "out @ [wid]"] l by simp
    qed
  qed (simp add: Let_def)
qed auto

lemma select_loop_eq:
  "0 < m \<Longrightarrow> length out < m \<Longrightarrow> select_loop st snaps m wids out = take m (out @ weighted_ids st snaps wids)"
proof (induction wids arbitrary: out)
  case (Cons wid wids)
  show ?case
  proof (cases "snaps wid")
    case None
    then show ?thesis using Cons by simp
  next
    case (Some sn)
    let ?r = "replicate (unat (effective_weight st (wi_source_id (snap_item sn)))) wid"
    have p: "push_loop (unat (effective_weight st (wi_source_id (snap_item sn)))) wid m out = take m (out @ ?r)"
      using push_loop_eq [of out m] Cons.prems by simp
    show ?thesis
    proof (cases "m \<le> length (out @ ?r)")
      case True
      then have "length (take m (out @ ?r)) = m" by simp
      then show ?thesis using Some p True by (simp add: Let_def del: take_append) simp
    next
      case False
      then have "take m (out @ ?r) = out @ ?r" by simp
      with False show ?thesis using Cons.IH [of "out @ ?r"] Cons.prems(1) Some p by (simp add: Let_def)
    qed
  qed
qed simp

lemma select_loop_zero:
  "select_loop st snaps 0 wids [] = take 1 (weighted_ids st snaps wids)"
proof (induction wids)
  case (Cons wid wids)
  show ?case
  proof (cases "snaps wid")
    case None
    then show ?thesis using Cons by simp
  next
    case (Some sn)
    have "unat (effective_weight st (wi_source_id (snap_item sn))) \<noteq> 0"
      using effective_weight_bounds [of st "wi_source_id (snap_item sn)"] by (simp add: unat_eq_zero)
    then obtain k where "unat (effective_weight st (wi_source_id (snap_item sn))) = Suc k"
      by (metis not0_implies_Suc)
    with Some show ?thesis by (simp add: Let_def)
  qed
qed simp

lemma select_take:
  "select st work_ids snaps max_ids =
     (take (max 1 max_ids) (weighted_ids st snaps work_ids), st\<lparr>ss_tick := ss_tick st + 1\<rparr>)"
  using select_loop_eq [of max_ids "[]" st snaps work_ids] select_loop_zero [of st snaps work_ids]
  by (cases "max_ids = 0") (simp_all add: select_def max_def Suc_le_eq)

section \<open>Properties\<close>

text \<open>What the scheduler selects. The result is the first \<open>max_ids\<close> entries of the list that repeats
  every known work id as often as the weight of its source says, in the order of the ids; a cap of
  0 still selects one entry. The state only counts a tick.\<close>

theorem select_prefix_of_weighted:
  "select st work_ids snaps max_ids =
     (take (max 1 max_ids) (weighted_ids st snaps work_ids), st\<lparr>ss_tick := ss_tick st + 1\<rparr>)"
  by (rule select_take)

text \<open>No source is starved and none exceeds the cap. Every known id appears at least once and the
  weight of a source is at most the cap (at least one), whatever weights and penalties are set; so
  with room for the cap times the number of ids every known id is selected.\<close>

theorem select_no_starvation:
  assumes "wid \<in> set work_ids" and "snaps wid = Some sn"
    and "unat (if max_weight_cap st = 0 then 1 else max_weight_cap st) * length work_ids \<le> max_ids"
  shows "wid \<in> set (fst (select st work_ids snaps max_ids)) \<and>
    1 \<le> effective_weight st (wi_source_id (snap_item sn)) \<and>
    effective_weight st (wi_source_id (snap_item sn)) \<le> (if max_weight_cap st = 0 then 1 else max_weight_cap st)"
proof -
  let ?cap = "unat (if max_weight_cap st = 0 then 1 else max_weight_cap st)"
  have le: "unat (effective_weight st sid) \<le> ?cap" for sid
    using effective_weight_bounds [of st sid] by (simp only: word_le_nat_alt)
  have "length (weighted_ids st snaps ids) \<le> ?cap * length ids" for ids
  proof (induction ids)
    case (Cons i ids)
    have "unat (effective_weight st sid) + length (weighted_ids st snaps ids) \<le> ?cap + ?cap * length ids" for sid
      by (intro add_mono le Cons.IH)
    moreover have "length (weighted_ids st snaps ids) \<le> ?cap + ?cap * length ids"
      using Cons.IH by (rule trans_le_add2)
    ultimately show ?case by (cases "snaps i") simp_all
  qed simp
  from this [of work_ids] assms(3) have "length (weighted_ids st snaps work_ids) \<le> max_ids"
    by (rule le_trans)
  then have "length (weighted_ids st snaps work_ids) \<le> max 1 max_ids" by simp
  moreover have "wid \<in> set (weighted_ids st snaps work_ids)"
  proof -
    have "unat (effective_weight st (wi_source_id (snap_item sn))) \<noteq> 0"
      using effective_weight_bounds [of st "wi_source_id (snap_item sn)"] by (simp add: unat_eq_zero)
    then have "wid \<in> set (case snaps wid of None \<Rightarrow> []
        | Some sn \<Rightarrow> replicate (unat (effective_weight st (wi_source_id (snap_item sn)))) wid)"
      using assms(2) by simp
    then show ?thesis using assms(1) unfolding weighted_ids_def set_concat set_map by blast
  qed
  ultimately have "wid \<in> set (fst (select st work_ids snaps max_ids))"
    by (simp only: select_take fst_conv take_all)
  then show ?thesis
    using effective_weight_bounds [of st "wi_source_id (snap_item sn)"] by (intro conjI) blast+
qed

theorem select_no_starvation_witness:
  "3 \<in> set (fst (select (scheduler_new\<lparr>source_penalty := [0 \<mapsto> 9]\<rparr>) [2, 3]
     (\<lambda>w. Some \<lparr>snap_gen = 1, snap_item = default_item, snap_const = default_const\<rparr>) 8))"
  using select_no_starvation [of 3 "[2, 3]"
      "\<lambda>w. Some \<lparr>snap_gen = 1, snap_item = default_item, snap_const = default_const\<rparr>"
      "\<lparr>snap_gen = 1, snap_item = default_item, snap_const = default_const\<rparr>"
      "scheduler_new\<lparr>source_penalty := [0 \<mapsto> 9]\<rparr>" 8]
  by (simp add: scheduler_new_def)

end
