(* ===== verification/Miner_Setup.thy ===== *)
theory Miner_Setup
  imports Gbt_Runner Rpc_Client Submit_Router Scheduler
begin

text \<open>
  \<^verbatim>\<open>src/tools/stratum_registry_runner.cpp\<close>, the part of \<^verbatim>\<open>main\<close> before the loop: the scheduler's weights,
  the sources made from the configured pools, the log of pending submissions (rotation, loading, replay)
  and the callback that sends an accepted share to its pool. The pointers of a \<^verbatim>\<open>SourceInfo\<close> to a Stratum
  adapter, runner and submitter are set together, so they are one optional runner (which holds its
  adapter) and the submitter's user name; all GBT sources point to the same adapter. Clocks are
  arguments: the milliseconds of the system clock and its seconds (for file names).
\<close>

section \<open>Scheduler weights\<close>

fun set_weights :: "nat \<Rightarrow> PoolEntry list \<Rightarrow> SchedulerState \<Rightarrow> SchedulerState" where
  "set_weights sid [] st = st"
| "set_weights sid (p # ps) st =
     (let w = pe_weight p; w = (if sint w \<le> 0 then 1 else w)
      in set_weights (sid + 1) ps (st\<lparr>source_weight := (source_weight st)(of_nat sid \<mapsto> w)\<rparr>))"

definition scheduler_setup :: "AppConfig \<Rightarrow> SchedulerState" where
  "scheduler_setup cfg =
     (let st = scheduler_new;
          m = sc_max_weight (ac_scheduler cfg);
          st = st\<lparr>max_weight_cap := (if sint m < 1 then 1 else m)\<rparr>
      in set_weights 0 (ac_pools cfg) st)"

section \<open>Sources\<close>

datatype SourceKind = Stratum_source | Gbt_source

record SourceInfo =
  si_kind :: SourceKind
  si_stratum :: "StratumRunner option"
  si_user :: string
  si_gbt :: bool

definition default_source :: SourceInfo where
  "default_source = \<lparr>si_kind = Stratum_source, si_stratum = None, si_user = [], si_gbt = False\<rparr>"

definition profile_of :: "string \<Rightarrow> PoolProfile" where
  "profile_of name = (if name = ''viabtc'' then kViaBTC else if name = ''f2pool'' then kF2Pool else kGeneric)"

definition apply_policy_cfg :: "PolicyCfg \<Rightarrow> StratumAdapter \<Rightarrow> StratumAdapter" where
  "apply_policy_cfg po adp =
     (let adp = setCleanJobs adp (po_clean_jobs_default po);
          adp = forceCleanJobs adp (po_force_clean_jobs po);
          adp = (case po_version_mask po of None \<Rightarrow> adp | Some m \<Rightarrow> setVersionMask adp m);
          adp = (if po_ntime_min po \<noteq> None \<or> po_ntime_max po \<noteq> None
                 then setNtimeCaps adp (case po_ntime_min po of None \<Rightarrow> 0 | Some n \<Rightarrow> n)
                        (case po_ntime_max po of None \<Rightarrow> 0 | Some n \<Rightarrow> n)
                 else adp)
      in case po_share_nbits po of None \<Rightarrow> adp | Some n \<Rightarrow> updateVarDiff adp n)"

definition pool_credentials :: "PoolEntry \<Rightarrow> string \<times> string" where
  "pool_credentials p =
     (let prof = profile_of (pe_profile p);
          walletOrAccount = (if pe_cred_mode p = WalletAsUser then pe_wallet p else pe_account p);
          pwd = (if pe_password p = [] then ''x'' else pe_password p)
      in formatStratumCredentials prof walletOrAccount (pe_worker p) pwd)"

definition stratum_source :: "PoolEntry \<Rightarrow> SourceInfo" where
  "stratum_source p =
     (let adp = apply_policy_cfg (pe_policy p) (stratum_adapter_new ''stratum'')
      in if pe_endpoints p = [] then default_source
         else \<lparr>si_kind = Stratum_source, si_stratum = Some (runner_new adp True),
           si_user = fst (pool_credentials p), si_gbt = False\<rparr>)"

definition new_gbt_adapter :: GbtAdapter where
  "new_gbt_adapter = \<lparr>ga_name = ''gbt'', ga_q = [], ga_has_submitter = False\<rparr>"

text \<open>The sources, the one GBT runner, and the submitter \<^verbatim>\<open>main\<close> creates beside it.\<close>

fun init_sources :: "PoolEntry list \<Rightarrow> GbtRunner option \<Rightarrow> GbtSubmitter option \<Rightarrow>
    SourceInfo list \<times> GbtRunner option \<times> GbtSubmitter option" where
  "init_sources [] gbt subm = ([], gbt, subm)"
| "init_sources (p # ps) gbt subm =
     (if pe_profile p = ''gbt''
      then let (gbt, subm) = (case gbt of
                 Some g \<Rightarrow> (Some g, subm)
               | None \<Rightarrow> (Some (gbt_runner_new new_gbt_adapter p), if pe_rpc p \<noteq> None then Some submitter_new else subm));
               (srcs, res) = init_sources ps gbt subm
           in (default_source\<lparr>si_kind := Gbt_source, si_gbt := True\<rparr> # srcs, res)
      else let (srcs, res) = init_sources ps gbt subm in (stratum_source p # srcs, res))"

definition num_slots :: "AppConfig \<Rightarrow> nat" where
  "num_slots cfg = max 1 (length (ac_pools cfg))"

definition setup_sources :: "bool \<Rightarrow> AppConfig \<Rightarrow> SourceInfo list \<times> GbtRunner option \<times> GbtSubmitter option" where
  "setup_sources used_legacy cfg =
     (if used_legacy then (replicate (num_slots cfg) default_source, None, None)
      else let (srcs, res) = init_sources (ac_pools cfg) None None
           in (srcs @ replicate (num_slots cfg - length srcs) default_source, res))"

section \<open>The state shared with the callbacks\<close>

record Miner =
  mn_sources :: "SourceInfo list"
  mn_w2s :: "u64 \<rightharpoonup> u32"
  mn_files :: file_system
  mn_last_rotate :: u64
  mn_sent :: "json list"
  mn_router :: SubmitRouter

record Clock =
  ck_ms :: u64
  ck_epoch :: nat

section \<open>The log of pending submissions\<close>

definition file_exceeds_limit :: "file_system \<Rightarrow> string \<Rightarrow> u64 \<Rightarrow> bool" where
  "file_exceeds_limit fs path max_bytes =
     (case fs_files fs path of None \<Rightarrow> False | Some bs \<Rightarrow> int (length bs) \<ge> sint max_bytes)"

definition time_exceeded :: "u64 \<Rightarrow> u64 \<Rightarrow> u64 \<Rightarrow> bool" where
  "time_exceeded now_ms last_ms interval_sec \<longleftrightarrow> interval_sec > 0 \<and> now_ms - last_ms > interval_sec * 1000"

definition backup_path :: "string \<Rightarrow> nat \<Rightarrow> string" where
  "backup_path path epoch = path @ ''.'' @ dec_string epoch @ ''.bak''"

definition rotate_outbox_if_needed :: "OutboxCfg \<Rightarrow> Clock \<Rightarrow> bool \<Rightarrow> Miner \<Rightarrow> Miner" where
  "rotate_outbox_if_needed cfg ck force m =
     (if force \<or> file_exceeds_limit (mn_files m) (oc_path cfg) (oc_max_bytes cfg) \<or>
         time_exceeded (ck_ms ck) (mn_last_rotate m) (oc_rotate_interval_sec cfg)
      then m\<lparr>mn_files := snd (rotateFile (mn_files m) (oc_path cfg) (backup_path (oc_path cfg) (ck_epoch ck))),
             mn_last_rotate := ck_ms ck\<rparr>
      else m)"

definition set_outbox :: "Outbox \<Rightarrow> Miner \<Rightarrow> Miner" where
  "set_outbox ob m = m\<lparr>mn_router := (mn_router m)\<lparr>sr_outbox := Some ob\<rparr>\<rparr>"

definition startup_outbox :: "OutboxCfg \<Rightarrow> Clock \<Rightarrow> Miner \<Rightarrow> Miner" where
  "startup_outbox cfg ck m =
     (if oc_rotate_on_start cfg then rotate_outbox_if_needed cfg ck True m
      else set_outbox (snd (loadFromFile (mn_files m) (oc_path cfg) outbox_new)) m)"

section \<open>Submitting a share to its pool\<close>

definition zeros_hex :: "u8 \<Rightarrow> string" where
  "zeros_hex en2_size = replicate (unat en2_size * 2) (CHR ''0'')"

definition send_to_source :: "SubmitHit \<Rightarrow> Miner \<Rightarrow> Miner" where
  "send_to_source rec m =
     (case mn_w2s m (sh_work_id rec) of
        None \<Rightarrow> m
      | Some sid \<Rightarrow>
          if unat sid < length (mn_sources m) \<and> si_kind (mn_sources m ! unat sid) = Stratum_source
          then let src = mn_sources m ! unat sid
               in case si_stratum src of
                    None \<Rightarrow> m
                  | Some r \<Rightarrow>
                      let en2_hex = zeros_hex (sa_extranonce2_size (rn_adapter r));
                          m = (case submitFromHeader (si_user src) (sh_header80 rec) en2_hex (Some r) of
                                 None \<Rightarrow> m | Some msg \<Rightarrow> m\<lparr>mn_sent := mn_sent m @ [msg]\<rparr>)
                      in m\<lparr>mn_sources := (mn_sources m)[unat sid :=
                           src\<lparr>si_stratum := Some (setPendingSubmit (sh_work_id rec) (sh_nonce rec) r)\<rparr>]\<rparr>
          else m)"

definition submit_callback :: "OutboxCfg \<Rightarrow> Clock \<Rightarrow> SubmitHit \<Rightarrow> Miner \<Rightarrow> Miner" where
  "submit_callback cfg ck rec m =
     (let m = send_to_source rec m;
          ps = pending_of rec;
          m = rotate_outbox_if_needed cfg ck False m
      in m\<lparr>mn_files := snd (appendToFile (mn_files m) (oc_path cfg) ps)\<rparr>)"

text \<open>The router runs the callback while it routes: on the records it calls it with.\<close>

definition run_callbacks :: "OutboxCfg \<Rightarrow> Clock \<Rightarrow> SubmitRouter \<Rightarrow> Miner \<Rightarrow> Miner" where
  "run_callbacks cfg ck r m =
     fold (submit_callback cfg ck) (drop (length (sr_calls (mn_router m))) (sr_calls r)) (m\<lparr>mn_router := r\<rparr>)"

fun replay_loop :: "OutboxCfg \<Rightarrow> Clock \<Rightarrow> nat \<Rightarrow> Miner \<Rightarrow> Miner" where
  "replay_loop cfg ck 0 m = m"
| "replay_loop cfg ck (Suc n) m =
     (case sr_outbox (mn_router m) of
        None \<Rightarrow> m
      | Some ob \<Rightarrow>
          (case tryDequeue ob of
             (None, ob) \<Rightarrow> m
           | (Some s, ob) \<Rightarrow>
               let m = set_outbox ob m;
                   rec = \<lparr>sh_work_id = ps_work_id s, sh_nonce = ps_nonce s, sh_header80 = ps_header80 s\<rparr>
               in replay_loop cfg ck n (run_callbacks cfg ck (snd (routeRaw (mn_router m) rec)) m)))"

definition replay_pending :: "OutboxCfg \<Rightarrow> Clock \<Rightarrow> Miner \<Rightarrow> Miner" where
  "replay_pending cfg ck m = replay_loop cfg ck 128 m"

definition accepted_callback :: "OutboxCfg \<Rightarrow> u64 \<Rightarrow> u32 \<Rightarrow> Miner \<Rightarrow> Miner" where
  "accepted_callback cfg wid nonce m =
     (let m = m\<lparr>mn_router := router_onAccepted (mn_router m) wid nonce\<rparr>
      in case sr_outbox (mn_router m) of
           None \<Rightarrow> m
         | Some ob \<Rightarrow> m\<lparr>mn_files := snd (rewriteFile (mn_files m) (oc_path cfg) ob)\<rparr>)"

text \<open>\<^verbatim>\<open>main\<close> up to the loop, with the router's callback installed and nothing published yet.\<close>

definition miner_setup :: "AppConfig \<Rightarrow> Clock \<Rightarrow> file_system \<Rightarrow> Miner" where
  "miner_setup cfg ck fs =
     (let m = \<lparr>mn_sources = fst (setup_sources False cfg), mn_w2s = Map.empty, mn_files = fs, mn_last_rotate = 0,
            mn_sent = [], mn_router = \<lparr>sr_has_cb = True, sr_calls = [], sr_outbox = Some outbox_new\<rparr>\<rparr>;
          m = startup_outbox (ac_outbox cfg) ck m
      in replay_pending (ac_outbox cfg) ck m)"

section \<open>Lemmas\<close>

lemma rotate_frame:
  "\<exists>fs l. rotate_outbox_if_needed cfg ck force m = m\<lparr>mn_files := fs, mn_last_rotate := l\<rparr>"
proof (cases "force \<or> file_exceeds_limit (mn_files m) (oc_path cfg) (oc_max_bytes cfg) \<or>
    time_exceeded (ck_ms ck) (mn_last_rotate m) (oc_rotate_interval_sec cfg)")
  case False
  then have "rotate_outbox_if_needed cfg ck force m = m\<lparr>mn_files := mn_files m, mn_last_rotate := mn_last_rotate m\<rparr>"
    by (simp add: rotate_outbox_if_needed_def)
  then show ?thesis by blast
qed (simp only: rotate_outbox_if_needed_def if_True, blast)

lemma callback_frame:
  "\<exists>fs l. submit_callback cfg ck rec m = (send_to_source rec m)\<lparr>mn_files := fs, mn_last_rotate := l\<rparr>"
proof -
  obtain fs l where "rotate_outbox_if_needed cfg ck False (send_to_source rec m) =
      (send_to_source rec m)\<lparr>mn_files := fs, mn_last_rotate := l\<rparr>"
    using rotate_frame by blast
  then show ?thesis
    by (intro exI [of _ "snd (appendToFile fs (oc_path cfg) (pending_of rec))"] exI [of _ l]) (simp add: submit_callback_def Let_def)
qed

text \<open>A record whose key has been seen goes through the router without coming back to the queue.\<close>

lemma route_seen:
  assumes "sr_has_cb r" and "sr_outbox r = Some ob" and "outbox_key (pending_of rec) \<in> ob_seen ob"
  shows "snd (routeRaw r rec) = r\<lparr>sr_calls := sr_calls r @ [rec]\<rparr>"
  using assms by (cases r) (simp add: routeRaw_def router_enqueue_def router_call_cb_def enqueue_def)

lemma replay_unpublished:
  assumes "mn_w2s m = Map.empty" and "sr_has_cb (mn_router m)" and "sr_outbox (mn_router m) = Some ob"
    and "set (map outbox_key (ob_q ob)) \<subseteq> ob_seen ob"
  shows "mn_sent (replay_loop cfg ck n m) = mn_sent m \<and> mn_sources (replay_loop cfg ck n m) = mn_sources m \<and>
    sr_outbox (mn_router (replay_loop cfg ck n m)) = Some (ob\<lparr>ob_q := drop n (ob_q ob)\<rparr>)"
  using assms
proof (induction n arbitrary: m ob)
  case (Suc n)
  show ?case
  proof (cases "ob_q ob")
    case Nil
    then show ?thesis using Suc.prems by (simp add: tryDequeue_def)
  next
    case (Cons s q)
    let ?rec = "\<lparr>sh_work_id = ps_work_id s, sh_nonce = ps_nonce s, sh_header80 = ps_header80 s\<rparr>"
    let ?ob = "ob\<lparr>ob_q := q\<rparr>"
    let ?m = "set_outbox ?ob m"
    let ?r = "(mn_router ?m)\<lparr>sr_calls := sr_calls (mn_router ?m) @ [?rec]\<rparr>"
    have key: "outbox_key (pending_of ?rec) = outbox_key s" by (simp add: outbox_key_def pending_of_def)
    have "sr_has_cb (mn_router ?m)" "sr_outbox (mn_router ?m) = Some ?ob" "outbox_key (pending_of ?rec) \<in> ob_seen ?ob"
      using Suc.prems Cons key by (simp_all add: set_outbox_def)
    from route_seen [OF this] have "snd (routeRaw (mn_router ?m) ?rec) = ?r" .
    moreover have "send_to_source ?rec (?m\<lparr>mn_router := ?r\<rparr>) = ?m\<lparr>mn_router := ?r\<rparr>"
      using Suc.prems(1) by (simp add: send_to_source_def set_outbox_def)
    ultimately obtain fs l where step: "run_callbacks cfg ck (snd (routeRaw (mn_router ?m) ?rec)) ?m =
        ?m\<lparr>mn_router := ?r, mn_files := fs, mn_last_rotate := l\<rparr>"
      using callback_frame [of cfg ck ?rec "?m\<lparr>mn_router := ?r\<rparr>"] by (auto simp: run_callbacks_def)
    have "replay_loop cfg ck (Suc n) m = replay_loop cfg ck n (?m\<lparr>mn_router := ?r, mn_files := fs, mn_last_rotate := l\<rparr>)"
      using Suc.prems(3) Cons step by (simp add: tryDequeue_def Let_def)
    moreover have "mn_sent (?m\<lparr>mn_router := ?r, mn_files := fs, mn_last_rotate := l\<rparr>) = mn_sent m"
      "mn_sources (?m\<lparr>mn_router := ?r, mn_files := fs, mn_last_rotate := l\<rparr>) = mn_sources m"
      by (simp_all add: set_outbox_def)
    ultimately show ?thesis
      using Suc.IH [of "?m\<lparr>mn_router := ?r, mn_files := fs, mn_last_rotate := l\<rparr>" ?ob] Suc.prems Cons
      by (simp add: set_outbox_def)
  qed
qed simp

section \<open>Properties\<close>

text \<open>Replaying the log at start-up submits nothing. Whatever the log file holds, no pool is sent a
  message, because the table of work ids is still empty then; and the first 128 records leave the queue
  for good: their keys stay marked as seen, so routing them does not put them back.\<close>

theorem replay_submits_nothing:
  assumes "\<not> oc_rotate_on_start (ac_outbox cfg)"
    and "ob = snd (loadFromFile fs (oc_path (ac_outbox cfg)) outbox_new)"
  shows "mn_sent (miner_setup cfg ck fs) = [] \<and>
    mn_sources (miner_setup cfg ck fs) = fst (setup_sources False cfg) \<and>
    sr_outbox (mn_router (miner_setup cfg ck fs)) = Some (ob\<lparr>ob_q := drop 128 (ob_q ob)\<rparr>)"
proof -
  let ?m0 = "\<lparr>mn_sources = fst (setup_sources False cfg), mn_w2s = Map.empty, mn_files = fs, mn_last_rotate = 0,
    mn_sent = [], mn_router = \<lparr>sr_has_cb = True, sr_calls = [], sr_outbox = Some outbox_new\<rparr>\<rparr>"
  let ?m = "set_outbox ob ?m0"
  have "outbox_ok ob" using loadFromFile_ok [OF outbox_new_ok] assms(2) by simp
  then have keys: "set (map outbox_key (ob_q ob)) \<subseteq> ob_seen ob" by (simp add: outbox_ok_def)
  have m: "mn_w2s ?m = Map.empty" "sr_has_cb (mn_router ?m)" "sr_outbox (mn_router ?m) = Some ob"
    "mn_sent ?m = []" "mn_sources ?m = fst (setup_sources False cfg)"
    by (simp_all add: set_outbox_def)
  have "miner_setup cfg ck fs = replay_loop (ac_outbox cfg) ck 128 ?m"
    using assms by (simp add: miner_setup_def Let_def startup_outbox_def replay_pending_def)
  then show ?thesis using replay_unpublished [OF m(1-3) keys, of "ac_outbox cfg" ck 128] m(4,5) by simp
qed

theorem replay_submits_nothing_witness:
  "mn_sent (miner_setup default_config \<lparr>ck_ms = 5, ck_epoch = 6\<rparr>
     (sample_fs\<lparr>fs_files := [''logs/outbox.bin'' \<mapsto> enc_record sample_submit]\<rparr>)) = []"
  by (rule conjunct1, rule replay_submits_nothing [OF _ refl]) (simp add: default_config_def)

text \<open>The first share after the start moves the whole log away. With rotation by time on and the
  interval shorter than the time since 1970, the first call of the callback renames the log to the
  backup, because the time of the last rotation starts at 0; what is left is the new record alone.\<close>

theorem first_share_rotates:
  assumes "oc_rotate_interval_sec cfg > 0" and "ck_ms ck > oc_rotate_interval_sec cfg * 1000"
    and "mn_last_rotate m = 0" and "mn_w2s m (sh_work_id rec) = None"
    and "fs_files (mn_files m) (oc_path cfg) = Some log" and "backup = backup_path (oc_path cfg) (ck_epoch ck)"
    and "fs_can_rename (mn_files m) (oc_path cfg) backup" and "fs_can_write (mn_files m) (oc_path cfg)"
  shows "fs_files (mn_files (submit_callback cfg ck rec m)) backup = Some log \<and>
    fs_files (mn_files (submit_callback cfg ck rec m)) (oc_path cfg) = Some (enc_record (pending_of rec))"
proof -
  have ne: "backup \<noteq> oc_path cfg" by (simp add: assms(6) backup_path_def)
  have "send_to_source rec m = m" using assms(4) by (simp add: send_to_source_def)
  then have "mn_files (submit_callback cfg ck rec m) =
      snd (appendToFile (snd (rotateFile (mn_files m) (oc_path cfg) backup)) (oc_path cfg) (pending_of rec))"
    using assms(1-3,6) by (simp add: submit_callback_def rotate_outbox_if_needed_def time_exceeded_def Let_def)
  also have "snd (rotateFile (mn_files m) (oc_path cfg) backup) =
      (mn_files m)\<lparr>fs_files := ((fs_files (mn_files m))(oc_path cfg := None))(backup \<mapsto> log)\<rparr>"
    using assms(5,7) by (simp add: rotateFile_def fs_rename_def)
  finally show ?thesis using ne assms(8)
    by (simp add: appendToFile_def open_append_def write_record_eq write_bytes_def)
qed

theorem first_share_rotates_witness:
  "fs_files (mn_files (submit_callback \<lparr>oc_path = ''l'', oc_max_bytes = 9, oc_rotate_on_start = False, oc_rotate_interval_sec = 1\<rparr>
      \<lparr>ck_ms = 5000, ck_epoch = 5\<rparr> \<lparr>sh_work_id = 1, sh_nonce = 2, sh_header80 = replicate 80 0\<rparr>
      \<lparr>mn_sources = [], mn_w2s = Map.empty, mn_files = sample_fs\<lparr>fs_files := [''l'' \<mapsto> [1, 2]]\<rparr>, mn_last_rotate = 0,
        mn_sent = [], mn_router = empty_router\<rparr>)) (backup_path ''l'' 5) = Some [1, 2]"
  using first_share_rotates [of "\<lparr>oc_path = ''l'', oc_max_bytes = 9, oc_rotate_on_start = False, oc_rotate_interval_sec = 1\<rparr>"
      "\<lparr>ck_ms = 5000, ck_epoch = 5\<rparr>"
      "\<lparr>mn_sources = [], mn_w2s = Map.empty, mn_files = sample_fs\<lparr>fs_files := [''l'' \<mapsto> [1, 2]]\<rparr>, mn_last_rotate = 0,
        mn_sent = [], mn_router = empty_router\<rparr>"
      "\<lparr>sh_work_id = 1, sh_nonce = 2, sh_header80 = replicate 80 0\<rparr>" "[1, 2]" "backup_path ''l'' 5"]
  by (simp add: sample_fs_def)

end
