(* ===== verification/Hit_Ring.thy ===== *)
theory Hit_Ring
  imports Miner_Prelude
begin

text \<open>
  \<^verbatim>\<open>src/cuda/hit_ring.h\<close>: the host ring of hits. It overwrites its oldest entry when it is full. The
  abstract specification is a list of at most \<open>capacity\<close> hits; the locale \<open>bounded_queue\<close> is the
  contract a producer and a consumer rely on, and the ring buffer interprets it. A ring of capacity 0
  writes outside its empty buffer, which \<open>ring_push\<close> reports as an error.
\<close>

record HitRecord =
  hr_work_id :: u64
  hr_nonce :: u32

record HitRingBuffer =
  rb_capacity :: nat
  rb_buffer :: "HitRecord list"
  rb_head :: nat
  rb_tail :: nat
  rb_size :: nat

definition ring_new :: "nat \<Rightarrow> HitRingBuffer" where
  "ring_new capacity = \<lparr>rb_capacity = capacity, rb_buffer = replicate capacity \<lparr>hr_work_id = 0, hr_nonce = 0\<rparr>,
     rb_head = 0, rb_tail = 0, rb_size = 0\<rparr>"

definition ring_push :: "HitRingBuffer \<Rightarrow> HitRecord \<Rightarrow> (bool \<times> HitRingBuffer) result" where
  "ring_push r hit =
     (let overwrote = (rb_size r = rb_capacity r)
      in if rb_tail r \<ge> length (rb_buffer r) then Inl Out_of_bounds
         else if rb_capacity r = 0 then Inl Division_by_zero
         else let r = r\<lparr>rb_buffer := (rb_buffer r)[rb_tail r := hit]\<rparr>;
                  r = r\<lparr>rb_tail := (rb_tail r + 1) mod rb_capacity r\<rparr>;
                  r = (if overwrote then r\<lparr>rb_head := (rb_head r + 1) mod rb_capacity r\<rparr>
                       else r\<lparr>rb_size := rb_size r + 1\<rparr>)
              in Inr (overwrote, r))"

definition ring_tryPop :: "HitRingBuffer \<Rightarrow> (HitRecord option \<times> HitRingBuffer) result" where
  "ring_tryPop r =
     (if rb_size r = 0 then Inr (None, r)
      else if rb_head r \<ge> length (rb_buffer r) then Inl Out_of_bounds
      else if rb_capacity r = 0 then Inl Division_by_zero
      else let out = rb_buffer r ! rb_head r;
               r = r\<lparr>rb_head := (rb_head r + 1) mod rb_capacity r\<rparr>;
               r = r\<lparr>rb_size := rb_size r - 1\<rparr>
           in Inr (Some out, r))"

definition ring_size :: "HitRingBuffer \<Rightarrow> nat" where
  "ring_size r = rb_size r"

definition ring_empty :: "HitRingBuffer \<Rightarrow> bool" where
  "ring_empty r = (ring_size r = 0)"

section \<open>Abstraction\<close>

definition ring_abs :: "HitRingBuffer \<Rightarrow> HitRecord list" where
  "ring_abs r = map (\<lambda>i. rb_buffer r ! ((rb_head r + i) mod rb_capacity r)) [0..<rb_size r]"

definition ring_ok :: "HitRingBuffer \<Rightarrow> bool" where
  "ring_ok r \<longleftrightarrow> 0 < rb_capacity r \<and> length (rb_buffer r) = rb_capacity r \<and>
     rb_head r < rb_capacity r \<and> rb_size r \<le> rb_capacity r \<and>
     rb_tail r = (rb_head r + rb_size r) mod rb_capacity r"

lemma mod_add_inj:
  fixes h i j c :: nat
  assumes "(h + i) mod c = (h + j) mod c" and "i < c" and "j < c"
  shows "i = j"
proof -
  have *: "i = j" if "(h + i) mod c = (h + j) mod c" "i < c" "j < c" "i \<le> j" for i j :: nat
  proof -
    have "c dvd (h + j) - (h + i)"
      using that(1,4) by (metis mod_eq_dvd_iff_nat add_le_cancel_left)
    then have "c dvd j - i" by simp
    then show ?thesis using that(3,4) by (auto dest: dvd_imp_le)
  qed
  from assms * [of i j] * [of j i] show ?thesis by (cases "i \<le> j") auto
qed

text \<open>The abstract operation: append, and lose the oldest entry when there are too many.\<close>

definition bounded_push :: "nat \<Rightarrow> HitRecord list \<Rightarrow> HitRecord \<Rightarrow> HitRecord list" where
  "bounded_push n xs x = drop (length xs + 1 - n) (xs @ [x])"

lemma ring_push_ok:
  assumes "ring_ok r"
  shows "\<exists>r'. ring_push r hit = Inr (rb_size r = rb_capacity r, r') \<and> ring_ok r' \<and>
    rb_capacity r' = rb_capacity r \<and> ring_abs r' = bounded_push (rb_capacity r) (ring_abs r) hit"
proof -
  let ?c = "rb_capacity r" and ?h = "rb_head r" and ?s = "rb_size r" and ?t = "rb_tail r"
  let ?b = "(rb_buffer r)[?t := hit]"
  have inv: "0 < ?c" "length (rb_buffer r) = ?c" "?h < ?c" "?s \<le> ?c" "?t = (?h + ?s) mod ?c"
    using assms by (simp_all add: ring_ok_def)
  have t: "?t < ?c" using inv by simp
  show ?thesis
  proof (cases "?s = ?c")
    case False
    then have s: "?s < ?c" using inv by simp
    define r' where "r' = r\<lparr>rb_buffer := ?b, rb_tail := (?t + 1) mod ?c, rb_size := ?s + 1\<rparr>"
    have push: "ring_push r hit = Inr (False, r')"
      using inv(1,2) t False by (simp add: ring_push_def r'_def Let_def)
    have ok: "ring_ok r'"
      using inv s by (simp add: ring_ok_def r'_def mod_Suc_eq)
    have old: "?b ! ((?h + i) mod ?c) = rb_buffer r ! ((?h + i) mod ?c)" if "i < ?s" for i
    proof -
      have "?t \<noteq> (?h + i) mod ?c" using mod_add_inj [of ?h i ?c ?s] that s inv(5) by auto
      then show ?thesis by simp
    qed
    have "ring_abs r' = map (\<lambda>i. ?b ! ((?h + i) mod ?c)) [0..<?s] @ [?b ! ((?h + ?s) mod ?c)]"
      by (simp add: ring_abs_def r'_def)
    also have "map (\<lambda>i. ?b ! ((?h + i) mod ?c)) [0..<?s] = ring_abs r"
      by (simp add: ring_abs_def old)
    also have "?b ! ((?h + ?s) mod ?c) = hit" using inv t by (metis nth_list_update_eq)
    finally have "ring_abs r' = bounded_push ?c (ring_abs r) hit"
      using s by (simp add: bounded_push_def ring_abs_def)
    with push ok False show ?thesis by (simp add: r'_def)
  next
    case True
    define r' where "r' = r\<lparr>rb_buffer := ?b, rb_tail := (?t + 1) mod ?c, rb_head := (?h + 1) mod ?c\<rparr>"
    have push: "ring_push r hit = Inr (True, r')"
      using inv(1,2) t True by (simp add: ring_push_def r'_def Let_def)
    have th: "?t = ?h" using inv True by simp
    have ok: "ring_ok r'"
      using inv True th by (simp add: ring_ok_def r'_def)
    have idx: "((?h + 1) mod ?c + i) mod ?c = (?h + (i + 1)) mod ?c" for i
    proof -
      have "((?h + 1) mod ?c + i) mod ?c = (?h + 1 + i) mod ?c" by (rule mod_add_left_eq)
      then show ?thesis by (simp add: ac_simps)
    qed
    have "ring_abs r' = bounded_push ?c (ring_abs r) hit"
    proof (rule nth_equalityI)
      show "length (ring_abs r') = length (bounded_push ?c (ring_abs r) hit)"
        using True by (simp add: ring_abs_def bounded_push_def r'_def)
      fix i assume "i < length (ring_abs r')"
      then have i: "i < ?c" using True by (simp add: ring_abs_def r'_def)
      have lhs: "ring_abs r' ! i = ?b ! ((?h + (i + 1)) mod ?c)"
        using i True idx [of i] by (simp add: ring_abs_def r'_def)
      have len: "length (ring_abs r) = ?c" using True by (simp add: ring_abs_def)
      then have "bounded_push ?c (ring_abs r) hit = drop 1 (ring_abs r @ [hit])"
        unfolding bounded_push_def by (simp del: drop_append)
      moreover have "drop 1 (ring_abs r @ [hit]) ! i = (ring_abs r @ [hit]) ! (1 + i)"
        by (rule nth_drop) simp
      ultimately have rhs: "bounded_push ?c (ring_abs r) hit ! i = (ring_abs r @ [hit]) ! (i + 1)"
        by (simp only: add.commute)
      show "ring_abs r' ! i = bounded_push ?c (ring_abs r) hit ! i"
      proof (cases "i + 1 < ?c")
        case True2: True
        have "?t \<noteq> (?h + (i + 1)) mod ?c"
          using mod_add_inj [of ?h "i + 1" ?c 0] True2 inv th by auto
        then show ?thesis
          unfolding lhs rhs using True True2 by (simp add: ring_abs_def nth_append)
      next
        case False
        then have "i + 1 = ?c" using i by simp
        then show ?thesis
          unfolding lhs rhs using True th inv by (simp add: ring_abs_def nth_append)
      qed
    qed
    with push ok True show ?thesis by (simp add: r'_def)
  qed
qed

lemma ring_pop_ok:
  assumes "ring_ok r"
  shows "case ring_abs r of
      [] \<Rightarrow> ring_tryPop r = Inr (None, r)
    | x # xs \<Rightarrow> \<exists>r'. ring_tryPop r = Inr (Some x, r') \<and> ring_ok r' \<and> rb_capacity r' = rb_capacity r \<and>
        ring_abs r' = xs"
proof (cases "rb_size r")
  case 0
  then show ?thesis by (simp add: ring_abs_def ring_tryPop_def)
next
  case (Suc n)
  let ?c = "rb_capacity r" and ?h = "rb_head r"
  have inv: "0 < ?c" "length (rb_buffer r) = ?c" "?h < ?c" "Suc n \<le> ?c" "rb_tail r = (?h + Suc n) mod ?c"
    using assms Suc by (simp_all add: ring_ok_def)
  define r' where "r' = r\<lparr>rb_head := (?h + 1) mod ?c, rb_size := n\<rparr>"
  have "ring_abs r = rb_buffer r ! ?h # map (\<lambda>i. rb_buffer r ! ((?h + Suc i) mod ?c)) [0..<n]"
    unfolding ring_abs_def Suc upt_conv_Cons [OF zero_less_Suc] map_Suc_upt [symmetric] using inv by simp
  moreover have "ring_abs r' = map (\<lambda>i. rb_buffer r ! ((?h + Suc i) mod ?c)) [0..<n]"
    by (simp add: ring_abs_def r'_def mod_add_left_eq)
  moreover have "ring_tryPop r = Inr (Some (rb_buffer r ! ?h), r')"
    using Suc inv by (simp add: ring_tryPop_def r'_def Let_def)
  moreover have "ring_ok r'"
    using inv by (simp add: ring_ok_def r'_def mod_add_left_eq)
  ultimately show ?thesis by (simp add: r'_def)
qed

lemma ring_new_ok: "0 < n \<Longrightarrow> ring_ok (ring_new n) \<and> ring_abs (ring_new n) = [] \<and> rb_capacity (ring_new n) = n"
  by (simp add: ring_ok_def ring_new_def ring_abs_def)

section \<open>The contract\<close>

text \<open>A program of pushes and pops, run on an implementation and on the specification.\<close>

datatype ring_op = Push HitRecord | Pop

fun run_ops :: "('s \<Rightarrow> HitRecord \<Rightarrow> (bool \<times> 's) result) \<Rightarrow> ('s \<Rightarrow> (HitRecord option \<times> 's) result) \<Rightarrow>
    's \<Rightarrow> ring_op list \<Rightarrow> (HitRecord option list \<times> 's) result" where
  "run_ops push pop s [] = Inr ([], s)"
| "run_ops push pop s (Push x # ops) =
     (case push s x of Inl e \<Rightarrow> Inl e | Inr (b, s') \<Rightarrow> run_ops push pop s' ops)"
| "run_ops push pop s (Pop # ops) =
     (case pop s of Inl e \<Rightarrow> Inl e
      | Inr (x, s') \<Rightarrow> (case run_ops push pop s' ops of Inl e \<Rightarrow> Inl e | Inr (xs, s'') \<Rightarrow> Inr (x # xs, s'')))"

fun spec_ops :: "nat \<Rightarrow> HitRecord list \<Rightarrow> ring_op list \<Rightarrow> HitRecord option list \<times> HitRecord list" where
  "spec_ops n q [] = ([], q)"
| "spec_ops n q (Push x # ops) = spec_ops n (bounded_push n q x) ops"
| "spec_ops n [] (Pop # ops) = (case spec_ops n [] ops of (xs, q') \<Rightarrow> (None # xs, q'))"
| "spec_ops n (y # q) (Pop # ops) = (case spec_ops n q ops of (xs, q') \<Rightarrow> (Some y # xs, q'))"

locale bounded_queue =
  fixes push :: "'s \<Rightarrow> HitRecord \<Rightarrow> (bool \<times> 's) result"
    and pop :: "'s \<Rightarrow> (HitRecord option \<times> 's) result"
    and contents :: "'s \<Rightarrow> HitRecord list" and ok :: "'s \<Rightarrow> bool" and cap :: "'s \<Rightarrow> nat"
  assumes push_ok: "ok s \<Longrightarrow> \<exists>b s'. push s x = Inr (b, s') \<and> ok s' \<and> cap s' = cap s \<and>
      contents s' = bounded_push (cap s) (contents s) x"
    and pop_empty: "ok s \<Longrightarrow> contents s = [] \<Longrightarrow> pop s = Inr (None, s)"
    and pop_head: "ok s \<Longrightarrow> contents s = x # xs \<Longrightarrow>
      \<exists>s'. pop s = Inr (Some x, s') \<and> ok s' \<and> cap s' = cap s \<and> contents s' = xs"
    and bounded: "ok s \<Longrightarrow> length (contents s) \<le> cap s \<and> 0 < cap s"
begin

lemma run_refines_spec:
  "ok s \<Longrightarrow> \<exists>s'. run_ops push pop s ops = Inr (fst (spec_ops (cap s) (contents s) ops), s') \<and> ok s' \<and>
     cap s' = cap s \<and> contents s' = snd (spec_ops (cap s) (contents s) ops)"
proof (induction ops arbitrary: s)
  case (Cons oper ops)
  show ?case
  proof (cases oper)
    case (Push x)
    obtain b t where t: "push s x = Inr (b, t)" "ok t" "cap t = cap s"
      "contents t = bounded_push (cap s) (contents s) x" using push_ok [OF Cons.prems] by blast
    from Cons.IH [OF t(2)] show ?thesis using t Push by auto
  next
    case Pop
    show ?thesis
    proof (cases "contents s")
      case Nil
      from Cons.IH [OF Cons.prems] show ?thesis
        using pop_empty [OF Cons.prems Nil] Nil Pop by (auto split: prod.splits)
    next
      case (Cons y q)
      obtain t where t: "pop s = Inr (Some y, t)" "ok t" "cap t = cap s" "contents t = q"
        using pop_head [OF Cons.prems Cons] by blast
      from Cons.IH [OF t(2)] show ?thesis using t Pop Cons by (auto split: prod.splits)
    qed
  qed
qed simp

end

interpretation ring: bounded_queue ring_push ring_tryPop ring_abs ring_ok rb_capacity
proof
  fix s x xs
  show "ring_ok s \<Longrightarrow> \<exists>b s'. ring_push s x = Inr (b, s') \<and> ring_ok s' \<and> rb_capacity s' = rb_capacity s \<and>
      ring_abs s' = bounded_push (rb_capacity s) (ring_abs s) x"
    using ring_push_ok [of s x] by blast
  show "ring_ok s \<Longrightarrow> ring_abs s = [] \<Longrightarrow> ring_tryPop s = Inr (None, s)"
    using ring_pop_ok [of s] by simp
  show "ring_ok s \<Longrightarrow> ring_abs s = x # xs \<Longrightarrow>
      \<exists>s'. ring_tryPop s = Inr (Some x, s') \<and> ring_ok s' \<and> rb_capacity s' = rb_capacity s \<and> ring_abs s' = xs"
    using ring_pop_ok [of s] by simp
  show "ring_ok s \<Longrightarrow> length (ring_abs s) \<le> rb_capacity s \<and> 0 < rb_capacity s"
    by (simp add: ring_ok_def ring_abs_def)
qed

section \<open>Properties\<close>

text \<open>C23: the ring is a bounded queue. For every positive capacity and every program of pushes and pops,
  the ring buffer raises no error, its pops return what the pops of a list bounded to the capacity
  return, and it ends representing the same list: first in, first out, the oldest lost when full.\<close>

theorem hit_ring_refines_queue:
  assumes "0 < capacity"
  shows "\<exists>r. run_ops ring_push ring_tryPop (ring_new capacity) ops = Inr (fst (spec_ops capacity [] ops), r) \<and>
    ring_abs r = snd (spec_ops capacity [] ops) \<and> length (ring_abs r) = ring_size r \<and> ring_size r \<le> capacity"
proof -
  obtain r where r: "run_ops ring_push ring_tryPop (ring_new capacity) ops = Inr (fst (spec_ops capacity [] ops), r)"
    "ring_ok r" "rb_capacity r = capacity" "ring_abs r = snd (spec_ops capacity [] ops)"
    using ring.run_refines_spec [of "ring_new capacity" ops] ring_new_ok [OF assms] by metis
  moreover have "length (ring_abs r) = ring_size r" by (simp add: ring_abs_def ring_size_def)
  ultimately show ?thesis by (intro exI [of _ r]) (simp add: ring_ok_def ring_size_def)
qed

theorem hit_ring_refines_queue_witness:
  "\<exists>r. run_ops ring_push ring_tryPop (ring_new 1)
     [Push \<lparr>hr_work_id = 1, hr_nonce = 1\<rparr>, Push \<lparr>hr_work_id = 2, hr_nonce = 2\<rparr>, Pop] =
       Inr ([Some \<lparr>hr_work_id = 2, hr_nonce = 2\<rparr>], r)"
  using hit_ring_refines_queue [of 1 "[Push \<lparr>hr_work_id = 1, hr_nonce = 1\<rparr>,
     Push \<lparr>hr_work_id = 2, hr_nonce = 2\<rparr>, Pop]"]
  by (auto simp: bounded_push_def)

text \<open>The flag of \<^verbatim>\<open>push\<close> says exactly when a hit was lost, and a ring of capacity 0, which nothing
  in the class forbids, writes outside its buffer on the first push.\<close>

theorem hit_ring_overwrite_flag:
  assumes "ring_ok r"
  shows "(\<exists>r'. ring_push r hit = Inr (length (ring_abs r) = rb_capacity r, r') \<and>
      (length (ring_abs r) < rb_capacity r \<longrightarrow> ring_abs r' = ring_abs r @ [hit]) \<and>
      (length (ring_abs r) = rb_capacity r \<longrightarrow> ring_abs r' = tl (ring_abs r) @ [hit])) \<and>
    ring_push (ring_new 0) hit = Inl Out_of_bounds"
proof -
  have l: "length (ring_abs r) = rb_size r" by (simp add: ring_abs_def)
  obtain r' where r': "ring_push r hit = Inr (rb_size r = rb_capacity r, r')"
    "ring_abs r' = bounded_push (rb_capacity r) (ring_abs r) hit"
    using ring_push_ok [OF assms] by blast
  have "0 < rb_capacity r" using assms by (simp add: ring_ok_def)
  then have "length (ring_abs r) = rb_capacity r \<longrightarrow> ring_abs r' = tl (ring_abs r) @ [hit]"
    using r'(2) by (cases "ring_abs r") (simp_all add: bounded_push_def)
  moreover have "length (ring_abs r) < rb_capacity r \<longrightarrow> ring_abs r' = ring_abs r @ [hit]"
    using r'(2) by (simp add: bounded_push_def)
  ultimately show ?thesis using r'(1) l by (auto simp: ring_push_def ring_new_def)
qed

theorem hit_ring_overwrite_flag_witness:
  "\<exists>r'. ring_push (ring_new 2) \<lparr>hr_work_id = 1, hr_nonce = 1\<rparr> = Inr (False, r')"
  using hit_ring_overwrite_flag [of "ring_new 2" "\<lparr>hr_work_id = 1, hr_nonce = 1\<rparr>"] ring_new_ok [of 2]
  by auto

end
