(* ===== verification/Device_Hits.thy ===== *)
theory Device_Hits
  imports Hit_Ring
begin

text \<open>
  The device-side hit ring of \<^verbatim>\<open>src/cuda/engine.cu\<close>: the device symbols \<^verbatim>\<open>g_hit_buf\<close>, \<^verbatim>\<open>g_hit_cap\<close>,
  \<^verbatim>\<open>g_hit_write_idx\<close>, the host variables that mirror them, the kernels that write hits and the host
  function that drains them. An \<^verbatim>\<open>atomicInc\<close> with bound \<open>2 ^ 32 - 1\<close> or an \<^verbatim>\<open>atomicAdd\<close> is an addition
  modulo \<open>2 ^ 32\<close>. A device pointer is null, dangling (freed) or points to a
  buffer, a list of the capacity's length; an access outside a buffer is the error \<open>Out_of_bounds\<close>. Calls of the CUDA runtime (allocation, copies, launches)
  succeed. A one-dimensional launch whose threads each act on their own job is the fold of the
  thread's body over the jobs in the order their atomic increments take effect.
\<close>

datatype device_buffer = Null | Dangling | Buffer "HitRecord list"

record device_ring =
  g_hit_write_idx :: u32
  g_hit_buf :: device_buffer
  g_hit_cap :: u32
  s_device_hit_buf :: bool
  s_device_hit_cap :: u32
  s_device_drain_offset :: u32
  g_block_flush_count :: u32
  g_sm_flush_counts :: "u32 list"

definition device_ring_start :: device_ring where
  "device_ring_start = \<lparr>g_hit_write_idx = 0, g_hit_buf = Null, g_hit_cap = 0,
     s_device_hit_buf = False, s_device_hit_cap = 0,
     s_device_drain_offset = 0, g_block_flush_count = 0, g_sm_flush_counts = replicate 128 0\<rparr>"

definition kernel_init_hit_buf :: "HitRecord list \<Rightarrow> u32 \<Rightarrow> device_ring \<Rightarrow> device_ring" where
  "kernel_init_hit_buf buf cap d = d\<lparr>g_hit_buf := Buffer buf, g_hit_cap := cap, g_hit_write_idx := 0\<rparr>"

text \<open>The contents of a fresh \<^verbatim>\<open>cudaMalloc\<close> are the argument \<open>garbage\<close>.\<close>

definition initDeviceHitBuffer :: "(nat \<Rightarrow> HitRecord) \<Rightarrow> u32 \<Rightarrow> device_ring \<Rightarrow> device_ring" where
  "initDeviceHitBuffer garbage capacity d =
     (let capacity = (if capacity = 0 then 1 else capacity);
          d = d\<lparr>s_device_hit_cap := capacity, s_device_hit_buf := True\<rparr>;
          buf = map garbage [0..<unat capacity];
          d = d\<lparr>g_hit_buf := Buffer buf, g_hit_cap := capacity, g_hit_write_idx := 0\<rparr>;
          d = kernel_init_hit_buf buf capacity d
      in d\<lparr>s_device_drain_offset := 0\<rparr>)"

text \<open>\<^verbatim>\<open>freeDeviceHitBuffer\<close> clears the host variables only: the device symbol keeps pointing at the
  freed memory.\<close>

definition freeDeviceHitBuffer :: "device_ring \<Rightarrow> device_ring" where
  "freeDeviceHitBuffer d =
     d\<lparr>g_hit_buf := (if s_device_hit_buf d then Dangling else g_hit_buf d), s_device_hit_buf := False,
       s_device_hit_cap := 0\<rparr>"

text \<open>A hit written through the global ring: \<^verbatim>\<open>idx = atomicInc(&g_hit_write_idx)\<close>, then the store.\<close>

definition global_store :: "u32 \<Rightarrow> HitRecord \<Rightarrow> device_ring \<Rightarrow> device_ring result" where
  "global_store slot hit d =
     (case g_hit_buf d of
        Null \<Rightarrow> Inl Out_of_bounds
      | Dangling \<Rightarrow> Inl Out_of_bounds
      | Buffer buf \<Rightarrow> if unat slot < length buf then Inr (d\<lparr>g_hit_buf := Buffer (buf[unat slot := hit])\<rparr>)
                      else Inl Out_of_bounds)"

definition global_push :: "HitRecord \<Rightarrow> device_ring \<Rightarrow> device_ring result" where
  "global_push hit d =
     (let idx = g_hit_write_idx d;
          d = d\<lparr>g_hit_write_idx := idx + 1\<rparr>;
          slot = (if g_hit_cap d = 0 then 0 else idx mod g_hit_cap d)
      in global_store slot hit d)"

text \<open>The body of \<^verbatim>\<open>kernel_push_hits\<close> for job \<open>j\<close> (its thread 0 of block 0).\<close>

definition kernel_push_hits :: "u64 list \<Rightarrow> u32 \<Rightarrow> u32 \<Rightarrow> u32 \<Rightarrow> device_ring \<Rightarrow> device_ring result" where
  "kernel_push_hits work_ids num_jobs nonce_base j d =
     (if j \<ge> num_jobs then Inr d
      else let idx = g_hit_write_idx d;
               d = d\<lparr>g_hit_write_idx := idx + 1\<rparr>;
               slot = (if g_hit_cap d = 0 then 0 else idx mod g_hit_cap d)
           in if g_hit_buf d \<noteq> Null \<and> g_hit_cap d \<noteq> 0
              then global_store slot \<lparr>hr_work_id = work_ids ! unat j, hr_nonce = nonce_base + j\<rparr> d
              else Inr d)"

fun fold_result :: "('a \<Rightarrow> 's \<Rightarrow> 's result) \<Rightarrow> 'a list \<Rightarrow> 's \<Rightarrow> 's result" where
  "fold_result f [] s = Inr s"
| "fold_result f (x # xs) s = (case f x s of Inl e \<Rightarrow> Inl e | Inr s' \<Rightarrow> fold_result f xs s')"

text \<open>\<open>order\<close> is the order in which the blocks \<^verbatim>\<open>(0, j)\<close> of the grid increment the index.\<close>

definition launchPushHitsToDeviceRing ::
    "u64 list \<Rightarrow> u32 \<Rightarrow> u32 \<Rightarrow> u32 list \<Rightarrow> device_ring \<Rightarrow> (bool \<times> device_ring) result" where
  "launchPushHitsToDeviceRing work_ids num_jobs nonce_base order d =
     (if \<not> s_device_hit_buf d \<or> s_device_hit_cap d = 0 then Inr (False, d)
      else if num_jobs = 0 then Inr (True, d)
      else case fold_result (kernel_push_hits work_ids num_jobs nonce_base) order d of
             Inl e \<Rightarrow> Inl e
           | Inr d' \<Rightarrow> Inr (True, d'))"

text \<open>\<^verbatim>\<open>kernel_write_hits\<close> writes one record per job into its own array, at the job's index.\<close>

definition kernel_write_hits :: "u64 list \<Rightarrow> u32 \<Rightarrow> u32 \<Rightarrow> u32 \<Rightarrow> HitRecord list \<Rightarrow> HitRecord list result" where
  "kernel_write_hits work_ids num_jobs nonce_base j out_hits =
     (if j \<ge> num_jobs then Inr out_hits
      else if unat j < length out_hits
      then Inr (out_hits[unat j := \<lparr>hr_work_id = work_ids ! unat j, hr_nonce = nonce_base + j\<rparr>])
      else Inl Out_of_bounds)"

definition launchWriteHitsDemo ::
    "(nat \<Rightarrow> HitRecord) \<Rightarrow> u64 list \<Rightarrow> u32 \<Rightarrow> u32 \<Rightarrow> u32 list \<Rightarrow> (bool \<times> HitRecord list) result" where
  "launchWriteHitsDemo garbage work_ids num_jobs nonce_base order =
     (if num_jobs = 0 then Inr (False, [])
      else case fold_result (kernel_write_hits work_ids num_jobs nonce_base) order
                  (map garbage [0..<unat num_jobs]) of
             Inl e \<Rightarrow> Inl e
           | Inr hits \<Rightarrow> Inr (True, hits))"

text \<open>\<^verbatim>\<open>cudaMemcpy(dst, buf + start, n)\<close> from the device buffer\<close>

definition copy_from :: "HitRecord list \<Rightarrow> nat \<Rightarrow> nat \<Rightarrow> HitRecord list result" where
  "copy_from buf start n = (if start + n \<le> length buf then Inr (take n (drop start buf)) else Inl Out_of_bounds)"

text \<open>The host pointer is the buffer the device symbol points to; without one nothing is drained.\<close>

definition buffer_contents :: "device_ring \<Rightarrow> HitRecord list" where
  "buffer_contents d = (case g_hit_buf d of Buffer buf \<Rightarrow> buf | _ \<Rightarrow> [])"

definition drainDeviceHits :: "u32 \<Rightarrow> device_ring \<Rightarrow> (bool \<times> HitRecord list \<times> device_ring) result" where
  "drainDeviceHits max_out d =
     (if \<not> s_device_hit_buf d \<or> s_device_hit_cap d = 0 then Inr (False, [], d)
      else let buf = buffer_contents d;
               write_idx = g_hit_write_idx d;
               offset = s_device_drain_offset d;
               available = (if write_idx \<ge> offset then write_idx - offset
                            else 0xFFFFFFFF - offset + 1 + write_idx)
           in if available = 0 then Inr (True, [], d)
              else let to_copy = (if available > max_out then max_out else available);
                       start = offset mod s_device_hit_cap d;
                       first = (if to_copy < s_device_hit_cap d - start then to_copy
                                else s_device_hit_cap d - start)
                   in case (if first > 0 then copy_from buf (unat start) (unat first) else Inr []) of
                        Inl e \<Rightarrow> Inl e
                      | Inr t1 \<Rightarrow>
                   (case (if first < to_copy then copy_from buf 0 (unat (to_copy - first)) else Inr []) of
                        Inl e \<Rightarrow> Inl e
                      | Inr t2 \<Rightarrow> Inr (True, t1 @ t2, d\<lparr>s_device_drain_offset := offset + to_copy\<rparr>)))"

definition readAndResetBlockFlushCount :: "device_ring \<Rightarrow> u32 \<times> device_ring" where
  "readAndResetBlockFlushCount d = (g_block_flush_count d, d\<lparr>g_block_flush_count := 0\<rparr>)"

definition readAndResetSmFlushCounts :: "u32 \<Rightarrow> device_ring \<Rightarrow> u32 list \<times> device_ring" where
  "readAndResetSmFlushCounts sm_count d =
     (take (min (unat sm_count) 128) (g_sm_flush_counts d), d\<lparr>g_sm_flush_counts := replicate 128 0\<rparr>)"

section \<open>The ring as a log\<close>

text \<open>\<open>log_rep L d\<close>: since the buffer was set up exactly the hits \<open>L\<close> were written, fewer than
  \<open>2 ^ 32\<close>, and each of the last \<open>capacity\<close> of them is in its slot.\<close>

definition log_rep :: "HitRecord list \<Rightarrow> device_ring \<Rightarrow> bool" where
  "log_rep L d \<longleftrightarrow> (\<exists>buf. g_hit_buf d = Buffer buf \<and> s_device_hit_buf d \<and> length buf = unat (g_hit_cap d) \<and> g_hit_cap d \<noteq> 0 \<and>
     s_device_hit_cap d = g_hit_cap d \<and> unat (g_hit_write_idx d) = length L \<and>
     (\<forall>i < length L. length L - i \<le> length buf \<longrightarrow> buf ! (i mod length buf) = L ! i))"

lemma log_rep_init: "log_rep [] (initDeviceHitBuffer garbage capacity d)"
  by (simp add: log_rep_def initDeviceHitBuffer_def kernel_init_hit_buf_def Let_def)

lemma unat_plus_one: "unat (w :: u32) + 1 < 2 ^ 32 \<Longrightarrow> unat (w + 1) = unat w + 1"
  by (simp add: unat_word_ariths)

lemma slot_index_distinct:
  fixes n i c :: nat
  assumes "i < n" and "n - i < c"
  shows "i mod c \<noteq> n mod c"
proof
  assume "i mod c = n mod c"
  then have "c dvd n - i" using assms(1) by (metis less_imp_le mod_eq_dvd_iff_nat)
  then show False using assms by (auto dest: dvd_imp_le)
qed

lemma global_push_log:
  assumes "log_rep L d" and "length L + 1 < 2 ^ 32"
  shows "\<exists>d'. global_push hit d = Inr d' \<and> log_rep (L @ [hit]) d' \<and>
    s_device_drain_offset d' = s_device_drain_offset d \<and> g_hit_cap d' = g_hit_cap d"
proof -
  obtain buf where buf: "g_hit_buf d = Buffer buf" "length buf = unat (g_hit_cap d)" "g_hit_cap d \<noteq> 0"
    "s_device_hit_cap d = g_hit_cap d" "s_device_hit_buf d" "unat (g_hit_write_idx d) = length L"
    "\<forall>i < length L. length L - i \<le> length buf \<longrightarrow> buf ! (i mod length buf) = L ! i"
    using assms(1) by (auto simp: log_rep_def)
  let ?c = "length buf" and ?n = "length L"
  have c: "0 < ?c" using buf(2,3) by (simp add: unat_gt_0)
  have slot: "unat (g_hit_write_idx d mod g_hit_cap d) = ?n mod ?c"
    using buf(2,6) by (simp add: unat_mod_distrib)
  let ?b = "buf[?n mod ?c := hit]"
  let ?d = "d\<lparr>g_hit_write_idx := g_hit_write_idx d + 1, g_hit_buf := Buffer ?b\<rparr>"
  have push: "global_push hit d = Inr ?d"
    using buf(1,3) slot c by (simp add: global_push_def global_store_def Let_def)
  have "?b ! (i mod ?c) = (L @ [hit]) ! i" if "i < length (L @ [hit])" "length (L @ [hit]) - i \<le> ?c" for i
  proof (cases "i = ?n")
    case True
    then show ?thesis using c by simp
  next
    case False
    then have "i < ?n" "?n - i < ?c" using that by simp_all
    with slot_index_distinct [of i ?n ?c] buf(7) show ?thesis by (simp add: nth_append)
  qed
  then have "log_rep (L @ [hit]) ?d"
    using buf assms(2) unat_plus_one [of "g_hit_write_idx d"] by (simp add: log_rep_def)
  with push show ?thesis by (intro exI [of _ ?d]) simp
qed

text \<open>What the host sees: the hits from position \<open>k\<close> on are all still in the ring.\<close>

definition drain_rep :: "HitRecord list \<Rightarrow> nat \<Rightarrow> device_ring \<Rightarrow> bool" where
  "drain_rep L k d \<longleftrightarrow> log_rep L d \<and> unat (s_device_drain_offset d) = k \<and> k \<le> length L \<and>
     length L - k \<le> unat (g_hit_cap d)"

lemma take_map_upt: "k \<le> n \<Longrightarrow> take k (map f [0..<n]) = map f [0..<k]"
  by (simp add: take_map)

text \<open>The two copies of the drain: \<open>m\<close> entries from position \<open>k\<close> of a ring of size \<open>c\<close>.\<close>

lemma ring_segment:
  assumes "length buf = c" and "0 < c" and "m \<le> c" and "f = min m (c - k mod c)"
  shows "take f (drop (k mod c) buf) @ take (m - f) buf = map (\<lambda>i. buf ! ((k + i) mod c)) [0..<m]"
proof (rule nth_equalityI)
  have kc: "k mod c < c" using assms(2) by simp
  have f: "f \<le> m" "f \<le> c - k mod c" "m - f \<le> c" using assms(3,4) by auto
  then show l: "length (take f (drop (k mod c) buf) @ take (m - f) buf) =
      length (map (\<lambda>i. buf ! ((k + i) mod c)) [0..<m])"
    using assms(1) by simp
  fix i assume "i < length (take f (drop (k mod c) buf) @ take (m - f) buf)"
  then have i: "i < m" using l by simp
  have mod: "(k + i) mod c = (k mod c + i) mod c" by (simp add: mod_add_left_eq)
  show "(take f (drop (k mod c) buf) @ take (m - f) buf) ! i = map (\<lambda>i. buf ! ((k + i) mod c)) [0..<m] ! i"
  proof (cases "i < f")
    case True
    then have "k mod c + i < c" using f(2) by linarith
    then show ?thesis using True i f assms(1) mod by (simp add: nth_append)
  next
    case False
    then have "f = c - k mod c" using assms(4) i by (auto simp: min_def split: if_splits)
    moreover from this have "c \<le> k mod c + i" "k mod c + i - c < c"
      using False i assms(3) kc by linarith+
    then have "(k mod c + i) mod c = k mod c + i - c" by (simp add: le_mod_geq)
    ultimately show ?thesis using False i f assms(1) mod kc by (simp add: nth_append add.commute)
  qed
qed

lemma drain_log:
  assumes "drain_rep L k d"
  shows "\<exists>d' m. drainDeviceHits max_out d = Inr (True, take m (drop k L), d') \<and>
    m = min (unat max_out) (length L - k) \<and> drain_rep L (k + m) d'"
proof -
  obtain buf where buf: "g_hit_buf d = Buffer buf" "length buf = unat (g_hit_cap d)" "g_hit_cap d \<noteq> 0"
    "s_device_hit_cap d = g_hit_cap d" "s_device_hit_buf d" "unat (g_hit_write_idx d) = length L"
    "\<forall>i < length L. length L - i \<le> length buf \<longrightarrow> buf ! (i mod length buf) = L ! i"
    using assms by (auto simp: drain_rep_def log_rep_def)
  have k: "unat (s_device_drain_offset d) = k" "k \<le> length L" "length L - k \<le> length buf"
    using assms buf(2) by (auto simp: drain_rep_def)
  define c where "c = length buf"
  have c: "0 < c" "unat (g_hit_cap d) = c" using buf(2,3) by (simp_all add: c_def unat_gt_0)
  let ?off = "s_device_drain_offset d" and ?idx = "g_hit_write_idx d"
  have ge: "?off \<le> ?idx" using k buf(6) by (simp add: word_le_nat_alt)
  then have avail: "unat (?idx - ?off) = length L - k" using k(1) buf(6) by (simp add: unat_sub)
  define m where "m = min (unat max_out) (length L - k)"
  show ?thesis
  proof (cases "?idx - ?off = 0")
    case True
    then have "length L - k = 0" using avail by simp
    then have "m = 0" "drop k L = []" by (simp_all add: m_def)
    moreover have "drainDeviceHits max_out d = Inr (True, [], d)"
      using True ge buf(3-5) by (simp add: drainDeviceHits_def Let_def)
    ultimately show ?thesis using assms m_def by (intro exI [of _ d] exI [of _ 0]) simp
  next
    case False
    define tc where "tc = (if ?idx - ?off > max_out then max_out else ?idx - ?off)"
    have tc: "unat tc = m" using avail by (auto simp: tc_def m_def word_less_nat_alt)
    define st where "st = ?off mod g_hit_cap d"
    have st: "unat st = k mod c" using k(1) c by (simp add: st_def unat_mod_distrib)
    have "st \<le> g_hit_cap d" using st c by (simp add: word_le_nat_alt less_imp_le)
    then have cs: "unat (g_hit_cap d - st) = c - k mod c" using st c by (simp add: unat_sub)
    define f where "f = (if tc < g_hit_cap d - st then tc else g_hit_cap d - st)"
    have f: "unat f = min m (c - k mod c)" using tc cs by (auto simp: f_def word_less_nat_alt)
    have "f \<le> tc" using f tc by (simp add: word_le_nat_alt)
    then have tf: "unat (tc - f) = m - unat f" using tc by (simp add: unat_sub)
    have mc: "m \<le> c" using k(3) by (simp add: m_def c_def)
    have kc: "k mod c < c" using c(1) by simp
    let ?t1 = "take (unat f) (drop (k mod c) buf)" and ?t2 = "take (m - unat f) buf"
    have t1: "(if f > 0 then copy_from buf (unat st) (unat f) else Inr []) = Inr ?t1"
      using f kc by (auto simp: copy_from_def st c_def [symmetric] word_less_nat_alt)
    have t2: "(if f < tc then copy_from buf 0 (unat (tc - f)) else Inr []) = Inr ?t2"
      using tf tc mc by (auto simp: copy_from_def c_def [symmetric] word_less_nat_alt)
    define d' where "d' = d\<lparr>s_device_drain_offset := ?off + tc\<rparr>"
    have "drainDeviceHits max_out d = Inr (True, ?t1 @ ?t2, d')"
      using False ge buf(1,3-5)
      by (simp only: drainDeviceHits_def Let_def buffer_contents_def d'_def device_buffer.case
          tc_def [symmetric] st_def [symmetric] f_def [symmetric] t1 t2 sum.case
          if_True if_False not_True_eq_False simp_thms)
    moreover have "?t1 @ ?t2 = take m (drop k L)"
    proof -
      have "?t1 @ ?t2 = map (\<lambda>i. buf ! ((k + i) mod c)) [0..<m]"
        using ring_segment [of buf c m "unat f" k] c mc f by (simp add: c_def)
      also have "\<dots> = take m (drop k L)"
      proof (rule nth_equalityI)
        show "length (map (\<lambda>i. buf ! ((k + i) mod c)) [0..<m]) = length (take m (drop k L))"
          by (simp add: m_def)
        fix i assume "i < length (map (\<lambda>i. buf ! ((k + i) mod c)) [0..<m])"
        then have "i < m" "i < length L - k" by (simp_all add: m_def)
        then have i: "i < m" "k + i < length L" by linarith+
        then have "buf ! ((k + i) mod c) = L ! (k + i)" using buf(7) k(3) by (simp add: c_def)
        then show "map (\<lambda>i. buf ! ((k + i) mod c)) [0..<m] ! i = take m (drop k L) ! i"
          using i by simp
      qed
      finally show ?thesis .
    qed
    moreover have "drain_rep L (k + m) d'"
    proof -
      have "unat ?idx < 2 ^ 32" using unsigned_less [of ?idx] by simp
      then have "k + m < 2 ^ 32" using k(2) buf(6) by (simp add: m_def)
      then have "unat (?off + tc) = k + m" using k(1) tc by (simp add: unat_word_ariths)
      moreover have "log_rep L d'" using assms by (simp add: drain_rep_def log_rep_def d'_def)
      ultimately show ?thesis using k assms by (auto simp: drain_rep_def d'_def m_def)
    qed
    ultimately show ?thesis using m_def by (intro exI [of _ d'] exI [of _ m]) simp
  qed
qed

lemma drain_rep_push:
  assumes "drain_rep L k d" and "length L + 1 < 2 ^ 32" and "length L + 1 - k \<le> unat (g_hit_cap d)"
  shows "\<exists>d'. global_push hit d = Inr d' \<and> drain_rep (L @ [hit]) k d' \<and> g_hit_cap d' = g_hit_cap d"
  using global_push_log [of L d hit] assms by (auto simp: drain_rep_def)

lemma drain_rep_pushes:
  "drain_rep L k d \<Longrightarrow> length L + length hits < 2 ^ 32 \<Longrightarrow> length L + length hits - k \<le> unat (g_hit_cap d) \<Longrightarrow>
   \<exists>d'. fold_result global_push hits d = Inr d' \<and> drain_rep (L @ hits) k d' \<and> g_hit_cap d' = g_hit_cap d"
proof (induction hits arbitrary: L d)
  case (Cons h hits)
  have "length L + 1 - k \<le> length L + length (h # hits) - k" by simp
  then have "length L + 1 - k \<le> unat (g_hit_cap d)" using Cons.prems(3) by (rule le_trans)
  then obtain t where t: "global_push h d = Inr t" "drain_rep (L @ [h]) k t" "g_hit_cap t = g_hit_cap d"
    using drain_rep_push [OF Cons.prems(1), of h] Cons.prems(2) by auto
  have "\<exists>d'. fold_result global_push hits t = Inr d' \<and> drain_rep ((L @ [h]) @ hits) k d' \<and> g_hit_cap d' = g_hit_cap t"
    using Cons.prems t by (intro Cons.IH) simp_all
  then show ?case using t by auto
qed simp

lemma kernel_push_hits_global:
  assumes "j < n" and "g_hit_buf d = Buffer buf" and "g_hit_cap d \<noteq> 0"
  shows "kernel_push_hits work_ids n nonce_base j d =
    global_push \<lparr>hr_work_id = work_ids ! unat j, hr_nonce = nonce_base + j\<rparr> d"
proof -
  have "\<not> n \<le> j" using assms(1) by simp
  then show ?thesis using assms(2,3) by (simp add: kernel_push_hits_def global_push_def Let_def)
qed

lemma fold_kernel_push_hits:
  "\<forall>j \<in> set order. j < n \<Longrightarrow> g_hit_buf d = Buffer buf \<Longrightarrow> g_hit_cap d \<noteq> 0 \<Longrightarrow>
   fold_result (kernel_push_hits work_ids n nonce_base) order d =
   fold_result global_push (map (\<lambda>j. \<lparr>hr_work_id = work_ids ! unat j, hr_nonce = nonce_base + j\<rparr>) order) d"
proof (induction order arbitrary: d buf)
  case (Cons j order)
  have step: "kernel_push_hits work_ids n nonce_base j d =
      global_push \<lparr>hr_work_id = work_ids ! unat j, hr_nonce = nonce_base + j\<rparr> d"
    using Cons.prems by (intro kernel_push_hits_global) simp_all
  have "\<exists>b. g_hit_buf d' = Buffer b \<and> g_hit_cap d' \<noteq> 0"
    if "global_push \<lparr>hr_work_id = work_ids ! unat j, hr_nonce = nonce_base + j\<rparr> d = Inr d'" for d'
    using that Cons.prems by (auto simp: global_push_def global_store_def Let_def split: if_splits)
  with step Cons show ?case by (fastforce split: sum.splits)
qed simp

section \<open>Properties\<close>

text \<open>C24: no hit is lost, duplicated or reordered between the device and the host as long as the host
  keeps up. After the ring is set up, for any hits written by the kernels and drained by the host in
  rounds, while fewer than \<open>2 ^ 32\<close> hits are written and never more than the capacity wait to be
  drained, every drain returns the next undrained hits, as many as fit in the host's buffer.\<close>

theorem device_ring_fifo:
  assumes "drain_rep L k d" and "length L + length hits < 2 ^ 32"
    and "length L + length hits - k \<le> unat (g_hit_cap d)"
  shows "\<exists>d1 d2 m. fold_result global_push hits d = Inr d1 \<and>
    drainDeviceHits max_out d1 = Inr (True, take m (drop k (L @ hits)), d2) \<and>
    m = min (unat max_out) (length (L @ hits) - k) \<and> drain_rep (L @ hits) (k + m) d2 \<and>
    drain_rep [] 0 (initDeviceHitBuffer garbage capacity d)"
proof -
  obtain d1 where d1: "fold_result global_push hits d = Inr d1" "drain_rep (L @ hits) k d1"
    using drain_rep_pushes [OF assms] by blast
  have "drain_rep [] 0 (initDeviceHitBuffer garbage capacity d)"
    using log_rep_init [of garbage capacity d]
    by (simp add: drain_rep_def initDeviceHitBuffer_def Let_def)
  with d1 drain_log [OF d1(2), of max_out] show ?thesis by blast
qed

definition no_hit :: HitRecord where
  "no_hit = \<lparr>hr_work_id = 0, hr_nonce = 0\<rparr>"

lemma drain_rep_start: "drain_rep [] 0 (initDeviceHitBuffer (\<lambda>i. no_hit) 4 device_ring_start)"
  using log_rep_init [of "\<lambda>i. no_hit" 4 device_ring_start]
  by (simp add: drain_rep_def initDeviceHitBuffer_def Let_def)

theorem device_ring_fifo_witness:
  "\<exists>d1 d2. fold_result global_push [\<lparr>hr_work_id = 1, hr_nonce = 2\<rparr>]
      (initDeviceHitBuffer (\<lambda>i. no_hit) 4 device_ring_start) = Inr d1 \<and>
    drainDeviceHits 8 d1 = Inr (True, [\<lparr>hr_work_id = 1, hr_nonce = 2\<rparr>], d2)"
proof -
  have cap: "g_hit_cap (initDeviceHitBuffer (\<lambda>i. no_hit) 4 device_ring_start) = 4"
    by (simp add: initDeviceHitBuffer_def kernel_init_hit_buf_def Let_def)
  show ?thesis
    using device_ring_fifo [OF drain_rep_start, of "[\<lparr>hr_work_id = 1, hr_nonce = 2\<rparr>]" 8] cap
    by (simp del: fold_result.simps) blast
qed

text \<open>Pushing one hit per job. For a set-up ring with room, \<^verbatim>\<open>launchPushHitsToDeviceRing\<close> appends, in
  the order of the increments, exactly one hit for every job, with its work id and the base nonce
  plus its index.\<close>

theorem push_hits_appends:
  assumes "drain_rep L k d" and "\<forall>j \<in> set order. j < n" and "n \<noteq> 0"
    and "length L + length order < 2 ^ 32" and "length L + length order - k \<le> unat (g_hit_cap d)"
  shows "\<exists>d'. launchPushHitsToDeviceRing work_ids n nonce_base order d = Inr (True, d') \<and>
    drain_rep (L @ map (\<lambda>j. \<lparr>hr_work_id = work_ids ! unat j, hr_nonce = nonce_base + j\<rparr>) order) k d'"
proof -
  obtain buf where buf: "g_hit_buf d = Buffer buf" "g_hit_cap d \<noteq> 0" "s_device_hit_buf d"
    "s_device_hit_cap d = g_hit_cap d"
    using assms(1) by (auto simp: drain_rep_def log_rep_def)
  let ?hits = "map (\<lambda>j. \<lparr>hr_work_id = work_ids ! unat j, hr_nonce = nonce_base + j\<rparr>) order"
  obtain d' where "fold_result global_push ?hits d = Inr d'" "drain_rep (L @ ?hits) k d'"
    using drain_rep_pushes [OF assms(1), of ?hits] assms(4,5) by auto
  then show ?thesis
    using fold_kernel_push_hits [OF assms(2) buf(1,2)] buf assms(3)
    by (simp add: launchPushHitsToDeviceRing_def)
qed

theorem push_hits_appends_witness:
  "\<exists>d'. launchPushHitsToDeviceRing [10, 11] 2 100 [1, 0]
       (initDeviceHitBuffer (\<lambda>i. no_hit) 4 device_ring_start) = Inr (True, d') \<and>
     drain_rep [\<lparr>hr_work_id = 11, hr_nonce = 101\<rparr>, \<lparr>hr_work_id = 10, hr_nonce = 100\<rparr>] 0 d'"
proof -
  have cap: "g_hit_cap (initDeviceHitBuffer (\<lambda>i. no_hit) 4 device_ring_start) = 4"
    by (simp add: initDeviceHitBuffer_def kernel_init_hit_buf_def Let_def)
  show ?thesis
    using push_hits_appends [OF drain_rep_start, of "[1, 0]" 2 "[10, 11]" 100] cap by auto
qed

text \<open>A host that falls behind. When more hits than the capacity wait, the drain takes their number
  at face value: asked for more than twice the capacity, it reads past the end of the device
  buffer.\<close>

theorem drain_overrun:
  assumes "g_hit_buf d = Buffer buf" and "length buf = unat (g_hit_cap d)" and "g_hit_cap d \<noteq> 0"
    and "s_device_hit_buf d" and "s_device_hit_cap d = g_hit_cap d" and "s_device_drain_offset d = 0"
    and "2 * unat (g_hit_cap d) < unat (g_hit_write_idx d)" and "g_hit_write_idx d \<le> max_out"
  shows "drainDeviceHits max_out d = Inl Out_of_bounds"
proof -
  let ?idx = "g_hit_write_idx d" and ?c = "g_hit_cap d"
  have c: "0 < unat ?c" using assms(3) by (simp add: unat_gt_0)
  have idx: "?idx \<noteq> 0" "?c < ?idx" "\<not> ?idx < ?c" "\<not> ?idx > max_out"
    using assms(7,8) by (auto simp: word_less_nat_alt word_le_nat_alt)
  have "unat (?idx - ?c) = unat ?idx - unat ?c" using idx(2) by (simp add: unat_sub)
  then have far: "\<not> unat (?idx - ?c) \<le> length buf" using assms(2,7) by simp
  show ?thesis
    using assms(1,3-6) idx far c
    by (simp add: drainDeviceHits_def Let_def buffer_contents_def copy_from_def assms(2) word_gt_0)
qed

theorem drain_overrun_witness:
  "drainDeviceHits 9 (device_ring_start\<lparr>g_hit_buf := Buffer [no_hit], g_hit_cap := 1, s_device_hit_buf := True,
     s_device_hit_cap := 1, g_hit_write_idx := 3\<rparr>) = Inl Out_of_bounds"
  by (rule drain_overrun [of _ "[no_hit]"]) (simp_all add: device_ring_start_def)

end
