(* ===== verification/Device_Engine.thy ===== *)
theory Device_Engine
  imports "HOL-Library.Multiset" Device_Hits Device_Sha256 Targets
begin

text \<open>
  The mining kernels of \<^verbatim>\<open>src/cuda/engine.cu\<close>: the table of jobs on the device, the 80-byte header a
  thread assembles for a nonce, the digest with and without a midstate, the comparison with the
  share target, the hits a block collects in shared memory and flushes to the global ring.

  The threads of a block run between two barriers and touch shared state only through atomic
  increments and stores to the slots these return. Such a run is a schedule: the candidates
  (thread and iteration) in the order their atomic operations take effect; \<open>batch_loop\<close> and \<open>block_schedule\<close>
  say which schedules a whole block has. Blocks run one after the other in the model: blocks that run together
  could interleave their reservations in the global ring, which changes the order of the hits there but
  not which slot each reservation gets. \<open>smid\<close> is the
  multiprocessor the block runs on, \<open>garbage\<close> the initial contents of the shared array.
\<close>

record DeviceJob =
  dj_version :: u32
  dj_ntime :: u32
  dj_nbits :: u32
  dj_vmask :: u32
  dj_ntime_min :: u32
  dj_ntime_max :: u32
  dj_extranonce2_size :: u8
  dj_work_id :: u64
  dj_prevhash_le :: "u32 list"
  dj_merkle_root_le :: "u32 list"
  dj_share_target_le :: "u32 list"
  dj_block_target_le :: "u32 list"
  dj_midstate_le :: "u32 list"
  dj_share_target_be :: "u8 list"

record device_jobs =
  g_jobs :: "DeviceJob list option"
  g_jobs_const :: "DeviceJob list"
  g_jobs_const_size :: u32
  g_num_jobs :: u32

definition uploadDeviceJobs :: "DeviceJob list \<Rightarrow> u32 \<Rightarrow> device_jobs \<Rightarrow> bool \<times> device_jobs" where
  "uploadDeviceJobs jobs_host n e =
     (if n = 0 then (False, e)
      else let cnum = (if n > 64 then 64 else n);
               e = e\<lparr>g_jobs := Some (take (unat n) jobs_host)\<rparr>;
               e = e\<lparr>g_jobs_const := take (unat cnum) jobs_host @ drop (unat cnum) (g_jobs_const e)\<rparr>;
               e = e\<lparr>g_jobs_const_size := cnum\<rparr>
           in (True, e\<lparr>g_num_jobs := n\<rparr>))"

text \<open>\<^verbatim>\<open>(j < g_jobs_const_size) ? &g_jobs_const[j] : &g_jobs[j]\<close>\<close>

definition job_at :: "device_jobs \<Rightarrow> u32 \<Rightarrow> DeviceJob result" where
  "job_at e j =
     (if j < g_jobs_const_size e
      then (if unat j < length (g_jobs_const e) then Inr (g_jobs_const e ! unat j) else Inl Out_of_bounds)
      else (case g_jobs e of
              None \<Rightarrow> Inl Out_of_bounds
            | Some js \<Rightarrow> if unat j < length js then Inr (js ! unat j) else Inl Out_of_bounds))"

section \<open>Header, digest, comparison\<close>

definition bswap32_dev :: "u32 \<Rightarrow> u32" where
  "bswap32_dev v = push_bit 24 (v AND 0x000000FF) OR push_bit 8 (v AND 0x0000FF00) OR
     drop_bit 8 (v AND 0x00FF0000) OR drop_bit 24 (v AND 0xFF000000)"

definition device_ntime :: "DeviceJob \<Rightarrow> u32" where
  "device_ntime J =
     (let ntime = dj_ntime J;
          ntime = (if dj_ntime_min J \<noteq> 0 \<and> ntime < dj_ntime_min J then dj_ntime_min J else ntime);
          ntime = (if dj_ntime_max J \<noteq> 0 \<and> ntime > dj_ntime_max J then dj_ntime_max J else ntime)
      in ntime)"

definition device_header :: "DeviceJob \<Rightarrow> u32 \<Rightarrow> u8 list" where
  "device_header J nonce =
     word_be_bytes (dj_version J) @
     concat (map (\<lambda>w. word_be_bytes (dj_prevhash_le J ! w)) [0..<8]) @
     concat (map (\<lambda>w. word_be_bytes (dj_merkle_root_le J ! w)) [0..<8]) @
     word_be_bytes (device_ntime J) @ word_be_bytes (dj_nbits J) @ word_be_bytes nonce"

definition used_midstate :: "DeviceJob \<Rightarrow> bool" where
  "used_midstate J = list_ex (\<lambda>i. dj_midstate_le J ! i \<noteq> 0) [0..<8]"

definition second_sha :: "u32 list \<Rightarrow> u8 list" where
  "second_sha st =
     (let t1 = dev_digest st;
          st2 = map (\<lambda>i. kSha256IV ! i) [0..<8];
          w2 = dev_words t1 8 @ [0x80000000] @ replicate 6 0 @ [256]
      in dev_digest (sha256_compress st2 w2))"

definition stub_digest :: "DeviceJob \<Rightarrow> u8 list \<Rightarrow> u8 list" where
  "stub_digest J header =
     (if used_midstate J
      then let st = map (\<lambda>i. dj_midstate_le J ! i) [0..<8];
               w0_15 = map (\<lambda>i. let ofs = 64 + i * 4 in be_word (header ! ofs) (header ! (ofs + 1))
                                    (header ! (ofs + 2)) (header ! (ofs + 3))) [0..<4] @
                       [0x80000000] @ replicate 10 0 @ [640]
           in second_sha (sha256_compress st w0_15)
      else sha256d_80_be header)"

definition batch_digest :: "DeviceJob \<Rightarrow> u32 \<Rightarrow> u8 list" where
  "batch_digest J nonce =
     (if used_midstate J
      then let st = map (\<lambda>i. dj_midstate_le J ! i) [0..<8];
               w0_15 = [bswap32_dev (dj_merkle_root_le J ! 7), bswap32_dev (device_ntime J),
                        bswap32_dev (dj_nbits J), bswap32_dev nonce] @
                       [0x80000000] @ replicate 10 0 @ [640]
           in second_sha (sha256_compress st w0_15)
      else sha256d_80_be (device_header J nonce))"

fun device_leq :: "u8 list \<Rightarrow> u8 list \<Rightarrow> nat list \<Rightarrow> bool" where
  "device_leq digest t [] = True"
| "device_leq digest t (i # is) =
     (if digest ! i < t ! i then True else if digest ! i > t ! i then False else device_leq digest t is)"

section \<open>Kernels\<close>

text \<open>\<^verbatim>\<open>kernel_mine_stub\<close> for job \<open>j\<close>, thread \<open>t\<close>, block \<open>b\<close>.\<close>

definition kernel_mine_stub ::
    "device_jobs \<Rightarrow> u32 \<Rightarrow> u32 \<Rightarrow> u32 \<times> u32 \<times> u32 \<Rightarrow> device_ring \<Rightarrow> device_ring result" where
  "kernel_mine_stub e num_jobs nonce_base jtb d =
     (case jtb of (j, t, b) \<Rightarrow>
        if j \<ge> num_jobs then Inr d
        else if t = 0 \<and> b = 0 \<and> g_jobs e \<noteq> None \<and> g_hit_buf d \<noteq> Null \<and> g_hit_cap d \<noteq> 0
        then (case job_at e j of
                Inl err \<Rightarrow> Inl err
              | Inr J \<Rightarrow>
                  let nonce = nonce_base + j;
                      digest = stub_digest J (device_header J nonce)
                  in if device_leq digest (dj_share_target_be J) [0..<32]
                     then global_push \<lparr>hr_work_id = dj_work_id J, hr_nonce = nonce\<rparr> d
                     else Inr d)
        else Inr d)"

record block_state =
  s_hits :: "HitRecord list"
  s_count :: u32

text \<open>A candidate whose digest is low enough: into the local buffer, or straight to the ring.\<close>

definition block_hit :: "HitRecord \<Rightarrow> block_state \<times> device_ring \<Rightarrow> (block_state \<times> device_ring) result" where
  "block_hit hit bd =
     (case bd of (blk, d) \<Rightarrow>
        let li = s_count blk; blk = blk\<lparr>s_count := li + 1\<rparr>
        in if li < 64 then Inr (blk\<lparr>s_hits := (s_hits blk)[unat li := hit]\<rparr>, d)
           else (case global_push hit d of Inl e \<Rightarrow> Inl e | Inr d' \<Rightarrow> Inr (blk, d')))"

definition batch_candidate :: "DeviceJob \<Rightarrow> u32 \<Rightarrow> block_state \<times> device_ring \<Rightarrow> (block_state \<times> device_ring) result" where
  "batch_candidate J nonce bd =
     (if device_leq (batch_digest J nonce) (dj_share_target_be J) [0..<32]
      then block_hit \<lparr>hr_work_id = dj_work_id J, hr_nonce = nonce\<rparr> bd else Inr bd)"

text \<open>The remainder loop of the unrolled kernel does not look at the midstate.\<close>

definition tail_candidate :: "DeviceJob \<Rightarrow> u32 \<Rightarrow> block_state \<times> device_ring \<Rightarrow> (block_state \<times> device_ring) result" where
  "tail_candidate J nonce bd =
     (if device_leq (sha256d_80_be (device_header J nonce)) (dj_share_target_be J) [0..<32]
      then block_hit \<lparr>hr_work_id = dj_work_id J, hr_nonce = nonce\<rparr> bd else Inr bd)"

definition flush_store :: "HitRecord list \<Rightarrow> u32 \<Rightarrow> nat \<Rightarrow> device_ring \<Rightarrow> device_ring result" where
  "flush_store hits start i d =
     (let slot = (if g_hit_cap d = 0 then 0 else (start + of_nat i) mod g_hit_cap d)
      in if i < length hits then global_store slot (hits ! i) d else Inl Out_of_bounds)"

definition block_flush :: "nat \<Rightarrow> block_state \<times> device_ring \<Rightarrow> device_ring result" where
  "block_flush smid bd =
     (case bd of (blk, d) \<Rightarrow>
        if s_count blk > 0 \<and> g_hit_buf d \<noteq> Null \<and> g_hit_cap d \<noteq> 0
        then let d = d\<lparr>g_block_flush_count := g_block_flush_count d + 1\<rparr>;
                 m = smid mod 128;
                 d = d\<lparr>g_sm_flush_counts := (g_sm_flush_counts d)[m := g_sm_flush_counts d ! m + 1]\<rparr>;
                 start = g_hit_write_idx d;
                 d = d\<lparr>g_hit_write_idx := start + s_count blk\<rparr>
             in fold_result (flush_store (s_hits blk) start) [0..<unat (s_count blk)] d
        else Inr d)"

definition thread_nonce :: "u32 \<Rightarrow> u32 \<Rightarrow> u32 \<Rightarrow> u32 \<Rightarrow> u32 \<Rightarrow> u32 \<Rightarrow> u32 \<Rightarrow> u32" where
  "thread_nonce nonce_base j blockDim blockIdx npt thread k =
     (let lane = thread + blockIdx * blockDim; start_nonce = nonce_base + j + lane * npt
      in start_nonce + k)"

text \<open>The iterations of one thread of \<^verbatim>\<open>kernel_mine_batch\<close>: \<^verbatim>\<open>for (k = 0; k < nonces_per_thread; ++k)\<close>.\<close>

lemma unat_next: "k < n \<Longrightarrow> unat (k + 1) = Suc (unat k)" for k n :: u32
  using unsigned_less [of n, where 'a = nat] by (simp add: word_less_nat_alt unat_word_ariths)

function batch_loop :: "u32 \<Rightarrow> u32 \<Rightarrow> u32 list" where
  "batch_loop npt k = (if k < npt then k # batch_loop npt (k + 1) else [])"
  by pat_completeness auto
termination
  by (relation "measure (\<lambda>(npt, k). unat npt - unat k)")
    (auto simp: unat_next word_less_nat_alt)

declare batch_loop.simps [simp del]

text \<open>The order in which the candidates of a whole block take effect: any in which every thread of the block
  runs its iterations in their order.\<close>

definition block_schedule :: "u32 \<Rightarrow> u32 \<Rightarrow> (u32 \<times> u32) list \<Rightarrow> bool" where
  "block_schedule npt blockDim sched \<longleftrightarrow>
     (\<forall>t. map snd (filter (\<lambda>(s, k). s = t) sched) = (if t < blockDim then batch_loop npt 0 else []))"

text \<open>One block of \<^verbatim>\<open>kernel_mine_batch\<close>; the schedule lists threads with their iterations, for a block that runs to
  its end a \<open>block_schedule\<close>.\<close>

definition kernel_mine_batch ::
    "device_jobs \<Rightarrow> u32 \<Rightarrow> u32 \<Rightarrow> u32 \<Rightarrow> u32 \<Rightarrow> u32 \<Rightarrow> u32 \<Rightarrow> (nat \<Rightarrow> HitRecord) \<Rightarrow> nat \<Rightarrow> (u32 \<times> u32) list \<Rightarrow>
     device_ring \<Rightarrow> device_ring result" where
  "kernel_mine_batch e num_jobs nonce_base npt j blockDim blockIdx garbage smid sched d =
     (if j \<ge> num_jobs then Inr d
      else case job_at e j of
             Inl err \<Rightarrow> Inl err
           | Inr J \<Rightarrow>
               let blk = \<lparr>s_hits = map garbage [0..<64], s_count = 0\<rparr>
               in case fold_result (\<lambda>(t, k). batch_candidate J (thread_nonce nonce_base j blockDim blockIdx npt t k))
                         sched (blk, d) of
                    Inl err \<Rightarrow> Inl err
                  | Inr bd \<Rightarrow> block_flush smid bd)"

text \<open>The iterations of one thread of \<^verbatim>\<open>kernel_mine_batch_unroll<UNROLL>\<close>, each marked when it belongs to the
  remainder loop. Near \<open>2 ^ 32\<close> the test \<^verbatim>\<open>k + UNROLL <= nonces_per_thread\<close> wraps around and the first
  loop does not end: the value is then \<open>None\<close>.\<close>

partial_function (option) unroll_main :: "u32 \<Rightarrow> u32 \<Rightarrow> u32 \<Rightarrow> u32 list \<Rightarrow> (u32 list \<times> u32) option" where
  "unroll_main UNROLL npt k done_ks =
     (if k + UNROLL \<le> npt
      then unroll_main UNROLL npt (k + UNROLL) (done_ks @ map (\<lambda>u. k + of_nat u) [0..<unat UNROLL])
      else Some (done_ks, k))"

definition unroll_iterations :: "u32 \<Rightarrow> u32 \<Rightarrow> (u32 \<times> bool) list option" where
  "unroll_iterations UNROLL npt =
     (case unroll_main UNROLL npt 0 [] of
        None \<Rightarrow> None
      | Some (ks, k) \<Rightarrow> Some (map (\<lambda>k. (k, False)) ks @
          map (\<lambda>i. (of_nat i, True)) [unat k..<unat npt]))"

definition kernel_mine_batch_unroll ::
    "device_jobs \<Rightarrow> u32 \<Rightarrow> u32 \<Rightarrow> u32 \<Rightarrow> u32 \<Rightarrow> u32 \<Rightarrow> u32 \<Rightarrow> (nat \<Rightarrow> HitRecord) \<Rightarrow> nat \<Rightarrow>
     (u32 \<times> u32 \<times> bool) list \<Rightarrow> device_ring \<Rightarrow> device_ring result" where
  "kernel_mine_batch_unroll e num_jobs nonce_base npt j blockDim blockIdx garbage smid sched d =
     (if j \<ge> num_jobs then Inr d
      else case job_at e j of
             Inl err \<Rightarrow> Inl err
           | Inr J \<Rightarrow>
               let blk = \<lparr>s_hits = map garbage [0..<64], s_count = 0\<rparr>
               in case fold_result (\<lambda>(t, k, tail).
                           (if tail then tail_candidate else batch_candidate) J
                             (thread_nonce nonce_base j blockDim blockIdx npt t k))
                         sched (blk, d) of
                    Inl err \<Rightarrow> Inl err
                  | Inr bd \<Rightarrow> block_flush smid bd)"

text \<open>\<^verbatim>\<open>kernel_hash_one\<close> and \<^verbatim>\<open>computeDeviceHashForJob\<close>; the first of them returns without writing when
  there are no jobs.\<close>

definition kernel_hash_one :: "device_jobs \<Rightarrow> u32 \<Rightarrow> u32 \<Rightarrow> u8 list option result" where
  "kernel_hash_one e job_index nonce =
     (case g_jobs e of
        None \<Rightarrow> Inr None
      | Some js \<Rightarrow> if unat job_index < length js
                   then Inr (Some (sha256d_80_be (device_header (js ! unat job_index) nonce)))
                   else Inl Out_of_bounds)"

definition computeDeviceHashForHeader80 :: "u8 list \<Rightarrow> u8 list" where
  "computeDeviceHashForHeader80 header80_be = sha256d_80_be header80_be"

text \<open>Which kernel \<^verbatim>\<open>launchMineWithPlanBatch\<close> starts: \<open>None\<close> when it refuses, \<open>Some 1\<close> for
  \<^verbatim>\<open>kernel_mine_batch\<close>, \<open>Some u\<close> for the kernel unrolled \<open>u\<close> times, with the nonces per thread.\<close>

definition launchMineWithPlanBatch :: "device_jobs \<Rightarrow> u32 \<Rightarrow> u32 \<Rightarrow> u32 \<Rightarrow> u32 \<Rightarrow> (u32 \<times> u32) option" where
  "launchMineWithPlanBatch e num_jobs blocks threads nonces_per_thread =
     (if g_num_jobs e = 0 \<or> num_jobs = 0 then None
      else if blocks = 0 \<or> threads = 0 then None
      else let npt = (if nonces_per_thread = 0 then 1 else nonces_per_thread)
           in if npt \<ge> 8 then Some (8, npt)
              else if npt \<ge> 4 then Some (4, npt)
              else if npt \<ge> 2 then Some (2, npt)
              else Some (1, npt))"

section \<open>Headers and digests\<close>

lemma bswap32_dev_eq: "bswap32_dev = bswap32"
  by (simp add: fun_eq_iff bswap32_dev_def bswap32_def)

lemma length_device_header [simp, width_simps]: "length (device_header J nonce) = 80"
  by (simp add: device_header_def length_concat_map_fixed [where n = 4])

lemma be_word_of_bytes: "be_word (byte_at 24 w) (byte_at 16 w) (byte_at 8 w) (byte_at 0 w) = w"
  by (cases w rule: be_word_cases) simp

lemma dev_words_word_be_bytes:
  "dev_words (concat (map word_be_bytes ws)) (length ws) = ws"
proof (rule nth_equalityI)
  fix i assume "i < length (dev_words (concat (map word_be_bytes ws)) (length ws))"
  then have i: "i < length ws" by (simp add: dev_words_def)
  have "concat (map word_be_bytes ws) ! (4 * i + k) = word_be_bytes (ws ! i) ! k" if "k < 4" for k
    using that i by (simp add: nth_concat_map_fixed [where n = 4])
  from this [of 0] this [of 1] this [of 2] this [of 3] i
  show "dev_words (concat (map word_be_bytes ws)) (length ws) ! i = ws ! i"
    by (simp add: dev_words_def Let_def word_be_bytes_def mult.commute be_word_of_bytes
        numeral_2_eq_2 numeral_3_eq_3)
qed (simp add: dev_words_def)

text \<open>The last 16 bytes of the header a device thread assembles.\<close>

lemma device_header_tail:
  "drop 64 (device_header J nonce) =
     concat (map word_be_bytes [dj_merkle_root_le J ! 7, device_ntime J, dj_nbits J, nonce])"
proof -
  let ?p = "word_be_bytes (dj_version J) @ concat (map (\<lambda>w. word_be_bytes (dj_prevhash_le J ! w)) [0..<8]) @
     concat (map (\<lambda>w. word_be_bytes (dj_merkle_root_le J ! w)) [0..<7])"
  have "[0..<8] = [0..<7] @ [7::nat]" by code_simp
  then have "concat (map (\<lambda>w. word_be_bytes (dj_merkle_root_le J ! w)) [0..<8]) =
      concat (map (\<lambda>w. word_be_bytes (dj_merkle_root_le J ! w)) [0..<7]) @ word_be_bytes (dj_merkle_root_le J ! 7)"
    by simp
  then have "device_header J nonce =
      ?p @ concat (map word_be_bytes [dj_merkle_root_le J ! 7, device_ntime J, dj_nbits J, nonce])"
    by (simp add: device_header_def)
  moreover have "length ?p = 64" by (simp add: length_concat_map_fixed [where n = 4])
  ultimately show ?thesis by simp
qed

lemma second_sha_eq: "length st = 8 \<Longrightarrow> second_sha st = sha256 (dev_digest st)"
  using second_hash [of "dev_digest st"] by (simp add: second_sha_def Let_def dev_iv dev_digest_words_be)

lemma sha256_compress_width: "length (sha256_compress st w) = 8"
  by (simp add: sha256_compress_def Let_def split: prod.splits)

lemma midstate_digest:
  assumes "length first = 64" and "length tail = 16"
  shows "second_sha (sha256_compress (sha256_midstate_64 first)
    (dev_words tail 4 @ [0x80000000] @ replicate 10 0 @ [640])) = sha256d (first @ tail)"
  using last_block_80 [OF assms] by (simp add: second_sha_eq sha256_compress_width sha256d_def)

lemma length_midstate [simp]: "length (sha256_midstate_64 b) = 8"
  by (simp add: sha256_midstate_64_eq)

lemma stub_digest_midstate:
  assumes "dj_midstate_le J = sha256_midstate_64 first" and "length first = 64" and "used_midstate J"
    and "length header = 80"
  shows "stub_digest J header = sha256d (first @ drop 64 header)"
proof -
  have "map (\<lambda>i. let ofs = 64 + i * 4 in be_word (header ! ofs) (header ! (ofs + 1))
      (header ! (ofs + 2)) (header ! (ofs + 3))) [0..<4] = dev_words (drop 64 header) 4"
    using assms(4) by (simp add: dev_words_def Let_def)
  then show ?thesis
    using assms midstate_digest [of first "drop 64 header"]
    by (simp add: stub_digest_def Let_def map_nth_8)
qed

lemma batch_digest_midstate:
  assumes "dj_midstate_le J = sha256_midstate_64 first" and "length first = 64" and "used_midstate J"
  shows "batch_digest J nonce = sha256d (first @ concat (map (\<lambda>w. word_be_bytes (bswap32 w))
    [dj_merkle_root_le J ! 7, device_ntime J, dj_nbits J, nonce]))"
proof -
  let ?ws = "[bswap32 (dj_merkle_root_le J ! 7), bswap32 (device_ntime J), bswap32 (dj_nbits J), bswap32 nonce]"
  have "length ?ws = 4" by simp
  then have "dev_words (concat (map word_be_bytes ?ws)) 4 = ?ws"
    using dev_words_word_be_bytes [of ?ws] by (simp only:)
  then show ?thesis
    using assms midstate_digest [of first "concat (map word_be_bytes ?ws)"]
    by (simp add: batch_digest_def Let_def map_nth_8 bswap32_dev_eq)
qed

lemma no_midstate_digest:
  assumes "\<not> used_midstate J"
  shows "stub_digest J (device_header J nonce) = sha256d (device_header J nonce)"
    and "batch_digest J nonce = sha256d (device_header J nonce)"
  using assms by (simp_all add: stub_digest_def batch_digest_def sha256d_80_be_sha256d)

lemma device_leq_loop: "device_leq d t is = leq_loop d t is"
  by (induction "is") simp_all

section \<open>What a block reports\<close>

lemma fold_result_append:
  "fold_result f (xs @ ys) s = (case fold_result f xs s of Inl e \<Rightarrow> Inl e | Inr t \<Rightarrow> fold_result f ys t)"
  by (induction xs arbitrary: s) (simp_all split: sum.splits)

lemma global_pushes_log:
  "log_rep L d \<Longrightarrow> length L + length hits < 2 ^ 32 \<Longrightarrow>
   \<exists>d'. fold_result global_push hits d = Inr d' \<and> log_rep (L @ hits) d' \<and>
     s_device_drain_offset d' = s_device_drain_offset d \<and> g_hit_cap d' = g_hit_cap d"
proof (induction hits arbitrary: L d)
  case (Cons h hits)
  obtain t where t: "global_push h d = Inr t" "log_rep (L @ [h]) t"
    "s_device_drain_offset t = s_device_drain_offset d" "g_hit_cap t = g_hit_cap d"
    using global_push_log [OF Cons.prems(1), of h] Cons.prems(2) by auto
  have "length (L @ [h]) + length hits < 2 ^ 32" using Cons.prems(2) by simp
  from Cons.IH [OF t(2) this] t show ?case by auto
qed simp

lemma global_push_store:
  assumes "log_rep L d" and "global_push hit d = Inr d'"
  shows "global_store (g_hit_write_idx d mod g_hit_cap d) hit (d\<lparr>g_hit_write_idx := v\<rparr>) =
    Inr (d'\<lparr>g_hit_write_idx := v\<rparr>)"
  using assms
  by (auto simp: global_push_def global_store_def log_rep_def Let_def split: if_splits)

lemma flush_prefix:
  assumes "log_rep L d" and "length L + length hits < 2 ^ 32" and "n \<le> length hits"
  shows "\<exists>d'. fold_result global_push (take n hits) d = Inr d' \<and>
    fold_result (flush_store hits (g_hit_write_idx d)) [0..<n] (d\<lparr>g_hit_write_idx := v\<rparr>) =
      Inr (d'\<lparr>g_hit_write_idx := v\<rparr>)"
  using assms(3)
proof (induction n)
  case (Suc n)
  then obtain t where t: "fold_result global_push (take n hits) d = Inr t"
    "fold_result (flush_store hits (g_hit_write_idx d)) [0..<n] (d\<lparr>g_hit_write_idx := v\<rparr>) =
      Inr (t\<lparr>g_hit_write_idx := v\<rparr>)" by auto
  have n: "n < length hits" using Suc.prems by simp
  have log: "log_rep (L @ take n hits) t" "g_hit_cap t = g_hit_cap d"
    using global_pushes_log [OF assms(1), of "take n hits"] assms(2) n t(1) by auto
  have "length (L @ take n hits) + 1 < 2 ^ 32" using assms(2) n by simp
  then obtain u where u: "global_push (hits ! n) t = Inr u"
    using global_push_log [OF log(1), of "hits ! n"] by blast
  have "unat (g_hit_write_idx t) = length L + n" "unat (g_hit_write_idx d) = length L"
    using log(1) assms(1) n by (auto simp: log_rep_def)
  then have "(of_nat (unat (g_hit_write_idx t)) :: u32) = of_nat (unat (g_hit_write_idx d)) + of_nat n"
    by (simp only: of_nat_add)
  then have "g_hit_write_idx t = g_hit_write_idx d + of_nat n" by simp
  then have "flush_store hits (g_hit_write_idx d) n (t\<lparr>g_hit_write_idx := v\<rparr>) = Inr (u\<lparr>g_hit_write_idx := v\<rparr>)"
    using global_push_store [OF log(1) u, of v] n log assms(1) by (auto simp: flush_store_def Let_def log_rep_def)
  then show ?case using t u n by (simp add: fold_result_append take_Suc_conv_app_nth)
qed simp

lemma log_rep_counters:
  "log_rep L (d\<lparr>g_block_flush_count := a, g_sm_flush_counts := b\<rparr>) = log_rep L d"
  by (simp add: log_rep_def)

lemma block_flush_log:
  assumes "log_rep L d" and "unat (s_count blk) = n" and "n \<le> length (s_hits blk)"
    and "length L + n < 2 ^ 32"
  shows "\<exists>d'. block_flush smid (blk, d) = Inr d' \<and> log_rep (L @ take n (s_hits blk)) d' \<and>
    s_device_drain_offset d' = s_device_drain_offset d \<and> g_hit_cap d' = g_hit_cap d"
proof (cases "n = 0")
  case True
  then have "s_count blk = 0" using assms(2) by (simp add: unat_eq_zero)
  then show ?thesis using assms(1) True by (simp add: block_flush_def)
next
  case False
  let ?m = "smid mod 128"
  let ?d = "d\<lparr>g_block_flush_count := g_block_flush_count d + 1,
     g_sm_flush_counts := (g_sm_flush_counts d)[?m := g_sm_flush_counts d ! ?m + 1]\<rparr>"
  let ?hits = "take n (s_hits blk)" and ?start = "g_hit_write_idx d"
  have len: "length ?hits = n" using assms(3) by simp
  have log: "log_rep L ?d" using assms(1) by (simp add: log_rep_counters)
  have bound: "length L + length ?hits < 2 ^ 32" using assms(4) len by simp
  have start: "g_hit_write_idx ?d = ?start" by simp
  have le: "n \<le> length ?hits" and all: "take n ?hits = ?hits" using len by simp_all
  from flush_prefix [OF log bound le, of "?start + s_count blk", unfolded all start]
  obtain d' where d': "fold_result global_push ?hits ?d = Inr d'"
    "fold_result (flush_store ?hits ?start) [0..<n] (?d\<lparr>g_hit_write_idx := ?start + s_count blk\<rparr>) =
      Inr (d'\<lparr>g_hit_write_idx := ?start + s_count blk\<rparr>)"
    by blast
  have log': "log_rep (L @ ?hits) d'" "s_device_drain_offset d' = s_device_drain_offset d" "g_hit_cap d' = g_hit_cap d"
    using global_pushes_log [OF log bound] d'(1) by auto
  have "unat (g_hit_write_idx d') = length L + n" "unat ?start = length L"
    using log'(1) assms(1) len by (auto simp: log_rep_def)
  then have "(of_nat (unat (g_hit_write_idx d')) :: u32) = of_nat (unat ?start) + of_nat (unat (s_count blk))"
    using assms(2) by (simp only: of_nat_add)
  then have idx: "d'\<lparr>g_hit_write_idx := ?start + s_count blk\<rparr> = d'" by simp
  have cong: "fold_result (flush_store (s_hits blk) ?start) xs s = fold_result (flush_store ?hits ?start) xs s"
    if "\<forall>i \<in> set xs. i < n" for xs s
    using that assms(3) by (induction xs arbitrary: s) (simp_all add: flush_store_def Let_def split: sum.splits)
  have "s_count blk > 0" using False assms(2) by (simp add: word_gt_0 unat_eq_zero [symmetric])
  moreover have "g_hit_buf d \<noteq> Null" "g_hit_cap d \<noteq> 0" using assms(1) by (auto simp: log_rep_def)
  ultimately have "block_flush smid (blk, d) = fold_result (flush_store (s_hits blk) ?start) [0..<n]
      (?d\<lparr>g_hit_write_idx := ?start + s_count blk\<rparr>)"
    using assms(2) by (simp add: block_flush_def Let_def)
  also have "\<dots> = Inr d'" using cong [of "[0..<n]"] d'(2) idx by simp
  finally show ?thesis using log' by blast
qed

lemma fold_flush_error:
  assumes "length hits \<le> i" and "i < n"
  shows "fold_result (flush_store hits start) [0..<n] d = Inl Out_of_bounds"
proof -
  have err: "f = Out_of_bounds" if "fold_result (flush_store hits start) xs s = Inl f" for f xs s
    using that
    by (induction xs arbitrary: s)
      (auto simp: flush_store_def global_store_def Let_def split: sum.splits if_splits device_buffer.splits)
  have "[0..<n] = [0..<i] @ i # [Suc i..<n]"
    using assms(2) by (metis less_imp_le upt_add_eq_append upt_conv_Cons le0 le_add_diff_inverse)
  then show ?thesis
    using assms(1) err by (auto simp: fold_result_append flush_store_def Let_def split: sum.splits)
qed

text \<open>The local buffer after a list of hits: the first 64 of them, the rest already in the ring.\<close>

lemma block_hits_state:
  assumes "log_rep L d" and "length L + length H < 2 ^ 32" and "length g = 64"
  shows "\<exists>blk d'. fold_result block_hit H (\<lparr>s_hits = g, s_count = 0\<rparr>, d) = Inr (blk, d') \<and>
    unat (s_count blk) = length H \<and> length (s_hits blk) = 64 \<and>
    take (min 64 (length H)) (s_hits blk) = take 64 H \<and> log_rep (L @ drop 64 H) d' \<and>
    (length H \<le> 64 \<longrightarrow> d' = d)"
  using assms(2)
proof (induction H rule: rev_induct)
  case Nil
  then show ?case using assms by simp
next
  case (snoc h H)
  then obtain blk d' where IH: "fold_result block_hit H (\<lparr>s_hits = g, s_count = 0\<rparr>, d) = Inr (blk, d')"
    "unat (s_count blk) = length H" "length (s_hits blk) = 64"
    "take (min 64 (length H)) (s_hits blk) = take 64 H" "log_rep (L @ drop 64 H) d'"
    "length H \<le> 64 \<longrightarrow> d' = d" by auto
  have cnt: "unat (s_count blk + 1) = length H + 1"
    using IH(2) snoc.prems unat_plus_one [of "s_count blk"] by simp
  have lt: "s_count blk < 64 \<longleftrightarrow> length H < 64" using IH(2) by (simp add: word_less_nat_alt)
  show ?case
  proof (cases "length H < 64")
    case True
    let ?blk = "blk\<lparr>s_count := s_count blk + 1, s_hits := (s_hits blk)[length H := h]\<rparr>"
    have "fold_result block_hit (H @ [h]) (\<lparr>s_hits = g, s_count = 0\<rparr>, d) = Inr (?blk, d')"
      using IH(1,2) lt True by (simp add: fold_result_append block_hit_def Let_def)
    moreover have "take (Suc (length H)) ((s_hits blk)[length H := h]) = H @ [h]"
      using IH(3,4) True by (simp add: take_Suc_conv_app_nth)
    ultimately show ?thesis using IH True cnt by (intro exI [of _ ?blk] exI [of _ d']) simp
  next
    case False
    let ?blk = "blk\<lparr>s_count := s_count blk + 1\<rparr>"
    have "length (drop 64 H) \<le> length H" by simp
    then have "length (L @ drop 64 H) + 1 < 2 ^ 32" using snoc.prems by simp
    from global_push_log [OF IH(5) this, of h]
    obtain d'' where "global_push h d' = Inr d''" "log_rep ((L @ drop 64 H) @ [h]) d''" by blast
    moreover from this have "fold_result block_hit (H @ [h]) (\<lparr>s_hits = g, s_count = 0\<rparr>, d) = Inr (?blk, d'')"
      using IH(1) lt False by (simp add: fold_result_append block_hit_def Let_def)
    ultimately show ?thesis using IH False cnt by (intro exI [of _ ?blk] exI [of _ d'']) simp
  qed
qed

text \<open>The hits among a schedule's candidates.\<close>

definition job_hits :: "DeviceJob \<Rightarrow> (u32 \<Rightarrow> u8 list) \<Rightarrow> u32 list \<Rightarrow> HitRecord list" where
  "job_hits J digest nonces = map (\<lambda>n. \<lparr>hr_work_id = dj_work_id J, hr_nonce = n\<rparr>)
     (filter (\<lambda>n. device_leq (digest n) (dj_share_target_be J) [0..<32]) nonces)"

lemma fold_batch_candidates:
  "fold_result (\<lambda>(t, k). batch_candidate J (f t k)) sched bd =
   fold_result block_hit (job_hits J (batch_digest J) (map (\<lambda>(t, k). f t k) sched)) bd"
  by (induction sched arbitrary: bd) (auto simp: batch_candidate_def job_hits_def split: sum.splits)

lemma word_be_bytes_inj: "word_be_bytes v = word_be_bytes w \<longleftrightarrow> v = w"
proof
  assume "word_be_bytes v = word_be_bytes w"
  then have "byte_at 24 v = byte_at 24 w" "byte_at 16 v = byte_at 16 w" "byte_at 8 v = byte_at 8 w"
    "byte_at 0 v = byte_at 0 w" by (simp_all add: word_be_bytes_def)
  then have "be_word (byte_at 24 v) (byte_at 16 v) (byte_at 8 v) (byte_at 0 v) =
      be_word (byte_at 24 w) (byte_at 16 w) (byte_at 8 w) (byte_at 0 w)" by (simp only:)
  then show "v = w" by (simp only: be_word_of_bytes)
qed simp

lemma concat_be_bytes_inj:
  "length vs = length ws \<Longrightarrow> concat (map word_be_bytes vs) = concat (map word_be_bytes ws) \<longleftrightarrow> vs = ws"
  by (induction vs ws rule: list_induct2) (simp_all add: word_be_bytes_inj append_eq_append_conv)

section \<open>The iterations of the unrolled kernel\<close>

lemma unroll_main_step:
  assumes "0 < unat U" and "unat npt + unat U < 2 ^ 32" and "unat k + d * unat U \<le> unat npt"
    and "unat npt < unat k + Suc d * unat U"
  shows "unroll_main U npt k ks = Some (ks @ map of_nat [unat k..<unat k + d * unat U], k + of_nat d * U)"
  using assms(3,4)
proof (induction d arbitrary: k ks)
  case 0
  have "unat (k + U) = unat k + unat U" using 0 assms(2) by (simp add: unat_word_ariths)
  then have "\<not> k + U \<le> npt" using 0 by (simp add: word_le_nat_alt)
  then show ?case by (subst unroll_main.simps) simp
next
  case (Suc d)
  have kU: "unat (k + U) = unat k + unat U" using Suc.prems assms(2) by (simp add: unat_word_ariths)
  then have le: "k + U \<le> npt" using Suc.prems by (simp add: word_le_nat_alt)
  have IH: "unroll_main U npt (k + U) (ks @ map (\<lambda>u. k + of_nat u) [0..<unat U]) =
      Some ((ks @ map (\<lambda>u. k + of_nat u) [0..<unat U]) @
        map of_nat [unat (k + U)..<unat (k + U) + d * unat U], (k + U) + of_nat d * U)"
    using Suc.prems kU by (intro Suc.IH) simp_all
  have "[unat k..<unat k + Suc d * unat U] = [unat k..<unat k + unat U] @ [unat k + unat U..<unat k + unat U + d * unat U]"
    using upt_add_eq_append [of "unat k" "unat k + unat U" "d * unat U"] by (simp add: add.assoc)
  moreover have "map (\<lambda>u. k + of_nat u) [0..<unat U] = map (of_nat :: nat \<Rightarrow> u32) [unat k..<unat k + unat U]"
  proof (rule nth_equalityI)
    fix i assume i: "i < length (map (\<lambda>u. k + of_nat u) [0..<unat U])"
    then have "map (of_nat :: nat \<Rightarrow> u32) [unat k..<unat k + unat U] ! i = of_nat (unat k) + of_nat i" by simp
    then show "map (\<lambda>u. k + of_nat u) [0..<unat U] ! i = map (of_nat :: nat \<Rightarrow> u32) [unat k..<unat k + unat U] ! i"
      using i by simp
  qed simp
  ultimately show ?case using IH le kU
    by (subst unroll_main.simps) (simp add: algebra_simps)
qed

lemma unroll_iterations_cover:
  assumes "0 < unat U" and "unat npt + unat U < 2 ^ 32"
  shows "\<exists>its. unroll_iterations U npt = Some its \<and> map fst its = map of_nat [0..<unat npt] \<and>
    map snd its = replicate (unat npt - unat npt mod unat U) False @ replicate (unat npt mod unat U) True"
proof -
  let ?d = "unat npt div unat U"
  have split: "?d * unat U + unat npt mod unat U = unat npt" by simp
  have "unat npt mod unat U < unat U" using assms(1) by simp
  then have "?d * unat U \<le> unat npt" "unat npt < ?d * unat U + unat U" using split by linarith+
  then have bounds: "unat (0::u32) + ?d * unat U \<le> unat npt" "unat npt < unat (0::u32) + Suc ?d * unat U"
    by simp_all
  have main: "unroll_main U npt 0 [] = Some (map of_nat [0..<?d * unat U], of_nat ?d * U)"
    using unroll_main_step [OF assms bounds, of "[]"] by simp
  have "(of_nat (?d * unat U) :: u32) = of_nat ?d * U" by simp
  moreover have "?d * unat U < 2 ^ 32" using \<open>?d * unat U \<le> unat npt\<close> assms(2) by linarith
  ultimately have k: "unat (of_nat ?d * U :: u32) = ?d * unat U"
    using unat_of_nat [where 'a = 32, of "?d * unat U"] by simp
  have "[0..<unat npt] = [0..<?d * unat U] @ [?d * unat U..<unat npt]"
    using bounds(1) upt_add_eq_append [of 0 "?d * unat U" "unat npt mod unat U"] split by simp
  moreover have "unat npt - ?d * unat U = unat npt mod unat U" by (simp add: minus_div_mult_eq_mod)
  moreover have "?d * unat U = unat npt - unat npt mod unat U" by (simp add: minus_mod_eq_div_mult)
  ultimately show ?thesis
    using main k by (simp add: unroll_iterations_def comp_def map_replicate_const)
qed

lemma length_dev_digest: "length (dev_digest st) = 32"
  by (simp add: dev_digest_def length_concat_map_fixed [where n = 4])

lemma length_batch_digest: "length (batch_digest J nonce) = 32"
  by (simp add: batch_digest_def second_sha_def Let_def length_dev_digest sha256d_80_be_sha256d)

lemma job_hits_numeric:
  assumes "length (dj_share_target_be J) = 32"
  shows "job_hits J (batch_digest J) nonces = map (\<lambda>n. \<lparr>hr_work_id = dj_work_id J, hr_nonce = n\<rparr>)
     (filter (\<lambda>n. be_nat (batch_digest J n) \<le> be_nat (dj_share_target_be J)) nonces)"
  using leq_loop_be_nat [OF length_batch_digest assms, of 0]
  by (simp add: job_hits_def device_leq_loop)

section \<open>Properties\<close>

text \<open>What the kernels hash. Without a midstate both digests are the double SHA-256 of the header the
  thread assembles. With the midstate of 64 bytes \<open>first\<close>, the stub kernel hashes \<open>first\<close> and the last
  16 bytes of that header; the batch kernels hash \<open>first\<close> and the byte-reversed last four words,
  which is the same message exactly when each of the four words (the last word of the Merkle root,
  the time, the target bits and the nonce) reads the same in both byte orders.\<close>

theorem kernel_digests:
  "(\<not> used_midstate J \<longrightarrow> stub_digest J (device_header J nonce) = sha256d (device_header J nonce) \<and>
      batch_digest J nonce = sha256d (device_header J nonce)) \<and>
   (used_midstate J \<and> dj_midstate_le J = sha256_midstate_64 first \<and> length first = 64 \<longrightarrow>
     (\<exists>batch_tail. stub_digest J (device_header J nonce) = sha256d (first @ drop 64 (device_header J nonce)) \<and>
       batch_digest J nonce = sha256d (first @ batch_tail) \<and>
       (batch_tail = drop 64 (device_header J nonce) \<longleftrightarrow>
         (\<forall>w \<in> {dj_merkle_root_le J ! 7, device_ntime J, dj_nbits J, nonce}. bswap32 w = w))))"
proof (intro conjI impI)
  let ?ws = "[dj_merkle_root_le J ! 7, device_ntime J, dj_nbits J, nonce]"
  assume mid: "used_midstate J \<and> dj_midstate_le J = sha256_midstate_64 first \<and> length first = 64"
  have "concat (map word_be_bytes (map bswap32 ?ws)) = concat (map word_be_bytes ?ws) \<longleftrightarrow> map bswap32 ?ws = ?ws"
    by (rule concat_be_bytes_inj) simp
  then have "concat (map word_be_bytes (map bswap32 ?ws)) = drop 64 (device_header J nonce) \<longleftrightarrow>
      (\<forall>w \<in> {dj_merkle_root_le J ! 7, device_ntime J, dj_nbits J, nonce}. bswap32 w = w)"
    by (simp add: device_header_tail)
  moreover have "batch_digest J nonce = sha256d (first @ concat (map word_be_bytes (map bswap32 ?ws)))"
    using mid batch_digest_midstate [of J first nonce] by (simp add: comp_def)
  moreover have "stub_digest J (device_header J nonce) = sha256d (first @ drop 64 (device_header J nonce))"
    using mid stub_digest_midstate [of J first "device_header J nonce"] by simp
  ultimately show "\<exists>batch_tail. stub_digest J (device_header J nonce) =
        sha256d (first @ drop 64 (device_header J nonce)) \<and>
      batch_digest J nonce = sha256d (first @ batch_tail) \<and>
      (batch_tail = drop 64 (device_header J nonce) \<longleftrightarrow>
        (\<forall>w \<in> {dj_merkle_root_le J ! 7, device_ntime J, dj_nbits J, nonce}. bswap32 w = w))"
    by blast
qed (simp_all add: no_midstate_digest)

definition sample_job :: DeviceJob where
  "sample_job = \<lparr>dj_version = 1, dj_ntime = 5, dj_nbits = 0x1d00ffff, dj_vmask = 0, dj_ntime_min = 0,
     dj_ntime_max = 0, dj_extranonce2_size = 4, dj_work_id = 9, dj_prevhash_le = replicate 8 0,
     dj_merkle_root_le = replicate 8 0, dj_share_target_le = replicate 8 0, dj_block_target_le = replicate 8 0,
     dj_midstate_le = replicate 8 0, dj_share_target_be = replicate 32 255\<rparr>"

lemma eight_numerals: "[0..<8] = [0, 1, 2, 3, 4, 5, 6, 7::nat]"
  by code_simp

lemma sample_job_no_midstate: "\<not> used_midstate sample_job"
  by (simp add: used_midstate_def sample_job_def eight_numerals)

theorem kernel_digests_witness:
  "batch_digest sample_job 7 = sha256d (device_header sample_job 7)"
  using kernel_digests [of sample_job 7] sample_job_no_midstate by simp

text \<open>A block, for any schedule.\<close>

lemma block_reports:
  assumes "log_rep L d" and "j < num_jobs" and "job_at e j = Inr J" and "length L + length sched < 2 ^ 32"
    and "nonces = map (\<lambda>(t, k). thread_nonce nonce_base j blockDim blockIdx npt t k) sched"
    and "hits = map (\<lambda>n. \<lparr>hr_work_id = dj_work_id J, hr_nonce = n\<rparr>)
      (filter (\<lambda>n. be_nat (batch_digest J n) \<le> be_nat (dj_share_target_be J)) nonces)"
    and "length (dj_share_target_be J) = 32"
  shows "if length hits \<le> 64
    then \<exists>d'. kernel_mine_batch e num_jobs nonce_base npt j blockDim blockIdx garbage smid sched d = Inr d' \<and>
        log_rep (L @ hits) d'
    else kernel_mine_batch e num_jobs nonce_base npt j blockDim blockIdx garbage smid sched d = Inl Out_of_bounds"
proof -
  let ?blk = "\<lparr>s_hits = map garbage [0..<64], s_count = 0\<rparr> :: block_state"
  have "length hits \<le> length sched"
    unfolding assms(5,6) by (metis length_filter_le length_map)
  then have bound: "length L + length hits < 2 ^ 32" using assms(4) by simp
  obtain blk d' where blk: "fold_result block_hit hits (?blk, d) = Inr (blk, d')"
    "unat (s_count blk) = length hits" "length (s_hits blk) = 64"
    "take (min 64 (length hits)) (s_hits blk) = take 64 hits" "log_rep (L @ drop 64 hits) d'"
    "length hits \<le> 64 \<longrightarrow> d' = d"
    using block_hits_state [OF assms(1) bound, of "map garbage [0..<64]"] by auto
  have nj: "\<not> j \<ge> num_jobs" using assms(2) by simp
  have hits: "job_hits J (batch_digest J) nonces = hits" unfolding assms(6) by (rule job_hits_numeric [OF assms(7)])
  have kernel: "kernel_mine_batch e num_jobs nonce_base npt j blockDim blockIdx garbage smid sched d =
      block_flush smid (blk, d')"
    unfolding kernel_mine_batch_def Let_def fold_batch_candidates
    using blk(1) nj by (simp add: assms(3) hits flip: assms(5))
  show ?thesis
  proof (cases "length hits \<le> 64")
    case True
    then have "length hits \<le> length (s_hits blk)" "take (length hits) (s_hits blk) = hits" "d' = d"
      using blk by simp_all
    then show ?thesis using block_flush_log [OF assms(1) blk(2) _ bound, of smid] kernel True by auto
  next
    case False
    have "unat (s_count blk) \<noteq> 0" using False blk(2) by linarith
    then have "s_count blk > 0" by (simp add: word_gt_0 unat_eq_zero)
    moreover have "g_hit_buf d' \<noteq> Null" "g_hit_cap d' \<noteq> 0" using blk(5) by (auto simp: log_rep_def)
    ultimately show ?thesis
      using False blk(2,3) kernel fold_flush_error [of "s_hits blk" 64 "length hits"]
      by (simp add: block_flush_def Let_def)
  qed
qed

text \<open>C6: what a block of the batch kernel reports. For a valid job and a set-up ring: when at most 64 of
  the candidates have a digest at or below the job's share target (as numbers), the block appends to the ring exactly
  these, each with the job's work id and its nonce, in the order of the schedule; when there are more,
  the final copy reads past the 64 entries of the block's buffer.\<close>

theorem batch_block_reports:
  assumes "log_rep L d" and "j < num_jobs" and "job_at e j = Inr J" and "length L + length sched < 2 ^ 32"
    and "nonces = map (\<lambda>(t, k). thread_nonce nonce_base j blockDim blockIdx npt t k) sched"
    and "hits = map (\<lambda>n. \<lparr>hr_work_id = dj_work_id J, hr_nonce = n\<rparr>)
      (filter (\<lambda>n. be_nat (batch_digest J n) \<le> be_nat (dj_share_target_be J)) nonces)"
    and "length (dj_share_target_be J) = 32"
  shows "if length hits \<le> 64
    then \<exists>d'. kernel_mine_batch e num_jobs nonce_base npt j blockDim blockIdx garbage smid sched d = Inr d' \<and>
        log_rep (L @ hits) d'
    else kernel_mine_batch e num_jobs nonce_base npt j blockDim blockIdx garbage smid sched d = Inl Out_of_bounds"
  using assms by (rule block_reports)

definition sample_jobs :: device_jobs where
  "sample_jobs = \<lparr>g_jobs = Some [sample_job], g_jobs_const = [], g_jobs_const_size = 0, g_num_jobs = 1\<rparr>"

lemma sample_block:
  "log_rep [] (initDeviceHitBuffer (\<lambda>i. no_hit) 4 device_ring_start)" "job_at sample_jobs 0 = Inr sample_job"
  using drain_rep_start by (simp_all add: drain_rep_def job_at_def sample_jobs_def)

theorem batch_block_reports_witness:
  "\<exists>d'. kernel_mine_batch sample_jobs 1 0 1 0 32 0 (\<lambda>i. no_hit) 0 [(0, 0), (1, 0)]
     (initDeviceHitBuffer (\<lambda>i. no_hit) 4 device_ring_start) = Inr d' \<and>
   log_rep (map (\<lambda>n. \<lparr>hr_work_id = dj_work_id sample_job, hr_nonce = n\<rparr>)
     (filter (\<lambda>n. be_nat (batch_digest sample_job n) \<le> be_nat (dj_share_target_be sample_job)) [0, 1])) d'"
proof -
  have nonces: "[0, 1] = map (\<lambda>(t, k). thread_nonce 0 0 32 0 1 t k) [(0, 0), (1, 0)]" by (simp add: thread_nonce_def)
  have "length (map (\<lambda>n. \<lparr>hr_work_id = dj_work_id sample_job, hr_nonce = n\<rparr>)
      (filter (\<lambda>n. be_nat (batch_digest sample_job n) \<le> be_nat (dj_share_target_be sample_job)) [0, 1])) \<le> 64"
    using length_filter_le [of "\<lambda>n. be_nat (batch_digest sample_job n) \<le> be_nat (dj_share_target_be sample_job)" "[0, 1]"]
    by (simp only: length_map) simp
  then show ?thesis
    using batch_block_reports [OF sample_block(1) _ sample_block(2) _ nonces refl, of 1 "\<lambda>i. no_hit" 0]
    by (simp add: sample_job_def del: filter.simps)
qed

lemma batch_loop_eq: "batch_loop npt k = map of_nat [unat k..<unat npt]"
proof (induction npt k rule: batch_loop.induct)
  case (1 npt k)
  show ?case
  proof (cases "k < npt")
    case True
    then have "unat (k + 1) = Suc (unat k)" "unat k < unat npt"
      by (simp_all add: unat_next word_less_nat_alt)
    then show ?thesis using True 1 by (simp add: batch_loop.simps [of npt k] upt_conv_Cons)
  qed (simp add: batch_loop.simps [of npt k] word_less_nat_alt)
qed

lemma product_upt: "concat (map (\<lambda>t. map (\<lambda>k. t * N + k) [0..<N]) [0..<T]) = [0..<T * N]"
proof (induction T)
  case (Suc T)
  have "map (\<lambda>k. T * N + k) [0..<N] = [T * N..<T * N + N]" using map_add_upt [of "T * N" N] by (simp add: add.commute)
  then show ?case using Suc upt_add_eq_append [of 0 "T * N" N] by (simp add: add.commute)
qed simp

definition all_below :: "u32 \<Rightarrow> u32 list" where
  "all_below n = map of_nat [0..<unat n]"

lemma all_below: "distinct (all_below n)" "set (all_below n) = {k. k < n}"
proof -
  have small: "unat (of_nat i :: u32) = i" if "i < unat n" for i
    using that unsigned_less [of n, where 'a = nat] by (simp add: unat_of_nat)
  then have "inj_on (of_nat :: nat \<Rightarrow> u32) {0..<unat n}" by (metis atLeastLessThan_iff inj_on_inverseI)
  then show "distinct (all_below n)" by (simp add: all_below_def distinct_map)
  show "set (all_below n) = {k. k < n}"
  proof (rule set_eqI)
    fix k
    have "k \<in> set (all_below n) \<longleftrightarrow> (\<exists>i < unat n. k = of_nat i)" by (auto simp: all_below_def)
    also have "\<dots> \<longleftrightarrow> k < n" using small by (auto simp: word_less_nat_alt intro!: exI [of _ "unat k"])
    finally show "k \<in> set (all_below n) \<longleftrightarrow> k \<in> {k. k < n}" by simp
  qed
qed

text \<open>Each candidate of the grid of threads and iterations is in a schedule once.\<close>

lemma block_schedule_mset:
  assumes "block_schedule npt dim sched"
  shows "mset sched = mset (List.product (all_below dim) (all_below npt))"
proof (rule multiset_eqI)
  fix x :: "u32 \<times> u32"
  obtain t k where x: "x = (t, k)" by (cases x)
  have one: "distinct xs \<Longrightarrow> count (mset xs) y = (if y \<in> set xs then 1 else 0)" for xs :: "'a list" and y
    by (simp add: distinct_count_atmost_1)
  have "count (mset sched) x = count (mset (map snd (filter (\<lambda>(s, k). s = t) sched))) k"
    by (induction sched) (auto simp: x)
  also have "\<dots> = (if t < dim \<and> k < npt then 1 else 0)"
    using assms one [OF all_below(1) [of npt], of k]
    by (simp add: block_schedule_def batch_loop_eq all_below(2) flip: all_below_def)
  also have "\<dots> = count (mset (List.product (all_below dim) (all_below npt))) x"
    using one [OF distinct_product [OF all_below(1) [of dim] all_below(1) [of npt]], of x] by (simp add: x all_below(2))
  finally show "count (mset sched) x = count (mset (List.product (all_below dim) (all_below npt))) x" .
qed

lemma block_nonces:
  assumes "block_schedule npt dim sched"
  shows "mset (map (\<lambda>(t, k). thread_nonce base j dim b npt t k) sched) =
    mset (map (\<lambda>x. base + j + b * dim * npt + of_nat x) [0..<unat dim * unat npt])"
proof -
  have lane: "thread_nonce base j dim b npt (of_nat t) (of_nat k) = base + j + b * dim * npt + of_nat (t * unat npt + k)" for t k
    by (simp add: thread_nonce_def Let_def algebra_simps)
  have "map (\<lambda>x. base + j + b * dim * npt + of_nat x) [0..<unat dim * unat npt] =
      concat (map (\<lambda>t. map (\<lambda>k. base + j + b * dim * npt + of_nat (t * unat npt + k)) [0..<unat npt]) [0..<unat dim])"
    unfolding product_upt [symmetric] map_concat map_map comp_def ..
  also have "\<dots> = map (\<lambda>(t, k). thread_nonce base j dim b npt t k) (List.product (all_below dim) (all_below npt))"
    by (simp only: product_concat_map map_concat map_map comp_def all_below_def lane prod.case)
  finally show ?thesis by (simp add: block_schedule_mset [OF assms])
qed

text \<open>C15: a block of the batch kernel tests each of its nonces once. In whatever order the threads of a block take
  effect while each runs its loop, a block of a valid job on a set-up ring appends to the ring, once each and in some
  order, exactly the candidates whose digest is at or below the share target among \<open>blockDim * npt\<close>
  consecutive nonces, which begin \<open>blockIdx\<close> such ranges behind the base nonce plus the job's index; with
  more than 64 of them the final copy reads past the block's buffer.\<close>

theorem batch_block_covers:
  assumes "log_rep L d" and "j < num_jobs" and "job_at e j = Inr J" and "length (dj_share_target_be J) = 32"
    and "block_schedule npt blockDim sched" and "length L + unat blockDim * unat npt < 2 ^ 32"
    and "start = nonce_base + j + blockIdx * (blockDim * npt)"
    and "hits = filter (\<lambda>h. be_nat (batch_digest J (hr_nonce h)) \<le> be_nat (dj_share_target_be J))
      (map (\<lambda>x. \<lparr>hr_work_id = dj_work_id J, hr_nonce = start + of_nat x\<rparr>) [0..<unat blockDim * unat npt])"
  shows "if length hits \<le> 64
    then \<exists>d' H. kernel_mine_batch e num_jobs nonce_base npt j blockDim blockIdx garbage smid sched d = Inr d' \<and>
        log_rep (L @ H) d' \<and> mset H = mset hits
    else kernel_mine_batch e num_jobs nonce_base npt j blockDim blockIdx garbage smid sched d = Inl Out_of_bounds"
proof -
  define ns where "ns = map (\<lambda>(t, k). thread_nonce nonce_base j blockDim blockIdx npt t k) sched"
  define H where "H = map (\<lambda>n. \<lparr>hr_work_id = dj_work_id J, hr_nonce = n\<rparr>)
      (filter (\<lambda>n. be_nat (batch_digest J n) \<le> be_nat (dj_share_target_be J)) ns)"
  have ns: "mset ns = mset (map (\<lambda>x. start + of_nat x) [0..<unat blockDim * unat npt])"
    unfolding ns_def block_nonces [OF assms(5)] by (simp add: assms(7) mult.assoc)
  then have len: "length ns = unat blockDim * unat npt" using mset_eq_length by fastforce
  have hits: "hits = map (\<lambda>n. \<lparr>hr_work_id = dj_work_id J, hr_nonce = n\<rparr>)
      (filter (\<lambda>n. be_nat (batch_digest J n) \<le> be_nat (dj_share_target_be J)) (map (\<lambda>x. start + of_nat x) [0..<unat blockDim * unat npt]))"
    by (simp add: assms(8) filter_map comp_def)
  have H: "mset H = mset hits" unfolding H_def hits mset_map [of "\<lambda>n. \<lparr>hr_work_id = dj_work_id J, hr_nonce = n\<rparr>"] mset_filter ns ..
  have bound: "length L + length sched < 2 ^ 32" using len assms(6) by (simp add: ns_def)
  note reports = block_reports [OF assms(1-3) bound ns_def H_def assms(4), of garbage smid]
  show ?thesis
  proof (cases "length hits \<le> 64")
    case True
    then obtain d' where "kernel_mine_batch e num_jobs nonce_base npt j blockDim blockIdx garbage smid sched d = Inr d'" "log_rep (L @ H) d'"
      using reports mset_eq_length [OF H] by auto
    then show ?thesis using True H by auto
  qed (use reports mset_eq_length [OF H] in simp)
qed

theorem batch_block_covers_witness:
  "\<exists>d' H. kernel_mine_batch sample_jobs 1 0 2 0 1 3 (\<lambda>i. no_hit) 0 [(0, 0), (0, 1)]
     (initDeviceHitBuffer (\<lambda>i. no_hit) 4 device_ring_start) = Inr d' \<and> log_rep H d' \<and>
   (\<forall>h. h \<in> set H \<longleftrightarrow> hr_work_id h = dj_work_id sample_job \<and> hr_nonce h \<in> {6, 7} \<and>
      be_nat (batch_digest sample_job (hr_nonce h)) \<le> be_nat (dj_share_target_be sample_job))"
proof -
  define hits where "hits = filter (\<lambda>h. be_nat (batch_digest sample_job (hr_nonce h)) \<le> be_nat (dj_share_target_be sample_job))
      (map (\<lambda>x. \<lparr>hr_work_id = dj_work_id sample_job, hr_nonce = 6 + of_nat x\<rparr>) [0..<unat (1 :: u32) * unat (2 :: u32)])"
  have "[0..<unat (1 :: u32) * unat (2 :: u32)] = [0, 1]" by (simp add: upt_rec)
  then have two: "hits = filter (\<lambda>h. be_nat (batch_digest sample_job (hr_nonce h)) \<le> be_nat (dj_share_target_be sample_job))
      [\<lparr>hr_work_id = dj_work_id sample_job, hr_nonce = 6\<rparr>, \<lparr>hr_work_id = dj_work_id sample_job, hr_nonce = 7\<rparr>]"
    by (simp only: hits_def list.map) simp
  have "block_schedule 2 1 [(0, 0), (0, 1)]"
    by (simp add: block_schedule_def batch_loop.simps word_less_nat_alt unat_eq_zero)
  moreover have "length hits \<le> unat (1 :: u32) * unat (2 :: u32)"
    unfolding hits_def by (rule order_trans [OF length_filter_le]) simp
  then have "length hits \<le> 64" by simp
  ultimately obtain d' H where "kernel_mine_batch sample_jobs 1 0 2 0 1 3 (\<lambda>i. no_hit) 0 [(0, 0), (0, 1)]
       (initDeviceHitBuffer (\<lambda>i. no_hit) 4 device_ring_start) = Inr d'" "log_rep H d'" "mset H = mset hits"
    using batch_block_covers [where sched = "[(0, 0), (0, 1)]", OF sample_block(1) _ sample_block(2) _ _ _ _ hits_def, of 1 0 3 "\<lambda>i. no_hit" 0]
    by (auto simp: sample_job_def)
  moreover have "set H = set hits" using \<open>mset H = mset hits\<close> by (metis set_mset_mset)
  moreover have "h \<in> set hits \<longleftrightarrow> hr_work_id h = dj_work_id sample_job \<and> hr_nonce h \<in> {6, 7} \<and>
      be_nat (batch_digest sample_job (hr_nonce h)) \<le> be_nat (dj_share_target_be sample_job)" for h
    by (cases h) (auto simp: two)
  ultimately show ?thesis by blast
qed

text \<open>The unrolled kernels cover the nonces of a thread. For a positive unroll factor and a count of
  nonces that leaves room for one more round below \<open>2 ^ 32\<close>, the two loops end, and together they
  visit the offsets from 0 to the count once each in ascending order, the last ones (the remainder of
  the division) in the second loop.\<close>

theorem unrolled_loops_cover:
  assumes "0 < unat UNROLL" and "unat npt + unat UNROLL < 2 ^ 32"
  shows "\<exists>its. unroll_iterations UNROLL npt = Some its \<and> map fst its = map of_nat [0..<unat npt] \<and>
    map snd its = replicate (unat npt - unat npt mod unat UNROLL) False @
      replicate (unat npt mod unat UNROLL) True"
  using assms by (rule unroll_iterations_cover)

theorem unrolled_loops_cover_witness:
  "\<exists>its. unroll_iterations 4 6 = Some its \<and> map fst its = [0, 1, 2, 3, 4, 5]"
proof -
  have "map (of_nat :: nat \<Rightarrow> u32) [0..<6] = [0, 1, 2, 3, 4, 5]" by code_simp
  then show ?thesis using unrolled_loops_cover [of 4 6] by auto
qed

end
