(* ===== verification/Metrics.thy ===== *)
theory Metrics
  imports Json_Library Miner_Prelude
begin

text \<open>
  \<^verbatim>\<open>src/obs/metrics.cc\<close>, the registry: named counters of 64 bits that wrap around, named gauges of the
  last value set, and the snapshot as a document. The unordered maps are association lists with one
  entry per name; the HTTP server that serves the snapshot is in \<open>Observability\<close>.
\<close>

record MetricsRegistry =
  mr_counters :: "(string \<times> u64) list"
  mr_gauges :: "(string \<times> u64) list"

definition metrics_new :: MetricsRegistry where
  "metrics_new = \<lparr>mr_counters = [], mr_gauges = []\<rparr>"

fun put_value :: "string \<Rightarrow> 'v \<Rightarrow> (string \<times> 'v) list \<Rightarrow> (string \<times> 'v) list" where
  "put_value k v [] = [(k, v)]"
| "put_value k v ((k', v') # xs) = (if k = k' then (k, v) # xs else (k', v') # put_value k v xs)"

definition counter :: "MetricsRegistry \<Rightarrow> string \<Rightarrow> u64" where
  "counter r name = (case map_of (mr_counters r) name of None \<Rightarrow> 0 | Some v \<Rightarrow> v)"

definition increment :: "string \<Rightarrow> u64 \<Rightarrow> MetricsRegistry \<Rightarrow> MetricsRegistry" where
  "increment name delta r = r\<lparr>mr_counters := put_value name (counter r name + delta) (mr_counters r)\<rparr>"

definition setGauge :: "string \<Rightarrow> u64 \<Rightarrow> MetricsRegistry \<Rightarrow> MetricsRegistry" where
  "setGauge name v r = r\<lparr>mr_gauges := put_value name v (mr_gauges r)\<rparr>"

definition metrics_snapshot :: "MetricsRegistry \<Rightarrow> json" where
  "metrics_snapshot r =
     (let section = (\<lambda>name dec xs. if xs = [] then [] else [(name, JObject (map (\<lambda>(k, v). (k, JInt (dec v))) xs))]);
          members = section ''counters'' uint (mr_counters r) @ section ''gauges'' sint (mr_gauges r)
      in if members = [] then JNull else JObject members)"

lemma map_of_put_value [simp]: "map_of (put_value k v xs) = (map_of xs)(k \<mapsto> v)"
  by (induction k v xs rule: put_value.induct) auto

lemma counter_increment [simp]:
  "counter (increment name delta r) k = (if k = name then counter r name + delta else counter r k)"
  by (simp add: counter_def increment_def)

lemma counter_setGauge [simp]: "counter (setGauge name v r) k = counter r k"
  by (simp add: counter_def setGauge_def)

text \<open>After any increments a counter has the sum of its deltas, modulo \<open>2 ^ 64\<close>.\<close>

lemma counter_sum:
  "counter (fold (\<lambda>(name, delta). increment name delta) incs r) k =
   counter r k + sum_list (map snd (filter (\<lambda>(name, delta). name = k) incs))"
  by (induction incs arbitrary: r) (auto simp: add.assoc)

end
