(* ===== verification/Miner_Jobs.thy ===== *)
theory Miner_Jobs
  imports Miner_Setup Device_Engine Metrics
begin

text \<open>
  \<^verbatim>\<open>src/tools/stratum_registry_runner.cpp\<close>, the loop of \<^verbatim>\<open>main\<close> from the queues of the sources to the
  kernel and back: polling the sources into the registry (\<open>poll_sources\<close>), the active set
  (\<open>active_set\<close>), the table of device jobs (\<open>device_job\<close>), and what happens to the hits the device
  reports (\<open>process_hits\<close>). The state of the loop is \<open>Miner\<close> of the set-up with the registry, the GBT
  runner and the counters beside it.
\<close>

section \<open>Polling\<close>

type_synonym slots = "WorkSourceRegistry \<times> (u64 \<rightharpoonup> u32)"

definition stamp_item :: "nat \<Rightarrow> NormalizerResult \<Rightarrow> WorkItem" where
  "stamp_item sid full = (nr_item full)\<lparr>wi_source_id := of_nat sid, wi_active := True\<rparr>"

definition publish :: "nat \<Rightarrow> NormalizerResult \<Rightarrow> slots \<Rightarrow> slots result" where
  "publish sid full st =
     (let item = stamp_item sid full; w2s = (snd st)(wi_work_id item \<mapsto> of_nat sid)
      in case registry_set (fst st) sid item (nr_job_const full) of
           Inl e \<Rightarrow> Inl e
         | Inr reg \<Rightarrow> Inr (reg, w2s))"

function drain_stratum :: "nat \<Rightarrow> StratumAdapter \<Rightarrow> slots \<Rightarrow> (StratumAdapter \<times> slots) result" where
  "drain_stratum sid a st =
     (case pollNormalizedFull_stratum a of
        (None, a) \<Rightarrow> Inr (a, st)
      | (Some full, a) \<Rightarrow> (case publish sid full st of Inl e \<Rightarrow> Inl e | Inr st \<Rightarrow> drain_stratum sid a st))"
  by pat_completeness auto
termination
  by (relation "measure (\<lambda>(sid, a, st). length (sa_q a))")
    (auto simp: pollNormalizedFull_stratum_def split: list.splits)

declare drain_stratum.simps [simp del]

function drain_gbt :: "nat \<Rightarrow> GbtAdapter \<Rightarrow> slots \<Rightarrow> (GbtAdapter \<times> slots) result" where
  "drain_gbt sid a st =
     (case pollNormalizedFull_gbt a of
        (None, a) \<Rightarrow> Inr (a, st)
      | (Some full, a) \<Rightarrow> (case publish sid full st of Inl e \<Rightarrow> Inl e | Inr st \<Rightarrow> drain_gbt sid a st))"
  by pat_completeness auto
termination
  by (relation "measure (\<lambda>(sid, a, st). length (ga_q a))")
    (auto simp: pollNormalizedFull_gbt_def split: list.splits)

declare drain_gbt.simps [simp del]

definition poll_source :: "nat \<Rightarrow> SourceInfo \<Rightarrow> GbtAdapter option \<Rightarrow> slots \<Rightarrow>
    (SourceInfo \<times> GbtAdapter option \<times> slots) result" where
  "poll_source sid src gbt st =
     (case (si_kind src, si_stratum src) of
        (Stratum_source, Some r) \<Rightarrow>
          (case drain_stratum sid (rn_adapter r) st of
             Inl e \<Rightarrow> Inl e
           | Inr (a, st) \<Rightarrow> Inr (src\<lparr>si_stratum := Some (r\<lparr>rn_adapter := a\<rparr>)\<rparr>, gbt, st))
      | (Gbt_source, _) \<Rightarrow>
          (case (if si_gbt src then gbt else None) of
             None \<Rightarrow> Inr (src, gbt, st)
           | Some g \<Rightarrow> (case drain_gbt sid g st of Inl e \<Rightarrow> Inl e | Inr (g, st) \<Rightarrow> Inr (src, Some g, st)))
      | _ \<Rightarrow> Inr (src, gbt, st))"

fun poll_sources :: "nat \<Rightarrow> SourceInfo list \<Rightarrow> GbtAdapter option \<Rightarrow> slots \<Rightarrow>
    (SourceInfo list \<times> GbtAdapter option \<times> slots) result" where
  "poll_sources sid [] gbt st = Inr ([], gbt, st)"
| "poll_sources sid (src # srcs) gbt st =
     (case poll_source sid src gbt st of
        Inl e \<Rightarrow> Inl e
      | Inr (src, gbt, st) \<Rightarrow>
          (case poll_sources (sid + 1) srcs gbt st of
             Inl e \<Rightarrow> Inl e
           | Inr (srcs, res) \<Rightarrow> Inr (src # srcs, res)))"

section \<open>The active set and the device jobs\<close>

fun active_loop :: "WorkSourceRegistry \<Rightarrow> nat list \<Rightarrow> u64 list \<times> (u64 \<rightharpoonup> WorkSlotSnapshot) \<Rightarrow>
    u64 list \<times> (u64 \<rightharpoonup> WorkSlotSnapshot)" where
  "active_loop reg [] acc = acc"
| "active_loop reg (i # is) (ids, snaps) =
     (case registry_get reg i of
        None \<Rightarrow> active_loop reg is (ids, snaps)
      | Some s \<Rightarrow>
          if \<not> wi_active (snap_item s) then active_loop reg is (ids, snaps)
          else let wid = wi_work_id (snap_item s)
               in active_loop reg is (ids @ [wid], if snaps wid = None then snaps(wid \<mapsto> s) else snaps))"

definition active_set :: "WorkSourceRegistry \<Rightarrow> u64 list \<times> (u64 \<rightharpoonup> WorkSlotSnapshot)" where
  "active_set reg = active_loop reg [0..<length reg] ([], Map.empty)"

definition share_target_bytes :: "u32 list \<Rightarrow> u8 list" where
  "share_target_bytes target_le = concat (map (\<lambda>w. word_be_bytes (target_le ! (7 - w))) [0..<8])"

definition device_job :: "WorkSlotSnapshot \<Rightarrow> DeviceJob" where
  "device_job ss =
     (let item = snap_item ss
      in \<lparr>dj_version = wi_version item, dj_ntime = wi_ntime item, dj_nbits = wi_nbits item, dj_vmask = wi_vmask item,
          dj_ntime_min = wi_ntime_min item, dj_ntime_max = wi_ntime_max item,
          dj_extranonce2_size = wi_extranonce2_size item, dj_work_id = wi_work_id item,
          dj_prevhash_le = wi_prevhash_le item, dj_merkle_root_le = wi_merkle_root_le item,
          dj_share_target_le = wi_share_target_le item, dj_block_target_le = wi_block_target_le item,
          dj_midstate_le = midstate_le (snap_const ss),
          dj_share_target_be = share_target_bytes (wi_share_target_le item)\<rparr>)"

text \<open>\<^verbatim>\<open>id_to_snap[wid]\<close> inserts a default snapshot for an id that is missing.\<close>

definition default_snapshot :: WorkSlotSnapshot where
  "default_snapshot = \<lparr>snap_gen = 0, snap_item = default_item, snap_const = default_const\<rparr>"

definition build_jobs :: "u64 list \<Rightarrow> (u64 \<rightharpoonup> WorkSlotSnapshot) \<Rightarrow> DeviceJob list" where
  "build_jobs active_ids snaps =
     map (\<lambda>wid. device_job (case snaps wid of None \<Rightarrow> default_snapshot | Some ss \<Rightarrow> ss)) active_ids"

section \<open>Hits\<close>

definition hit_header :: "WorkItem \<Rightarrow> u32 \<Rightarrow> u8 list" where
  "hit_header item nonce =
     word_be_bytes (wi_version item) @ leU32WordsToBe32Bytes (wi_prevhash_le item) @
     leU32WordsToBe32Bytes (wi_merkle_root_le item) @
     word_be_bytes (wi_ntime item) @ word_be_bytes (wi_nbits item) @ word_be_bytes nonce"

record HitState =
  ht_miner :: Miner
  ht_metrics :: MetricsRegistry
  ht_posted :: "string list"

definition count :: "string \<Rightarrow> HitState \<Rightarrow> HitState" where
  "count name st = st\<lparr>ht_metrics := increment name 1 (ht_metrics st)\<rparr>"

text \<open>A block hit with a GBT submitter goes to the node, every other hit to the submit router.\<close>

definition submit_block :: "(string \<Rightarrow> bool) \<Rightarrow> GbtSubmitter \<Rightarrow> u8 list \<Rightarrow> HitState \<Rightarrow> HitState" where
  "submit_block rpc_submitblock s header st =
     (case submitHeader rpc_submitblock s header of
        (ok, posted) \<Rightarrow>
          let st = (case posted of None \<Rightarrow> st | Some block_hex \<Rightarrow> st\<lparr>ht_posted := ht_posted st @ [block_hex]\<rparr>)
          in if ok then count ''submit.blocks_gbt_ok'' st
             else let st = (if \<not> hasCoinbase s then count ''submit.blocks_gbt_no_cb'' st else st)
                  in count ''submit.blocks_gbt_fail'' st)"

definition submit_hit :: "OutboxCfg \<Rightarrow> Clock \<Rightarrow> u8 list \<Rightarrow> u32 list \<Rightarrow> u64 \<Rightarrow> u32 \<Rightarrow> Miner \<Rightarrow> bool \<times> Miner" where
  "submit_hit cfg ck header target_le work_id nonce m =
     (case verifyAndSubmit (mn_router m) header target_le work_id nonce of (ok, r) \<Rightarrow> (ok, run_callbacks cfg ck r m))"

definition route_hit :: "OutboxCfg \<Rightarrow> Clock \<Rightarrow> (string \<Rightarrow> bool) \<Rightarrow> GbtSubmitter option \<Rightarrow> (u64 \<rightharpoonup> WorkSlotSnapshot) \<Rightarrow>
    HitRecord \<Rightarrow> HitState \<Rightarrow> HitState" where
  "route_hit cfg ck rpc_submitblock gbt_submitter snaps hit st =
     (case snaps (hr_work_id hit) of
        None \<Rightarrow> st
      | Some ss \<Rightarrow>
          let header = hit_header (snap_item ss) (hr_nonce hit);
              h2 = sha256 (sha256 header);
              is_block = isHashLEQTarget h2 (wi_block_target_le (snap_item ss))
          in case (if is_block then gbt_submitter else None) of
               Some s \<Rightarrow> submit_block rpc_submitblock s header st
             | None \<Rightarrow>
                 let st = st\<lparr>ht_miner := snd (submit_hit cfg ck header (wi_share_target_le (snap_item ss))
                       (hr_work_id hit) (hr_nonce hit) (ht_miner st))\<rparr>
                 in count ''submit.shares'' st)"

definition process_hits :: "OutboxCfg \<Rightarrow> Clock \<Rightarrow> (string \<Rightarrow> bool) \<Rightarrow> GbtSubmitter option \<Rightarrow> (u64 \<rightharpoonup> WorkSlotSnapshot) \<Rightarrow>
    HitRecord list \<Rightarrow> HitState \<Rightarrow> HitState" where
  "process_hits cfg ck rpc_submitblock gbt_submitter snaps hits st =
     (if hits = [] then st
      else let st = st\<lparr>ht_metrics := increment ''device.hits'' (of_nat (length hits)) (ht_metrics st)\<rparr>
           in fold (route_hit cfg ck rpc_submitblock gbt_submitter snaps) hits st)"

section \<open>Polling as a sequence of publications\<close>

definition job_ops :: "nat \<Rightarrow> NormalizerResult list \<Rightarrow> (nat \<times> WorkItem \<times> GpuJobConst) list" where
  "job_ops sid q = map (\<lambda>n. (sid, stamp_item sid n, nr_job_const n)) q"

definition owners :: "(nat \<times> WorkItem \<times> GpuJobConst) list \<Rightarrow> (u64 \<rightharpoonup> u32) \<Rightarrow> (u64 \<rightharpoonup> u32)" where
  "owners ops w2s = fold (\<lambda>(sid, it, jc) m. m(wi_work_id it \<mapsto> of_nat sid)) ops w2s"

definition source_ops :: "nat \<Rightarrow> SourceInfo \<Rightarrow> GbtAdapter option \<Rightarrow> (nat \<times> WorkItem \<times> GpuJobConst) list \<times> GbtAdapter option" where
  "source_ops sid src gbt =
     (case (si_kind src, si_stratum src) of
        (Stratum_source, Some r) \<Rightarrow> (job_ops sid (sa_q (rn_adapter r)), gbt)
      | (Gbt_source, _) \<Rightarrow>
          (case (if si_gbt src then gbt else None) of
             None \<Rightarrow> ([], gbt) | Some g \<Rightarrow> (job_ops sid (ga_q g), Some (g\<lparr>ga_q := []\<rparr>)))
      | _ \<Rightarrow> ([], gbt))"

fun poll_ops :: "nat \<Rightarrow> SourceInfo list \<Rightarrow> GbtAdapter option \<Rightarrow> (nat \<times> WorkItem \<times> GpuJobConst) list" where
  "poll_ops sid [] gbt = []"
| "poll_ops sid (src # srcs) gbt =
     (let (ops, gbt) = source_ops sid src gbt in ops @ poll_ops (sid + 1) srcs gbt)"

definition emptied :: "SourceInfo \<Rightarrow> SourceInfo" where
  "emptied src = (if si_kind src = Stratum_source
     then src\<lparr>si_stratum := map_option (\<lambda>r. r\<lparr>rn_adapter := (rn_adapter r)\<lparr>sa_q := []\<rparr>\<rparr>) (si_stratum src)\<rparr> else src)"

lemma job_ops_simps [simp]: "job_ops sid [] = []"
  "job_ops sid (n # q) = (sid, stamp_item sid n, nr_job_const n) # job_ops sid q"
  by (simp_all add: job_ops_def)

lemma publish_all_append:
  "publish_all f s (xs @ ys) = (case publish_all f s xs of Inl e \<Rightarrow> Inl e | Inr t \<Rightarrow> publish_all f t ys)"
  by (induction xs arbitrary: s) (auto split: sum.splits)

lemma owners_append: "owners (xs @ ys) w = owners ys (owners xs w)"
  by (simp add: owners_def)

lemma drain_stratum_eq:
  "drain_stratum sid a (reg, w2s) =
     (case publish_all registry_set reg (job_ops sid (sa_q a)) of
        Inl e \<Rightarrow> Inl e | Inr reg' \<Rightarrow> Inr (a\<lparr>sa_q := []\<rparr>, reg', owners (job_ops sid (sa_q a)) w2s))"
proof (induction "sa_q a" arbitrary: a reg w2s)
  case Nil
  then show ?case by (simp add: drain_stratum.simps [of sid a] pollNormalizedFull_stratum_def owners_def)
next
  case (Cons n q)
  have upd: "a\<lparr>sa_q := q, sa_q := []\<rparr> = a\<lparr>sa_q := []\<rparr>" by (cases a) simp
  have "sa_q (a\<lparr>sa_q := q\<rparr>) = q" by simp
  note IH = Cons.hyps(1) [OF this [symmetric], unfolded this]
  show ?case
    by (cases "registry_set reg sid (stamp_item sid n) (nr_job_const n)")
      (simp_all add: drain_stratum.simps [of sid a] pollNormalizedFull_stratum_def publish_def Let_def
        Cons.hyps(2) [symmetric] IH owners_def upd split: sum.split)
qed

lemma drain_gbt_eq:
  "drain_gbt sid a (reg, w2s) =
     (case publish_all registry_set reg (job_ops sid (ga_q a)) of
        Inl e \<Rightarrow> Inl e | Inr reg' \<Rightarrow> Inr (a\<lparr>ga_q := []\<rparr>, reg', owners (job_ops sid (ga_q a)) w2s))"
proof (induction "ga_q a" arbitrary: a reg w2s)
  case Nil
  then show ?case by (simp add: drain_gbt.simps [of sid a] pollNormalizedFull_gbt_def owners_def)
next
  case (Cons n q)
  have upd: "a\<lparr>ga_q := q, ga_q := []\<rparr> = a\<lparr>ga_q := []\<rparr>" by (cases a) simp
  have "ga_q (a\<lparr>ga_q := q\<rparr>) = q" by simp
  note IH = Cons.hyps(1) [OF this [symmetric], unfolded this]
  show ?case
    by (cases "registry_set reg sid (stamp_item sid n) (nr_job_const n)")
      (simp_all add: drain_gbt.simps [of sid a] pollNormalizedFull_gbt_def publish_def Let_def
        Cons.hyps(2) [symmetric] IH owners_def upd split: sum.split)
qed

lemma poll_source_eq:
  "poll_source sid src gbt (reg, w2s) =
     (case source_ops sid src gbt of (ops, gbt') \<Rightarrow>
        (case publish_all registry_set reg ops of
           Inl e \<Rightarrow> Inl e | Inr reg' \<Rightarrow> Inr (emptied src, gbt', reg', owners ops w2s)))"
proof (cases "si_kind src")
  case Stratum_source
  then show ?thesis
    by (cases "si_stratum src")
      (simp_all add: poll_source_def source_ops_def drain_stratum_eq emptied_def owners_def split: sum.split)
next
  case Gbt_source
  then show ?thesis
    by (cases "if si_gbt src then gbt else None")
      (simp_all add: poll_source_def source_ops_def drain_gbt_eq emptied_def owners_def split: sum.split)
qed

text \<open>The adapter of the node after a round: emptied by the first source that has it.\<close>

definition has_gbt :: "SourceInfo \<Rightarrow> bool" where
  "has_gbt src \<longleftrightarrow> si_kind src = Gbt_source \<and> si_gbt src"

definition polled_gbt :: "SourceInfo list \<Rightarrow> GbtAdapter option \<Rightarrow> GbtAdapter option" where
  "polled_gbt srcs gbt = (if \<exists>src \<in> set srcs. has_gbt src then map_option (\<lambda>g. g\<lparr>ga_q := []\<rparr>) gbt else gbt)"

lemma source_ops_gbt: "snd (source_ops sid src gbt) = (if has_gbt src then map_option (\<lambda>g. g\<lparr>ga_q := []\<rparr>) gbt else gbt)"
  by (auto simp: source_ops_def has_gbt_def split: SourceKind.split option.split)

lemma polled_gbt_simps [simp]: "polled_gbt [] gbt = gbt"
  "polled_gbt (src # srcs) gbt = polled_gbt srcs (snd (source_ops sid src gbt))"
  by (auto simp: polled_gbt_def source_ops_gbt option.map_comp comp_def)

lemma poll_sources_eq:
  "poll_sources sid srcs gbt (reg, w2s) =
     (case publish_all registry_set reg (poll_ops sid srcs gbt) of
        Inl e \<Rightarrow> Inl e | Inr reg' \<Rightarrow> Inr (map emptied srcs, polled_gbt srcs gbt, reg', owners (poll_ops sid srcs gbt) w2s))"
proof (induction srcs arbitrary: sid gbt reg w2s)
  case (Cons src srcs)
  obtain ops g where ops: "source_ops sid src gbt = (ops, g)" by fastforce
  show ?case
  proof (cases "publish_all registry_set reg ops")
    case (Inr reg1)
    then show ?thesis
      by (simp add: poll_source_eq Cons.IH polled_gbt_simps(2) [of _ _ _ sid] ops publish_all_append owners_append
          del: polled_gbt_simps(2) split: sum.split)
  qed (simp add: poll_source_eq ops publish_all_append)
qed (simp add: owners_def)

lemma source_ops_fst: "op \<in> set (fst (source_ops sid src gbt)) \<Longrightarrow> fst op = sid"
  by (auto simp: source_ops_def job_ops_def split: SourceKind.splits option.splits if_splits)

lemma poll_ops_range: "op \<in> set (poll_ops sid srcs gbt) \<Longrightarrow> sid \<le> fst op \<and> fst op < sid + length srcs"
proof (induction srcs arbitrary: sid gbt)
  case (Cons src srcs)
  obtain ops g where ops: "source_ops sid src gbt = (ops, g)" by fastforce
  then have "op \<in> set ops \<or> op \<in> set (poll_ops (sid + 1) srcs g)" using Cons.prems by simp
  then show ?case
  proof
    assume "op \<in> set ops"
    then show ?thesis using source_ops_fst [of op sid src gbt] ops by simp
  next
    assume "op \<in> set (poll_ops (sid + 1) srcs g)"
    from Cons.IH [OF this] show ?thesis by simp
  qed
qed simp

lemma poll_ops_slot:
  assumes "k < length srcs" and "si_kind (srcs ! k) = Stratum_source" and "si_stratum (srcs ! k) = Some r"
  shows "filter (\<lambda>op. fst op = sid + k) (poll_ops sid srcs gbt) = job_ops (sid + k) (sa_q (rn_adapter r))"
  using assms
proof (induction srcs arbitrary: sid k gbt)
  case (Cons src srcs)
  obtain ops g where ops: "source_ops sid src gbt = (ops, g)" by fastforce
  have other: "filter (\<lambda>op. fst op = sid) (poll_ops (Suc sid) srcs g) = []"
    using poll_ops_range [of _ "Suc sid" srcs g] by (fastforce simp: filter_empty_conv)
  show ?case
  proof (cases k)
    case 0
    then have "ops = job_ops sid (sa_q (rn_adapter r))" using Cons.prems ops by (simp add: source_ops_def)
    moreover have "filter (\<lambda>op. fst op = sid) (job_ops sid q) = job_ops sid q" for q by (induction q) simp_all
    ultimately show ?thesis using 0 ops other by simp
  next
    case (Suc i)
    have "filter (\<lambda>op. fst op = Suc sid + i) ops = []"
      using source_ops_fst [of _ sid src gbt] ops by (fastforce simp: filter_empty_conv)
    then show ?thesis using Suc Cons.prems Cons.IH [of i "Suc sid" g] ops by simp
  qed
qed simp

text \<open>The jobs that wait for slot \<open>k\<close> when a round begins: those of the runner, or those of the node for the first
  source that has it.\<close>

definition waiting :: "SourceInfo list \<Rightarrow> GbtAdapter option \<Rightarrow> nat \<Rightarrow> NormalizerResult list" where
  "waiting srcs gbt k =
     (if si_kind (srcs ! k) = Stratum_source then (case si_stratum (srcs ! k) of None \<Rightarrow> [] | Some r \<Rightarrow> sa_q (rn_adapter r))
      else if has_gbt (srcs ! k) \<and> (\<forall>i < k. \<not> has_gbt (srcs ! i)) then (case gbt of None \<Rightarrow> [] | Some g \<Rightarrow> ga_q g)
      else [])"

lemma waiting_first: "fst (source_ops sid src gbt) = job_ops sid (waiting (src # srcs) gbt 0)"
  by (auto simp: source_ops_def waiting_def has_gbt_def split: SourceKind.split option.split)

lemma waiting_later: "waiting (src # srcs) gbt (Suc k) = waiting srcs (snd (source_ops sid src gbt)) k"
  by (auto simp: waiting_def source_ops_gbt All_less_Suc2 split: option.split)

lemma poll_ops_waiting: "poll_ops sid srcs gbt = concat (map (\<lambda>k. job_ops (sid + k) (waiting srcs gbt k)) [0..<length srcs])"
proof (induction srcs arbitrary: sid gbt)
  case (Cons src srcs)
  have "map (\<lambda>k. job_ops (sid + k) (waiting (src # srcs) gbt k)) [0..<length (src # srcs)] =
      job_ops sid (waiting (src # srcs) gbt 0) # map (\<lambda>k. job_ops (Suc sid + k) (waiting (src # srcs) gbt (Suc k))) [0..<length srcs]"
    by (simp add: upt_conv_Cons map_Suc_upt [symmetric] comp_def del: upt_Suc)
  then show ?case
    by (simp add: split_beta waiting_first [of _ _ _ srcs] waiting_later [of _ _ _ _ sid] Cons.IH del: upt_Suc)
qed simp

lemma poll_ops_filter:
  assumes "k < length srcs"
  shows "filter (\<lambda>op. fst op = k) (poll_ops 0 srcs gbt) = job_ops k (waiting srcs gbt k)"
proof -
  have self: "filter (\<lambda>op. fst op = k) (job_ops k q) = job_ops k q" for q by (induction q) simp_all
  have "i \<noteq> k \<Longrightarrow> filter (\<lambda>op. fst op = k) (job_ops i q) = []" for i q by (induction q) simp_all
  note same = self this
  have "filter (\<lambda>op. fst op = k) (concat (map (\<lambda>i. job_ops i (f i)) is)) = (if k \<in> set is then job_ops k (f k) else [])"
    if "distinct is" for f "is"
    using that
  proof (induction "is")
    case (Cons i "is")
    then show ?case by (cases "i = k") (simp_all add: same)
  qed simp
  then show ?thesis using assms by (simp add: poll_ops_waiting)
qed

lemma owners_other: "(\<forall>op \<in> set ops. wi_work_id (fst (snd op)) \<noteq> wid) \<Longrightarrow> owners ops m wid = m wid"
  by (induction ops arbitrary: m) (auto simp: owners_def)

lemma owners_job_ops: "n \<in> set q \<Longrightarrow> owners (job_ops k q) m (wi_work_id (nr_item n)) = Some (of_nat k)"
proof (induction q rule: rev_induct)
  case (snoc x q)
  have "owners (job_ops k (q @ [x])) m = (owners (job_ops k q) m)(wi_work_id (nr_item x) \<mapsto> of_nat k)"
    by (simp add: owners_def job_ops_def stamp_item_def)
  then show ?case using snoc by (cases "wi_work_id (nr_item n) = wi_work_id (nr_item x)") auto
qed simp

lemma poll_ops_owner:
  assumes "k < length srcs" and "n \<in> set (waiting srcs gbt k)"
    and "\<forall>j n'. k < j \<and> j < length srcs \<and> n' \<in> set (waiting srcs gbt j) \<longrightarrow> wi_work_id (nr_item n') \<noteq> wi_work_id (nr_item n)"
  shows "owners (poll_ops 0 srcs gbt) m (wi_work_id (nr_item n)) = Some (of_nat k)"
proof -
  let ?f = "\<lambda>k. job_ops k (waiting srcs gbt k)"
  have "[0..<length srcs] = [0..<k] @ k # [Suc k..<length srcs]"
    using assms(1) by (metis append.assoc append_Cons append_Nil upt_Suc_append upt_conv_Cons upt_add_eq_append less_imp_add_positive le0 less_imp_le)
  then have "poll_ops 0 srcs gbt = concat (map ?f [0..<k]) @ ?f k @ concat (map ?f [Suc k..<length srcs])"
    by (simp add: poll_ops_waiting)
  moreover have "owners (concat (map ?f [Suc k..<length srcs])) m' (wi_work_id (nr_item n)) = m' (wi_work_id (nr_item n))" for m'
    using assms(3) by (intro owners_other) (auto simp: job_ops_def stamp_item_def Suc_le_eq)
  ultimately show ?thesis using owners_job_ops [OF assms(2)] by (simp add: owners_append)
qed

section \<open>The active set\<close>

definition slot_snapshot :: "WorkSlot \<Rightarrow> WorkSlotSnapshot" where
  "slot_snapshot s = \<lparr>snap_gen = slot_gen s, snap_item = slot_item s, snap_const = slot_const s\<rparr>"

definition active_snapshots :: "WorkSourceRegistry \<Rightarrow> WorkSlotSnapshot list" where
  "active_snapshots reg = filter (\<lambda>s. wi_active (snap_item s)) (map slot_snapshot reg)"

definition snap_id :: "WorkSlotSnapshot \<Rightarrow> u64" where
  "snap_id s = wi_work_id (snap_item s)"

lemma registry_get_snapshot: "i < length reg \<Longrightarrow> registry_get reg i = Some (slot_snapshot (reg ! i))"
  by (simp add: registry_get_def slot_snapshot_def Let_def)

lemma active_loop_eq:
  assumes "\<forall>i \<in> set is. i < length reg"
  shows "active_loop reg is (ids, snaps) =
    (let act = filter (\<lambda>s. wi_active (snap_item s)) (map (\<lambda>i. slot_snapshot (reg ! i)) is)
     in (ids @ map snap_id act, \<lambda>w. case snaps w of None \<Rightarrow> find (\<lambda>s. snap_id s = w) act | Some s \<Rightarrow> Some s))"
  using assms
proof (induction "is" arbitrary: ids snaps)
  case (Cons i "is")
  let ?s = "slot_snapshot (reg ! i)"
  have IH: "active_loop reg is (ids', snaps') = (let act = filter (\<lambda>s. wi_active (snap_item s)) (map (\<lambda>i. slot_snapshot (reg ! i)) is)
     in (ids' @ map snap_id act, \<lambda>w. case snaps' w of None \<Rightarrow> find (\<lambda>s. snap_id s = w) act | Some s \<Rightarrow> Some s))" for ids' snaps'
    using Cons by simp
  have get: "registry_get reg i = Some ?s" using Cons.prems by (simp add: registry_get_snapshot)
  show ?case
  proof (cases "wi_active (snap_item ?s)")
    case True
    have "active_loop reg (i # is) (ids, snaps) = active_loop reg is
        (ids @ [snap_id ?s], if snaps (snap_id ?s) = None then snaps(snap_id ?s \<mapsto> ?s) else snaps)"
      using True get by (simp add: snap_id_def Let_def)
    then show ?thesis using True
      by (cases "snaps (snap_id ?s)") (auto simp: IH Let_def fun_eq_iff split: option.split)
  next
    case False
    then show ?thesis using get IH by simp
  qed
qed (auto simp: fun_eq_iff split: option.split)

lemma active_set_eq:
  "active_set reg = (map snap_id (active_snapshots reg), \<lambda>w. find (\<lambda>s. snap_id s = w) (active_snapshots reg))"
proof -
  have "map (\<lambda>i. slot_snapshot (reg ! i)) [0..<length reg] = map slot_snapshot reg"
    by (intro nth_equalityI) simp_all
  then show ?thesis by (simp add: active_set_def active_loop_eq active_snapshots_def Let_def)
qed

lemma find_own: "x \<in> set xs \<Longrightarrow> distinct (map f xs) \<Longrightarrow> find (\<lambda>y. f y = f x) xs = Some x"
  by (induction xs) auto

section \<open>Targets and headers on the device and on the host\<close>

lemma share_target_bytes_rev:
  assumes "length t = 8"
  shows "share_target_bytes t = rev (leU32WordsToBe32Bytes t)"
proof -
  have r: "rev (word_be_bytes (bswap32 w)) = word_be_bytes w" for w
    by (cases w rule: be_word_cases) simp
  have "rev (leU32WordsToBe32Bytes t) = concat (rev (map (rev \<circ> (\<lambda>w. word_be_bytes (bswap32 w))) t))"
    using assms by (simp add: leU32WordsToBe32Bytes_concat rev_concat rev_map)
  also have "map (rev \<circ> (\<lambda>w. word_be_bytes (bswap32 w))) t = map word_be_bytes t" by (simp add: r)
  also have "rev (map word_be_bytes t) = map (\<lambda>w. word_be_bytes (t ! (7 - w))) [0..<8]"
    using assms by (intro nth_equalityI) (simp_all add: rev_nth)
  finally show ?thesis by (simp add: share_target_bytes_def)
qed

lemma be_nat_rev: "be_nat (rev bs) = le_nat bs"
  by (induction bs) (simp_all add: be_nat_append)

lemma le_nat_bound: "le_nat bs < 256 ^ length bs"
proof (induction bs)
  case (Cons b bs)
  then have "unat b + 256 * le_nat bs < 256 + 256 * le_nat bs" using unat_u8_less [of b] by simp
  also have "\<dots> = 256 * (le_nat bs + 1)" by simp
  also have "\<dots> \<le> 256 * 256 ^ length bs" using Cons by (intro mult_le_mono) simp_all
  finally show ?case by simp
qed simp

text \<open>A multiple of \<open>256 ^ k\<close> ends with \<open>k\<close> zero bytes, which come first when the bytes are reversed.\<close>

lemma le_nat_of_multiple:
  assumes "256 ^ k dvd be_nat bs" and "k \<le> length bs"
  shows "le_nat bs < 256 ^ (length bs - k)"
proof -
  let ?a = "take (length bs - k) bs" and ?b = "drop (length bs - k) bs"
  have len: "length ?b = k" using assms(2) by simp
  have split: "be_nat bs = be_nat ?a * 256 ^ k + be_nat ?b"
    using be_nat_append [of ?a ?b] len by simp
  then have "256 ^ k dvd be_nat ?b" using assms(1) by (metis dvd_add_right_iff dvd_triv_right)
  then have "be_nat ?b = 0" using be_nat_bound [of ?b] len by (metis mod_less mod_eq_0_iff_dvd)
  then have "?b = replicate k 0"
    using be_nat_inject [of ?b "replicate k 0"] len by simp
  moreover have "le_nat (replicate k 0) = 0" by (induction k) simp_all
  ultimately have "le_nat ?b = 0" by simp
  then have "le_nat bs = le_nat ?a" using le_nat_append [of ?a ?b] by simp
  then show ?thesis using le_nat_bound [of ?a] by simp
qed

lemma device_header_eq:
  assumes "length (wi_prevhash_le (snap_item ss)) = 8" and "length (wi_merkle_root_le (snap_item ss)) = 8"
  shows "device_header (device_job ss) nonce =
    word_be_bytes (wi_version (snap_item ss)) @ concat (map word_be_bytes (wi_prevhash_le (snap_item ss))) @
    concat (map word_be_bytes (wi_merkle_root_le (snap_item ss))) @
    word_be_bytes (device_ntime (device_job ss)) @ word_be_bytes (wi_nbits (snap_item ss)) @ word_be_bytes nonce"
proof -
  have "map (\<lambda>w. word_be_bytes (ws ! w)) [0..<8] = map word_be_bytes ws" if "length ws = 8" for ws
    using that by (intro nth_equalityI) simp_all
  then show ?thesis using assms by (simp add: device_header_def device_job_def Let_def)
qed

lemma hit_header_eq:
  assumes "length (wi_prevhash_le item) = 8" and "length (wi_merkle_root_le item) = 8"
  shows "hit_header item nonce =
    word_be_bytes (wi_version item) @ concat (map word_be_bytes (map bswap32 (wi_prevhash_le item))) @
    concat (map word_be_bytes (map bswap32 (wi_merkle_root_le item))) @
    word_be_bytes (wi_ntime item) @ word_be_bytes (wi_nbits item) @ word_be_bytes nonce"
  using assms by (simp add: hit_header_def leU32WordsToBe32Bytes_concat comp_def)

lemma length_hit_header [simp]: "length (hit_header item nonce) = 80"
  by (simp add: hit_header_def)

lemma length_concat_be: "length (concat (map word_be_bytes ws)) = 4 * length ws"
  by (induction ws) simp_all

lemma header_parts:
  assumes "length p = length p'" and "length m = length m'"
  shows "word_be_bytes v @ concat (map word_be_bytes p) @ concat (map word_be_bytes m) @ word_be_bytes t @ r =
      word_be_bytes v @ concat (map word_be_bytes p') @ concat (map word_be_bytes m') @ word_be_bytes t' @ r \<longleftrightarrow>
    p = p' \<and> m = m' \<and> t = t'"
  using assms
  by (simp add: append_eq_append_conv length_concat_be concat_be_bytes_inj word_be_bytes_inj)

section \<open>Properties\<close>

text \<open>C11: polling publishes every waiting job of every source in its source's slot. When there are no more
  sources than slots, polling succeeds and all that is afterwards is this: every Stratum source has an
  empty queue and is otherwise as before; the node's adapter has an empty queue if some source has the node
  (the first of them takes its jobs); every source's slot holds the last job that waited for it, marked active and
  with the slot's number as its source, or is as before when none waited, and its generation has grown by the
  number of jobs; the slots behind the sources are as before; a work id that some waiting job has belongs
  to the last source that has such a job, and all others belong to the source they belonged to.\<close>

theorem poll_publishes:
  assumes "length srcs \<le> length reg" and "q = waiting srcs gbt"
  shows "\<exists>srcs' reg' w2s'. poll_sources 0 srcs gbt (reg, w2s) = Inr (srcs',
      (if \<exists>src \<in> set srcs. si_kind src = Gbt_source \<and> si_gbt src then map_option (\<lambda>g. g\<lparr>ga_q := []\<rparr>) gbt else gbt), reg', w2s') \<and>
    length srcs' = length srcs \<and> length reg' = length reg \<and>
    (\<forall>k < length srcs. srcs' ! k = (if si_kind (srcs ! k) = Stratum_source
       then (srcs ! k)\<lparr>si_stratum := map_option (\<lambda>r. r\<lparr>rn_adapter := (rn_adapter r)\<lparr>sa_q := []\<rparr>\<rparr>) (si_stratum (srcs ! k))\<rparr>
       else srcs ! k)) \<and>
    (\<forall>k < length srcs. \<exists>old new. registry_get reg k = Some old \<and> registry_get reg' k = Some new \<and>
       snap_gen new = snap_gen old + of_nat (length (q k)) \<and>
       (if q k = [] then new = old
        else snap_item new = (nr_item (last (q k)))\<lparr>wi_source_id := of_nat k, wi_active := True\<rparr> \<and>
             snap_const new = nr_job_const (last (q k)))) \<and>
    (\<forall>k. length srcs \<le> k \<longrightarrow> registry_get reg' k = registry_get reg k) \<and>
    (\<forall>k < length srcs. \<forall>n \<in> set (q k).
       (\<forall>j n'. k < j \<and> j < length srcs \<and> n' \<in> set (q j) \<longrightarrow> wi_work_id (nr_item n') \<noteq> wi_work_id (nr_item n)) \<longrightarrow>
       w2s' (wi_work_id (nr_item n)) = Some (of_nat k)) \<and>
    (\<forall>wid. (\<forall>k < length srcs. \<forall>n \<in> set (q k). wi_work_id (nr_item n) \<noteq> wid) \<longrightarrow> w2s' wid = w2s wid)"
proof -
  let ?ops = "poll_ops 0 srcs gbt"
  have "\<forall>op \<in> set ?ops. fst op < length reg" using poll_ops_range [of _ 0 srcs gbt] assms(1) by fastforce
  then obtain reg' where reg': "publish_all registry_set reg ?ops = Inr reg'"
    using registry.publish_all_ok by blast
  have poll: "poll_sources 0 srcs gbt (reg, w2s) = Inr (map emptied srcs, polled_gbt srcs gbt, reg', owners ?ops w2s)"
    by (simp add: poll_sources_eq reg')
  have size: "length reg' = length reg" using registry.publish_all_size [OF reg'] .
  have slot: "\<exists>new. registry_get reg' k = Some new \<and>
      snap_gen new = snap_gen old + of_nat (length (filter (\<lambda>op. fst op = k) ?ops)) \<and>
      (if filter (\<lambda>op. fst op = k) ?ops = [] then new = old
       else (snap_item new, snap_const new) = snd (last (filter (\<lambda>op. fst op = k) ?ops)))" if "registry_get reg k = Some old" for k old
    using registry.publish_all_gen [OF reg' that] by blast
  have "\<exists>old new. registry_get reg k = Some old \<and> registry_get reg' k = Some new \<and> snap_gen new = snap_gen old + of_nat (length (q k)) \<and>
      (if q k = [] then new = old
       else snap_item new = (nr_item (last (q k)))\<lparr>wi_source_id := of_nat k, wi_active := True\<rparr> \<and> snap_const new = nr_job_const (last (q k)))"
    if "k < length srcs" for k
    using slot [OF registry_get_snapshot, of k] that assms poll_ops_filter [OF that, of gbt]
    by (auto simp: registry_get_snapshot job_ops_def last_map stamp_item_def split: if_splits)
  moreover have "registry_get reg' k = registry_get reg k" if "length srcs \<le> k" for k
  proof (cases "k < length reg")
    case True
    have "filter (\<lambda>op. fst op = k) ?ops = []"
      using poll_ops_range [of _ 0 srcs gbt] that by (fastforce simp: filter_empty_conv)
    then show ?thesis using slot [OF registry_get_snapshot [OF True]] True by (auto simp: registry_get_snapshot)
  qed (simp add: registry_get_def size)
  moreover have "owners ?ops w2s wid = w2s wid" if "\<forall>k < length srcs. \<forall>n \<in> set (q k). wi_work_id (nr_item n) \<noteq> wid" for wid
    using that assms(2) by (intro owners_other) (auto simp: poll_ops_waiting job_ops_def stamp_item_def)
  ultimately show ?thesis
    using poll size assms(2) poll_ops_owner [of _ srcs _ gbt w2s]
    by (intro exI [of _ "map emptied srcs"] exI [of _ reg'] exI [of _ "owners ?ops w2s"])
      (simp add: polled_gbt_def has_gbt_def emptied_def)
qed

definition sample_source :: "NormalizerResult list \<Rightarrow> SourceInfo" where
  "sample_source q = \<lparr>si_kind = Stratum_source, si_stratum = Some (runner_new ((stratum_adapter_new ''a'')\<lparr>sa_q := q\<rparr>) True),
     si_user = ''u'', si_gbt = False\<rparr>"

definition node_source :: SourceInfo where
  "node_source = \<lparr>si_kind = Gbt_source, si_stratum = None, si_user = ''n'', si_gbt = True\<rparr>"

theorem poll_publishes_witness:
  "\<exists>srcs' g' reg' w2s' new0 new1. poll_sources 0 [sample_source [\<lparr>nr_item = default_item, nr_job_const = default_const\<rparr>], node_source]
      (Some \<lparr>ga_name = ''n'', ga_q = [\<lparr>nr_item = default_item\<lparr>wi_work_id := 5\<rparr>, nr_job_const = default_const\<rparr>], ga_has_submitter = False\<rparr>)
      ([default_slot, default_slot], Map.empty) = Inr (srcs', Some g', reg', w2s') \<and> ga_q g' = [] \<and>
    registry_get reg' 0 = Some new0 \<and> wi_active (snap_item new0) \<and>
    registry_get reg' 1 = Some new1 \<and> wi_work_id (snap_item new1) = 5 \<and> wi_source_id (snap_item new1) = 1 \<and> w2s' 5 = Some 1"
proof -
  let ?g = "\<lparr>ga_name = ''n'', ga_q = [\<lparr>nr_item = default_item\<lparr>wi_work_id := 5\<rparr>, nr_job_const = default_const\<rparr>], ga_has_submitter = False\<rparr>"
  let ?srcs = "[sample_source [\<lparr>nr_item = default_item, nr_job_const = default_const\<rparr>], node_source]"
  have w: "waiting ?srcs (Some ?g) 0 = [\<lparr>nr_item = default_item, nr_job_const = default_const\<rparr>]"
    "waiting ?srcs (Some ?g) (Suc 0) = [\<lparr>nr_item = default_item\<lparr>wi_work_id := 5\<rparr>, nr_job_const = default_const\<rparr>]"
    by (simp_all add: waiting_def has_gbt_def sample_source_def node_source_def runner_new_def)
  obtain srcs' reg' w2s' where poll: "poll_sources 0 ?srcs (Some ?g) ([default_slot, default_slot], Map.empty) = Inr (srcs',
      (if \<exists>src \<in> set ?srcs. si_kind src = Gbt_source \<and> si_gbt src then map_option (\<lambda>g. g\<lparr>ga_q := []\<rparr>) (Some ?g) else Some ?g), reg', w2s')"
    and slot: "\<forall>k < length ?srcs. \<exists>old new. registry_get [default_slot, default_slot] k = Some old \<and> registry_get reg' k = Some new \<and>
       snap_gen new = snap_gen old + of_nat (length (waiting ?srcs (Some ?g) k)) \<and>
       (if waiting ?srcs (Some ?g) k = [] then new = old
        else snap_item new = (nr_item (last (waiting ?srcs (Some ?g) k)))\<lparr>wi_source_id := of_nat k, wi_active := True\<rparr> \<and>
             snap_const new = nr_job_const (last (waiting ?srcs (Some ?g) k)))"
    and own: "\<forall>k < length ?srcs. \<forall>n \<in> set (waiting ?srcs (Some ?g) k).
       (\<forall>j n'. k < j \<and> j < length ?srcs \<and> n' \<in> set (waiting ?srcs (Some ?g) j) \<longrightarrow> wi_work_id (nr_item n') \<noteq> wi_work_id (nr_item n)) \<longrightarrow>
       w2s' (wi_work_id (nr_item n)) = Some (of_nat k)"
    using poll_publishes [of ?srcs "[default_slot, default_slot]" _ "Some ?g" Map.empty, OF _ refl] by auto
  have "\<forall>j n'. 1 < j \<and> j < length ?srcs \<and> n' \<in> set (waiting ?srcs (Some ?g) j) \<longrightarrow> wi_work_id (nr_item n') \<noteq> 5" by auto
  then have "w2s' 5 = Some 1" using own [rule_format, of 1] by (simp add: w)
  moreover obtain new0 where "registry_get reg' 0 = Some new0" "wi_active (snap_item new0)"
    using slot [rule_format, of 0] by (auto simp: w)
  moreover obtain new1 where "registry_get reg' 1 = Some new1" "wi_work_id (snap_item new1) = 5" "wi_source_id (snap_item new1) = 1"
    using slot [rule_format, of 1] by (auto simp: w)
  ultimately show ?thesis using poll by (auto simp del: poll_sources.simps simp: node_source_def)
qed

text \<open>The jobs of a launch. They are the active slots in order, one job each; an id that two slots share
  is looked up, and both of its jobs are made from the first of these slots. With distinct ids every job
  is made from its own slot.\<close>

theorem launch_jobs:
  "case active_set reg of (ids, snaps) \<Rightarrow>
     build_jobs ids snaps = map (\<lambda>s. device_job (the (find (\<lambda>t. snap_id t = snap_id s) (active_snapshots reg)))) (active_snapshots reg) \<and>
     (distinct ids \<longrightarrow> build_jobs ids snaps = map device_job (active_snapshots reg) \<and>
        (\<forall>s \<in> set (active_snapshots reg). snaps (snap_id s) = Some s))"
proof -
  let ?act = "active_snapshots reg"
  have found: "\<exists>t. find (\<lambda>t. snap_id t = snap_id s) ?act = Some t" if "s \<in> set ?act" for s
    using that by (cases "find (\<lambda>t. snap_id t = snap_id s) ?act") (auto simp: find_None_iff)
  have "build_jobs (map snap_id ?act) (\<lambda>w. find (\<lambda>s. snap_id s = w) ?act) =
      map (\<lambda>s. device_job (the (find (\<lambda>t. snap_id t = snap_id s) ?act))) ?act"
    unfolding build_jobs_def map_map by (rule map_cong [OF refl]) (use found in fastforce)
  moreover have "find (\<lambda>t. snap_id t = snap_id s) ?act = Some s" if "distinct (map snap_id ?act)" "s \<in> set ?act" for s
    using find_own [of s ?act snap_id] that by blast
  ultimately show ?thesis by (simp add: active_set_eq)
qed

theorem launch_jobs_witness:
  "build_jobs (fst (active_set [default_slot\<lparr>slot_item := default_item\<lparr>wi_active := True\<rparr>\<rparr>]))
     (snd (active_set [default_slot\<lparr>slot_item := default_item\<lparr>wi_active := True\<rparr>\<rparr>])) =
   map device_job (active_snapshots [default_slot\<lparr>slot_item := default_item\<lparr>wi_active := True\<rparr>\<rparr>])"
  using launch_jobs [of "[default_slot\<lparr>slot_item := default_item\<lparr>wi_active := True\<rparr>\<rparr>]"]
  by (auto simp: active_set_eq active_snapshots_def slot_snapshot_def)

text \<open>C32: device and host compare a digest with different numbers. The host's check asks whether the digest
  is at most the value of the 32 target bytes read from the first; the device's bytes are the same in
  reverse, so its kernels ask for the value read from the last. For a share target expanded from a
  compact one with exponent 3 to 32 the device's number is below \<open>256 ^ (35 - exponent)\<close>: at exponent 31,
  below \<open>2 ^ 32\<close>, where the host accepts up to about \<open>2 ^ 240\<close>.\<close>

theorem device_target_reversed:
  assumes "compactToTargetU32LE nBits = Inr (wi_share_target_le (snap_item ss))"
    and "3 \<le> exponent_of nBits" and "exponent_of nBits \<le> 32" and "length digest = 32"
    and "bytes = leU32WordsToBe32Bytes (wi_share_target_le (snap_item ss))"
  shows "(isHashLEQTarget digest (wi_share_target_le (snap_item ss)) \<longleftrightarrow> be_nat digest \<le> be_nat bytes) \<and>
    (device_leq digest (dj_share_target_be (device_job ss)) [0..<32] \<longleftrightarrow> be_nat digest \<le> le_nat bytes) \<and>
    le_nat bytes < 256 ^ (35 - exponent_of nBits) \<and> be_nat bytes = compact_spec nBits"
proof (intro conjI)
  let ?t = "wi_share_target_le (snap_item ss)"
  have t: "length ?t = 8" "target_nat ?t = code_target nBits"
    using compact_cases [of nBits] assms(1) by (auto split: if_splits)
  have code: "code_target nBits = compact_spec nBits"
    using assms(2,3) by (cases "exponent_of nBits = 3") (auto simp: code_target_def compact_spec_def Let_def)
  show "isHashLEQTarget digest ?t \<longleftrightarrow> be_nat digest \<le> be_nat bytes"
    using isHashLEQTarget_target_nat [OF assms(4), of ?t] by (simp add: target_nat_def assms(5))
  have dev: "dj_share_target_be (device_job ss) = rev bytes"
    using share_target_bytes_rev [OF t(1)] by (simp add: device_job_def Let_def assms(5))
  have "length (rev bytes) = 32" by (simp add: assms(5))
  from leq_loop_be_nat [OF assms(4) this, of 0] show "device_leq digest (dj_share_target_be (device_job ss)) [0..<32] \<longleftrightarrow> be_nat digest \<le> le_nat bytes"
    by (simp add: dev device_leq_loop be_nat_rev)
  show b: "be_nat bytes = compact_spec nBits" using t(2) code by (simp add: target_nat_def assms(5))
  have "256 ^ (exponent_of nBits - 3) dvd be_nat bytes"
    unfolding b compact_spec_def Let_def using assms(2) by (auto split: if_splits)
  from le_nat_of_multiple [OF this] show "le_nat bytes < 256 ^ (35 - exponent_of nBits)"
    using assms(2,3,5) by (simp add: Nat.diff_diff_right)
qed

definition sample_snapshot :: "u32 list \<Rightarrow> WorkSlotSnapshot" where
  "sample_snapshot t = \<lparr>snap_gen = 1, snap_item = default_item\<lparr>wi_share_target_le := t\<rparr>, snap_const = default_const\<rparr>"

theorem device_target_reversed_witness:
  "\<exists>t. compactToTargetU32LE 0x1f00ffff = Inr t \<and>
    isHashLEQTarget (0 # 0 # 1 # replicate 29 0) t \<and>
    \<not> device_leq (0 # 0 # 1 # replicate 29 0) (dj_share_target_be (device_job (sample_snapshot t))) [0..<32]"
proof -
  obtain t where t: "compactToTargetU32LE 0x1f00ffff = Inr t"
    using compact_safe_Inr [of "0x1f00ffff"] by (auto simp: compact_safe_def exponent_of_def)
  have e: "exponent_of 0x1f00ffff = 31" by (simp add: exponent_of_def)
  have "be_nat (0 # 0 # 1 # replicate 29 0) = 256 ^ 29" by simp
  moreover have "compact_spec 0x1f00ffff = 0xffff * 256 ^ 28"
    by (simp add: compact_spec_def e mantissa_of_def)
  ultimately show ?thesis
    using t device_target_reversed [of "0x1f00ffff" "sample_snapshot t" "0 # 0 # 1 # replicate 29 0", OF _ _ _ _ refl]
    by (auto simp: e sample_snapshot_def)
qed

text \<open>Device and host hash different headers. For the same work item and nonce, with the time inside
  the caps (as \<^verbatim>\<open>mining.notify\<close> sets them), the header a kernel thread assembles and the header the host
  checks and submits agree exactly when every word of the previous hash and of the Merkle root reads the
  same in both byte orders.\<close>

theorem headers_differ:
  assumes "item = snap_item ss" and "item_ok item"
    and "wi_ntime_min item \<le> wi_ntime item" and "wi_ntime_max item = 0 \<or> wi_ntime item \<le> wi_ntime_max item"
  shows "device_header (device_job ss) nonce = hit_header item nonce \<longleftrightarrow>
    (\<forall>w \<in> set (wi_prevhash_le item) \<union> set (wi_merkle_root_le item). bswap32 w = w)"
proof -
  have len: "length (wi_prevhash_le item) = 8" "length (wi_merkle_root_le item) = 8"
    using assms(2) by (simp_all add: item_ok_def)
  have fix_iff: "ws = map f ws \<longleftrightarrow> (\<forall>w \<in> set ws. f w = w)" for f :: "u32 \<Rightarrow> u32" and ws
    by (induction ws) auto
  have "device_ntime (device_job ss) = wi_ntime item"
    using assms(1,3,4) by (auto simp: device_ntime_def device_job_def Let_def)
  then have "device_header (device_job ss) nonce = hit_header item nonce \<longleftrightarrow>
      wi_prevhash_le item = map bswap32 (wi_prevhash_le item) \<and>
      wi_merkle_root_le item = map bswap32 (wi_merkle_root_le item)"
    using header_parts [of "wi_prevhash_le item" "map bswap32 (wi_prevhash_le item)" "wi_merkle_root_le item"
        "map bswap32 (wi_merkle_root_le item)" "wi_version item" "wi_ntime item"
        "word_be_bytes (wi_nbits item) @ word_be_bytes nonce" "wi_ntime item"]
      device_header_eq [of ss nonce] hit_header_eq [OF len, of nonce] len assms(1) by simp
  then show ?thesis by (auto simp: fix_iff)
qed

theorem headers_differ_witness:
  "device_header (device_job (sample_snapshot zero8)) 5 = hit_header (snap_item (sample_snapshot zero8)) 5 \<longleftrightarrow>
    bswap32 0 = (0 :: u32)"
  using headers_differ [OF refl, of "sample_snapshot zero8" 5]
  by (simp add: sample_snapshot_def item_ok_def default_item_def zero8_def)

lemma init_sources_submitter:
  "init_sources ps gbt subm = (srcs, g, Some s) \<Longrightarrow> subm = None \<or> subm = Some submitter_new \<Longrightarrow> s = submitter_new"
  by (induction ps gbt subm arbitrary: srcs rule: init_sources.induct)
    (auto split: if_splits option.splits prod.splits)

lemma setup_submitter: "setup_sources legacy cfg = (srcs, g, Some s) \<Longrightarrow> s = submitter_new"
  by (auto simp: setup_sources_def split: if_splits prod.splits dest: init_sources_submitter)

text \<open>C35: a solved block is thrown away. The submitter that \<^verbatim>\<open>main\<close> gives the block hits is a fresh one that
  no template is ever passed to. When it exists, a hit whose hash is at most the block target reaches
  neither the node nor a pool nor the log of pending submissions: only two counters change.\<close>

theorem block_hits_lost:
  assumes "setup_sources legacy cfg = (srcs, g, Some s)" and "snaps (hr_work_id hit) = Some ss"
    and "header = hit_header (snap_item ss) (hr_nonce hit)"
    and "be_nat (sha256d header) \<le> target_nat (wi_block_target_le (snap_item ss))"
  shows "ht_miner (route_hit ocfg ck rpc (Some s) snaps hit st) = ht_miner st \<and>
    ht_posted (route_hit ocfg ck rpc (Some s) snaps hit st) = ht_posted st \<and>
    counter (ht_metrics (route_hit ocfg ck rpc (Some s) snaps hit st)) ''submit.blocks_gbt_fail'' =
      counter (ht_metrics st) ''submit.blocks_gbt_fail'' + 1"
proof -
  have s: "s = submitter_new" using setup_submitter [OF assms(1)] .
  have "isHashLEQTarget (sha256 (sha256 header)) (wi_block_target_le (snap_item ss))"
    using isHashLEQTarget_target_nat [of "sha256d header"] assms(4) by (simp add: sha256d_def)
  then have "route_hit ocfg ck rpc (Some s) snaps hit st = submit_block rpc s header st"
    by (simp add: route_hit_def assms(2,3) Let_def)
  then show ?thesis
    by (simp add: s submit_block_def submitHeader_def submitter_new_def hasCoinbase_def count_def)
qed

lemma submit_hit_reject:
  assumes "length header = 80" and "\<not> be_nat (sha256d header) \<le> target_nat target"
  shows "submit_hit cfg ck header target w n m = (False, m)"
proof -
  have "\<not> fst (verifyAndSubmit (mn_router m) header target w n)"
    using verify_accepts [OF assms(1)] assms(2) by (simp add: hash_value_def)
  then have "verifyAndSubmit (mn_router m) header target w n = (False, mn_router m)"
    by (auto simp: verifyAndSubmit_def Let_def split: if_splits)
  then show ?thesis by (simp add: submit_hit_def run_callbacks_def)
qed

lemma submit_hit_accept:
  assumes "length header = 80" and "be_nat (sha256d header) \<le> target_nat target" and "sr_has_cb (mn_router m)"
    and "rec = \<lparr>sh_work_id = w, sh_nonce = n, sh_header80 = header\<rparr>"
  shows "\<exists>r. sr_outbox r = map_option (\<lambda>ob. enqueue ob (pending_of rec)) (sr_outbox (mn_router m)) \<and>
    submit_hit cfg ck header target w n m = (True, submit_callback cfg ck rec (m\<lparr>mn_router := r\<rparr>))"
proof -
  let ?r = "router_call_cb (router_enqueue (mn_router m) rec) rec"
  have "fst (verifyAndSubmit (mn_router m) header target w n)"
    using verify_accepts [OF assms(1)] assms(2) by (simp add: hash_value_def)
  then have "verifyAndSubmit (mn_router m) header target w n = (True, ?r)"
    using assms(1,4) by (auto simp: verifyAndSubmit_def Let_def split: if_splits)
  moreover have "sr_calls ?r = sr_calls (mn_router m) @ [rec]" using assms(3) by simp
  moreover have "sr_outbox ?r = map_option (\<lambda>ob. enqueue ob (pending_of rec)) (sr_outbox (mn_router m))"
    by (simp add: router_enqueue_def split: option.split)
  ultimately show ?thesis by (intro exI [of _ ?r]) (simp add: submit_hit_def run_callbacks_def)
qed

lemma send_to_source_sent:
  assumes "mn_w2s m (sh_work_id rec) = Some sid" and "unat sid < length (mn_sources m)"
    and "si_kind (mn_sources m ! unat sid) = Stratum_source" and "si_stratum (mn_sources m ! unat sid) = Some r"
  shows "mn_sent (send_to_source rec m) = mn_sent m @
      (case submitFromHeader (si_user (mn_sources m ! unat sid)) (sh_header80 rec)
          (zeros_hex (sa_extranonce2_size (rn_adapter r))) (Some r) of None \<Rightarrow> [] | Some msg \<Rightarrow> [msg])"
    and "mn_router (send_to_source rec m) = mn_router m"
  using assms by (simp_all add: send_to_source_def Let_def split: option.split)

text \<open>What a hit that meets the share target leads to, without a block submitter.\<close>

lemma route_hit_accept:
  assumes "snaps (hr_work_id hit) = Some ss" and "header = hit_header (snap_item ss) (hr_nonce hit)"
    and "be_nat (sha256d header) \<le> target_nat (wi_share_target_le (snap_item ss))" and "sr_has_cb (mn_router (ht_miner st))"
    and "mn_w2s (ht_miner st) (hr_work_id hit) = Some sid" and "unat sid < length (mn_sources (ht_miner st))"
    and "si_kind (mn_sources (ht_miner st) ! unat sid) = Stratum_source"
    and "si_stratum (mn_sources (ht_miner st) ! unat sid) = Some r"
    and "m' = ht_miner (route_hit ocfg ck rpc None snaps hit st)"
  shows "mn_sent m' = mn_sent (ht_miner st) @
      (case submitFromHeader (si_user (mn_sources (ht_miner st) ! unat sid)) header
          (zeros_hex (sa_extranonce2_size (rn_adapter r))) (Some r) of None \<Rightarrow> [] | Some msg \<Rightarrow> [msg])"
    and "sr_outbox (mn_router m') = map_option (\<lambda>ob. enqueue ob
        \<lparr>ps_work_id = hr_work_id hit, ps_nonce = hr_nonce hit, ps_header80 = header\<rparr>) (sr_outbox (mn_router (ht_miner st)))"
proof -
  let ?m = "ht_miner st"
  let ?rec = "\<lparr>sh_work_id = hr_work_id hit, sh_nonce = hr_nonce hit, sh_header80 = header\<rparr>"
  have len: "length header = 80" by (simp add: assms(2))
  have m': "m' = snd (submit_hit ocfg ck header (wi_share_target_le (snap_item ss)) (hr_work_id hit) (hr_nonce hit) ?m)"
    unfolding assms(9) by (simp add: route_hit_def assms(1,2) Let_def count_def)
  from submit_hit_accept [OF len assms(3,4) refl, of "hr_work_id hit" "hr_nonce hit" ocfg ck]
  obtain router where router:
    "sr_outbox router = map_option (\<lambda>ob. enqueue ob (pending_of ?rec)) (sr_outbox (mn_router ?m))"
    "submit_hit ocfg ck header (wi_share_target_le (snap_item ss)) (hr_work_id hit) (hr_nonce hit) ?m =
      (True, submit_callback ocfg ck ?rec (?m\<lparr>mn_router := router\<rparr>))" by blast
  have "m' = submit_callback ocfg ck ?rec (?m\<lparr>mn_router := router\<rparr>)" using m' router(2) by simp
  then obtain fs l where cb: "m' = (send_to_source ?rec (?m\<lparr>mn_router := router\<rparr>))\<lparr>mn_files := fs, mn_last_rotate := l\<rparr>"
    using callback_frame [of ocfg ck ?rec "?m\<lparr>mn_router := router\<rparr>"] by auto
  have sent: "mn_w2s (?m\<lparr>mn_router := router\<rparr>) (sh_work_id ?rec) = Some sid" using assms(5) by simp
  from send_to_source_sent [OF this, of r] assms(6-8) cb
  show "mn_sent m' = mn_sent ?m @ (case submitFromHeader (si_user (mn_sources ?m ! unat sid)) header
      (zeros_hex (sa_extranonce2_size (rn_adapter r))) (Some r) of None \<Rightarrow> [] | Some msg \<Rightarrow> [msg])"
    and "sr_outbox (mn_router m') = map_option (\<lambda>ob. enqueue ob
        \<lparr>ps_work_id = hr_work_id hit, ps_nonce = hr_nonce hit, ps_header80 = header\<rparr>) (sr_outbox (mn_router ?m))"
    using router(1) len by (simp_all add: pending_of_def)
qed

text \<open>C12: a share goes to the pool its work id came from. Without a block submitter, a hit of a known job
  whose hash is above the share target changes nothing but the counter of shares (which counts it all the
  same). At or below the target it is put into the log of pending submissions, and one message at most is
  sent: by the runner of the source that last published its work id, with that runner's current job.\<close>

theorem shares_routed:
  assumes "snaps (hr_work_id hit) = Some ss" and "header = hit_header (snap_item ss) (hr_nonce hit)"
    and "sr_has_cb (mn_router (ht_miner st))" and "mn_w2s (ht_miner st) (hr_work_id hit) = Some sid"
    and "unat sid < length (mn_sources (ht_miner st))"
    and "si_kind (mn_sources (ht_miner st) ! unat sid) = Stratum_source"
    and "si_stratum (mn_sources (ht_miner st) ! unat sid) = Some r"
    and "m' = ht_miner (route_hit ocfg ck rpc None snaps hit st)"
  shows "counter (ht_metrics (route_hit ocfg ck rpc None snaps hit st)) ''submit.shares'' =
      counter (ht_metrics st) ''submit.shares'' + 1 \<and>
    (if be_nat (sha256d header) \<le> target_nat (wi_share_target_le (snap_item ss))
     then mn_sent m' = mn_sent (ht_miner st) @
       (case submitFromHeader (si_user (mn_sources (ht_miner st) ! unat sid)) header
            (zeros_hex (sa_extranonce2_size (rn_adapter r))) (Some r) of None \<Rightarrow> [] | Some msg \<Rightarrow> [msg]) \<and>
       sr_outbox (mn_router m') = map_option (\<lambda>ob. enqueue ob
         \<lparr>ps_work_id = hr_work_id hit, ps_nonce = hr_nonce hit, ps_header80 = header\<rparr>) (sr_outbox (mn_router (ht_miner st)))
     else m' = ht_miner st)"
proof -
  let ?m = "ht_miner st" and ?target = "wi_share_target_le (snap_item ss)"
  have len: "length header = 80" by (simp add: assms(2))
  have m': "m' = snd (submit_hit ocfg ck header ?target (hr_work_id hit) (hr_nonce hit) ?m)"
    unfolding assms(8) by (simp add: route_hit_def assms(1,2) Let_def count_def)
  have cnt: "counter (ht_metrics (route_hit ocfg ck rpc None snaps hit st)) ''submit.shares'' =
      counter (ht_metrics st) ''submit.shares'' + 1"
    by (simp add: route_hit_def assms(1) Let_def count_def)
  show ?thesis
  proof (cases "be_nat (sha256d header) \<le> target_nat ?target")
    case False
    then show ?thesis using cnt m' submit_hit_reject [OF len False] by simp
  next
    case True
    then show ?thesis using cnt route_hit_accept [OF assms(1,2) True assms(3-8)] by simp
  qed
qed

definition sample_hit_state :: HitState where
  "sample_hit_state = \<lparr>ht_miner = \<lparr>mn_sources = [sample_source []], mn_w2s = [5 \<mapsto> 0], mn_files = sample_fs, mn_last_rotate = 0,
     mn_sent = [], mn_router = empty_router\<rparr>, ht_metrics = metrics_new, ht_posted = []\<rparr>"

theorem block_hits_lost_witness:
  "ht_posted (route_hit (ac_outbox default_config) \<lparr>ck_ms = 1, ck_epoch = 1\<rparr> (\<lambda>b. True) (Some submitter_new)
      [5 \<mapsto> sample_snapshot zero8\<lparr>snap_item := default_item\<lparr>wi_block_target_le := replicate 8 0xFFFFFFFF\<rparr>\<rparr>]
      \<lparr>hr_work_id = 5, hr_nonce = 7\<rparr> sample_hit_state) = []"
proof -
  let ?pool = "default_pool\<lparr>pe_profile := ''gbt'', pe_rpc := Some default_rpc\<rparr>"
  have s: "setup_sources False (default_config\<lparr>ac_pools := [?pool]\<rparr>) =
      ([default_source\<lparr>si_kind := Gbt_source, si_gbt := True\<rparr>], Some (gbt_runner_new new_gbt_adapter ?pool), Some submitter_new)"
    by (simp add: setup_sources_def num_slots_def default_config_def)
  have "be_nat (sha256d h) \<le> target_nat (replicate 8 0xFFFFFFFF)" for h
    unfolding target_nat_max using be_nat_bound [of "sha256d h"] by simp
  with block_hits_lost [OF s, of "[5 \<mapsto> sample_snapshot zero8\<lparr>snap_item := default_item\<lparr>wi_block_target_le := replicate 8 0xFFFFFFFF\<rparr>\<rparr>]"
      "\<lparr>hr_work_id = 5, hr_nonce = 7\<rparr>", OF _ refl, of _ "ac_outbox default_config" "\<lparr>ck_ms = 1, ck_epoch = 1\<rparr>" "\<lambda>b. True" sample_hit_state]
  show ?thesis by (simp add: sample_hit_state_def)
qed

theorem shares_routed_witness:
  "\<exists>m'. m' = ht_miner (route_hit (ac_outbox default_config) \<lparr>ck_ms = 1, ck_epoch = 1\<rparr> (\<lambda>b. True) None
      [5 \<mapsto> sample_snapshot (replicate 8 0xFFFFFFFF)] \<lparr>hr_work_id = 5, hr_nonce = 7\<rparr> sample_hit_state) \<and>
    sr_outbox (mn_router m') = Some (enqueue outbox_new \<lparr>ps_work_id = 5, ps_nonce = 7,
      ps_header80 = hit_header (snap_item (sample_snapshot (replicate 8 0xFFFFFFFF))) 7\<rparr>)"
proof -
  have "be_nat (sha256d h) \<le> target_nat (replicate 8 0xFFFFFFFF)" for h
    unfolding target_nat_max using be_nat_bound [of "sha256d h"] by simp
  then show ?thesis
    using shares_routed [of "[5 \<mapsto> sample_snapshot (replicate 8 0xFFFFFFFF)]" "\<lparr>hr_work_id = 5, hr_nonce = 7\<rparr>",
        OF _ refl _ _ _ _ _ refl, of "sample_snapshot (replicate 8 0xFFFFFFFF)" sample_hit_state 0
        "runner_new (stratum_adapter_new ''a'') True" "ac_outbox default_config" "\<lparr>ck_ms = 1, ck_epoch = 1\<rparr>" "\<lambda>b. True"]
    by (simp add: sample_hit_state_def sample_source_def empty_router_def sample_snapshot_def stratum_adapter_new_def)
qed

text \<open>Started with command-line arguments the program mines nothing. No source gets an adapter, so
  polling publishes nothing and the active set stays empty, whatever the configuration file lists.\<close>

theorem legacy_mode_idle:
  assumes "setup_sources True cfg = (srcs, g, s)" and "registry_new (num_slots cfg) = Inr reg"
  shows "poll_sources 0 srcs g' (reg, Map.empty) = Inr (srcs, g', reg, Map.empty) \<and>
    active_set reg = ([], Map.empty) \<and> s = None"
proof -
  have srcs: "srcs = replicate (num_slots cfg) default_source" "s = None" using assms(1) by (auto simp: setup_sources_def)
  have poll: "poll_sources k (replicate n default_source) g' (reg, w) = Inr (replicate n default_source, g', reg, w)" for k n w
    by (induction n arbitrary: k) (simp_all add: poll_source_def default_source_def)
  have "reg = replicate (num_slots cfg) default_slot" using assms(2) by (auto simp: registry_new_def split: if_splits)
  then have "active_snapshots reg = []"
    by (simp add: active_snapshots_def slot_snapshot_def default_slot_def default_item_def)
  then show ?thesis using poll srcs by (simp add: active_set_eq fun_eq_iff)
qed

theorem legacy_mode_idle_witness:
  "active_set [default_slot] = ([], Map.empty)"
  using legacy_mode_idle [of default_config "[default_source]" None None "[default_slot]" None]
  by (simp add: setup_sources_def num_slots_def default_config_def registry_new_def)

end
