(* ===== verification/Miner_Commands.thy ===== *)
theory Miner_Commands
  imports Miner_Jobs Config
begin

text \<open>
  \<^verbatim>\<open>src/tools/stratum_registry_runner.cpp\<close>, the operator's side of \<^verbatim>\<open>main\<close>: the environment variable for
  one automatic submission, what is remembered of each new generation of slot 0, and the commands read
  from standard input. A line is split at white space like \<^verbatim>\<open>operator>>\<close> does; the answers printed on
  standard output are values of \<open>answer\<close>.
\<close>

record AutoSubmit =
  au_en2 :: string
  au_ntime :: string
  au_nonce :: string
  au_enabled :: bool
  au_done :: bool

definition no_auto :: AutoSubmit where
  "no_auto = \<lparr>au_en2 = [], au_ntime = [], au_nonce = [], au_enabled = False, au_done = False\<rparr>"

definition parse_auto_submit :: "string option \<Rightarrow> AutoSubmit" where
  "parse_auto_submit env =
     (case env of
        None \<Rightarrow> no_auto
      | Some s \<Rightarrow>
          (case split_at '':'' s of
             None \<Rightarrow> no_auto
           | Some (en2, rest) \<Rightarrow>
               (case split_at '':'' rest of
                  None \<Rightarrow> no_auto
                | Some (ntime, nonce) \<Rightarrow>
                    no_auto\<lparr>au_en2 := en2, au_ntime := ntime, au_nonce := nonce, au_enabled := True\<rparr>)))"

record Operator =
  op_last_gen :: u64
  op_last_ntime_hex :: string
  op_auto :: AutoSubmit

text \<open>Slot 0 has a new generation: its time is remembered, and the automatic submission is made once.\<close>

definition on_generation :: "string \<Rightarrow> StratumRunner option \<Rightarrow> WorkSourceRegistry \<Rightarrow> Operator \<Rightarrow> Operator \<times> json option" where
  "on_generation user runner reg op =
     (case registry_get reg 0 of
        None \<Rightarrow> (op, None)
      | Some snap \<Rightarrow>
          if snap_gen snap = op_last_gen op then (op, None)
          else let op = op\<lparr>op_last_gen := snap_gen snap, op_last_ntime_hex := hex_digits (unat (wi_ntime (snap_item snap)))\<rparr>;
                   au = op_auto op
               in if au_enabled au \<and> \<not> au_done au
                  then (op\<lparr>op_auto := au\<lparr>au_done := True\<rparr>\<rparr>,
                        submitShareHex user (au_en2 au) (au_ntime au) (au_nonce au) runner)
                  else (op, None))"

text \<open>The words of a line.\<close>

function line_words :: "string \<Rightarrow> string list" where
  "line_words s =
     (let s = dropWhile is_space s
      in if s = [] then [] else takeWhile (\<lambda>c. \<not> is_space c) s # line_words (dropWhile (\<lambda>c. \<not> is_space c) s))"
  by pat_completeness auto
termination
proof (relation "measure length")
  fix s x :: string
  assume x: "x = dropWhile is_space s" "x \<noteq> []"
  then have "\<not> is_space (hd x)" using hd_dropWhile [of is_space s] by simp
  then have "length (dropWhile (\<lambda>c. \<not> is_space c) x) < length x"
    using x(2) by (cases x) (simp_all add: le_imp_less_Suc length_dropWhile_le)
  also have "length x \<le> length s" using x(1) by (simp add: length_dropWhile_le)
  finally show "(dropWhile (\<lambda>c. \<not> is_space c) x, s) \<in> measure length" by simp
qed simp

declare line_words.simps [simp del]

datatype answer = Submit_answer "json option" string string string | Header_answer bool
  | Need_header | No_job | Unknown_command | No_command

definition or_default :: "string \<Rightarrow> string \<Rightarrow> string" where
  "or_default s d = (if s \<noteq> [] then s else d)"

definition submit_command :: "string \<Rightarrow> StratumRunner option \<Rightarrow> Operator \<Rightarrow> string list \<Rightarrow> answer" where
  "submit_command user runner op args =
     (let (en2, ntime_hex, nonce_hex) =
        (case args of
           en2 # nt # nn # _ \<Rightarrow> (en2, nt, nn)
         | _ \<Rightarrow> (or_default (au_en2 (op_auto op)) ''00000000'',
                 or_default (au_ntime (op_auto op)) (or_default (op_last_ntime_hex op) ''00000000''),
                 or_default (au_nonce (op_auto op)) ''00000000''))
      in Submit_answer (submitShareHex user en2 ntime_hex nonce_hex runner) en2 ntime_hex nonce_hex)"

definition header_command :: "u32 \<Rightarrow> OutboxCfg \<Rightarrow> Clock \<Rightarrow> bool \<Rightarrow> WorkSourceRegistry \<Rightarrow> string list \<Rightarrow> Miner \<Rightarrow> answer \<times> Miner" where
  "header_command junk cfg ck have_router reg args m =
     (case args of
        [] \<Rightarrow> (Need_header, m)
      | hhex # _ \<Rightarrow>
          if length hhex \<noteq> 160 then (Need_header, m)
          else let header = scan_bytes junk hhex 80
               in case registry_get reg 0 of
                    None \<Rightarrow> (No_job, m)
                  | Some snap \<Rightarrow>
                      let nonce = be_word (header ! 76) (header ! 77) (header ! 78) (header ! 79)
                      in if have_router
                         then (case submit_hit cfg ck header (wi_share_target_le (snap_item snap))
                                 (wi_work_id (snap_item snap)) nonce m of (ok, m) \<Rightarrow> (Header_answer ok, m))
                         else (Header_answer False, m))"

definition handle_command :: "u32 \<Rightarrow> OutboxCfg \<Rightarrow> Clock \<Rightarrow> bool \<Rightarrow> bool \<Rightarrow> string \<Rightarrow> StratumRunner option \<Rightarrow>
    WorkSourceRegistry \<Rightarrow> Operator \<Rightarrow> string \<Rightarrow> Miner \<Rightarrow> answer \<times> Miner" where
  "handle_command junk cfg ck use_gbt have_router user runner reg op line m =
     (case line_words line of
        [] \<Rightarrow> (No_command, m)
      | cmd # args \<Rightarrow>
          if cmd = ''s'' \<or> cmd = ''submit'' then (submit_command user runner op args, m)
          else if use_gbt \<and> cmd = ''submit_header'' then header_command junk cfg ck have_router reg args m
          else (Unknown_command, m))"

section \<open>Lemmas\<close>

lemma word_line:
  assumes "w \<noteq> []" and "\<forall>c \<in> set w. \<not> is_space c" and "rest = [] \<or> is_space (hd rest)"
  shows "line_words (w @ rest) = w # line_words rest"
proof -
  have drop: "dropWhile is_space (w @ rest) = w @ rest" using assms(1,2) by (cases w) simp_all
  have take: "takeWhile (\<lambda>c. \<not> is_space c) (w @ rest) = w" "dropWhile (\<lambda>c. \<not> is_space c) (w @ rest) = rest"
    using assms(2,3) by (cases rest; simp)+
  show ?thesis using assms(1) by (subst line_words.simps) (simp add: drop take)
qed

lemma line_words_space: "is_space c \<Longrightarrow> line_words (c # s) = line_words s"
  by (simp add: line_words.simps [of "c # s"] line_words.simps [of s])

lemma line_words_Nil: "line_words [] = []"
  by (simp add: line_words.simps)

lemma hex_no_space: "\<forall>c \<in> set (bytesToHex bs). \<not> is_space c"
  using hex_digits_text [of bs] hex_value_plain by fastforce

lemma scan_bytes_all: "length bs = n \<Longrightarrow> scan_bytes junk (bytesToHex bs) n = bs"
  by (simp add: scan_bytes_hex)

section \<open>Properties\<close>

text \<open>Submitting a header by hand. The command \<^verbatim>\<open>submit_header\<close> with the 160 digits of an 80-byte header
  checks exactly that header against the share target of slot 0, under that slot's work id and the nonce
  the header ends with: it is accepted exactly when its double hash is at most the target, and nothing
  happens otherwise. Without a header of 160 digits, or without GBT, nothing happens either.\<close>

theorem header_by_hand:
  assumes "length h = 80" and "registry_get reg 0 = Some snap"
  shows "\<exists>m'. handle_command junk cfg ck True True user runner reg op (''submit_header '' @ bytesToHex h) m =
      (Header_answer (be_nat (sha256d h) \<le> target_nat (wi_share_target_le (snap_item snap))), m') \<and>
    (\<not> be_nat (sha256d h) \<le> target_nat (wi_share_target_le (snap_item snap)) \<longrightarrow> m' = m) \<and>
    handle_command junk cfg ck True True user runner reg op ''submit_header'' m = (Need_header, m) \<and>
    handle_command junk cfg ck False True user runner reg op (''submit_header '' @ bytesToHex h) m = (Unknown_command, m)"
proof -
  let ?target = "wi_share_target_le (snap_item snap)"
  let ?n = "be_word (h ! 76) (h ! 77) (h ! 78) (h ! 79)"
  let ?res = "submit_hit cfg ck h ?target (wi_work_id (snap_item snap)) ?n m"
  have cmd: "\<forall>c \<in> set ''submit_header''. \<not> is_space c" "is_space (CHR '' '')" by (simp_all add: is_space_def)
  have hex: "bytesToHex h \<noteq> []" using assms(1) length_bytesToHex [of h] by (metis length_0_conv mult_is_0 numeral_eq_iff zero_neq_numeral)
  have "line_words (bytesToHex h @ []) = bytesToHex h # line_words []"
    by (rule word_line [OF hex hex_no_space]) simp
  moreover have "line_words (''submit_header'' @ CHR '' '' # bytesToHex h) = ''submit_header'' # line_words (CHR '' '' # bytesToHex h)"
    using cmd by (intro word_line) simp_all
  ultimately have words: "line_words (''submit_header '' @ bytesToHex h) = [''submit_header'', bytesToHex h]"
    by (simp add: line_words_space [OF cmd(2)] line_words_Nil)
  have bare: "line_words ''submit_header'' = [''submit_header'']"
    using word_line [of "''submit_header''" "[]"] cmd(1) by (simp add: line_words_Nil)
  have "handle_command junk cfg ck True True user runner reg op (''submit_header '' @ bytesToHex h) m =
      (Header_answer (fst ?res), snd ?res)"
    unfolding handle_command_def words using assms
    by (simp add: header_command_def scan_bytes_all Let_def split: prod.split)
  moreover have "fst ?res \<longleftrightarrow> be_nat (sha256d h) \<le> target_nat ?target"
    using verify_accepts [OF assms(1), of "mn_router m" ?target "wi_work_id (snap_item snap)" ?n]
    by (cases "verifyAndSubmit (mn_router m) h ?target (wi_work_id (snap_item snap)) ?n") (simp add: submit_hit_def hash_value_def)
  moreover have "\<not> be_nat (sha256d h) \<le> target_nat ?target \<longrightarrow> snd ?res = m"
    using submit_hit_reject [OF assms(1)] by simp
  moreover have "handle_command junk cfg ck True True user runner reg op ''submit_header'' m = (Need_header, m)"
    unfolding handle_command_def bare by (simp add: header_command_def)
  moreover have "handle_command junk cfg ck False True user runner reg op (''submit_header '' @ bytesToHex h) m = (Unknown_command, m)"
    unfolding handle_command_def words by simp
  ultimately show ?thesis by (intro exI [of _ "snd ?res"]) simp
qed

theorem header_by_hand_witness:
  "\<exists>ok m'. handle_command 0 (ac_outbox default_config) \<lparr>ck_ms = 1, ck_epoch = 1\<rparr> True True ''u'' None [default_slot]
     \<lparr>op_last_gen = 0, op_last_ntime_hex = [], op_auto = no_auto\<rparr> (''submit_header '' @ bytesToHex (replicate 80 7))
     (ht_miner sample_hit_state) = (Header_answer ok, m')"
proof -
  have "registry_get [default_slot] 0 = Some (slot_snapshot default_slot)" by (simp add: registry_get_snapshot)
  from header_by_hand [OF _ this, of "replicate 80 7"] show ?thesis by fastforce
qed

end
