(* ===== verification/Ledger_File.thy ===== *)
theory Ledger_File
  imports Submit_Router Config Rpc_Client
begin

text \<open>
  The persistent part of \<^verbatim>\<open>src/store/ledger.h\<close>: one JSON document per line. The documents written are
  built here; how the library prints them (\<^verbatim>\<open>dump\<close>) and reads them back (\<^verbatim>\<open>parse\<close>, \<open>None\<close> when the
  text is discarded) are arguments. The order in which the unordered map hands out its entries is an
  argument too. An exception of the library leaves the loader with the lines read so far, so a load
  yields its outcome together with the ledger it leaves.
\<close>

section \<open>Writing\<close>

definition words_json :: "u32 list \<Rightarrow> json" where
  "words_json a = JArray (map jint a)"

definition item_json :: "WorkItem \<Rightarrow> json" where
  "item_json item = JObject
     [(''work_id'', jint (wi_work_id item)), (''source_id'', jint (wi_source_id item)),
      (''version'', jint (wi_version item)), (''ntime'', jint (wi_ntime item)), (''nbits'', jint (wi_nbits item)),
      (''nonce_start'', jint (wi_nonce_start item)), (''prevhash_le'', words_json (wi_prevhash_le item)),
      (''merkle_root_le'', words_json (wi_merkle_root_le item)),
      (''share_target_le'', words_json (wi_share_target_le item)),
      (''block_target_le'', words_json (wi_block_target_le item)), (''vmask'', jint (wi_vmask item)),
      (''ntime_min'', jint (wi_ntime_min item)), (''ntime_max'', jint (wi_ntime_max item)),
      (''extranonce2_size'', jint (wi_extranonce2_size item)), (''clean_jobs'', JBool (wi_clean_jobs item)),
      (''active'', JBool (wi_active item)), (''found_submitted'', JBool (wi_found_submitted item))]"

definition newline :: char where
  "newline = CHR 0x0A"

definition item_line :: "(json \<Rightarrow> string) \<Rightarrow> WorkItem \<Rightarrow> u8 list" where
  "item_line dump item = string_bytes (dump (item_json item) @ [newline])"

definition ledger_save :: "(json \<Rightarrow> string) \<Rightarrow> u64 list \<Rightarrow> file_system \<Rightarrow> string \<Rightarrow> Ledger \<Rightarrow> bool \<times> file_system" where
  "ledger_save dump order fs filepath l =
     (case open_trunc fs filepath of
        None \<Rightarrow> (False, fs)
      | Some fs \<Rightarrow> (True, fold (\<lambda>work_id. write_bytes filepath (item_line dump (the (l work_id)))) order fs))"

section \<open>Reading\<close>

text \<open>\<^verbatim>\<open>j.value(name, default)\<close>: throws on a document that is no object and on a member of another type.\<close>

definition value_or :: "'j json_lib \<Rightarrow> 'j \<Rightarrow> string \<Rightarrow> ('j \<Rightarrow> 'v option) \<Rightarrow> 'v \<Rightarrow> 'v result" where
  "value_or J doc name get d =
     (if \<not> j_is_object J doc then Inl (Invalid_argument name)
      else if j_contains J doc name
      then (case Option.bind (j_field J doc name) get of None \<Rightarrow> Inl (Invalid_argument name) | Some v \<Rightarrow> Inr v)
      else Inr d)"

definition member_reader :: "'j json_lib \<Rightarrow> string \<Rightarrow> ('j \<Rightarrow> 'v option) \<Rightarrow> 'v \<Rightarrow> ('v \<Rightarrow> 'c \<Rightarrow> 'c) \<Rightarrow> 'j \<Rightarrow> 'c \<Rightarrow> 'c result" where
  "member_reader J name get d put doc c = map_sum id (\<lambda>v. put v c) (value_or J doc name get d)"

fun run_readers :: "('j \<Rightarrow> 'c \<Rightarrow> 'c result) list \<Rightarrow> 'j \<Rightarrow> 'c \<Rightarrow> 'c result" where
  "run_readers [] doc c = Inr c"
| "run_readers (r # rs) doc c = (case r doc c of Inl e \<Rightarrow> Inl e | Inr c \<Rightarrow> run_readers rs doc c)"

text \<open>\<^verbatim>\<open>get<std::vector<uint32_t>>()\<close>, then its first eight entries in an array of zeros.\<close>

definition json_words :: "'j json_lib \<Rightarrow> 'j \<Rightarrow> u32 list option" where
  "json_words J v = (if j_is_array J v then those (map (j_int J) (j_elements J v)) else None)"

definition vec_to_arr :: "u32 list \<Rightarrow> u32 list" where
  "vec_to_arr v = take 8 v @ replicate (8 - length v) 0"

definition item_readers :: "'j json_lib \<Rightarrow> ('j \<Rightarrow> WorkItem \<Rightarrow> WorkItem result) list" where
  "item_readers J =
     [member_reader J ''work_id'' (j_int64 J) 0 (\<lambda>v w. w\<lparr>wi_work_id := v\<rparr>),
      member_reader J ''source_id'' (j_int J) 0 (\<lambda>v w. w\<lparr>wi_source_id := v\<rparr>),
      member_reader J ''version'' (j_int J) 0 (\<lambda>v w. w\<lparr>wi_version := v\<rparr>),
      member_reader J ''ntime'' (j_int J) 0 (\<lambda>v w. w\<lparr>wi_ntime := v\<rparr>),
      member_reader J ''nbits'' (j_int J) 0 (\<lambda>v w. w\<lparr>wi_nbits := v\<rparr>),
      member_reader J ''nonce_start'' (j_int J) 0 (\<lambda>v w. w\<lparr>wi_nonce_start := v\<rparr>),
      member_reader J ''prevhash_le'' (json_words J) [] (\<lambda>v w. w\<lparr>wi_prevhash_le := vec_to_arr v\<rparr>),
      member_reader J ''merkle_root_le'' (json_words J) [] (\<lambda>v w. w\<lparr>wi_merkle_root_le := vec_to_arr v\<rparr>),
      member_reader J ''share_target_le'' (json_words J) [] (\<lambda>v w. w\<lparr>wi_share_target_le := vec_to_arr v\<rparr>),
      member_reader J ''block_target_le'' (json_words J) [] (\<lambda>v w. w\<lparr>wi_block_target_le := vec_to_arr v\<rparr>),
      member_reader J ''vmask'' (j_int J) 0 (\<lambda>v w. w\<lparr>wi_vmask := v\<rparr>),
      member_reader J ''ntime_min'' (j_int J) 0 (\<lambda>v w. w\<lparr>wi_ntime_min := v\<rparr>),
      member_reader J ''ntime_max'' (j_int J) 0 (\<lambda>v w. w\<lparr>wi_ntime_max := v\<rparr>),
      member_reader J ''extranonce2_size'' (j_int J) 0 (\<lambda>v w. w\<lparr>wi_extranonce2_size := ucast v\<rparr>),
      member_reader J ''clean_jobs'' (j_bool J) False (\<lambda>v w. w\<lparr>wi_clean_jobs := v\<rparr>),
      member_reader J ''active'' (j_bool J) False (\<lambda>v w. w\<lparr>wi_active := v\<rparr>),
      member_reader J ''found_submitted'' (j_bool J) False (\<lambda>v w. w\<lparr>wi_found_submitted := v\<rparr>)]"

definition read_item :: "'j json_lib \<Rightarrow> 'j \<Rightarrow> WorkItem result" where
  "read_item J doc = run_readers (item_readers J) doc default_item"

text \<open>\<^verbatim>\<open>std::getline\<close> until it fails: the text between line ends, a last unterminated line included.\<close>

function getlines :: "u8 list \<Rightarrow> string list" where
  "getlines [] = []"
| "getlines (b # bs) =
     map (\<lambda>x. char_of (unat x)) (takeWhile (\<lambda>x. x \<noteq> 10) (b # bs)) # getlines (drop 1 (dropWhile (\<lambda>x. x \<noteq> 10) (b # bs)))"
  by pat_completeness auto
termination
proof (relation "measure length", simp)
  fix b :: u8 and bs :: "u8 list"
  show "(drop 1 (dropWhile (\<lambda>x. x \<noteq> 10) (b # bs)), b # bs) \<in> measure length"
    using length_dropWhile_le [of "\<lambda>x. x \<noteq> 10" bs] by (cases "b = 10") (auto simp: le_less_Suc_eq)
qed

fun load_lines :: "(string \<Rightarrow> 'j option) \<Rightarrow> 'j json_lib \<Rightarrow> string list \<Rightarrow> Ledger \<Rightarrow> cpp_error option \<times> Ledger" where
  "load_lines parse J [] l = (None, l)"
| "load_lines parse J (line # lines) l =
     (if line = [] then load_lines parse J lines l
      else case parse line of
        None \<Rightarrow> load_lines parse J lines l
      | Some j \<Rightarrow> (case read_item J j of
            Inl e \<Rightarrow> (Some e, l)
          | Inr item \<Rightarrow> load_lines parse J lines (ledger_put l item)))"

definition ledger_load :: "(string \<Rightarrow> 'j option) \<Rightarrow> 'j json_lib \<Rightarrow> file_system \<Rightarrow> string \<Rightarrow> Ledger \<Rightarrow> bool result \<times> Ledger" where
  "ledger_load parse J fs filepath l =
     (case fs_files fs filepath of
        None \<Rightarrow> (Inr False, l)
      | Some bs \<Rightarrow> (case load_lines parse J (getlines bs) Map.empty of
            (None, l) \<Rightarrow> (Inr True, l)
          | (Some e, l) \<Rightarrow> (Inl e, l)))"

section \<open>Lemmas\<close>

lemma unat_of_char: "unat (of_char c :: u8) = of_char c"
proof -
  have "unat (of_char c :: u8) = unat (of_nat (of_char c) :: u8)" by (simp only: of_nat_of_char)
  also have "\<dots> = of_char c mod 256" by (simp add: unat_of_nat del: of_nat_of_char of_char_mod_256)
  finally show ?thesis by simp
qed

lemma bytes_of_text [simp]: "map (\<lambda>x. char_of (unat x)) (string_bytes s) = s"
  by (simp add: string_bytes_def comp_def unat_of_char)

lemma newline_byte: "(of_char c :: u8) = 10 \<longleftrightarrow> c = newline"
proof -
  have "(of_char c :: u8) = 10 \<longleftrightarrow> unat (of_char c :: u8) = 10" by (simp add: word_unat_eq_iff)
  also have "\<dots> \<longleftrightarrow> of_char c = (of_char newline :: nat)" by (simp add: unat_of_char newline_def)
  finally show ?thesis by simp
qed

lemma getlines_line:
  assumes "newline \<notin> set s"
  shows "getlines (string_bytes (s @ [newline]) @ bs) = s # getlines bs"
proof -
  let ?t = "string_bytes s @ 10 # bs"
  have t: "string_bytes (s @ [newline]) @ bs = ?t" by (simp add: string_bytes_def newline_byte)
  have no: "\<forall>x \<in> set (string_bytes s). x \<noteq> 10" using assms by (auto simp: string_bytes_def newline_byte)
  then have "takeWhile (\<lambda>x. x \<noteq> 10) ?t = string_bytes s" "dropWhile (\<lambda>x. x \<noteq> 10) ?t = 10 # bs"
    by (simp_all add: takeWhile_append2 dropWhile_append2)
  moreover obtain b r where "?t = b # r" by (cases ?t) simp_all
  ultimately show ?thesis unfolding t by (simp del: takeWhile.simps dropWhile.simps)
qed

lemma getlines_file:
  assumes "\<forall>s \<in> set ls. newline \<notin> set s"
  shows "getlines (concat (map (\<lambda>s. string_bytes (s @ [newline])) ls)) = ls"
  using assms by (induction ls) (simp_all add: getlines_line)

lemma write_lines:
  "fs_files fs p = Some c \<Longrightarrow>
   fs_files (fold (\<lambda>k. write_bytes p (f k)) ks fs) p = Some (c @ concat (map f ks))"
  by (induction ks arbitrary: fs c) (simp_all add: write_bytes_def)

lemma jint_reads:
  "j_int json_model (jint (w :: u32)) = Some w" "j_int64 json_model (jint (v :: u64)) = Some v"
  "j_int json_model (jint (b :: u8)) = Some (ucast b)" "ucast (ucast b :: u32) = b"
proof -
  show "ucast (ucast b :: u32) = b" by (rule ucast_up_ucast_id) (simp add: is_up)
qed (simp_all add: jint_def)

lemma json_words_read: "json_words json_model (words_json a) = Some a"
  by (simp add: json_words_def words_json_def) (induction a, simp_all add: jint_reads)

lemma vec_to_arr_eight: "length a = 8 \<Longrightarrow> vec_to_arr a = a"
  by (simp add: vec_to_arr_def)

lemma read_item_json: "item_ok item \<Longrightarrow> read_item json_model (item_json item) = Inr item"
  by (simp add: read_item_def item_readers_def member_reader_def value_or_def item_json_def jint_reads
      json_words_read vec_to_arr_eight item_ok_def)

text \<open>Every entry sits under its own work id and its arrays have eight words.\<close>

definition ledger_ok :: "Ledger \<Rightarrow> bool" where
  "ledger_ok l \<longleftrightarrow> (\<forall>k item. l k = Some item \<longrightarrow> wi_work_id item = k \<and> item_ok item)"

lemma ledger_okD: "ledger_ok l \<Longrightarrow> l k = Some item \<Longrightarrow> wi_work_id item = k \<and> item_ok item"
  by (simp add: ledger_ok_def)

lemma ledger_ok_empty [simp]: "ledger_ok Map.empty"
  by (simp add: ledger_ok_def)

lemma ledger_ok_put: "ledger_ok l \<Longrightarrow> item_ok item \<Longrightarrow> ledger_ok (ledger_put l item)"
  by (simp add: ledger_ok_def ledger_put_def)

lemma ledger_ok_erase: "ledger_ok l \<Longrightarrow> ledger_ok (ledger_erase l k)"
  by (simp add: ledger_ok_def ledger_erase_def)

lemma length_vec_to_arr [simp]: "length (vec_to_arr v) = 8"
  by (simp add: vec_to_arr_def)

lemma member_reader_cases:
  "member_reader J name get d put doc c = Inr c' \<Longrightarrow> \<exists>v. c' = put v c"
  by (cases "value_or J doc name get d") (auto simp: member_reader_def)

lemma read_item_ok: "read_item J doc = Inr item \<Longrightarrow> item_ok item"
  unfolding read_item_def item_readers_def
  by (auto simp: item_ok_def split: sum.splits dest!: member_reader_cases)

lemma load_lines_ok: "ledger_ok l \<Longrightarrow> load_lines parse J ls l = (e, l') \<Longrightarrow> ledger_ok l'"
  by (induction parse J ls l rule: load_lines.induct)
    (auto split: if_splits option.splits sum.splits dest: read_item_ok intro: ledger_ok_put)

lemma load_lines_append:
  "load_lines parse J (ls @ ls') l =
     (case load_lines parse J ls l of (None, l1) \<Rightarrow> load_lines parse J ls' l1 | (Some e, l1) \<Rightarrow> (Some e, l1))"
  by (induction parse J ls l rule: load_lines.induct) (auto split: option.splits sum.splits)

lemma load_lines_items:
  assumes "\<forall>item \<in> set items. item_ok item \<and> dump (item_json item) \<noteq> [] \<and> parse (dump (item_json item)) = Some (item_json item)"
  shows "load_lines parse json_model (map (\<lambda>item. dump (item_json item)) items) l =
    (None, fold (\<lambda>item l. ledger_put l item) items l)"
  using assms by (induction items arbitrary: l) (simp_all add: read_item_json)

lemma put_entries:
  assumes "ledger_ok l" and "set ks \<subseteq> dom l"
  shows "fold (\<lambda>item m. ledger_put m item) (map (\<lambda>k. the (l k)) ks) m k = (if k \<in> set ks then l k else m k)"
  using assms(2)
proof (induction ks arbitrary: m)
  case (Cons a ks)
  obtain item where item: "l a = Some item" using Cons.prems by auto
  with ledger_okD [OF assms(1)] have "wi_work_id item = a" by blast
  then show ?case using Cons item by (simp add: ledger_put_def)
qed simp

section \<open>Properties\<close>

text \<open>C26: the ledger survives its file. For a ledger whose entries are well formed and sit under their work
  ids, whatever order its entries are written in, saving it to a writable path and loading that file
  (into any ledger) gives it back, and both report success: provided the library prints the document
  of an entry on one line that is not empty and reads this text back as the same document.\<close>

theorem ledger_roundtrip:
  assumes "ledger_ok l" and "set order = dom l" and "fs_can_write fs path"
    and "\<forall>item \<in> ran l. dump (item_json item) \<noteq> [] \<and> newline \<notin> set (dump (item_json item)) \<and>
      parse (dump (item_json item)) = Some (item_json item)"
  shows "fst (ledger_save dump order fs path l) \<and>
    ledger_load parse json_model (snd (ledger_save dump order fs path l)) path l' = (Inr True, l)"
proof -
  let ?items = "map (\<lambda>k. the (l k)) order"
  let ?ls = "map (\<lambda>item. dump (item_json item)) ?items"
  obtain fs1 where fs1: "open_trunc fs path = Some fs1" "fs_files fs1 path = Some []"
    using assms(3) by (simp add: open_trunc_def)
  have written: "fs_files (snd (ledger_save dump order fs path l)) path =
      Some (concat (map (\<lambda>s. string_bytes (s @ [newline])) ?ls))"
    using write_lines [where f = "\<lambda>k. item_line dump (the (l k))", OF fs1(2)] fs1(1)
    by (simp add: ledger_save_def item_line_def comp_def)
  have items: "item \<in> ran l \<and> item_ok item" if "item \<in> set ?items" for item
    using that assms(2) ledger_okD [OF assms(1)] by (auto simp: dom_def intro: ranI)
  have lines: "getlines (concat (map (\<lambda>s. string_bytes (s @ [newline])) ?ls)) = ?ls"
    using items assms(4) by (intro getlines_file) auto
  have "load_lines parse json_model ?ls Map.empty = (None, fold (\<lambda>item m. ledger_put m item) ?items Map.empty)"
    using items assms(4) by (intro load_lines_items) blast
  moreover have "fold (\<lambda>item m. ledger_put m item) ?items Map.empty = l"
    using put_entries [OF assms(1), of order Map.empty] assms(2) by (auto simp: fun_eq_iff domIff)
  ultimately show ?thesis using written lines fs1(1) by (simp add: ledger_load_def ledger_save_def)
qed

text \<open>A line of another shape ends the load. Whatever the other lines are, when one holds a document
  that is not an object (a number, say), the load throws instead of returning, and the ledger is
  left with the entries of the lines before it: those it had before the load are gone.\<close>

theorem ledger_load_throws:
  assumes "newline \<notin> set bad" and "bad \<noteq> []" and "parse bad = Some j" and "\<not> j_is_object J j"
    and "\<forall>s \<in> set ls. newline \<notin> set s"
    and "load_lines parse J ls Map.empty = (None, before)"
    and "fs_files fs path = Some (concat (map (\<lambda>s. string_bytes (s @ [newline])) (ls @ [bad])) @ rest)"
  shows "ledger_load parse J fs path l = (Inl (Invalid_argument ''work_id''), before)"
proof -
  have "getlines (concat (map (\<lambda>s. string_bytes (s @ [newline])) ls') @ r) = ls' @ getlines r"
    if "\<forall>s \<in> set ls'. newline \<notin> set s" for ls' r
    using that by (induction ls') (simp_all add: getlines_line)
  from this [of "ls @ [bad]" rest] assms(1,5)
  have "getlines (concat (map (\<lambda>s. string_bytes (s @ [newline])) (ls @ [bad])) @ rest) = ls @ bad # getlines rest"
    by auto
  moreover have "read_item J j = Inl (Invalid_argument ''work_id'')"
    using assms(4) by (simp add: read_item_def item_readers_def member_reader_def value_or_def)
  ultimately show ?thesis using assms(2,3,6,7) by (simp add: ledger_load_def load_lines_append)
qed

definition sample_item :: WorkItem where
  "sample_item = default_item\<lparr>wi_work_id := 7, wi_prevhash_le := [1, 2, 3, 4, 5, 6, 7, 8], wi_active := True\<rparr>"

lemma sample_item_ok: "item_ok sample_item" "wi_work_id sample_item = 7"
  by (simp_all add: sample_item_def item_ok_def default_item_def zero8_def)

theorem ledger_roundtrip_witness:
  "ledger_load (\<lambda>s. if s = ''{}'' then Some (item_json sample_item) else None) json_model
     (snd (ledger_save (\<lambda>_. ''{}'') [7] sample_fs ''runner.jsonl'' [7 \<mapsto> sample_item])) ''runner.jsonl'' Map.empty =
   (Inr True, [7 \<mapsto> sample_item])"
  by (rule conjunct2, rule ledger_roundtrip)
    (auto simp: ledger_ok_def sample_item_ok newline_def sample_fs_def ran_def split: if_splits)

theorem ledger_load_throws_witness:
  "ledger_load (\<lambda>s. if s = ''5'' then Some (JInt 5) else None) json_model
     (sample_fs\<lparr>fs_files := [''l'' \<mapsto> string_bytes ''x'' @ [10] @ string_bytes ''5'' @ [10]]\<rparr>) ''l'' [7 \<mapsto> sample_item] =
   (Inl (Invalid_argument ''work_id''), Map.empty)"
  by (rule ledger_load_throws [where bad = "''5''" and ls = "[''x'']" and j = "JInt 5" and rest = "[]"])
    (simp_all add: newline_def json_model_def string_bytes_def)

end
