(* ===== verification/Launch_Tuning.thy ===== *)
theory Launch_Tuning
  imports Miner_Prelude
begin

text \<open>
  \<^verbatim>\<open>src/cuda/launch_plan.h\<close> and \<^verbatim>\<open>src/cuda/auto_tune.h\<close>: the grid of a kernel launch, and the controller
  that adapts the size of a micro batch to the time the last one took. The integers keep their
  widths, so the sums and products that may wrap around do so in the model.
\<close>

section \<open>Launch plan\<close>

record MultiJobLaunchPlan =
  blocks_per_job :: u32
  threads_per_block :: u32
  num_jobs :: u32

definition clampThreadsPerBlock :: "u32 \<Rightarrow> u32" where
  "clampThreadsPerBlock requested =
     (if requested < 64 then 64 else if requested > 1024 then 1024 else requested)"

text \<open>\<^verbatim>\<open>while (tpb > desired && tpb >= 64) tpb >>= 1\<close>\<close>

function tpb_loop :: "u64 \<Rightarrow> u32 \<Rightarrow> u32" where
  "tpb_loop desired tpb =
     (if ucast tpb > desired \<and> tpb \<ge> 64 then tpb_loop desired (drop_bit 1 tpb) else tpb)"
  by pat_completeness auto
termination
proof (relation "measure (\<lambda>(desired, tpb). unat tpb)")
  fix desired :: u64 and tpb :: u32
  assume "ucast tpb > desired \<and> tpb \<ge> 64"
  then have "unat tpb > 0" by (simp add: word_le_nat_alt)
  moreover have "unat (drop_bit 1 tpb) = unat tpb div 2"
    by (simp only: unat_drop_bit_eq drop_bit_eq_div [where 'a = nat] power_one_right)
  ultimately show "((desired, drop_bit 1 tpb), desired, tpb) \<in> measure (\<lambda>(desired, tpb). unat tpb)"
    by simp
qed simp

declare tpb_loop.simps [simp del]

definition computeLaunchPlan :: "u32 \<Rightarrow> u64 \<Rightarrow> MultiJobLaunchPlan" where
  "computeLaunchPlan n desired_threads_per_job =
     (let plan = \<lparr>blocks_per_job = 0, threads_per_block = 0, num_jobs = n\<rparr>
      in if n = 0 \<or> desired_threads_per_job = 0 then plan
         else let tpb = tpb_loop desired_threads_per_job 256;
                  tpb = clampThreadsPerBlock tpb;
                  plan = plan\<lparr>threads_per_block := tpb\<rparr>;
                  blocks = (desired_threads_per_job + ucast tpb - 1) div ucast tpb;
                  blocks = (if blocks = 0 then 1 else blocks);
                  blocks = (if blocks > 0xFFFFFFFF then 0xFFFFFFFF else blocks)
              in plan\<lparr>blocks_per_job := ucast blocks\<rparr>)"

lemma word_less_numeral_nat:
  "(w :: 'a::len word) < numeral k \<longleftrightarrow> unat w < unat (numeral k :: 'a word)"
  by (simp only: word_less_nat_alt)

lemma tpb_value:
  assumes "desired \<noteq> 0"
  shows "clampThreadsPerBlock (tpb_loop desired 256) =
    (if unat desired < 128 then 64 else if unat desired < 256 then 128 else 256)"
proof -
  consider "unat desired < 64" | "64 \<le> unat desired \<and> unat desired < 128"
    | "128 \<le> unat desired \<and> unat desired < 256" | "256 \<le> unat desired" by linarith
  then show ?thesis
    by cases (simp_all add: tpb_loop.simps [of desired 256] tpb_loop.simps [of desired 128]
        tpb_loop.simps [of desired 64] tpb_loop.simps [of desired 32] clampThreadsPerBlock_def
        word_less_nat_alt)
qed

definition tpb_of :: "nat \<Rightarrow> nat" where
  "tpb_of d = (if d < 128 then 64 else if d < 256 then 128 else 256)"

lemma computeLaunchPlan_nat:
  assumes "n \<noteq> 0" and "desired \<noteq> 0"
  shows "unat (threads_per_block (computeLaunchPlan n desired)) = tpb_of (unat desired) \<and>
    num_jobs (computeLaunchPlan n desired) = n \<and>
    unat (blocks_per_job (computeLaunchPlan n desired)) =
      min (max 1 ((unat desired + tpb_of (unat desired) - 1) mod 2 ^ 64 div tpb_of (unat desired))) (2 ^ 32 - 1)"
proof -
  define t where "t = clampThreadsPerBlock (tpb_loop desired 256)"
  have t: "unat t = tpb_of (unat desired)"
    using tpb_value [OF assms(2)] by (simp add: t_def tpb_of_def)
  have tpos: "0 < tpb_of (unat desired)" "tpb_of (unat desired) \<le> 256" by (simp_all add: tpb_of_def)
  have tu: "unat (ucast t :: u64) = tpb_of (unat desired)"
    using t tpos by (simp add: unsigned_ucast_eq take_bit_nat_eq_self)
  define b :: u64 where "b = (desired + ucast t - 1) div ucast t"
  have pos: "0 < unat desired" using assms(2) by (simp add: unat_gt_0)
  have "unat (desired + ucast t - 1) = (unat desired + tpb_of (unat desired) - 1) mod 2 ^ 64"
  proof -
    have "(of_nat (unat desired + tpb_of (unat desired)) :: u64) = desired + ucast t"
      by (simp add: tu [symmetric])
    moreover have "(of_nat (unat desired + tpb_of (unat desired) - 1) :: u64) =
        of_nat (unat desired + tpb_of (unat desired)) - 1"
      using pos by (subst of_nat_diff) simp_all
    ultimately have "desired + ucast t - 1 = of_nat (unat desired + tpb_of (unat desired) - 1)" by simp
    then show ?thesis by (simp add: unat_of_nat)
  qed
  then have b: "unat b = (unat desired + tpb_of (unat desired) - 1) mod 2 ^ 64 div tpb_of (unat desired)"
    by (simp add: b_def unat_div_distrib tu)
  define c :: u64 where "c = (if (if b = 0 then 1 else b) > 0xFFFFFFFF then 0xFFFFFFFF else if b = 0 then 1 else b)"
  have c: "unat c = min (max 1 (unat b)) (2 ^ 32 - 1)"
    by (auto simp: c_def word_less_nat_alt unat_eq_zero max_def not_less_eq_eq le_Suc_eq)
  then have "unat (ucast c :: u32) = min (max 1 (unat b)) (2 ^ 32 - 1)"
    by (simp add: unsigned_ucast_eq take_bit_nat_eq_self)
  moreover have "computeLaunchPlan n desired = \<lparr>blocks_per_job = ucast c, threads_per_block = t, num_jobs = n\<rparr>"
    using assms by (simp add: computeLaunchPlan_def Let_def t_def [symmetric] b_def [symmetric] c_def)
  ultimately show ?thesis using t b by simp
qed

section \<open>Auto tuning\<close>

record AutoTuneInputs =
  observedMsPerBatch :: u32
  maxMsPerBatch :: u32
  currentMicroBatch :: u32

record AutoTuneDecision =
  nextMicroBatch :: u32
  at_increased :: bool
  at_decreased :: bool

definition autoTuneMicroBatch :: "AutoTuneInputs \<Rightarrow> AutoTuneDecision" where
  "autoTuneMicroBatch inp =
     (let d = \<lparr>nextMicroBatch = currentMicroBatch inp, at_increased = False, at_decreased = False\<rparr>
      in if observedMsPerBatch inp = 0 then d
         else if observedMsPerBatch inp * 5 < maxMsPerBatch inp * 4
         then let next = (ucast (currentMicroBatch inp) :: u64) * 2;
                  next = (if next > 1000000 then 1000000 else next);
                  d = d\<lparr>nextMicroBatch := ucast next\<rparr>
              in d\<lparr>at_increased := nextMicroBatch d \<noteq> currentMicroBatch inp\<rparr>
         else if observedMsPerBatch inp > maxMsPerBatch inp
         then let next = (if currentMicroBatch inp > 1 then currentMicroBatch inp div 2 else 1);
                  d = d\<lparr>nextMicroBatch := next\<rparr>
              in d\<lparr>at_decreased := nextMicroBatch d \<noteq> currentMicroBatch inp\<rparr>
         else d)"

lemma autoTune_increase:
  assumes "observedMsPerBatch inp \<noteq> 0" and "observedMsPerBatch inp * 5 < maxMsPerBatch inp * 4"
  shows "unat (nextMicroBatch (autoTuneMicroBatch inp)) = min (2 * unat (currentMicroBatch inp)) 1000000 \<and>
    \<not> at_decreased (autoTuneMicroBatch inp) \<and>
    at_increased (autoTuneMicroBatch inp) =
      (nextMicroBatch (autoTuneMicroBatch inp) \<noteq> currentMicroBatch inp)"
proof -
  have b: "unat (currentMicroBatch inp) < 2 ^ 32" using unsigned_less [of "currentMicroBatch inp"] by simp
  have u: "unat ((ucast (currentMicroBatch inp) :: u64) * 2) = 2 * unat (currentMicroBatch inp)"
    using b by (simp add: unat_word_ariths unsigned_ucast_eq take_bit_nat_eq_self)
  define nx :: u64 where "nx = (let next = (ucast (currentMicroBatch inp) :: u64) * 2
     in if next > 1000000 then 1000000 else next)"
  have nx: "unat nx = min (2 * unat (currentMicroBatch inp)) 1000000"
    using u by (auto simp: nx_def Let_def word_less_nat_alt)
  then have "unat (ucast nx :: u32) = min (2 * unat (currentMicroBatch inp)) 1000000"
    by (simp add: unsigned_ucast_eq take_bit_nat_eq_self)
  moreover have "autoTuneMicroBatch inp = \<lparr>nextMicroBatch = ucast nx,
      at_increased = ucast nx \<noteq> currentMicroBatch inp, at_decreased = False\<rparr>"
    using assms by (simp add: autoTuneMicroBatch_def nx_def Let_def)
  ultimately show ?thesis by simp
qed

section \<open>Properties\<close>

text \<open>C40: a launch plan covers the wanted threads. With jobs and threads wanted, a block has 64, 128 or
  256 threads; for less than \<open>2 ^ 32 - 1\<close> blocks' worth of threads, the blocks of a job are the
  least number whose threads are enough. Near \<open>2 ^ 64\<close> the rounding sum wraps around: for the largest
  request the plan has a single block.\<close>

theorem launch_plan_covers:
  assumes "n \<noteq> 0" and "desired \<noteq> 0" and "unat desired \<le> 2 ^ 32 * 64 - 64"
  shows "\<exists>b t. unat (blocks_per_job (computeLaunchPlan n desired)) = b \<and>
    unat (threads_per_block (computeLaunchPlan n desired)) = t \<and> t \<in> {64, 128, 256} \<and>
    (b - 1) * t < unat desired \<and> unat desired \<le> b * t \<and>
    unat (blocks_per_job (computeLaunchPlan n 0xFFFFFFFFFFFFFFFF)) = 1"
proof -
  define d t where "d = unat desired" and "t = tpb_of (unat desired)"
  have t: "t \<in> {64, 128, 256}" "0 < t" by (auto simp: t_def tpb_of_def)
  have d: "0 < d" "d \<le> 2 ^ 32 * 64 - 64" using assms(2,3) by (simp_all add: d_def unat_gt_0)
  define b where "b = (d + t - 1) div t"
  have b1: "(b - 1) * t < d" "d \<le> b * t"
  proof -
    have "b * t \<le> d + t - 1" by (simp add: b_def)
    then show "(b - 1) * t < d" using d(1) t(2) by (simp add: diff_mult_distrib)
    have "(d + t - 1) mod t < t" using t(2) by simp
    moreover have "b * t + (d + t - 1) mod t = d + t - 1" by (simp add: b_def)
    ultimately show "d \<le> b * t" using d(1) by linarith
  qed
  have "b * t < d + t" using b1(1) t(2) d(1) by (cases b) simp_all
  then have "b * t < (2 ^ 32 - 1) * 64 + t" using d(2) by simp
  then have "b * t < (2 ^ 32 - 1) * t + t"
    using t by auto
  then have "b < 2 ^ 32" using t(2) by auto
  then have b2: "1 \<le> b" "b \<le> 2 ^ 32 - 1" using b1(2) d(1) by (cases b; simp)+
  have "(d + t - 1) mod 2 ^ 64 = d + t - 1" using d(2) t by auto
  then have "unat (blocks_per_job (computeLaunchPlan n desired)) = b"
    using computeLaunchPlan_nat [OF assms(1,2)] b2 by (simp add: b_def d_def t_def)
  moreover have "unat (threads_per_block (computeLaunchPlan n desired)) = t"
    using computeLaunchPlan_nat [OF assms(1,2)] by (simp add: t_def)
  moreover have "unat (blocks_per_job (computeLaunchPlan n 0xFFFFFFFFFFFFFFFF)) = 1"
    using computeLaunchPlan_nat [of n "0xFFFFFFFFFFFFFFFF"] assms(1) by (simp add: tpb_of_def)
  ultimately show ?thesis using b1 t(1) unfolding d_def by blast
qed

theorem launch_plan_covers_witness:
  "\<exists>b t. unat (blocks_per_job (computeLaunchPlan 3 1000)) = b \<and>
    unat (threads_per_block (computeLaunchPlan 3 1000)) = t \<and> t \<in> {64, 128, 256} \<and>
    (b - 1) * t < 1000 \<and> 1000 \<le> b * t"
  using launch_plan_covers [of 3 1000] by simp

text \<open>The controller moves one step in the right direction and stays in its range. Comparing
  \<open>5 * observed\<close> with \<open>4 * budget\<close>, a batch under four fifths of its budget doubles the micro batch,
  up to a million; a batch over its budget halves it, down to one; anything else leaves it alone.
  The products wrap around at 32 bits, so a time of \<open>858993460\<close> ms also doubles it.\<close>

theorem auto_tune_decision:
  assumes "5 * unat (observedMsPerBatch inp) < 2 ^ 32" and "4 * unat (maxMsPerBatch inp) < 2 ^ 32"
    and "observedMsPerBatch inp \<noteq> 0" and "currentMicroBatch inp \<noteq> 0"
    and "unat (currentMicroBatch inp) \<le> 1000000"
  shows "unat (nextMicroBatch (autoTuneMicroBatch inp)) =
      (if 5 * unat (observedMsPerBatch inp) < 4 * unat (maxMsPerBatch inp)
       then min (2 * unat (currentMicroBatch inp)) 1000000
       else if unat (maxMsPerBatch inp) < unat (observedMsPerBatch inp)
       then max 1 (unat (currentMicroBatch inp) div 2)
       else unat (currentMicroBatch inp)) \<and>
    1 \<le> unat (nextMicroBatch (autoTuneMicroBatch inp)) \<and>
    unat (nextMicroBatch (autoTuneMicroBatch inp)) \<le> 1000000 \<and>
    \<not> (at_increased (autoTuneMicroBatch inp) \<and> at_decreased (autoTuneMicroBatch inp)) \<and>
    nextMicroBatch (autoTuneMicroBatch
      \<lparr>observedMsPerBatch = 858993460, maxMsPerBatch = 16, currentMicroBatch = 1\<rparr>) = 2"
proof -
  let ?o = "observedMsPerBatch inp" and ?m = "maxMsPerBatch inp" and ?c = "currentMicroBatch inp"
  have pos: "0 < unat ?c" using assms(4) by (simp add: unat_gt_0)
  have cmp: "?o * 5 < ?m * 4 \<longleftrightarrow> 5 * unat ?o < 4 * unat ?m"
    using assms(1,2) by (simp add: word_less_nat_alt unat_word_ariths mult.commute)
  have wrap: "nextMicroBatch (autoTuneMicroBatch
      \<lparr>observedMsPerBatch = 858993460, maxMsPerBatch = 16, currentMicroBatch = 1\<rparr>) = 2"
    by code_simp
  consider (up) "5 * unat ?o < 4 * unat ?m"
    | (down) "\<not> 5 * unat ?o < 4 * unat ?m" "unat ?m < unat ?o"
    | (keep) "\<not> 5 * unat ?o < 4 * unat ?m" "\<not> unat ?m < unat ?o" by blast
  then show ?thesis
  proof cases
    case up
    then show ?thesis
      using autoTune_increase [of inp] assms pos wrap by (simp add: cmp)
  next
    case down
    then have "autoTuneMicroBatch inp = (let nx = (if ?c > 1 then ?c div 2 else 1)
        in \<lparr>nextMicroBatch = nx, at_increased = False, at_decreased = nx \<noteq> ?c\<rparr>)"
      using assms(3) by (simp add: autoTuneMicroBatch_def Let_def cmp) (simp add: word_less_nat_alt)
    moreover have "unat (if ?c > 1 then ?c div 2 else 1) = max 1 (unat ?c div 2)"
      using pos by (auto simp: word_less_nat_alt unat_div_distrib)
    ultimately show ?thesis using down assms(5) wrap by (simp add: Let_def)
  next
    case keep
    then have "autoTuneMicroBatch inp = \<lparr>nextMicroBatch = ?c, at_increased = False, at_decreased = False\<rparr>"
      using assms(3) by (simp add: autoTuneMicroBatch_def Let_def cmp) (simp add: word_less_nat_alt)
    then show ?thesis using keep pos assms(5) wrap by simp
  qed
qed

theorem auto_tune_decision_witness:
  "unat (nextMicroBatch (autoTuneMicroBatch
      \<lparr>observedMsPerBatch = 4, maxMsPerBatch = 16, currentMicroBatch = 600000\<rparr>)) = 1000000"
  using auto_tune_decision [of "\<lparr>observedMsPerBatch = 4, maxMsPerBatch = 16, currentMicroBatch = 600000\<rparr>"]
  by simp

end
