(* ===== verification/Miner_Tuning.thy ===== *)
theory Miner_Tuning
  imports Miner_Setup Device_Engine Launch_Tuning
begin

text \<open>
  \<^verbatim>\<open>src/tools/stratum_registry_runner.cpp\<close>, the controllers of the loop of \<^verbatim>\<open>main\<close>: the penalties of the
  sources (\<open>backpressure\<close>), the choice of the launch, the adaptation of the number of threads and of
  nonces per thread, the base nonce, and the rotation of the ledger and of the metrics file. \<^verbatim>\<open>int\<close>
  values are unbounded here: counters of replies, milliseconds and thread counts; the number of nonces
  per thread keeps its 32 bits, because it comes back from an unsigned computation.
\<close>

section \<open>Penalties\<close>

record Pressure =
  bp_last_acc :: "u32 \<rightharpoonup> int"
  bp_last_rej :: "u32 \<rightharpoonup> int"
  bp_penalty :: "u32 \<rightharpoonup> int"
  bp_sched :: SchedulerState
  bp_last_ms :: int

definition lookup0 :: "(u32 \<rightharpoonup> int) \<Rightarrow> u32 \<Rightarrow> int" where
  "lookup0 m k = (case m k of None \<Rightarrow> 0 | Some v \<Rightarrow> v)"

definition runner_pressure :: "int \<Rightarrow> int \<Rightarrow> int \<Rightarrow> StratumRunner \<Rightarrow> int" where
  "runner_pressure latency_penalty_ms last_acc last_rej r =
     (let dacc = rn_accepted r - last_acc; drej = rn_rejected r - last_rej; lat = rn_avg_ms r;
          cf = rn_connect_failures r; qd = rn_quick_disconnects r;
          p = 0;
          p = (if drej > dacc then p + 1 else p);
          p = (if latency_penalty_ms > 0 \<and> lat > latency_penalty_ms then p + 1 else p);
          p = (if cf > 0 then p + 1 else p); p = (if cf > 3 then p + 1 else p); p = (if cf > 7 then p + 1 else p);
          p = (if qd > 0 then p + 1 else p); p = (if qd > 3 then p + 1 else p)
      in p)"

definition next_penalty :: "int \<Rightarrow> int \<Rightarrow> int" where
  "next_penalty p prev = (if p = 0 \<and> prev > 0 then prev - 1 else if p > 0 then min (prev + p) 5 else prev)"

definition penalise_source :: "int \<Rightarrow> nat \<Rightarrow> SourceInfo \<Rightarrow> Pressure \<Rightarrow> Pressure" where
  "penalise_source latency_penalty_ms sid src st =
     (let k = of_nat sid;
          (p, st) = (case (si_kind src, si_stratum src) of
            (Stratum_source, Some r) \<Rightarrow>
              (runner_pressure latency_penalty_ms (lookup0 (bp_last_acc st) k) (lookup0 (bp_last_rej st) k) r,
               st\<lparr>bp_last_acc := (bp_last_acc st)(k \<mapsto> rn_accepted r), bp_last_rej := (bp_last_rej st)(k \<mapsto> rn_rejected r)\<rparr>)
          | _ \<Rightarrow> (0, st));
          prev = next_penalty p (lookup0 (bp_penalty st) k)
      in st\<lparr>bp_penalty := (bp_penalty st)(k \<mapsto> prev),
            bp_sched := (bp_sched st)\<lparr>source_penalty := (source_penalty (bp_sched st))(k \<mapsto> of_int prev)\<rparr>\<rparr>)"

fun penalise_sources :: "int \<Rightarrow> nat \<Rightarrow> SourceInfo list \<Rightarrow> Pressure \<Rightarrow> Pressure" where
  "penalise_sources lat sid [] st = st"
| "penalise_sources lat sid (src # srcs) st = penalise_sources lat (sid + 1) srcs (penalise_source lat sid src st)"

definition backpressure :: "int \<Rightarrow> int \<Rightarrow> SourceInfo list \<Rightarrow> Pressure \<Rightarrow> Pressure" where
  "backpressure latency_penalty_ms now_bp_ms sources st =
     (if now_bp_ms - bp_last_ms st > 2000
      then (penalise_sources latency_penalty_ms 0 sources st)\<lparr>bp_last_ms := now_bp_ms\<rparr> else st)"

section \<open>Launching and tuning\<close>

datatype Launch = Batch MultiJobLaunchPlan u32 u32 | Plan MultiJobLaunchPlan u32 | Stub u32 u32

definition choose_launch :: "u32 \<Rightarrow> u32 \<Rightarrow> u32 \<Rightarrow> u32 \<Rightarrow> Launch" where
  "choose_launch n desired_threads_per_job nonces_per_thread nonce_base =
     (let plan = computeLaunchPlan n (scast desired_threads_per_job)
      in if num_jobs plan > 0 \<and> blocks_per_job plan > 0 \<and> threads_per_block plan > 0
         then (if sint nonces_per_thread > 1 then Batch plan nonce_base nonces_per_thread else Plan plan nonce_base)
         else Stub n nonce_base)"

definition tune_nonces :: "u32 \<Rightarrow> u32 \<Rightarrow> u32 \<Rightarrow> u32" where
  "tune_nonces kernel_ms budget_ms nonces_per_thread =
     nextMicroBatch (autoTuneMicroBatch \<lparr>observedMsPerBatch = kernel_ms, maxMsPerBatch = budget_ms,
       currentMicroBatch = nonces_per_thread\<rparr>)"

text \<open>A product of two \<^verbatim>\<open>int\<close> at 32 bits. Where it overflows C++ promises nothing; this is what the hardware does.\<close>

definition int32 :: "int \<Rightarrow> int" where
  "int32 x = sint (of_int x :: u32)"

lemma int32_id: "- (2 ^ 31) \<le> x \<Longrightarrow> x < 2 ^ 31 \<Longrightarrow> int32 x = x"
  by (simp add: int32_def signed_of_int signed_take_bit_int_eq_self)

definition tune_threads :: "bool \<Rightarrow> int \<Rightarrow> int \<Rightarrow> int \<Rightarrow> int" where
  "tune_threads low_occupancy kernel_ms budget_ms desired =
     (if low_occupancy \<and> desired < 1024 then min 1024 (int32 (desired * 2))
      else if int32 (kernel_ms * 5) < int32 (budget_ms * 4) then min 1024 (int32 (desired * 2))
      else if kernel_ms > budget_ms \<and> desired > 64 then max 64 (desired div 2)
      else desired)"

definition next_nonce_base :: "u32 \<Rightarrow> u32" where
  "next_nonce_base nonce_base = nonce_base + 1"

section \<open>Rotating the ledger and the metrics file\<close>

text \<open>\<^verbatim>\<open>std::filesystem::rename\<close>, or \<^verbatim>\<open>copy_file\<close> and truncation when it fails.\<close>

definition rename_or_copy :: "string \<Rightarrow> string \<Rightarrow> file_system \<Rightarrow> file_system" where
  "rename_or_copy path newpath fs =
     (case fs_rename fs path newpath of
        Some fs1 \<Rightarrow> fs1
      | None \<Rightarrow>
          let fs1 = (case fs_copy_file fs path newpath of None \<Rightarrow> fs | Some fs1 \<Rightarrow> fs1)
          in case open_trunc fs1 path of None \<Rightarrow> fs1 | Some fs2 \<Rightarrow> fs2)"

definition rotate_ledger_if_needed :: "LedgerCfg \<Rightarrow> string \<Rightarrow> Clock \<Rightarrow> file_system \<times> u64 \<Rightarrow> file_system \<times> u64" where
  "rotate_ledger_if_needed cfg path ck st =
     (case st of (fs, last_ms) \<Rightarrow>
        let do_rotate = file_exceeds_limit fs path (lc_max_bytes cfg);
            do_rotate = (if time_exceeded (ck_ms ck) last_ms (lc_rotate_interval_sec cfg) then True else do_rotate)
        in if do_rotate then (rename_or_copy path (backup_path path (ck_epoch ck)) fs, ck_ms ck) else st)"

definition rotate_metrics_if_needed :: "MetricsCfg \<Rightarrow> Clock \<Rightarrow> file_system \<times> u64 \<Rightarrow> file_system \<times> u64" where
  "rotate_metrics_if_needed cfg ck st =
     (case st of (fs, last_ms) \<Rightarrow>
        let path = mc_file_path cfg; maxb = mc_file_max_bytes cfg; rotate_s = mc_file_rotate_interval_sec cfg;
            do_rotate = (maxb > 0 \<and> file_exceeds_limit fs path maxb);
            do_rotate = (do_rotate \<or> time_exceeded (ck_ms ck) last_ms rotate_s)
        in if do_rotate
           then let fs = rename_or_copy path (backup_path path (ck_epoch ck)) fs
                in (case open_append fs path of None \<Rightarrow> fs | Some fs \<Rightarrow> fs, ck_ms ck)
           else st)"

text \<open>The snapshots of the active set, in the order the unordered map gives them.\<close>

definition ledger_put_all :: "WorkSlotSnapshot list \<Rightarrow> Ledger \<Rightarrow> Ledger" where
  "ledger_put_all snaps l = fold (\<lambda>s l. ledger_put l (snap_item s)) snaps l"

section \<open>Lemmas on penalties\<close>

definition penalties_ok :: "Pressure \<Rightarrow> bool" where
  "penalties_ok st \<longleftrightarrow> (\<forall>k p. bp_penalty st k = Some p \<longrightarrow>
     0 \<le> p \<and> p \<le> 5 \<and> source_penalty (bp_sched st) k = Some (of_int p))"

lemma runner_pressure_bounds:
  "0 \<le> runner_pressure lat a b r \<and> runner_pressure lat a b r \<le> 7 \<and>
   (rn_quick_disconnects r > 0 \<longrightarrow> 1 \<le> runner_pressure lat a b r)"
  by (simp add: runner_pressure_def Let_def)

lemma next_penalty_bounds: "0 \<le> p \<Longrightarrow> 0 \<le> prev \<Longrightarrow> prev \<le> 5 \<Longrightarrow> 0 \<le> next_penalty p prev \<and> next_penalty p prev \<le> 5"
  by (simp add: next_penalty_def)

lemma lookup0_ok: "penalties_ok st \<Longrightarrow> 0 \<le> lookup0 (bp_penalty st) k \<and> lookup0 (bp_penalty st) k \<le> 5"
  by (auto simp: lookup0_def penalties_ok_def split: option.split)

lemma penalise_source_cases:
  "\<exists>p acc rej. 0 \<le> p \<and> (si_kind src = Stratum_source \<and> (\<exists>r. si_stratum src = Some r \<and> rn_quick_disconnects r > 0) \<longrightarrow> 1 \<le> p) \<and>
     penalise_source lat sid src st = st\<lparr>bp_last_acc := acc, bp_last_rej := rej,
       bp_penalty := (bp_penalty st)(of_nat sid \<mapsto> next_penalty p (lookup0 (bp_penalty st) (of_nat sid))),
       bp_sched := (bp_sched st)\<lparr>source_penalty := (source_penalty (bp_sched st))
         (of_nat sid \<mapsto> of_int (next_penalty p (lookup0 (bp_penalty st) (of_nat sid))))\<rparr>\<rparr>"
proof (cases "si_kind src = Stratum_source \<and> si_stratum src \<noteq> None")
  case True
  then obtain r where r: "si_kind src = Stratum_source" "si_stratum src = Some r" by auto
  let ?p = "runner_pressure lat (lookup0 (bp_last_acc st) (of_nat sid)) (lookup0 (bp_last_rej st) (of_nat sid)) r"
  show ?thesis
    using r runner_pressure_bounds [of lat "lookup0 (bp_last_acc st) (of_nat sid)" "lookup0 (bp_last_rej st) (of_nat sid)" r]
    by (intro exI [of _ ?p] exI [of _ "(bp_last_acc st)(of_nat sid \<mapsto> rn_accepted r)"]
        exI [of _ "(bp_last_rej st)(of_nat sid \<mapsto> rn_rejected r)"]) (simp add: penalise_source_def Let_def)
next
  case False
  then have "penalise_source lat sid src st = st\<lparr>bp_last_acc := bp_last_acc st, bp_last_rej := bp_last_rej st,
       bp_penalty := (bp_penalty st)(of_nat sid \<mapsto> next_penalty 0 (lookup0 (bp_penalty st) (of_nat sid))),
       bp_sched := (bp_sched st)\<lparr>source_penalty := (source_penalty (bp_sched st))
         (of_nat sid \<mapsto> of_int (next_penalty 0 (lookup0 (bp_penalty st) (of_nat sid))))\<rparr>\<rparr>"
    by (auto simp: penalise_source_def Let_def split: SourceKind.split option.split)
  then show ?thesis using False by (intro exI [of _ 0] exI [of _ "bp_last_acc st"] exI [of _ "bp_last_rej st"]) auto
qed

lemma penalise_source_ok: "penalties_ok st \<Longrightarrow> penalties_ok (penalise_source lat sid src st)"
proof -
  assume ok: "penalties_ok st"
  obtain p acc rej where p: "0 \<le> p" "penalise_source lat sid src st = st\<lparr>bp_last_acc := acc, bp_last_rej := rej,
       bp_penalty := (bp_penalty st)(of_nat sid \<mapsto> next_penalty p (lookup0 (bp_penalty st) (of_nat sid))),
       bp_sched := (bp_sched st)\<lparr>source_penalty := (source_penalty (bp_sched st))
         (of_nat sid \<mapsto> of_int (next_penalty p (lookup0 (bp_penalty st) (of_nat sid))))\<rparr>\<rparr>"
    using penalise_source_cases by blast
  then show ?thesis using ok next_penalty_bounds [OF p(1), of "lookup0 (bp_penalty st) (of_nat sid)"] lookup0_ok [OF ok]
    by (auto simp: penalties_ok_def)
qed

lemma penalise_sources_ok: "penalties_ok st \<Longrightarrow> penalties_ok (penalise_sources lat sid srcs st)"
  by (induction srcs arbitrary: sid st) (simp_all add: penalise_source_ok)

lemma penalise_source_lookup:
  "k \<noteq> of_nat sid \<Longrightarrow> lookup0 (bp_penalty (penalise_source lat sid src st)) k = lookup0 (bp_penalty st) k"
  "max_weight_cap (bp_sched (penalise_source lat sid src st)) = max_weight_cap (bp_sched st)"
  "si_kind src = Stratum_source \<Longrightarrow> si_stratum src = Some r \<Longrightarrow> rn_quick_disconnects r > 0 \<Longrightarrow>
   lookup0 (bp_penalty st) (of_nat sid) \<le> 5 \<Longrightarrow>
   lookup0 (bp_penalty (penalise_source lat sid src st)) (of_nat sid) \<ge> min 5 (lookup0 (bp_penalty st) (of_nat sid) + 1)"
  using penalise_source_cases [of src lat sid st] by (auto simp: lookup0_def next_penalty_def)

lemma penalise_sources_cap: "max_weight_cap (bp_sched (penalise_sources lat sid srcs st)) = max_weight_cap (bp_sched st)"
  by (induction srcs arbitrary: sid st) (simp_all add: penalise_source_lookup(2))

lemma of_nat_u32_inject: "i < 2 ^ 32 \<Longrightarrow> j < 2 ^ 32 \<Longrightarrow> (of_nat i :: u32) = of_nat j \<longleftrightarrow> i = j"
proof -
  assume "i < 2 ^ 32" "j < 2 ^ 32"
  then have "unat (of_nat i :: u32) = i" "unat (of_nat j :: u32) = j"
    using unat_of_nat [where 'a = 32, of i] unat_of_nat [where 'a = 32, of j] by simp_all
  then show ?thesis by metis
qed

lemma penalise_sources_other:
  "j < sid \<Longrightarrow> sid + length srcs \<le> 2 ^ 32 \<Longrightarrow>
   lookup0 (bp_penalty (penalise_sources lat sid srcs st)) (of_nat j) = lookup0 (bp_penalty st) (of_nat j)"
proof (induction srcs arbitrary: sid st)
  case (Cons src srcs)
  then have "(of_nat j :: u32) \<noteq> of_nat sid" using of_nat_u32_inject [of j sid] by simp
  then show ?case using Cons.IH [of "sid + 1" "penalise_source lat sid src st"] Cons.prems
    by (simp add: penalise_source_lookup(1))
qed simp

definition disconnected_source :: "SourceInfo \<Rightarrow> bool" where
  "disconnected_source src \<longleftrightarrow> si_kind src = Stratum_source \<and>
     (\<exists>r. si_stratum src = Some r \<and> rn_quick_disconnects r > 0)"

lemma penalise_sources_grow:
  assumes "penalties_ok st" and "k < length srcs" and "disconnected_source (srcs ! k)" and "sid + length srcs \<le> 2 ^ 32"
  shows "lookup0 (bp_penalty (penalise_sources lat sid srcs st)) (of_nat (sid + k)) \<ge>
    min 5 (lookup0 (bp_penalty st) (of_nat (sid + k)) + 1)"
  using assms
proof (induction srcs arbitrary: sid st k)
  case (Cons src srcs)
  let ?st = "penalise_source lat sid src st"
  show ?case
  proof (cases k)
    case 0
    then obtain r where "si_kind src = Stratum_source" "si_stratum src = Some r" "rn_quick_disconnects r > 0"
      using Cons.prems(3) by (auto simp: disconnected_source_def)
    then have "lookup0 (bp_penalty ?st) (of_nat sid) \<ge> min 5 (lookup0 (bp_penalty st) (of_nat sid) + 1)"
      using penalise_source_lookup(3) [of src r st sid lat] lookup0_ok [OF Cons.prems(1), of "of_nat sid"] by simp
    then show ?thesis using 0 penalise_sources_other [of sid "Suc sid" srcs lat ?st] Cons.prems(4) by simp
  next
    case (Suc i)
    have "(of_nat (sid + k) :: u32) \<noteq> of_nat sid"
      using of_nat_u32_inject [of "sid + k" sid] Suc Cons.prems(2,4) by simp
    from penalise_source_lookup(1) [OF this, of lat src st]
    have "lookup0 (bp_penalty ?st) (of_nat (sid + k)) = lookup0 (bp_penalty st) (of_nat (sid + k))" .
    moreover have "lookup0 (bp_penalty (penalise_sources lat (Suc sid) srcs ?st)) (of_nat (Suc sid + i)) \<ge>
        min 5 (lookup0 (bp_penalty ?st) (of_nat (Suc sid + i)) + 1)"
      using Cons.IH [OF penalise_source_ok [OF Cons.prems(1)], of i "Suc sid" lat sid src] Cons.prems Suc by simp
    ultimately show ?thesis using Suc by simp
  qed
qed simp

lemma rounds_grow:
  assumes "penalties_ok st"
    and "\<forall>srcs \<in> set rounds. k < length srcs \<and> disconnected_source (srcs ! k) \<and> length srcs \<le> 2 ^ 32"
  shows "penalties_ok (fold (\<lambda>srcs st. penalise_sources lat 0 srcs st) rounds st) \<and>
    lookup0 (bp_penalty (fold (\<lambda>srcs st. penalise_sources lat 0 srcs st) rounds st)) (of_nat k) \<ge>
      min 5 (lookup0 (bp_penalty st) (of_nat k) + int (length rounds)) \<and>
    max_weight_cap (bp_sched (fold (\<lambda>srcs st. penalise_sources lat 0 srcs st) rounds st)) = max_weight_cap (bp_sched st)"
  using assms
proof (induction rounds arbitrary: st)
  case (Cons srcs rounds)
  let ?st = "penalise_sources lat 0 srcs st"
  have "lookup0 (bp_penalty ?st) (of_nat k) \<ge> min 5 (lookup0 (bp_penalty st) (of_nat k) + 1)"
    using penalise_sources_grow [OF Cons.prems(1), of k srcs 0 lat] Cons.prems(2) by simp
  then show ?case
    using Cons.IH [OF penalise_sources_ok [OF Cons.prems(1)], of lat 0 srcs] Cons.prems(2)
    by (auto simp: penalise_sources_cap)
qed simp

lemma effective_weight_penalised:
  assumes "source_penalty st sid = Some pen" and "unat (max_weight_cap st) \<le> unat pen" and "pen \<noteq> 0"
  shows "effective_weight st sid = 1"
proof -
  have "0 < pen" using assms(3) by (simp add: word_gt_0)
  moreover have "w \<le> pen" if "w \<le> (if max_weight_cap st = 0 then 1 else max_weight_cap st)" for w
    using that assms(2,3) by (auto simp: word_le_nat_alt split: if_splits)
      (metis One_nat_def Suc_leI le_trans unat_1 unat_gt_0)
  moreover have "1 \<le> pen" using assms(3) by simp
  ultimately show ?thesis using assms(1)
    by (auto simp: effective_weight_def Let_def split: option.splits)
qed

section \<open>Lemmas on nonces\<close>

definition launch_nonces :: "u32 \<Rightarrow> u32 \<Rightarrow> nat \<Rightarrow> nat \<Rightarrow> nat \<Rightarrow> u32 set" where
  "launch_nonces nonce_base j blocks threads npt =
     {thread_nonce nonce_base j (of_nat threads) (of_nat b) (of_nat npt) (of_nat t) (of_nat k) | b t k.
        b < blocks \<and> t < threads \<and> k < npt}"

lemma mixed_radix:
  "(\<exists>b t k. b < (B::nat) \<and> t < T \<and> k < N \<and> x = (t + b * T) * N + k) \<longleftrightarrow> x < B * T * N"
proof
  assume "\<exists>b t k. b < B \<and> t < T \<and> k < N \<and> x = (t + b * T) * N + k"
  then obtain b t k where btk: "b < B" "t < T" "k < N" "x = (t + b * T) * N + k" by blast
  have "t + b * T < B * T" using btk(1,2) by (metis add.commute add_less_mono1 mult.commute mult_Suc_right less_le_trans Suc_leI mult_le_mono2)
  then have "(t + b * T + 1) * N \<le> B * T * N" by (intro mult_le_mono1) simp
  then show "x < B * T * N" using btk(3,4) by simp
next
  assume x: "x < B * T * N"
  then have pos: "0 < T" "0 < N" by (auto intro: gr0I)
  have "x div N < B * T" using x by (simp add: less_mult_imp_div_less)
  then have "x div N div T < B" by (simp add: less_mult_imp_div_less)
  moreover have "x div N mod T < T" "x mod N < N" using pos by simp_all
  moreover have "x = (x div N mod T + x div N div T * T) * N + x mod N" by simp
  ultimately show "\<exists>b t k. b < B \<and> t < T \<and> k < N \<and> x = (t + b * T) * N + k" by blast
qed

lemma launch_nonces_eq:
  "launch_nonces nonce_base j blocks threads npt =
   (\<lambda>x. nonce_base + j + of_nat x) ` {..<blocks * threads * npt}"
proof -
  have n: "thread_nonce nonce_base j (of_nat threads) (of_nat b) (of_nat npt) (of_nat t) (of_nat k) =
      nonce_base + j + of_nat ((t + b * threads) * npt + k)" for b t k
    by (simp add: thread_nonce_def Let_def algebra_simps)
  have "launch_nonces nonce_base j blocks threads npt = (\<lambda>x. nonce_base + j + of_nat x) `
      {x. \<exists>b t k. b < blocks \<and> t < threads \<and> k < npt \<and> x = (t + b * threads) * npt + k}"
    unfolding launch_nonces_def n by blast
  then show ?thesis by (simp only: mixed_radix lessThan_def)
qed

lemma shifted_ranges:
  assumes "0 < N"
  shows "(\<Union>i<Suc r. (\<lambda>x. c + of_nat i + of_nat x) ` {..<N}) = (\<lambda>x. c + of_nat x :: u32) ` {..<N + r}"
proof -
  have "(\<Union>i<Suc r. (\<lambda>x. i + x) ` {..<N}) = {..<N + r}"
  proof (intro equalityI subsetI)
    fix y assume "y \<in> {..<N + r}"
    then have "y = min y r + (y - min y r)" "min y r < Suc r" "y - min y r < N" using assms by auto
    then show "y \<in> (\<Union>i<Suc r. (\<lambda>x. i + x) ` {..<N})" by blast
  qed auto
  then have "(\<lambda>y. c + of_nat y) ` (\<Union>i<Suc r. (\<lambda>x. i + x) ` {..<N}) = (\<lambda>y. c + of_nat y :: u32) ` {..<N + r}" by simp
  then show ?thesis by (simp add: image_UN image_image add.assoc)
qed

section \<open>Properties\<close>

text \<open>Penalties stay between 0 and 5. Every round of the backpressure keeps them there, and the scheduler
  has the same penalty for every source as the loop.\<close>

theorem penalties_bounded:
  assumes "penalties_ok st"
  shows "penalties_ok (backpressure lat now sources st) \<and>
    0 \<le> lookup0 (bp_penalty (backpressure lat now sources st)) k \<and> lookup0 (bp_penalty (backpressure lat now sources st)) k \<le> 5"
proof -
  have "penalties_ok (backpressure lat now sources st)"
    using penalise_sources_ok [OF assms, of lat 0 sources] assms by (simp add: backpressure_def penalties_ok_def)
  then show ?thesis using lookup0_ok by blast
qed

definition pressure_new :: "SchedulerState \<Rightarrow> Pressure" where
  "pressure_new s = \<lparr>bp_last_acc = Map.empty, bp_last_rej = Map.empty, bp_penalty = Map.empty, bp_sched = s, bp_last_ms = 0\<rparr>"

theorem penalties_bounded_witness:
  "lookup0 (bp_penalty (backpressure 1500 5000 [default_source] (pressure_new scheduler_new))) 0 \<le> 5"
  using penalties_bounded [of "pressure_new scheduler_new" 1500 5000 "[default_source]" 0]
  by (simp add: penalties_ok_def pressure_new_def)

text \<open>One lost connection costs a source its weight for good. The number of lost connections of a runner
  never falls (nothing calls \<^verbatim>\<open>resetCounters\<close>), so once it is positive every round adds to the penalty and
  none takes away; after five rounds the penalty is 5 and stays there, and with the weight cap at most 5
  the source is scheduled with weight 1 whatever its configured weight.\<close>

theorem penalty_never_recovers:
  assumes "penalties_ok st" and "5 \<le> length rounds"
    and "\<forall>srcs \<in> set rounds. k < length srcs \<and> disconnected_source (srcs ! k) \<and> length srcs \<le> 2 ^ 32"
    and "unat (max_weight_cap (bp_sched st)) \<le> 5"
  shows "lookup0 (bp_penalty (fold (\<lambda>srcs st. penalise_sources lat 0 srcs st) rounds st)) (of_nat k) = 5 \<and>
    effective_weight (bp_sched (fold (\<lambda>srcs st. penalise_sources lat 0 srcs st) rounds st)) (of_nat k) = 1"
proof -
  let ?st = "fold (\<lambda>srcs st. penalise_sources lat 0 srcs st) rounds st"
  have g: "penalties_ok ?st" "lookup0 (bp_penalty ?st) (of_nat k) \<ge> min 5 (lookup0 (bp_penalty st) (of_nat k) + int (length rounds))"
    "max_weight_cap (bp_sched ?st) = max_weight_cap (bp_sched st)"
    using rounds_grow [OF assms(1,3)] by blast+
  then have five: "lookup0 (bp_penalty ?st) (of_nat k) = 5"
    using lookup0_ok [OF g(1), of "of_nat k"] lookup0_ok [OF assms(1), of "of_nat k"] assms(2) by simp
  then have "bp_penalty ?st (of_nat k) = Some 5" by (simp add: lookup0_def split: option.splits)
  then have "source_penalty (bp_sched ?st) (of_nat k) = Some 5" using g(1) by (force simp: penalties_ok_def)
  then show ?thesis using five effective_weight_penalised [of "bp_sched ?st" "of_nat k" 5] assms(4) g(3) by simp
qed

theorem penalty_never_recovers_witness:
  "effective_weight (bp_sched (fold (\<lambda>srcs st. penalise_sources 1500 0 srcs st)
     (replicate 5 [default_source\<lparr>si_stratum := Some (on_disconnected (runner_new (stratum_adapter_new ''a'') True))\<rparr>])
     (pressure_new (scheduler_new\<lparr>source_weight := [0 \<mapsto> 4]\<rparr>)))) 0 = 1"
  using penalty_never_recovers [of "pressure_new (scheduler_new\<lparr>source_weight := [0 \<mapsto> 4]\<rparr>)"
      "replicate 5 [default_source\<lparr>si_stratum := Some (on_disconnected (runner_new (stratum_adapter_new ''a'') True))\<rparr>]" 0 1500]
  by (simp add: penalties_ok_def pressure_new_def disconnected_source_def default_source_def on_disconnected_def runner_new_def
      scheduler_new_def)

lemma int32_double: "0 \<le> d \<Longrightarrow> d \<le> 1024 \<Longrightarrow> int32 (d * 2) = d * 2"
  by (simp add: int32_id)

text \<open>The number of threads stays between 1 and 1024. It stays in this range; while batches take less than
  80 percent of the budget it reaches 1024 within ten rounds; while they exceed the budget and occupancy
  is not low it comes down to at most 64 within four. Low occupancy wins over the budget: then it doubles
  however long the batches take. All this holds for times and budgets below \<open>2 ^ 28\<close> milliseconds.\<close>

theorem thread_tuning:
  assumes "1 \<le> d" and "d \<le> 1024" and "0 \<le> ms" and "ms < 2 ^ 28" and "0 \<le> budget" and "budget < 2 ^ 28"
  shows "1 \<le> tune_threads low ms budget d \<and> tune_threads low ms budget d \<le> 1024 \<and>
    (ms * 5 < budget * 4 \<longrightarrow> (tune_threads low ms budget ^^ 10) d = 1024) \<and>
    (budget < ms \<and> \<not> low \<longrightarrow> (tune_threads low ms budget ^^ 4) d \<le> 64) \<and>
    (low \<and> d < 1024 \<longrightarrow> tune_threads low ms budget d = min 1024 (2 * d))"
proof (intro conjI impI)
  have exact: "int32 (ms * 5) = ms * 5" "int32 (budget * 4) = budget * 4" using assms(3-6) by (simp_all add: int32_id)
  show "1 \<le> tune_threads low ms budget d" "tune_threads low ms budget d \<le> 1024"
    using assms by (auto simp: tune_threads_def int32_double max_def min_def)
  show "tune_threads low ms budget d = min 1024 (2 * d)" if "low \<and> d < 1024"
    using that assms(1) by (simp add: tune_threads_def int32_double mult.commute)
  assume up: "ms * 5 < budget * 4"
  have step: "tune_threads low ms budget x = min 1024 (x * 2)" if "1 \<le> x" "x \<le> 1024" for x
    using up that by (simp add: tune_threads_def exact int32_double)
  have "(tune_threads low ms budget ^^ n) d = min 1024 (2 ^ n * d)" for n
  proof (induction n)
    case (Suc n)
    have "1 \<le> 2 ^ n * d" using mult_mono [of 1 "2 ^ n" 1 d] assms(1) by simp
    then show ?case using Suc step [of "min 1024 (2 ^ n * d)"] by simp
  qed (use assms(2) in simp)
  from this [of 10] show "(tune_threads low ms budget ^^ 10) d = 1024" using assms(1) by simp
next
  have exact: "int32 (ms * 5) = ms * 5" "int32 (budget * 4) = budget * 4" using assms(3-6) by (simp_all add: int32_id)
  assume down: "budget < ms \<and> \<not> low"
  have half: "tune_threads low ms budget x \<le> m" if "x \<le> 2 * m" "64 \<le> m" for x m
    using down that assms(3,5) by (auto simp: tune_threads_def exact)
  let ?f = "tune_threads low ms budget"
  have "?f d \<le> 512" by (rule half) (use assms(2) in simp_all)
  then have "?f (?f d) \<le> 256" by - (rule half, simp_all)
  then have "?f (?f (?f d)) \<le> 128" by - (rule half, simp_all)
  then have "?f (?f (?f (?f d))) \<le> 64" by - (rule half, simp_all)
  moreover have "(4 :: nat) = Suc (Suc (Suc (Suc 0)))" by simp
  ultimately show "(?f ^^ 4) d \<le> 64" by (simp only: funpow.simps comp_def id_def)
qed

theorem thread_tuning_witness:
  "(tune_threads False 20 16 ^^ 4) 1024 \<le> 64" using thread_tuning [of 1024 20 16 False] by simp

text \<open>A configured budget of \<open>2 ^ 29\<close> milliseconds is negative when it is multiplied by 4: then no batch counts as
  short and the number of threads does not grow.\<close>

theorem budget_overflow:
  assumes "0 \<le> ms" and "ms < 2 ^ 28"
  shows "int32 (2 ^ 29 * 4) = - (2 ^ 31) \<and> tune_threads False ms (2 ^ 29) d = d"
proof -
  have "int32 (2 ^ 29 * 4) = - (2 ^ 31)" by (simp add: int32_def)
  moreover have "int32 (ms * 5) = ms * 5" using assms by (simp add: int32_id)
  ultimately show ?thesis using assms by (simp add: tune_threads_def)
qed

theorem budget_overflow_witness: "tune_threads False 1 (2 ^ 29) 256 = 256"
  using budget_overflow [of 1 256] by simp

text \<open>Successive batches test almost the same nonces. A batch of \<open>blocks * threads * npt\<close> candidates tests,
  for each job, as many consecutive nonces, but the next batch starts only one nonce further: after
  \<open>r + 1\<close> batches with a fixed plan, only \<open>r\<close> nonces more than after the first have been tested.\<close>

theorem batches_overlap:
  assumes "0 < blocks * threads * npt"
  shows "(\<Union>i<Suc r. launch_nonces ((next_nonce_base ^^ i) nonce_base) j blocks threads npt) =
      (\<lambda>x. nonce_base + j + of_nat x) ` {..<blocks * threads * npt + r} \<and>
    card (\<Union>i<Suc r. launch_nonces ((next_nonce_base ^^ i) nonce_base) j blocks threads npt) \<le> blocks * threads * npt + r"
proof -
  have base: "(next_nonce_base ^^ i) nonce_base = nonce_base + of_nat i" for i
    by (induction i) (simp_all add: next_nonce_base_def algebra_simps)
  have "(\<Union>i<Suc r. launch_nonces ((next_nonce_base ^^ i) nonce_base) j blocks threads npt) =
      (\<Union>i<Suc r. (\<lambda>x. (nonce_base + j) + of_nat i + of_nat x) ` {..<blocks * threads * npt})"
    by (simp add: launch_nonces_eq base algebra_simps)
  then have eq: "(\<Union>i<Suc r. launch_nonces ((next_nonce_base ^^ i) nonce_base) j blocks threads npt) =
      (\<lambda>x. nonce_base + j + of_nat x) ` {..<blocks * threads * npt + r}"
    by (simp only: shifted_ranges [OF assms])
  show ?thesis unfolding eq
    using card_image_le [of "{..<blocks * threads * npt + r}" "\<lambda>x. nonce_base + j + of_nat x"] by simp
qed

theorem batches_overlap_witness:
  "card (\<Union>i<Suc 9. launch_nonces ((next_nonce_base ^^ i) 0) 0 4 256 8) \<le> 4 * 256 * 8 + 9"
  by (rule conjunct2 [OF batches_overlap]) simp

end
