(* ===== verification/Tuning_Profile.thy ===== *)
theory Tuning_Profile
  imports Ledger_File Miner_Tuning
begin

text \<open>
  \<^verbatim>\<open>src/cuda/auto_tune.cpp\<close>, the tuning profile in its file, and what \<^verbatim>\<open>main\<close> does with it: the values
  the loop starts with and the profile it saves. The file is read by the stream operator of the
  library (\<open>parse\<close>, \<open>None\<close> when it throws); a member of another type makes the load fail after the
  members before it have been assigned.
\<close>

record TuningProfile =
  tp_threads_per_block :: u32
  tp_nonces_per_thread :: u32

definition default_profile :: TuningProfile where
  "default_profile = \<lparr>tp_threads_per_block = 256, tp_nonces_per_thread = 1\<rparr>"

definition pathFor :: "string \<Rightarrow> string" where
  "pathFor device_name = ''logs/'' @ device_name @ ''.tuning.json''"

definition profile_document :: "'j json_lib \<Rightarrow> 'j \<Rightarrow> TuningProfile \<Rightarrow> bool \<times> TuningProfile" where
  "profile_document J j out =
     (case value_or J j ''threads_per_block'' (j_int J) (tp_threads_per_block out) of
        Inl e \<Rightarrow> (False, out)
      | Inr v \<Rightarrow>
          let out = out\<lparr>tp_threads_per_block := v\<rparr>
          in case value_or J j ''nonces_per_thread'' (j_int J) (tp_nonces_per_thread out) of
               Inl e \<Rightarrow> (False, out)
             | Inr v \<Rightarrow> (True, out\<lparr>tp_nonces_per_thread := v\<rparr>))"

definition loadTuningProfile :: "(string \<Rightarrow> 'j option) \<Rightarrow> 'j json_lib \<Rightarrow> file_system \<Rightarrow> string \<Rightarrow> TuningProfile \<Rightarrow>
    bool \<times> TuningProfile" where
  "loadTuningProfile parse J fs device_name out =
     (case fs_files fs (pathFor device_name) of
        None \<Rightarrow> (False, out)
      | Some bs \<Rightarrow> (case parse (map (\<lambda>x. char_of (unat x)) bs) of
            None \<Rightarrow> (False, out)
          | Some j \<Rightarrow> profile_document J j out))"

definition profile_json :: "TuningProfile \<Rightarrow> json" where
  "profile_json prof = JObject [(''threads_per_block'', jint (tp_threads_per_block prof)),
     (''nonces_per_thread'', jint (tp_nonces_per_thread prof))]"

definition saveTuningProfile :: "(json \<Rightarrow> string) \<Rightarrow> file_system \<Rightarrow> string \<Rightarrow> TuningProfile \<Rightarrow> bool \<times> file_system" where
  "saveTuningProfile dump fs device_name prof =
     (case open_trunc fs (pathFor device_name) of
        None \<Rightarrow> (False, fs)
      | Some fs \<Rightarrow> (True, write_bytes (pathFor device_name) (string_bytes (dump (profile_json prof))) fs))"

section \<open>In the main program\<close>

text \<open>Threads per job and nonces per thread, both \<^verbatim>\<open>int\<close>, the latter kept as its 32 bits.\<close>

definition start_tuning :: "(string \<Rightarrow> 'j option) \<Rightarrow> 'j json_lib \<Rightarrow> file_system \<Rightarrow> CudaCfg \<Rightarrow> int \<times> u32" where
  "start_tuning parse J fs cfg =
     (case loadTuningProfile parse J fs ''cuda0'' default_profile of
        (True, prof) \<Rightarrow> (sint (tp_threads_per_block prof), tp_nonces_per_thread prof)
      | (False, _) \<Rightarrow> (max 1 (sint (cc_desired_threads_per_job cfg)),
           if sint (cc_nonces_per_thread cfg) \<ge> 1 then cc_nonces_per_thread cfg else 1))"

definition save_tuning :: "(json \<Rightarrow> string) \<Rightarrow> int \<Rightarrow> int \<times> u32 \<Rightarrow> int \<times> file_system \<Rightarrow> int \<times> file_system" where
  "save_tuning dump now_save knobs st =
     (case st of (last_save_ms, fs) \<Rightarrow>
        if now_save - last_save_ms > 10000
        then (now_save, snd (saveTuningProfile dump fs ''cuda0''
               \<lparr>tp_threads_per_block = of_int (fst knobs), tp_nonces_per_thread = snd knobs\<rparr>))
        else st)"

section \<open>Lemmas\<close>

lemma profile_document_json: "profile_document json_model (profile_json prof) out = (True, prof)"
  by (simp add: profile_document_def value_or_def profile_json_def jint_reads)

lemma load_saved:
  assumes "fs_can_write fs (pathFor dev)" and "parse (dump (profile_json prof)) = Some (profile_json prof)"
  shows "fst (saveTuningProfile dump fs dev prof) \<and>
    loadTuningProfile parse json_model (snd (saveTuningProfile dump fs dev prof)) dev out = (True, prof)"
  using assms by (simp add: saveTuningProfile_def loadTuningProfile_def open_trunc_def write_bytes_def profile_document_json)

lemma sint_of_small: "0 \<le> d \<Longrightarrow> d \<le> 1024 \<Longrightarrow> sint (of_int d :: u32) = d"
  by (simp add: signed_of_int signed_take_bit_int_eq_self)

lemma tune_threads_zero [simp]: "tune_threads low ms budget 0 = 0"
  by (simp add: tune_threads_def int32_id)

lemma tune_threads_range: "0 < d \<Longrightarrow> d \<le> 1024 \<Longrightarrow> 0 < tune_threads low ms budget d \<and> tune_threads low ms budget d \<le> 1024"
  by (auto simp: tune_threads_def int32_double)

lemma tuned_threads_range:
  "0 < d \<Longrightarrow> d \<le> 1024 \<Longrightarrow>
   0 < fold (\<lambda>(low, ms). tune_threads low ms budget) obs d \<and> fold (\<lambda>(low, ms). tune_threads low ms budget) obs d \<le> 1024"
  by (induction obs arbitrary: d) (auto simp: tune_threads_range)

lemma tuned_threads_zero: "fold (\<lambda>(low, ms). tune_threads low ms budget) obs 0 = 0"
  by (induction obs) auto

section \<open>Properties\<close>

text \<open>What was tuned survives a restart, and so does a zero. After any observations, starting from a
  number of threads in its range, the profile saved is in range and the next start takes exactly these
  two values from it, in place of the configured ones. The values of the file are not checked: from a
  profile with no threads the number of threads stays at zero through all tuning, no plan is ever
  made, and every launch is the stub with one block per job.\<close>

theorem tuning_restarts:
  assumes "0 < d" and "d \<le> 1024" and "fs_can_write fs (pathFor ''cuda0'')" and "now_save - last_save_ms > 10000"
    and "d' = fold (\<lambda>(low, ms). tune_threads low ms budget) obs d"
    and "prof = \<lparr>tp_threads_per_block = of_int d', tp_nonces_per_thread = npt\<rparr>"
    and "parse (dump (profile_json prof)) = Some (profile_json prof)"
    and "parse (dump (profile_json zero)) = Some (profile_json zero)" and "tp_threads_per_block zero = 0"
  shows "start_tuning parse json_model (snd (save_tuning dump now_save (d', npt) (last_save_ms, fs))) cfg = (d', npt) \<and>
    0 < d' \<and> d' \<le> 1024 \<and>
    (let (z, n) = start_tuning parse json_model (snd (saveTuningProfile dump fs ''cuda0'' zero)) cfg;
         z' = fold (\<lambda>(low, ms). tune_threads low ms budget) obs z
     in z' = 0 \<and> choose_launch jobs (of_int z') n base = Stub jobs base)"
proof -
  have d': "0 < d'" "d' \<le> 1024" using tuned_threads_range [OF assms(1,2)] assms(5) by simp_all
  have "start_tuning parse json_model (snd (save_tuning dump now_save (d', npt) (last_save_ms, fs))) cfg = (d', npt)"
    using load_saved [where dump = dump and parse = parse and prof = prof and dev = "''cuda0''", OF assms(3,7)] assms(4,6) d' by (simp add: start_tuning_def save_tuning_def sint_of_small)
  moreover have "start_tuning parse json_model (snd (saveTuningProfile dump fs ''cuda0'' zero)) cfg =
      (0, tp_nonces_per_thread zero)"
    using load_saved [where dump = dump and parse = parse and prof = zero and dev = "''cuda0''", OF assms(3,8)] assms(9) by (simp add: start_tuning_def)
  ultimately show ?thesis
    using d' by (simp add: tuned_threads_zero choose_launch_def computeLaunchPlan_def)
qed

lemma sample_profiles:
  "profile_json \<lparr>tp_threads_per_block = 512, tp_nonces_per_thread = 4\<rparr> =
     JObject [(''threads_per_block'', JInt 512), (''nonces_per_thread'', JInt 4)]"
  "profile_json \<lparr>tp_threads_per_block = 0, tp_nonces_per_thread = 1\<rparr> =
     JObject [(''threads_per_block'', JInt 0), (''nonces_per_thread'', JInt 1)]"
  by (simp_all add: profile_json_def jint_def)

theorem tuning_restarts_witness:
  "start_tuning (\<lambda>s. if s = ''a'' then Some (profile_json \<lparr>tp_threads_per_block = 512, tp_nonces_per_thread = 4\<rparr>)
       else Some (profile_json \<lparr>tp_threads_per_block = 0, tp_nonces_per_thread = 1\<rparr>)) json_model
     (snd (save_tuning (\<lambda>j. if j = profile_json \<lparr>tp_threads_per_block = 0, tp_nonces_per_thread = 1\<rparr> then ''b'' else ''a'')
       20000 (512, 4) (0, sample_fs))) (ac_cuda default_config) = (512, 4)"
  by (rule conjunct1, rule tuning_restarts [where d = 256 and obs = "[(False, 1)]" and budget = 16 and
        prof = "\<lparr>tp_threads_per_block = 512, tp_nonces_per_thread = 4\<rparr>" and zero = "\<lparr>tp_threads_per_block = 0, tp_nonces_per_thread = 1\<rparr>"])
    (simp_all add: tune_threads_def int32_id sample_profiles sample_fs_def)

end
