(* ===== verification/Device_Launch.thy ===== *)
theory Device_Launch
  imports Device_Engine Launch_Tuning "HOL-Library.Multiset"
begin

text \<open>
  The host side of a launch in \<^verbatim>\<open>src/cuda/engine.cu\<close>, as built for the device: the guards of the launch
  functions, the grid they start, and the digest of a job computed for the host. A grid runs its
  threads \<open>(j, t, b)\<close> (job, thread, block) in some order; this order is an argument, a list that
  enumerates the grid. What the runtime reports about memory, occupancy and kernel attributes is
  in \<open>Device_Queries\<close>.
\<close>

section \<open>Launches\<close>

text \<open>The grid of \<^verbatim>\<open>launchMultiJobStub\<close>: \<open>None\<close> when the plan is empty.\<close>

definition launchMultiJobStub :: "u32 \<Rightarrow> u64 \<Rightarrow> (u32 \<times> u32 \<times> u32) option" where
  "launchMultiJobStub n desired_threads_per_job =
     (let plan = computeLaunchPlan n desired_threads_per_job
      in if num_jobs plan = 0 \<or> blocks_per_job plan = 0 \<or> threads_per_block plan = 0 then None
         else Some (blocks_per_job plan, num_jobs plan, threads_per_block plan))"

type_synonym thread = "u32 \<times> u32 \<times> u32"

definition grid :: "u32 \<Rightarrow> u32 \<Rightarrow> u32 \<Rightarrow> thread set" where
  "grid blocks jobs threads = {(j, t, b). j < jobs \<and> t < threads \<and> b < blocks}"

definition run_stub :: "device_jobs \<Rightarrow> u32 \<Rightarrow> u32 \<Rightarrow> thread list \<Rightarrow> device_ring \<Rightarrow> (bool \<times> device_ring) result" where
  "run_stub e n nonce_base order d =
     (case fold_result (kernel_mine_stub e n nonce_base) order d of Inl err \<Rightarrow> Inl err | Inr d \<Rightarrow> Inr (True, d))"

text \<open>\<open>order\<close> enumerates \<open>grid 1 n 64\<close>.\<close>

definition launchMineStub :: "device_jobs \<Rightarrow> u32 \<Rightarrow> u32 \<Rightarrow> thread list \<Rightarrow> device_ring \<Rightarrow> (bool \<times> device_ring) result" where
  "launchMineStub e n nonce_base order d =
     (if g_num_jobs e = 0 \<or> n = 0 then Inr (False, d) else run_stub e n nonce_base order d)"

text \<open>\<open>order\<close> enumerates \<open>grid blocks n threads\<close>.\<close>

definition launchMineWithPlan :: "device_jobs \<Rightarrow> u32 \<Rightarrow> u32 \<Rightarrow> u32 \<Rightarrow> u32 \<Rightarrow> thread list \<Rightarrow> device_ring \<Rightarrow>
    (bool \<times> device_ring) result" where
  "launchMineWithPlan e n blocks threads nonce_base order d =
     (if g_num_jobs e = 0 \<or> n = 0 then Inr (False, d)
      else if blocks = 0 \<or> threads = 0 then Inr (False, d)
      else run_stub e n nonce_base order d)"

text \<open>\<open>junk\<close> is what the fresh output buffer of the device holds.\<close>

definition computeDeviceHashForJob :: "device_jobs \<Rightarrow> u8 list \<Rightarrow> u32 \<Rightarrow> u32 \<Rightarrow> u8 list \<Rightarrow> (bool \<times> u8 list) result" where
  "computeDeviceHashForJob e junk job_index nonce out32_host =
     (if g_jobs e = None then Inr (False, out32_host)
      else case kernel_hash_one e job_index nonce of
             Inl err \<Rightarrow> Inl err
           | Inr None \<Rightarrow> Inr (True, junk)
           | Inr (Some digest) \<Rightarrow> Inr (True, digest))"

section \<open>Lemmas\<close>

text \<open>The hit of a job at the base nonce of a launch, if it has one.\<close>

definition stub_hits :: "DeviceJob list \<Rightarrow> u32 \<Rightarrow> u32 \<Rightarrow> HitRecord list" where
  "stub_hits js nonce_base j =
     (let J = js ! unat j; nonce = nonce_base + j
      in job_hits J (\<lambda>n. stub_digest J (device_header J n)) [nonce])"

definition thread_hits :: "DeviceJob list \<Rightarrow> u32 \<Rightarrow> thread \<Rightarrow> HitRecord list" where
  "thread_hits js nonce_base x = (case x of (j, t, b) \<Rightarrow> if t = 0 \<and> b = 0 then stub_hits js nonce_base j else [])"

lemma uploaded:
  assumes "uploadDeviceJobs js n e = (True, e')" and "unat n \<le> length js"
  shows "j < n \<Longrightarrow> job_at e' j = Inr (js ! unat j)" and "g_num_jobs e' = n" and "n \<noteq> 0"
    and "g_jobs e' = Some (take (unat n) js)"
proof -
  have e': "n \<noteq> 0" "g_jobs e' = Some (take (unat n) js)" "g_num_jobs e' = n"
    "g_jobs_const e' = take (unat (if n > 64 then 64 else n)) js @ drop (unat (if n > 64 then 64 else n)) (g_jobs_const e)"
    "g_jobs_const_size e' = (if n > 64 then 64 else n)"
    using assms(1) by (auto simp: uploadDeviceJobs_def Let_def split: if_splits)
  then show "n \<noteq> 0" "g_jobs e' = Some (take (unat n) js)" "g_num_jobs e' = n" by simp_all
  assume j: "j < n"
  let ?c = "if n > 64 then 64 else n"
  have "unat ?c \<le> length js" using assms(2) by (auto simp: word_less_nat_alt)
  moreover have "j < ?c \<Longrightarrow> unat j < unat ?c" by (simp only: word_less_nat_alt)
  ultimately show "job_at e' j = Inr (js ! unat j)"
    using e' j assms(2) by (auto simp: job_at_def nth_append word_less_nat_alt split: if_splits)
qed

lemma stub_thread:
  assumes "uploadDeviceJobs js n e0 = (True, e)" and "unat n \<le> length js" and "j < n"
    and "g_hit_buf d = Buffer buf" and "g_hit_cap d \<noteq> 0"
  shows "kernel_mine_stub e n base (j, t, b) d = fold_result global_push (thread_hits js base (j, t, b)) d"
proof -
  have "\<not> n \<le> j" using assms(3) by simp
  then show ?thesis
    using uploaded(1,4) [OF assms(1,2)] assms(3-5)
    by (auto simp: kernel_mine_stub_def thread_hits_def stub_hits_def job_hits_def Let_def split: sum.splits)
qed

lemma stub_threads:
  assumes up: "uploadDeviceJobs js n e0 = (True, e)" "unat n \<le> length js"
  shows "\<forall>(j, t, b) \<in> set order. j < n \<Longrightarrow> drain_rep L k d \<Longrightarrow> hits = concat (map (thread_hits js base) order) \<Longrightarrow>
    length L + length hits < 2 ^ 32 \<Longrightarrow> length L + length hits - k \<le> unat (g_hit_cap d) \<Longrightarrow>
    \<exists>d'. fold_result (kernel_mine_stub e n base) order d = Inr d' \<and> drain_rep (L @ hits) k d' \<and>
      g_hit_cap d' = g_hit_cap d"
proof (induction order arbitrary: L d hits)
  case (Cons x order)
  obtain j t b where x: "x = (j, t, b)" by (cases x)
  define h where "h = thread_hits js base x"
  define hs where "hs = concat (map (thread_hits js base) order)"
  have hits: "hits = h @ hs" using Cons.prems(3) by (simp add: h_def hs_def)
  obtain buf where "g_hit_buf d = Buffer buf" "g_hit_cap d \<noteq> 0"
    using Cons.prems(2) by (auto simp: drain_rep_def log_rep_def)
  then have step: "kernel_mine_stub e n base x d = fold_result global_push h d"
    using stub_thread [OF up, of j d buf base t b] Cons.prems(1) x h_def by auto
  obtain d1 where d1: "fold_result global_push h d = Inr d1" "drain_rep (L @ h) k d1" "g_hit_cap d1 = g_hit_cap d"
    using drain_rep_pushes [OF Cons.prems(2), of h] Cons.prems(4) hits le_trans [OF _ Cons.prems(5), of "length L + length h - k"]
    by auto
  have "\<exists>d'. fold_result (kernel_mine_stub e n base) order d1 = Inr d' \<and> drain_rep ((L @ h) @ hs) k d' \<and>
      g_hit_cap d' = g_hit_cap d1"
    using Cons.prems(1,4,5) d1 hits hs_def by (intro Cons.IH) (auto simp: hs_def)
  then show ?case using step d1 hits by auto
qed simp

lemma mset_concat_map: "mset (concat (map f xs)) = sum_mset (image_mset (\<lambda>x. mset (f x)) (mset xs))"
  by (induction xs) auto

text \<open>An enumeration of a grid.\<close>

definition words_below :: "u32 \<Rightarrow> u32 list" where
  "words_below n = map of_nat [0..<unat n]"

definition grid_order :: "u32 \<Rightarrow> u32 \<Rightarrow> u32 \<Rightarrow> thread list" where
  "grid_order blocks jobs threads = List.product (words_below jobs) (List.product (words_below threads) (words_below blocks))"

lemma unat_of_below: "i < unat n \<Longrightarrow> unat (of_nat i :: u32) = i" for n :: u32
  using unsigned_less [where 'a = nat, of n] unat_of_nat [where 'a = 32, of i] by simp

lemma set_words_below: "set (words_below n) = {j. j < n}"
proof (intro set_eqI iffI)
  fix j :: u32 assume "j \<in> {j. j < n}"
  then have "unat j \<in> {0..<unat n}" "j = of_nat (unat j)" by (simp_all add: word_less_nat_alt)
  then show "j \<in> set (words_below n)" unfolding words_below_def by (metis image_eqI list.set_map set_upt)
qed (auto simp: words_below_def word_less_nat_alt unat_of_below)

lemma distinct_words_below: "distinct (words_below n)"
proof -
  have "inj_on (of_nat :: nat \<Rightarrow> u32) {0..<unat n}"
    by (intro inj_onI) (metis atLeastLessThan_iff unat_of_below)
  then show ?thesis by (simp add: words_below_def distinct_map)
qed

lemma grid_order: "distinct (grid_order blocks n threads)" "set (grid_order blocks n threads) = grid blocks n threads"
  by (auto simp: grid_order_def grid_def distinct_product distinct_words_below set_words_below)

text \<open>Any order of the grid pushes the hits of thread 0 of block 0 of every job.\<close>

lemma grid_hits:
  assumes "distinct order" and "set order = grid blocks n threads" and "0 < blocks" and "0 < threads"
  shows "mset (concat (map (thread_hits js base) order)) =
    mset (concat (map (\<lambda>j. stub_hits js base (of_nat j)) [0..<unat n]))"
proof -
  let ?zero = "filter (\<lambda>(j, t, b). t = 0 \<and> b = 0) order"
  have "concat (map (thread_hits js base) order) = concat (map (thread_hits js base) ?zero)"
    by (induction order) (auto simp: thread_hits_def split: if_splits)
  also have "\<dots> = concat (map (stub_hits js base) (map fst ?zero))"
    by (induction order) (auto simp: thread_hits_def)
  finally have eq: "concat (map (thread_hits js base) order) = concat (map (stub_hits js base) (map fst ?zero))" .
  have "distinct (map fst ?zero)"
    using assms(1) by (auto simp: distinct_map inj_on_def)
  moreover have "set (map fst ?zero) = set (words_below n)"
  proof -
    have "(j, 0, 0) \<in> set order \<longleftrightarrow> j < n" for j
      using assms(3,4) by (simp add: assms(2) grid_def)
    moreover have "x \<in> set (map fst ?zero) \<longleftrightarrow> (x, 0, 0) \<in> set order" for x
    proof
      assume "(x, 0, 0) \<in> set order"
      then have "(x, 0, 0) \<in> set ?zero" by simp
      then have "fst (x, 0 :: u32, 0 :: u32) \<in> fst ` set ?zero" by (rule imageI)
      then show "x \<in> set (map fst ?zero)" by simp
    qed auto
    ultimately show ?thesis unfolding set_words_below by blast
  qed
  ultimately have "mset (map fst ?zero) = mset (words_below n)"
    using distinct_words_below by (simp only: set_eq_iff_mset_eq_distinct)
  then have "mset (concat (map (stub_hits js base) (map fst ?zero))) =
      mset (concat (map (stub_hits js base) (words_below n)))"
    by (simp only: mset_concat_map)
  then show ?thesis unfolding eq by (simp add: words_below_def comp_def)
qed

section \<open>Properties\<close>

text \<open>C31: a launch without batches tests one nonce per job, whatever its plan: the base nonce plus the index of the
  job, where the documentation has the same nonce for all jobs. With uploaded jobs and room
  in the ring, every order in which the threads of the grid run ends, and the drains after it deliver,
  after what was waiting, exactly the jobs whose digest at the base nonce plus their index meets the
  share target, once each; all the other threads of the plan do nothing, and the launch without a
  plan reports the same hits. Without jobs, blocks or threads nothing is launched.\<close>

theorem launch_reports:
  fixes base :: u32
  assumes "uploadDeviceJobs js n e0 = (True, e)" and "unat n \<le> length js"
    and "0 < blocks" and "0 < threads"
    and "distinct order" and "set order = grid blocks n threads"
    and "distinct order1" and "set order1 = grid 1 n 64"
    and "drain_rep L k d" and "length L + unat n < 2 ^ 32" and "length L + unat n - k \<le> unat (g_hit_cap d)"
  defines "hits \<equiv> mset (concat (map (\<lambda>j. stub_hits js base (of_nat j)) [0..<unat n]))"
  shows "(\<exists>d' H. launchMineWithPlan e n blocks threads base order d = Inr (True, d') \<and> drain_rep (L @ H) k d' \<and> mset H = hits) \<and>
    (\<exists>d' H. launchMineStub e n base order1 d = Inr (True, d') \<and> drain_rep (L @ H) k d' \<and> mset H = hits) \<and>
    launchMineWithPlan e n 0 threads base order d = Inr (False, d) \<and>
    launchMineStub e 0 base order1 d = Inr (False, d)"
proof -
  have "length (stub_hits js base j) \<le> 1" for j
    by (simp add: stub_hits_def job_hits_def Let_def)
  then have "length (concat (map (\<lambda>j. stub_hits js base (of_nat j)) [0..<m])) + length (stub_hits js base (of_nat m)) \<le> m' + 1"
    if "length (concat (map (\<lambda>j. stub_hits js base (of_nat j)) [0..<m])) \<le> m'" for m m'
    using that by (rule add_mono [rotated])
  then have "length (concat (map (\<lambda>j. stub_hits js base (of_nat j)) [0..<m])) \<le> m" for m
    by (induction m) simp_all
  then have size: "size hits \<le> unat n" by (simp add: hits_def)
  have run: "\<exists>d' H. run_stub e n base ord d = Inr (True, d') \<and> drain_rep (L @ H) k d' \<and> mset H = hits"
    if ord: "distinct ord" "set ord = grid B n T" "0 < B" "0 < T" for ord B T
  proof -
    let ?H = "concat (map (thread_hits js base) ord)"
    have H: "mset ?H = hits" using grid_hits [OF ord] by (simp add: hits_def)
    then have "length ?H \<le> unat n" using size by (metis size_mset)
    then have "length L + length ?H < 2 ^ 32" "length L + length ?H - k \<le> unat (g_hit_cap d)"
      using assms(10,11) by linarith+
    moreover have "\<forall>(j, t, b) \<in> set ord. j < n" by (auto simp: ord(2) grid_def)
    ultimately obtain d' where "fold_result (kernel_mine_stub e n base) ord d = Inr d'" "drain_rep (L @ ?H) k d'"
      using stub_threads [OF assms(1,2) _ assms(9) refl] by blast
    then show ?thesis using H by (auto simp: run_stub_def)
  qed
  note up = uploaded(2,3) [OF assms(1,2)]
  have "blocks \<noteq> 0" "threads \<noteq> 0" using assms(3,4) by auto
  then show ?thesis
    using run [OF assms(5,6,3,4)] run [OF assms(7,8)] up
    by (simp add: launchMineWithPlan_def launchMineStub_def)
qed

theorem launch_reports_witness:
  "\<exists>d' H. launchMineWithPlan (snd (uploadDeviceJobs [sample_job] 1 sample_jobs)) 1 2 128 0 (grid_order 2 1 128)
     (initDeviceHitBuffer (\<lambda>i. no_hit) 4 device_ring_start) = Inr (True, d') \<and> drain_rep H 0 d' \<and>
     mset H = mset (stub_hits [sample_job] 0 0)"
proof -
  have cap: "g_hit_cap (initDeviceHitBuffer (\<lambda>i. no_hit) 4 device_ring_start) = 4"
    by (simp add: initDeviceHitBuffer_def kernel_init_hit_buf_def Let_def)
  have up: "uploadDeviceJobs [sample_job] 1 sample_jobs = (True, snd (uploadDeviceJobs [sample_job] 1 sample_jobs))"
    by (simp add: uploadDeviceJobs_def Let_def)
  show ?thesis
    using conjunct1 [OF launch_reports [OF up _ _ _ grid_order grid_order drain_rep_start, of 2 128 0]] cap
    by simp
qed

end
