(* ===== verification/Miner_Loop.thy ===== *)
theory Miner_Loop
  imports Miner_Commands Tuning_Profile Device_Launch
begin

text \<open>
  \<^verbatim>\<open>src/tools/stratum_registry_runner.cpp\<close>, the loop of \<^verbatim>\<open>main\<close> as a whole: one iteration
  (\<open>miner_iteration\<close>) composes polling, the work on a new generation, the launch, the tuning, the hits,
  the ledger, the operator's command and the metrics in the order of the code, on one state;
  \<open>Miner_Threads\<close> lets the threads of the sources act between them. What an iteration asks the
  operating system and the device (clocks, the time a kernel took, occupancy, the orders in which
  threads run and in which unordered maps are walked) is its \<open>observation\<close>. The hash rate is
  computed with \<^verbatim>\<open>double\<close>; the value of its gauge is part of the observation. What is printed is no state.
\<close>

section \<open>The state and what an iteration observes\<close>

record Loop =
  lp_hits :: HitState
  lp_reg :: WorkSourceRegistry
  lp_gbt :: "GbtRunner option"
  lp_pressure :: Pressure
  lp_operator :: Operator
  lp_input :: "string list"
  lp_jobs :: device_jobs
  lp_ring :: device_ring
  lp_knobs :: "int \<times> u32"
  lp_nonce_base :: u32
  lp_last_save :: int
  lp_ledger :: Ledger
  lp_last_snapshot :: int
  lp_ledger_rotate :: u64
  lp_last_metrics :: int
  lp_metrics_file :: bool
  lp_metrics_rotate :: u64

record 'j loop_env =
  le_app :: AppConfig
  le_user :: string
  le_stratum :: "'j stratum_env"
  le_call :: "string \<Rightarrow> json \<Rightarrow> 'j option"
  le_rpc :: "string \<Rightarrow> bool"
  le_dump :: "json \<Rightarrow> string"
  le_use_gbt :: bool
  le_router :: bool
  le_submitter :: "GbtSubmitter option"

record occupancy =
  oy_low :: bool
  oy_pct :: u64
  oy_sms :: u32
  oy_active_blocks :: u64
  oy_max_threads :: u64

text \<open>A launch runs threads of the non-batch kernel in \<open>ls_order\<close>, blocks of a batch kernel (job, block,
  multiprocessor, schedule of its threads) in \<open>ls_blocks\<close>.\<close>

record schedule =
  ls_order :: "thread list"
  ls_blocks :: "(u32 \<times> u32 \<times> nat \<times> (u32 \<times> u32 \<times> bool) list) list"
  ls_garbage :: "nat \<Rightarrow> HitRecord"

record observation =
  ob_bp_ms :: int
  ob_launch :: schedule
  ob_kernel_ms :: int
  ob_occupancy :: "occupancy option"
  ob_attrs :: "(u64 \<times> u64 \<times> u64) option"
  ob_khs :: u64
  ob_save_ms :: int
  ob_hits_clock :: Clock
  ob_ledger_ms :: int
  ob_snap_order :: "u64 list"
  ob_ledger_order :: "u64 list"
  ob_ledger_clock :: Clock
  ob_command_clock :: Clock
  ob_metrics_ms :: int
  ob_metrics_clock :: Clock

definition on_miner :: "(Miner \<Rightarrow> Miner) \<Rightarrow> Loop \<Rightarrow> Loop" where
  "on_miner f st = st\<lparr>lp_hits := (lp_hits st)\<lparr>ht_miner := f (ht_miner (lp_hits st))\<rparr>\<rparr>"

definition on_metrics :: "(MetricsRegistry \<Rightarrow> MetricsRegistry) \<Rightarrow> Loop \<Rightarrow> Loop" where
  "on_metrics f st = st\<lparr>lp_hits := (lp_hits st)\<lparr>ht_metrics := f (ht_metrics (lp_hits st))\<rparr>\<rparr>"

abbreviation lp_miner :: "Loop \<Rightarrow> Miner" where
  "lp_miner st \<equiv> ht_miner (lp_hits st)"

definition sent_message :: "json option \<Rightarrow> Miner \<Rightarrow> Miner" where
  "sent_message msg m = (case msg of None \<Rightarrow> m | Some j \<Rightarrow> m\<lparr>mn_sent := mn_sent m @ [j]\<rparr>)"

text \<open>\<^verbatim>\<open>strat_runners.front()\<close>\<close>

definition first_runner :: "SourceInfo list \<Rightarrow> StratumRunner option" where
  "first_runner srcs = (case filter (\<lambda>s. si_stratum s \<noteq> None) srcs of [] \<Rightarrow> None | s # _ \<Rightarrow> si_stratum s)"

section \<open>Polling and new generations\<close>

definition poll_phase :: "Loop \<Rightarrow> Loop result" where
  "poll_phase st =
     (case poll_sources 0 (mn_sources (lp_miner st)) (map_option gr_adapter (lp_gbt st)) (lp_reg st, mn_w2s (lp_miner st)) of
        Inl e \<Rightarrow> Inl e
      | Inr (srcs, gbt, reg, w2s) \<Rightarrow>
          let st = on_miner (\<lambda>m. m\<lparr>mn_sources := srcs, mn_w2s := w2s\<rparr>) st
          in Inr (st\<lparr>lp_reg := reg, lp_gbt := (case gbt of None \<Rightarrow> lp_gbt st
                | Some a \<Rightarrow> map_option (\<lambda>g. g\<lparr>gr_adapter := a\<rparr>) (lp_gbt st))\<rparr>))"

definition generation_phase :: "'j loop_env \<Rightarrow> Loop \<Rightarrow> Loop" where
  "generation_phase E st =
     (case on_generation (le_user E) (first_runner (mn_sources (lp_miner st))) (lp_reg st) (lp_operator st) of
        (op, msg) \<Rightarrow> on_miner (sent_message msg) (st\<lparr>lp_operator := op\<rparr>))"

section \<open>The launch\<close>

definition run_launch :: "schedule \<Rightarrow> device_jobs \<Rightarrow> Launch \<Rightarrow> device_ring \<Rightarrow> device_ring result" where
  "run_launch s e l d =
     (case l of
        Stub n base \<Rightarrow> map_sum id snd (launchMineStub e n base (ls_order s) d)
      | Plan p base \<Rightarrow>
          map_sum id snd (launchMineWithPlan e (num_jobs p) (blocks_per_job p) (threads_per_block p) base (ls_order s) d)
      | Batch p base npt \<Rightarrow>
          (case launchMineWithPlanBatch e (num_jobs p) (blocks_per_job p) (threads_per_block p) npt of
             None \<Rightarrow> Inr d
           | Some (u, npt) \<Rightarrow>
               fold_result (\<lambda>(j, b, smid, sched).
                 if u = 1
                 then kernel_mine_batch e (num_jobs p) base npt j (threads_per_block p) b (ls_garbage s) smid
                        (map (\<lambda>(t, k, tail). (t, k)) sched)
                 else kernel_mine_batch_unroll e (num_jobs p) base npt j (threads_per_block p) b (ls_garbage s) smid sched)
                 (ls_blocks s) d))"

text \<open>The guards of \<^verbatim>\<open>std::max\<close> around configured values.\<close>

definition budget_of :: "AppConfig \<Rightarrow> int" where
  "budget_of cfg = max 1 (sint (cc_budget_ms (ac_cuda cfg)))"

definition latency_of :: "AppConfig \<Rightarrow> int" where
  "latency_of cfg = max 0 (sint (sc_latency_penalty_ms (ac_scheduler cfg)))"

text \<open>Upload, penalties, selection, launch. The scheduler's selection is computed, only its tick stays.\<close>

definition launch_phase :: "'j loop_env \<Rightarrow> observation \<Rightarrow> u64 list \<Rightarrow> (u64 \<rightharpoonup> WorkSlotSnapshot) \<Rightarrow> Loop \<Rightarrow> Loop result" where
  "launch_phase E ob active_ids snaps st =
     (let jobs = build_jobs active_ids snaps;
          n = of_nat (length jobs);
          st = st\<lparr>lp_jobs := snd (uploadDeviceJobs jobs n (lp_jobs st))\<rparr>;
          pr = backpressure (latency_of (le_app E)) (ob_bp_ms ob) (mn_sources (lp_miner st)) (lp_pressure st);
          pr = pr\<lparr>bp_sched := snd (select (bp_sched pr) active_ids snaps 64)\<rparr>;
          launch = choose_launch n (of_int (fst (lp_knobs st))) (snd (lp_knobs st)) (lp_nonce_base st)
      in case run_launch (ob_launch ob) (lp_jobs st) launch (lp_ring st) of
           Inl e \<Rightarrow> Inl e
         | Inr d \<Rightarrow> Inr (on_metrics (setGauge ''cuda.jobs'' (of_nat (length jobs)) \<circ> setGauge ''cuda.kernel_ms'' (of_int (ob_kernel_ms ob)))
             (st\<lparr>lp_pressure := pr, lp_ring := d\<rparr>)))"

section \<open>Gauges and tuning after a launch\<close>

definition occupancy_gauges :: "observation \<Rightarrow> MetricsRegistry \<Rightarrow> MetricsRegistry" where
  "occupancy_gauges ob r =
     (case ob_occupancy ob of
        None \<Rightarrow> r
      | Some o1 \<Rightarrow>
          let r = setGauge ''cuda.occupancy_pct'' (oy_pct o1) r;
              r = setGauge ''cuda.sms'' (scast (oy_sms o1)) r;
              r = setGauge ''cuda.active_blocks_per_sm'' (oy_active_blocks o1) r;
              r = setGauge ''cuda.max_threads_per_sm'' (oy_max_threads o1) r
          in case ob_attrs ob of
               None \<Rightarrow> r
             | Some (regs, shared, tpb) \<Rightarrow>
                 setGauge ''cuda.kernel_max_tpb'' tpb (setGauge ''cuda.kernel_shared_bytes'' shared (setGauge ''cuda.kernel_regs'' regs r)))"

definition tune_knobs :: "AppConfig \<Rightarrow> observation \<Rightarrow> int \<times> u32 \<Rightarrow> int \<times> u32" where
  "tune_knobs cfg ob knobs =
     (let npt = tune_nonces (of_int (ob_kernel_ms ob)) (of_int (budget_of cfg)) (snd knobs);
          low = (case ob_occupancy ob of None \<Rightarrow> False | Some o1 \<Rightarrow> oy_low o1)
      in (tune_threads low (ob_kernel_ms ob) (budget_of cfg) (fst knobs), npt))"

text \<open>The diagnostics of the block flushes: the count, and the sum and the maximum over the multiprocessors.\<close>

definition flush_phase :: "observation \<Rightarrow> Loop \<Rightarrow> Loop" where
  "flush_phase ob st =
     (case readAndResetBlockFlushCount (lp_ring st) of
        (flushes, d) \<Rightarrow>
          let st = on_metrics (setGauge ''cuda.block_flushes'' (ucast flushes)) (st\<lparr>lp_ring := d\<rparr>)
          in case ob_occupancy ob of
               None \<Rightarrow> st
             | Some o1 \<Rightarrow>
                 if 0 < sint (oy_sms o1)
                 then (case readAndResetSmFlushCounts (oy_sms o1) d of
                         (smc, d) \<Rightarrow>
                           on_metrics (setGauge ''cuda.block_flushes_max_sm'' (ucast (fold max smc 0)) \<circ>
                               setGauge ''cuda.block_flushes_sum'' (sum_list (map ucast smc)))
                             (st\<lparr>lp_ring := d\<rparr>))
                 else st)"

definition on_files :: "(file_system \<Rightarrow> file_system) \<Rightarrow> Loop \<Rightarrow> Loop" where
  "on_files f = on_miner (\<lambda>m. m\<lparr>mn_files := f (mn_files m)\<rparr>)"

definition tuning_phase :: "'j loop_env \<Rightarrow> observation \<Rightarrow> Loop \<Rightarrow> Loop" where
  "tuning_phase E ob st =
     (let st = on_metrics (occupancy_gauges ob) st;
          st = st\<lparr>lp_knobs := tune_knobs (le_app E) ob (lp_knobs st)\<rparr>;
          st = on_metrics (setGauge ''cuda.hashrate_khs'' (ob_khs ob)) st;
          st = flush_phase ob st;
          st = st\<lparr>lp_nonce_base := next_nonce_base (lp_nonce_base st)\<rparr>;
          (last, fs) = save_tuning (le_dump E) (ob_save_ms ob) (lp_knobs st) (lp_last_save st, mn_files (lp_miner st))
      in on_files (\<lambda>_. fs) (st\<lparr>lp_last_save := last\<rparr>))"

section \<open>Hits and the ledger\<close>

definition hits_phase :: "'j loop_env \<Rightarrow> observation \<Rightarrow> (u64 \<rightharpoonup> WorkSlotSnapshot) \<Rightarrow> Loop \<Rightarrow> Loop result" where
  "hits_phase E ob snaps st =
     (if \<not> le_router E then Inr st
      else case drainDeviceHits 64 (lp_ring st) of
             Inl e \<Rightarrow> Inl e
           | Inr (ok, hits, d) \<Rightarrow>
               let st = st\<lparr>lp_ring := d\<rparr>
               in if ok then Inr (st\<lparr>lp_hits := process_hits (ac_outbox (le_app E)) (ob_hits_clock ob) (le_rpc E)
                                      (le_submitter E) snaps hits (lp_hits st)\<rparr>)
                  else Inr st)"

definition ledger_path :: "AppConfig \<Rightarrow> string" where
  "ledger_path cfg = (if lc_path (ac_ledger cfg) = [] then ''runner.jsonl'' else lc_path (ac_ledger cfg))"

text \<open>The orders in which the two unordered maps are walked are lists of keys; a key that is not in the
  map is passed over.\<close>

definition ledger_phase :: "'j loop_env \<Rightarrow> observation \<Rightarrow> (u64 \<rightharpoonup> WorkSlotSnapshot) \<Rightarrow> Loop \<Rightarrow> Loop" where
  "ledger_phase E ob snaps st =
     (if ob_ledger_ms ob - lp_last_snapshot st > 5000
      then let st = st\<lparr>lp_ledger := ledger_put_all (List.map_filter snaps (ob_snap_order ob)) (lp_ledger st)\<rparr>;
               path = ledger_path (le_app E);
               (fs, last) = rotate_ledger_if_needed (ac_ledger (le_app E)) path (ob_ledger_clock ob)
                  (mn_files (lp_miner st), lp_ledger_rotate st);
               fs = snd (ledger_save (le_dump E) (filter (\<lambda>w. lp_ledger st w \<noteq> None) (ob_ledger_order ob)) fs path (lp_ledger st))
           in on_files (\<lambda>_. fs) (st\<lparr>lp_ledger_rotate := last, lp_last_snapshot := ob_ledger_ms ob\<rparr>)
      else st)"

text \<open>What is done when there is work.\<close>

definition mining_phase :: "'j loop_env \<Rightarrow> observation \<Rightarrow> Loop \<Rightarrow> Loop result" where
  "mining_phase E ob st =
     (case active_set (lp_reg st) of
        (active_ids, snaps) \<Rightarrow>
          if active_ids = [] then Inr st
          else (case launch_phase E ob active_ids snaps st of
                  Inl e \<Rightarrow> Inl e
                | Inr st \<Rightarrow>
                    (case hits_phase E ob snaps (tuning_phase E ob st) of
                       Inl e \<Rightarrow> Inl e
                     | Inr st \<Rightarrow> Inr (ledger_phase E ob snaps st))))"

section \<open>The operator and the metrics\<close>

definition command_phase :: "'j loop_env \<Rightarrow> observation \<Rightarrow> Loop \<Rightarrow> Loop" where
  "command_phase E ob st =
     (case lp_input st of
        [] \<Rightarrow> st
      | line # rest \<Rightarrow>
          let st = st\<lparr>lp_input := rest\<rparr>
          in case handle_command (se_junk (le_stratum E)) (ac_outbox (le_app E)) (ob_command_clock ob) (le_use_gbt E) (le_router E)
                 (le_user E) (first_runner (mn_sources (lp_miner st))) (lp_reg st) (lp_operator st) line (lp_miner st) of
               (answer, m) \<Rightarrow>
                 let m = (case answer of Submit_answer msg en2 nt nn \<Rightarrow> sent_message msg m | _ \<Rightarrow> m)
                 in on_miner (\<lambda>_. m) st)"

definition runner_gauges :: "string \<Rightarrow> StratumRunner \<Rightarrow> MetricsRegistry \<Rightarrow> MetricsRegistry" where
  "runner_gauges pre r reg =
     (let reg = setGauge (pre @ ''connect_failures'') (of_int (rn_connect_failures r)) reg;
          reg = setGauge (pre @ ''quick_disconnects'') (of_int (rn_quick_disconnects r)) reg;
          reg = setGauge (pre @ ''accepted'') (of_int (rn_accepted r)) reg;
          reg = setGauge (pre @ ''rejected'') (of_int (rn_rejected r)) reg
      in setGauge (pre @ ''avg_submit_ms'') (of_int (rn_avg_ms r)) reg)"

fun pool_gauges :: "SchedulerState \<Rightarrow> nat \<Rightarrow> SourceInfo list \<Rightarrow> PoolEntry list \<Rightarrow> MetricsRegistry \<Rightarrow> MetricsRegistry" where
  "pool_gauges sc sid (src # srcs) (p # ps) reg =
     (let pre = ''pool.'' @ pe_name p @ ''.'';
          reg = (case (si_kind src, si_stratum src) of (Stratum_source, Some r) \<Rightarrow> runner_gauges pre r reg | _ \<Rightarrow> reg);
          pen = (case source_penalty sc (of_nat sid) of None \<Rightarrow> 0 | Some p \<Rightarrow> scast p);
          reg = setGauge (pre @ ''penalty'') pen reg;
          w = (case source_weight sc (of_nat sid) of None \<Rightarrow> 1 | Some w \<Rightarrow> scast w);
          reg = setGauge (pre @ ''weight'') w reg
      in pool_gauges sc (sid + 1) srcs ps reg)"
| "pool_gauges sc sid srcs ps reg = reg"

definition legacy_gauges :: "StratumRunner option \<Rightarrow> MetricsRegistry \<Rightarrow> MetricsRegistry" where
  "legacy_gauges runner reg =
     (case runner of
        None \<Rightarrow> reg
      | Some r \<Rightarrow> setGauge ''stratum.rejected'' (of_int (rn_rejected r)) (setGauge ''stratum.accepted'' (of_int (rn_accepted r))
          (setGauge ''stratum.avg_submit_ms'' (of_int (rn_avg_ms r)) reg)))"

text \<open>The snapshot goes to the metrics file when its stream is good, which is then rotated.\<close>

definition write_metrics :: "'j loop_env \<Rightarrow> observation \<Rightarrow> Loop \<Rightarrow> Loop" where
  "write_metrics E ob st =
     (let cfg = ac_metrics (le_app E); path = mc_file_path cfg
      in if mc_enable_file cfg \<and> lp_metrics_file st
         then let line = string_bytes (le_dump E (metrics_snapshot (ht_metrics (lp_hits st)))) @ [10];
                  fs = write_bytes path line (mn_files (lp_miner st));
                  (fs', last) = rotate_metrics_if_needed cfg (ob_metrics_clock ob) (fs, lp_metrics_rotate st);
                  rotated = (mc_file_max_bytes cfg > 0 \<and> file_exceeds_limit fs path (mc_file_max_bytes cfg) \<or>
                    time_exceeded (ck_ms (ob_metrics_clock ob)) (lp_metrics_rotate st) (mc_file_rotate_interval_sec cfg))
              in on_files (\<lambda>_. fs') (st\<lparr>lp_metrics_rotate := last, lp_metrics_file := rotated \<longrightarrow> fs_can_write fs path\<rparr>)
         else st)"

definition metrics_interval :: "AppConfig \<Rightarrow> int" where
  "metrics_interval cfg = max 100 (sint (mc_dump_interval_ms (ac_metrics cfg)))"

definition metrics_phase :: "'j loop_env \<Rightarrow> observation \<Rightarrow> Loop \<Rightarrow> Loop" where
  "metrics_phase E ob st =
     (if ob_metrics_ms ob - lp_last_metrics st > metrics_interval (le_app E)
      then let srcs = mn_sources (lp_miner st);
               st = on_metrics (legacy_gauges (first_runner srcs)) st;
               st = on_metrics (pool_gauges (bp_sched (lp_pressure st)) 0 srcs (ac_pools (le_app E))) st;
               st = write_metrics E ob st
           in st\<lparr>lp_last_metrics := ob_metrics_ms ob\<rparr>
      else st)"

section \<open>One iteration, and the events of the other threads\<close>

definition miner_iteration :: "'j loop_env \<Rightarrow> observation \<Rightarrow> Loop \<Rightarrow> Loop result" where
  "miner_iteration E ob st =
     (case poll_phase st of
        Inl e \<Rightarrow> Inl e
      | Inr st \<Rightarrow>
          (case mining_phase E ob (generation_phase E st) of
             Inl e \<Rightarrow> Inl e
           | Inr st \<Rightarrow> Inr (metrics_phase E ob (command_phase E ob st))))"

text \<open>An event of a runner, with the calls of the acceptance callback it makes.\<close>

definition source_event :: "'j loop_env \<Rightarrow> nat \<Rightarrow> runner_event \<Rightarrow> Miner \<Rightarrow> Miner result" where
  "source_event E k ev m =
     (case si_stratum (mn_sources m ! k) of
        None \<Rightarrow> Inr m
      | Some r \<Rightarrow>
          (case runner_step (le_stratum E) ev r of
             Inl e \<Rightarrow> Inl e
           | Inr r' \<Rightarrow>
               let m = m\<lparr>mn_sources := (mn_sources m)[k := (mn_sources m ! k)\<lparr>si_stratum := Some r'\<rparr>]\<rparr>
               in Inr (fold (\<lambda>(wid, nonce). accepted_callback (ac_outbox (le_app E)) wid nonce)
                    (drop (length (rn_calls r)) (rn_calls r')) m)))"

definition own_event :: "runner_event \<Rightarrow> bool" where
  "own_event ev = (case ev of Polled \<Rightarrow> False | Pending w n \<Rightarrow> False | _ \<Rightarrow> True)"

section \<open>The invariant of the main program\<close>

definition sources_ok :: "SourceInfo list \<Rightarrow> bool" where
  "sources_ok srcs \<longleftrightarrow> (\<forall>src \<in> set srcs. \<forall>r. si_stratum src = Some r \<longrightarrow> queue_ok r \<and> silent r)"

definition router_ok_loop :: "SubmitRouter \<Rightarrow> bool" where
  "router_ok_loop r \<longleftrightarrow> sr_has_cb r \<and> (\<exists>ob. sr_outbox r = Some ob \<and> outbox_ok ob)"

definition miner_ok :: "nat \<Rightarrow> Miner \<Rightarrow> bool" where
  "miner_ok n m \<longleftrightarrow> length (mn_sources m) = n \<and> sources_ok (mn_sources m) \<and>
     (\<forall>w sid. mn_w2s m w = Some sid \<longrightarrow> unat sid < n) \<and> router_ok_loop (mn_router m)"

lemma miner_ok_frame [simp]:
  "miner_ok n (m\<lparr>mn_files := fs\<rparr>) = miner_ok n m" "miner_ok n (m\<lparr>mn_last_rotate := l\<rparr>) = miner_ok n m"
  "miner_ok n (m\<lparr>mn_sent := s\<rparr>) = miner_ok n m"
  by (simp_all add: miner_ok_def)

lemma sources_ok_update:
  "sources_ok srcs \<Longrightarrow> (\<And>r. si_stratum src = Some r \<Longrightarrow> queue_ok r \<and> silent r) \<Longrightarrow> sources_ok (srcs[k := src])"
  unfolding sources_ok_def by (auto dest!: set_update_subset_insert [THEN subsetD])

lemma sources_okD: "sources_ok srcs \<Longrightarrow> k < length srcs \<Longrightarrow> si_stratum (srcs ! k) = Some r \<Longrightarrow> queue_ok r \<and> silent r"
  by (auto simp: sources_ok_def)

lemma pending_ok: "queue_ok (setPendingSubmit w n r) = queue_ok r" "silent (setPendingSubmit w n r) = silent r"
  by (simp_all add: setPendingSubmit_def queue_ok_def silent_def)

lemma send_to_source_ok:
  assumes "miner_ok n m"
  shows "miner_ok n (send_to_source rec m)"
proof (cases "mn_w2s m (sh_work_id rec)")
  case (Some sid)
  show ?thesis
  proof (cases "unat sid < length (mn_sources m) \<and> si_kind (mn_sources m ! unat sid) = Stratum_source \<and>
      si_stratum (mn_sources m ! unat sid) \<noteq> None")
    case True
    then obtain r where r: "si_stratum (mn_sources m ! unat sid) = Some r" by blast
    then have "queue_ok r \<and> silent r" using sources_okD [of "mn_sources m" "unat sid" r] True assms by (simp add: miner_ok_def)
    then have "sources_ok ((mn_sources m)[unat sid := (mn_sources m ! unat sid)\<lparr>si_stratum :=
        Some (setPendingSubmit (sh_work_id rec) (sh_nonce rec) r)\<rparr>])"
      using assms by (intro sources_ok_update) (auto simp: pending_ok miner_ok_def)
    then show ?thesis using assms True Some r
      by (auto simp: send_to_source_def Let_def miner_ok_def split: option.split)
  qed (use assms Some in \<open>auto simp: send_to_source_def Let_def split: option.split\<close>)
qed (use assms in \<open>simp add: send_to_source_def\<close>)

lemma submit_callback_ok: "miner_ok n m \<Longrightarrow> miner_ok n (submit_callback cfg ck rec m)"
  using callback_frame [of cfg ck rec m] send_to_source_ok [of n m rec] by auto

lemma callbacks_ok: "miner_ok n m \<Longrightarrow> miner_ok n (fold (submit_callback cfg ck) recs m)"
  by (induction recs arbitrary: m) (simp_all add: submit_callback_ok)

lemma verify_router_ok:
  assumes "router_ok_loop r" and "length header = 80"
  shows "router_ok_loop (snd (verifyAndSubmit r header target w n))"
proof -
  obtain ob where "sr_outbox r = Some ob" "outbox_ok ob" using assms(1) by (auto simp: router_ok_loop_def)
  from router_enqueue_ok [OF this, of "\<lparr>sh_work_id = w, sh_nonce = n, sh_header80 = take 80 header\<rparr>"] assms
  show ?thesis by (auto simp: verifyAndSubmit_def Let_def router_ok_loop_def router_call_cb_def)
qed

lemma submit_hit_ok:
  assumes "miner_ok k m" and "length header = 80"
  shows "miner_ok k (snd (submit_hit cfg ck header target w n m))"
proof -
  obtain ok r where r: "verifyAndSubmit (mn_router m) header target w n = (ok, r)" by fastforce
  then have "router_ok_loop r"
    using verify_router_ok [of "mn_router m" header target w n] assms by (simp add: miner_ok_def)
  then have "miner_ok k (m\<lparr>mn_router := r\<rparr>)" using assms(1) by (simp add: miner_ok_def)
  then show ?thesis by (simp add: submit_hit_def r run_callbacks_def callbacks_ok)
qed

lemma count_miner [simp]: "ht_miner (Miner_Jobs.count name st) = ht_miner st"
  by (simp add: Miner_Jobs.count_def)

lemma submit_block_miner: "ht_miner (submit_block rpc s header st) = ht_miner st"
  by (simp add: submit_block_def Let_def split: prod.split option.split)

lemma route_hit_ok:
  assumes "miner_ok k (ht_miner st)"
  shows "miner_ok k (ht_miner (route_hit cfg ck rpc gs snaps hit st))"
proof (cases "snaps (hr_work_id hit)")
  case (Some ss)
  let ?header = "hit_header (snap_item ss) (hr_nonce hit)"
  show ?thesis
    using Some assms submit_hit_ok [OF assms, of ?header] by (simp add: route_hit_def Let_def submit_block_miner split: option.split)
qed (use assms in \<open>simp add: route_hit_def\<close>)

lemma process_hits_ok:
  assumes "miner_ok k (ht_miner st)"
  shows "miner_ok k (ht_miner (process_hits cfg ck rpc gs snaps hits st))"
proof -
  have "miner_ok k (ht_miner st) \<Longrightarrow> miner_ok k (ht_miner (fold (route_hit cfg ck rpc gs snaps) hits st))" for st
    by (induction hits arbitrary: st) (simp_all add: route_hit_ok)
  then show ?thesis using assms by (simp add: process_hits_def Let_def)
qed

lemma sent_message_ok: "miner_ok k (sent_message msg m) = miner_ok k m"
  by (simp add: sent_message_def split: option.split)

lemma length_scan_bytes [simp]: "length (scan_bytes junk s n) = n"
  by (simp add: scan_bytes_def)

lemma header_command_ok:
  assumes "miner_ok k m"
  shows "miner_ok k (snd (header_command junk cfg ck router reg args m))"
proof (cases args)
  case (Cons hhex rest)
  show ?thesis
    using assms submit_hit_ok [OF assms, of "scan_bytes junk hhex 80" cfg ck]
    by (auto simp: Cons header_command_def Let_def split: option.split prod.split) (metis snd_conv)
qed (use assms in \<open>simp add: header_command_def\<close>)

lemma handle_command_ok:
  "miner_ok k m \<Longrightarrow> miner_ok k (snd (handle_command junk cfg ck g router user runner reg op line m))"
  by (simp add: handle_command_def header_command_ok split: list.split)

lemma accepted_callback_ok: "miner_ok k m \<Longrightarrow> miner_ok k (accepted_callback cfg w n m)"
  by (auto simp: accepted_callback_def router_onAccepted_def miner_ok_def router_ok_loop_def outbox_drop_ok Let_def)

section \<open>The registry and polling\<close>

definition slot_ok :: "nat \<Rightarrow> WorkSlot \<Rightarrow> bool" where
  "slot_ok i s \<longleftrightarrow> item_ok (slot_item s) \<and> length (midstate_le (slot_const s)) = 8 \<and>
     (wi_active (slot_item s) \<longrightarrow> wi_source_id (slot_item s) = of_nat i)"

definition slots_ok :: "WorkSourceRegistry \<Rightarrow> bool" where
  "slots_ok reg \<longleftrightarrow> (\<forall>i < length reg. slot_ok i (reg ! i))"

definition op_ok :: "nat \<times> WorkItem \<times> GpuJobConst \<Rightarrow> bool" where
  "op_ok op = (case op of (i, it, jc) \<Rightarrow> item_ok it \<and> length (midstate_le jc) = 8 \<and> wi_source_id it = of_nat i)"

definition gbt_ok :: "GbtAdapter option \<Rightarrow> bool" where
  "gbt_ok gbt \<longleftrightarrow> (\<forall>g. gbt = Some g \<longrightarrow> (\<forall>n \<in> set (ga_q g). result_ok n))"

lemma default_slot_ok: "slot_ok i default_slot"
  by (simp add: slot_ok_def default_slot_def default_item_def default_const_def zero8_def item_ok_def)

lemma publish_slots_ok:
  "publish_all registry_set reg ops = Inr reg' \<Longrightarrow> \<forall>op \<in> set ops. op_ok op \<Longrightarrow> slots_ok reg \<Longrightarrow> slots_ok reg'"
proof (induction ops arbitrary: reg)
  case (Cons op ops)
  obtain i it jc where op: "op = (i, it, jc)" by (cases op)
  then obtain reg1 where reg1: "registry_set reg i it jc = Inr reg1" "publish_all registry_set reg1 ops = Inr reg'"
    using Cons.prems(1) by (auto split: sum.splits)
  then have "slots_ok reg1" using Cons.prems(2,3) op
    by (auto simp: registry_set_def slots_ok_def slot_ok_def op_ok_def Let_def nth_list_update split: if_splits)
  then show ?case using Cons.IH [OF reg1(2)] Cons.prems(2) by simp
qed simp

lemma job_ops_ok: "\<forall>n \<in> set q. result_ok n \<Longrightarrow> op \<in> set (job_ops sid q) \<Longrightarrow> op_ok op"
  by (auto simp: job_ops_def op_ok_def stamp_item_def result_ok_def item_ok_def)

lemma source_ops_ok:
  assumes "source_ops sid src gbt = (ops, gbt')" and "gbt_ok gbt"
    and "\<And>r. si_stratum src = Some r \<Longrightarrow> queue_ok r"
  shows "gbt_ok gbt'" and "op \<in> set ops \<Longrightarrow> op_ok op"
  using assms job_ops_ok [of _ op sid]
  by (auto simp: source_ops_def gbt_ok_def queue_ok_def split: SourceKind.splits option.splits if_splits)

lemma poll_ops_ok:
  "sources_ok srcs \<Longrightarrow> gbt_ok gbt \<Longrightarrow> op \<in> set (poll_ops sid srcs gbt) \<Longrightarrow> op_ok op"
proof (induction srcs arbitrary: sid gbt)
  case (Cons src srcs)
  obtain ops g where ops: "source_ops sid src gbt = (ops, g)" by fastforce
  have q: "si_stratum src = Some r \<Longrightarrow> queue_ok r" for r using Cons.prems(1) by (simp add: sources_ok_def)
  note ok = source_ops_ok [OF ops Cons.prems(2) q]
  from Cons.prems(3) ops have "op \<in> set ops \<or> op \<in> set (poll_ops (sid + 1) srcs g)" by simp
  moreover have "sources_ok srcs" using Cons.prems(1) by (simp add: sources_ok_def)
  ultimately show ?case using ok Cons.IH [of g "sid + 1"] by blast
qed simp

lemma poll_sources_gbt:
  "poll_sources sid srcs gbt st = Inr (srcs', gbt', st') \<Longrightarrow> gbt_ok gbt \<Longrightarrow> sources_ok srcs \<Longrightarrow> gbt_ok gbt'"
proof (induction srcs arbitrary: sid gbt st srcs')
  case (Cons src srcs)
  obtain reg w2s where st: "st = (reg, w2s)" by (cases st)
  obtain ops g where ops: "source_ops sid src gbt = (ops, g)" by fastforce
  have "gbt_ok g" using source_ops_ok(1) [OF ops Cons.prems(2)] Cons.prems(3) by (simp add: sources_ok_def)
  then show ?case using Cons.prems Cons.IH [of "sid + 1" g] ops
    by (auto simp: st poll_source_eq sources_ok_def split: sum.splits)
qed simp

lemma emptied_ok: "sources_ok srcs \<Longrightarrow> sources_ok (map emptied srcs)"
  by (auto simp: sources_ok_def emptied_def queue_ok_def silent_def)

lemma owners_range:
  "owners ops w2s w = Some sid \<Longrightarrow> w2s w = Some sid \<or> (\<exists>op \<in> set ops. sid = of_nat (fst op))"
proof (induction ops arbitrary: w2s)
  case (Cons op ops)
  obtain i it jc where op: "op = (i, it, jc)" by (cases op)
  let ?w = "w2s(wi_work_id it \<mapsto> of_nat i)"
  have "owners ops ?w w = Some sid" using Cons.prems op by (simp add: owners_def)
  from Cons.IH [OF this] op show ?case by (cases "w = wi_work_id it") auto
qed (simp add: owners_def)

lemma unat_of_nat_le: "unat (of_nat k :: u32) \<le> k"
  by (simp add: unat_of_nat)

definition loop_ok :: "nat \<Rightarrow> Loop \<Rightarrow> bool" where
  "loop_ok n st \<longleftrightarrow> 0 < n \<and> miner_ok n (lp_miner st) \<and> length (lp_reg st) = n \<and> slots_ok (lp_reg st) \<and>
     gbt_ok (map_option gr_adapter (lp_gbt st)) \<and> penalties_ok (lp_pressure st) \<and>
     0 < fst (lp_knobs st) \<and> fst (lp_knobs st) \<le> 1024 \<and> ledger_ok (lp_ledger st)"

lemma poll_phase_ok:
  assumes "loop_ok n st"
  shows "\<exists>st'. poll_phase st = Inr st' \<and> loop_ok n st'"
proof -
  let ?m = "lp_miner st"
  let ?g = "map_option gr_adapter (lp_gbt st)"
  let ?ops = "poll_ops 0 (mn_sources ?m) ?g"
  have m: "length (mn_sources ?m) = n" "sources_ok (mn_sources ?m)" "gbt_ok ?g" "slots_ok (lp_reg st)" "length (lp_reg st) = n"
    using assms by (simp_all add: loop_ok_def miner_ok_def)
  have range: "op \<in> set ?ops \<Longrightarrow> fst op < n" for op using poll_ops_range [of op 0] m(1) by fastforce
  then obtain reg' where reg': "publish_all registry_set (lp_reg st) ?ops = Inr reg'"
    using registry.publish_all_ok [of ?ops "lp_reg st"] m(5) by auto
  then obtain gbt' where poll: "poll_sources 0 (mn_sources ?m) ?g (lp_reg st, mn_w2s ?m) =
      Inr (map emptied (mn_sources ?m), gbt', reg', owners ?ops (mn_w2s ?m))"
    using poll_sources_eq [of 0 "mn_sources ?m" ?g "lp_reg st" "mn_w2s ?m"] by auto
  have gbt': "gbt_ok gbt'" using poll_sources_gbt [OF poll] m(2,3) by simp
  have reg: "length reg' = n" "slots_ok reg'"
    using registry.publish_all_size [OF reg'] publish_slots_ok [OF reg'] poll_ops_ok [OF m(2,3)] m(4,5) by auto
  have "unat sid < n" if "owners ?ops (mn_w2s ?m) w = Some sid" for w sid
    using owners_range [OF that]
  proof
    assume "mn_w2s ?m w = Some sid"
    then show ?thesis using assms by (simp add: loop_ok_def miner_ok_def)
  next
    assume "\<exists>op \<in> set ?ops. sid = of_nat (fst op)"
    then obtain op where op: "op \<in> set ?ops" "sid = of_nat (fst op)" by blast
    have "unat sid \<le> fst op" unfolding op(2) by (rule unat_of_nat_le)
    also have "\<dots> < n" using range [OF op(1)] .
    finally show ?thesis .
  qed
  then have "miner_ok n (?m\<lparr>mn_sources := map emptied (mn_sources ?m), mn_w2s := owners ?ops (mn_w2s ?m)\<rparr>)"
    using assms m(1) emptied_ok [OF m(2)] by (auto simp: loop_ok_def miner_ok_def)
  moreover have "poll_phase st = Inr ((on_miner (\<lambda>m. m\<lparr>mn_sources := map emptied (mn_sources ?m), mn_w2s := owners ?ops (mn_w2s ?m)\<rparr>) st)
      \<lparr>lp_reg := reg', lp_gbt := (case gbt' of None \<Rightarrow> lp_gbt st | Some a \<Rightarrow> map_option (\<lambda>g. g\<lparr>gr_adapter := a\<rparr>) (lp_gbt st))\<rparr>)"
    by (simp add: poll_phase_def poll Let_def on_miner_def split: option.split)
  moreover have "gbt_ok (map_option gr_adapter (case gbt' of None \<Rightarrow> lp_gbt st | Some a \<Rightarrow> map_option (\<lambda>g. g\<lparr>gr_adapter := a\<rparr>) (lp_gbt st)))"
    using m(3) gbt' by (cases gbt'; cases "lp_gbt st") (simp_all add: gbt_ok_def)
  ultimately show ?thesis using assms reg by (simp add: loop_ok_def on_miner_def)
qed

section \<open>The phases keep the invariant\<close>

lemma loop_ok_on_miner: "loop_ok n st \<Longrightarrow> miner_ok n (f (lp_miner st)) \<Longrightarrow> loop_ok n (on_miner f st)"
  by (simp add: loop_ok_def on_miner_def)

lemma loop_ok_frame [simp]:
  "loop_ok n (on_metrics g st) = loop_ok n st" "loop_ok n (on_files f st) = loop_ok n st"
  "loop_ok n (st\<lparr>lp_operator := op\<rparr>) = loop_ok n st" "loop_ok n (st\<lparr>lp_ring := d\<rparr>) = loop_ok n st"
  "loop_ok n (st\<lparr>lp_jobs := j\<rparr>) = loop_ok n st" "loop_ok n (st\<lparr>lp_nonce_base := b\<rparr>) = loop_ok n st"
  "loop_ok n (st\<lparr>lp_last_save := i\<rparr>) = loop_ok n st" "loop_ok n (st\<lparr>lp_input := ls\<rparr>) = loop_ok n st"
  "loop_ok n (st\<lparr>lp_ledger_rotate := l\<rparr>) = loop_ok n st" "loop_ok n (st\<lparr>lp_last_snapshot := i\<rparr>) = loop_ok n st"
  "loop_ok n (st\<lparr>lp_metrics_rotate := l\<rparr>) = loop_ok n st" "loop_ok n (st\<lparr>lp_metrics_file := b'\<rparr>) = loop_ok n st"
  "loop_ok n (st\<lparr>lp_last_metrics := i\<rparr>) = loop_ok n st"
  by (simp_all add: loop_ok_def on_metrics_def on_files_def on_miner_def)

lemma generation_phase_ok: "loop_ok n st \<Longrightarrow> loop_ok n (generation_phase E st)"
  by (auto simp: generation_phase_def sent_message_ok loop_ok_def on_miner_def split: prod.split)

lemma penalties_ok_frame:
  "penalties_ok (pr\<lparr>bp_last_ms := t\<rparr>) = penalties_ok pr"
  "penalties_ok (pr\<lparr>bp_sched := (bp_sched pr)\<lparr>ss_tick := k\<rparr>\<rparr>) = penalties_ok pr"
  by (simp_all add: penalties_ok_def)

lemma launch_phase_ok:
  assumes "launch_phase E ob ids snaps st = Inr st'" and "loop_ok n st"
  shows "loop_ok n st'"
proof -
  let ?pr = "backpressure (latency_of (le_app E)) (ob_bp_ms ob) (mn_sources (lp_miner st)) (lp_pressure st)"
  have "penalties_ok ?pr" using assms(2)
    by (simp add: backpressure_def loop_ok_def penalise_sources_ok penalties_ok_frame(1))
  then have "penalties_ok (?pr\<lparr>bp_sched := snd (select (bp_sched ?pr) ids snaps 64)\<rparr>)"
    by (simp add: select_def Let_def penalties_ok_frame(2))
  with assms show ?thesis
    by (auto simp: launch_phase_def Let_def loop_ok_def on_metrics_def split: sum.splits)
qed

lemma tune_knobs_range:
  "0 < fst knobs \<Longrightarrow> fst knobs \<le> 1024 \<Longrightarrow> 0 < fst (tune_knobs cfg ob knobs) \<and> fst (tune_knobs cfg ob knobs) \<le> 1024"
  using tune_threads_range by (simp add: tune_knobs_def Let_def)

lemma loop_ok_knobs: "loop_ok n st \<Longrightarrow> loop_ok n (st\<lparr>lp_knobs := tune_knobs cfg ob (lp_knobs st)\<rparr>)"
  using tune_knobs_range [of "lp_knobs st" cfg ob] by (simp add: loop_ok_def)

lemma flush_phase_ok: "loop_ok n (flush_phase ob st) = loop_ok n st"
  by (simp add: flush_phase_def readAndResetBlockFlushCount_def readAndResetSmFlushCounts_def Let_def split: option.split)

lemma tuning_phase_ok: "loop_ok n st \<Longrightarrow> loop_ok n (tuning_phase E ob st)"
  by (simp add: tuning_phase_def Let_def flush_phase_ok loop_ok_knobs split: prod.split)

lemma hits_phase_ok:
  assumes "hits_phase E ob snaps st = Inr st'" and "loop_ok n st"
  shows "loop_ok n st'"
proof -
  have "miner_ok n (lp_miner st)" using assms(2) by (simp add: loop_ok_def)
  then show ?thesis using assms
    by (auto simp: hits_phase_def Let_def loop_ok_def process_hits_ok split: if_splits sum.splits)
qed

lemma put_all_ok: "ledger_ok l \<Longrightarrow> \<forall>s \<in> set ss. item_ok (snap_item s) \<Longrightarrow> ledger_ok (ledger_put_all ss l)"
  unfolding ledger_put_all_def by (induction ss arbitrary: l) (simp_all add: ledger_ok_put)

lemma active_set_ok:
  assumes "slots_ok reg" and "active_set reg = (ids, snaps)" and "snaps w = Some s"
  shows "\<exists>i < length reg. s = slot_snapshot (reg ! i) \<and> slot_ok i (reg ! i) \<and> wi_active (slot_item (reg ! i)) \<and>
    wi_work_id (slot_item (reg ! i)) = w"
proof -
  have "find (\<lambda>s. snap_id s = w) (active_snapshots reg) = Some s" using assms(2,3) by (auto simp: active_set_eq)
  then have s: "s \<in> set (active_snapshots reg)" "snap_id s = w" by (auto simp: find_Some_iff)
  then obtain i where "i < length reg" "s = slot_snapshot (reg ! i)" "wi_active (snap_item s)"
    by (auto simp: active_snapshots_def in_set_conv_nth)
  then show ?thesis using assms(1) s(2) by (auto simp: slots_ok_def slot_snapshot_def snap_id_def)
qed

lemma ledger_phase_ok:
  assumes "loop_ok n st" and "\<And>w s. snaps w = Some s \<Longrightarrow> item_ok (snap_item s)"
  shows "loop_ok n (ledger_phase E ob snaps st)"
proof -
  have "\<forall>s \<in> set (List.map_filter snaps (ob_snap_order ob)). item_ok (snap_item s)"
    using assms(2) by (auto simp: List.map_filter_def)
  then have "ledger_ok (ledger_put_all (List.map_filter snaps (ob_snap_order ob)) (lp_ledger st))"
    using assms(1) put_all_ok by (simp add: loop_ok_def)
  then have "loop_ok n (st\<lparr>lp_ledger := ledger_put_all (List.map_filter snaps (ob_snap_order ob)) (lp_ledger st)\<rparr>)"
    using assms(1) by (simp add: loop_ok_def)
  then show ?thesis using assms(1) by (simp add: ledger_phase_def Let_def split: prod.split)
qed

lemma mining_phase_ok:
  assumes "mining_phase E ob st = Inr st'" and "loop_ok n st"
  shows "loop_ok n st'"
proof -
  obtain ids snaps where act: "active_set (lp_reg st) = (ids, snaps)" by fastforce
  have items: "item_ok (snap_item s)" if "snaps w = Some s" for w s
    using active_set_ok [OF _ act that] assms(2) by (auto simp: loop_ok_def slot_ok_def slot_snapshot_def)
  show ?thesis
  proof (cases "ids = []")
    case True
    then show ?thesis using assms act by (simp add: mining_phase_def)
  next
    case False
    then obtain st1 st2 where st: "launch_phase E ob ids snaps st = Inr st1" "hits_phase E ob snaps (tuning_phase E ob st1) = Inr st2"
      "st' = ledger_phase E ob snaps st2"
      using assms(1) act by (auto simp: mining_phase_def split: sum.splits)
    have "loop_ok n (tuning_phase E ob st1)" using launch_phase_ok [OF st(1) assms(2)] by (rule tuning_phase_ok)
    from hits_phase_ok [OF st(2) this] have "loop_ok n st2" .
    then show ?thesis unfolding st(3) by (rule ledger_phase_ok) (rule items)
  qed
qed

lemma command_phase_ok:
  assumes "loop_ok n st"
  shows "loop_ok n (command_phase E ob st)"
proof (cases "lp_input st")
  case (Cons line rest)
  let ?c = "handle_command (se_junk (le_stratum E)) (ac_outbox (le_app E)) (ob_command_clock ob) (le_use_gbt E) (le_router E)
     (le_user E) (first_runner (mn_sources (lp_miner st))) (lp_reg st) (lp_operator st) line (lp_miner st)"
  obtain answer m where c: "?c = (answer, m)" by fastforce
  have "miner_ok n m" using handle_command_ok [of n "lp_miner st"] c assms by (metis loop_ok_def snd_conv)
  then have "miner_ok n (case answer of Submit_answer msg en2 nt nn \<Rightarrow> sent_message msg m | _ \<Rightarrow> m)"
    by (simp add: sent_message_ok split: answer.split)
  then show ?thesis using assms by (simp add: command_phase_def Cons c Let_def loop_ok_on_miner)
qed (use assms in \<open>simp add: command_phase_def\<close>)

lemma metrics_phase_ok: "loop_ok n (metrics_phase E ob st) = loop_ok n st"
  by (simp add: metrics_phase_def write_metrics_def Let_def split: prod.split)

lemma iteration_ok:
  assumes "miner_iteration E ob st = Inr st'" and "loop_ok n st"
  shows "loop_ok n st'"
proof -
  obtain st1 where st1: "poll_phase st = Inr st1" "loop_ok n st1" using poll_phase_ok [OF assms(2)] by blast
  then obtain st2 where "mining_phase E ob (generation_phase E st1) = Inr st2" "st' = metrics_phase E ob (command_phase E ob st2)"
    using assms(1) by (auto simp: miner_iteration_def split: sum.splits)
  then show ?thesis using st1(2) mining_phase_ok generation_phase_ok command_phase_ok metrics_phase_ok by metis
qed

text \<open>The events between two iterations.\<close>

lemma source_event_ok:
  assumes "source_event E k ev m = Inr m'" and "miner_ok n m" and "k < length (mn_sources m)"
  shows "miner_ok n m'"
proof (cases "si_stratum (mn_sources m ! k)")
  case (Some r)
  then obtain r' where r': "runner_step (le_stratum E) ev r = Inr r'" "m' = fold (\<lambda>(wid, nonce). accepted_callback (ac_outbox (le_app E)) wid nonce)
      (drop (length (rn_calls r)) (rn_calls r')) (m\<lparr>mn_sources := (mn_sources m)[k := (mn_sources m ! k)\<lparr>si_stratum := Some r'\<rparr>]\<rparr>)"
    using assms(1) by (auto simp: source_event_def Let_def split: sum.splits)
  have ok: "queue_ok r" "silent r" using sources_okD [OF _ assms(3) Some] assms(2) by (simp_all add: miner_ok_def)
  then have "queue_ok r'" "silent r'" using step_queue [OF r'(1)] step_silent [OF r'(1)] by simp_all
  then have start: "miner_ok n (m\<lparr>mn_sources := (mn_sources m)[k := (mn_sources m ! k)\<lparr>si_stratum := Some r'\<rparr>]\<rparr>)"
    using assms(2) by (auto simp: miner_ok_def intro!: sources_ok_update)
  have "miner_ok n x \<Longrightarrow> miner_ok n (fold (\<lambda>(wid, nonce). accepted_callback (ac_outbox (le_app E)) wid nonce) calls x)" for calls x
    by (induction calls arbitrary: x) (auto simp: accepted_callback_ok)
  then show ?thesis unfolding r'(2) using start by blast
qed (use assms in \<open>simp add: source_event_def\<close>)

lemma on_template_ok: "on_template E gbt g = Inr g' \<Longrightarrow> gbt_ok (Some (gr_adapter g)) \<Longrightarrow> gbt_ok (Some (gr_adapter g'))"
  by (auto simp: on_template_def Let_def ingestTemplate_def gbt_ok_def dest: normalizeJob_result_ok
      split: option.splits if_splits sum.splits)

lemma gbt_poll_ok: "gbt_poll E call g = Inr g' \<Longrightarrow> gbt_ok (Some (gr_adapter g)) \<Longrightarrow> gbt_ok (Some (gr_adapter g'))"
  by (auto simp: gbt_poll_def split: option.splits dest: on_template_ok)

end
