(* ===== verification/Miner_Threads.thy ===== *)
theory Miner_Threads
  imports Miner_Loop
begin

text \<open>
  The threads of \<^verbatim>\<open>src/tools/stratum_registry_runner.cpp\<close> together. The main thread runs the phases of its
  loop one by one: a \<open>program_point\<close> says which is next, with the local variables that live across
  phases (the active ids, the map of snapshots, the hits still to be routed), and \<open>main_next\<close> runs it.
  Between any two phases the other threads act: a runner handles an event, the node is polled, a line is
  typed. \<open>thread_step\<close> is the step relation of the whole program; a run of \<open>main_next\<close> from the head of the
  loop back to it, with nothing in between, is \<open>miner_iteration\<close>.

  The grain is that of the phases: the other threads act between two phases, not within one, and a hit is
  routed in one step (several hits are several steps). Within a phase the main thread reads a queue or
  a counter of a source under the lock of that source or as an atomic, so that an event in the middle of a phase
  is one before or after the access it meets; what a phase reads of two sources at different moments is not
  distinguished. The sends in the routing do not block here; \<open>Runner_Thread\<close> has the sends of a runner.
\<close>

section \<open>The main thread, phase by phase\<close>

type_synonym snapshots = "u64 \<Rightarrow> WorkSlotSnapshot option"

datatype program_point =
    At_poll
  | At_generation
  | At_active
  | At_launch "u64 list" snapshots
  | At_tuning snapshots
  | At_hits snapshots
  | At_route snapshots "HitRecord list"
  | At_ledger snapshots
  | At_command
  | At_metrics

definition main_next :: "'j loop_env \<Rightarrow> observation \<Rightarrow> program_point \<times> Loop \<Rightarrow> (program_point \<times> Loop) result" where
  "main_next E ob c =
     (case c of (p, st) \<Rightarrow>
       (case p of
          At_poll \<Rightarrow> (case poll_phase st of Inl e \<Rightarrow> Inl e | Inr st \<Rightarrow> Inr (At_generation, st))
        | At_generation \<Rightarrow> Inr (At_active, generation_phase E st)
        | At_active \<Rightarrow> (case active_set (lp_reg st) of (ids, snaps) \<Rightarrow> Inr (if ids = [] then At_command else At_launch ids snaps, st))
        | At_launch ids snaps \<Rightarrow> (case launch_phase E ob ids snaps st of Inl e \<Rightarrow> Inl e | Inr st \<Rightarrow> Inr (At_tuning snaps, st))
        | At_tuning snaps \<Rightarrow> Inr (At_hits snaps, tuning_phase E ob st)
        | At_hits snaps \<Rightarrow>
            if \<not> le_router E then Inr (At_ledger snaps, st)
            else (case drainDeviceHits 64 (lp_ring st) of
                    Inl e \<Rightarrow> Inl e
                  | Inr (ok, hits, d) \<Rightarrow>
                      let st = st\<lparr>lp_ring := d\<rparr>
                      in if ok \<and> hits \<noteq> []
                         then Inr (At_route snaps hits, on_metrics (increment ''device.hits'' (of_nat (length hits))) st)
                         else Inr (At_ledger snaps, st))
        | At_route snaps hits \<Rightarrow>
            (case hits of
               [] \<Rightarrow> Inr (At_ledger snaps, st)
             | hit # hits \<Rightarrow> Inr (At_route snaps hits, st\<lparr>lp_hits := route_hit (ac_outbox (le_app E)) (ob_hits_clock ob)
                  (le_rpc E) (le_submitter E) snaps hit (lp_hits st)\<rparr>))
        | At_ledger snaps \<Rightarrow> Inr (At_command, ledger_phase E ob snaps st)
        | At_command \<Rightarrow> Inr (At_metrics, command_phase E ob st)
        | At_metrics \<Rightarrow> Inr (At_poll, metrics_phase E ob st)))"

section \<open>All threads\<close>

inductive thread_step :: "'j loop_env \<Rightarrow> program_point \<times> Loop \<Rightarrow> program_point \<times> Loop \<Rightarrow> bool" for E where
  step_main: "main_next E ob c = Inr c' \<Longrightarrow> thread_step E c c'"
| step_source: "k < length (mn_sources (lp_miner st)) \<Longrightarrow> own_event ev \<Longrightarrow>
    source_event E k ev (lp_miner st) = Inr m \<Longrightarrow> thread_step E (p, st) (p, on_miner (\<lambda>_. m) st)"
| step_gbt: "lp_gbt st = Some g \<Longrightarrow> gbt_poll (le_stratum E) (le_call E) g = Inr g' \<Longrightarrow>
    thread_step E (p, st) (p, st\<lparr>lp_gbt := Some g'\<rparr>)"
| step_input: "thread_step E (p, st) (p, st\<lparr>lp_input := lp_input st @ [line]\<rparr>)"

definition thread_reachable :: "'j loop_env \<Rightarrow> Loop \<Rightarrow> program_point \<times> Loop \<Rightarrow> bool" where
  "thread_reachable E st0 c = (thread_step E)\<^sup>*\<^sup>* (At_poll, st0) c"

text \<open>The main thread alone.\<close>

definition main_run :: "'j loop_env \<Rightarrow> observation \<Rightarrow> program_point \<times> Loop \<Rightarrow> program_point \<times> Loop \<Rightarrow> bool" where
  "main_run E ob = (\<lambda>c c'. main_next E ob c = Inr c')\<^sup>*\<^sup>*"

section \<open>The invariant\<close>

definition snaps_ok :: "snapshots \<Rightarrow> bool" where
  "snaps_ok snaps \<longleftrightarrow> (\<forall>w s. snaps w = Some s \<longrightarrow> item_ok (snap_item s))"

fun point_ok :: "nat \<Rightarrow> program_point \<Rightarrow> bool" where
  "point_ok n (At_launch ids snaps) = (ids \<noteq> [] \<and> length ids \<le> n \<and> snaps_ok snaps)"
| "point_ok n (At_tuning snaps) = snaps_ok snaps"
| "point_ok n (At_hits snaps) = snaps_ok snaps"
| "point_ok n (At_route snaps hits) = snaps_ok snaps"
| "point_ok n (At_ledger snaps) = snaps_ok snaps"
| "point_ok n p = True"

definition threads_ok :: "nat \<Rightarrow> program_point \<times> Loop \<Rightarrow> bool" where
  "threads_ok n c \<longleftrightarrow> point_ok n (fst c) \<and> loop_ok n (snd c)"

lemma active_ids_bound: "active_set reg = (ids, snaps) \<Longrightarrow> length ids \<le> length reg"
  by (auto simp: active_set_eq active_snapshots_def intro: le_trans [OF length_filter_le])

lemma active_snaps_ok:
  assumes "loop_ok n st" and "active_set (lp_reg st) = (ids, snaps)"
  shows "snaps_ok snaps"
  using active_set_ok [OF _ assms(2)] assms(1) by (fastforce simp: snaps_ok_def loop_ok_def slot_ok_def slot_snapshot_def)

lemma main_next_ok:
  assumes "main_next E ob (p, st) = Inr (p', st')" and "threads_ok n (p, st)"
  shows "threads_ok n (p', st')"
proof (cases p)
  case At_poll
  then show ?thesis using assms poll_phase_ok [of n st] by (auto simp: main_next_def threads_ok_def split: sum.splits)
next
  case At_active
  obtain ids snaps where act: "active_set (lp_reg st) = (ids, snaps)" by fastforce
  then have "length ids \<le> n" using active_ids_bound assms(2) by (fastforce simp: threads_ok_def loop_ok_def)
  then show ?thesis using assms At_active act active_snaps_ok [OF _ act] by (auto simp: main_next_def threads_ok_def split: if_splits)
next
  case (At_hits snaps)
  then show ?thesis using assms by (auto simp: main_next_def threads_ok_def Let_def split: if_splits sum.splits)
next
  case (At_route snaps hits)
  have "miner_ok n (lp_miner st)" using assms(2) by (simp add: threads_ok_def loop_ok_def)
  then show ?thesis using assms At_route route_hit_ok
    by (auto simp: main_next_def threads_ok_def loop_ok_def split: list.splits)
next
  case (At_ledger snaps)
  then show ?thesis using assms ledger_phase_ok [of n st snaps] by (auto simp: main_next_def threads_ok_def snaps_ok_def)
qed (use assms in \<open>auto simp: main_next_def threads_ok_def generation_phase_ok tuning_phase_ok command_phase_ok metrics_phase_ok
  dest: launch_phase_ok split: sum.splits\<close>)

lemma thread_step_ok: "thread_step E c c' \<Longrightarrow> threads_ok n c \<Longrightarrow> threads_ok n c'"
proof (induction rule: thread_step.induct)
  case (step_main ob c c')
  then show ?case using main_next_ok [of E ob "fst c" "snd c" "fst c'" "snd c'" n] by simp
next
  case (step_source k st ev m p)
  then have "miner_ok n m" using source_event_ok [of E k ev "lp_miner st" m n] by (simp add: threads_ok_def loop_ok_def)
  then show ?case using step_source loop_ok_on_miner [of n st "\<lambda>_. m"] by (simp add: threads_ok_def)
next
  case (step_gbt st g g' p)
  then show ?case using gbt_poll_ok [OF step_gbt(2)] by (simp add: threads_ok_def loop_ok_def)
qed (simp add: threads_ok_def)

section \<open>Systems with an invariant\<close>

locale step_system =
  fixes step :: "'s \<Rightarrow> 's \<Rightarrow> bool" and inv :: "'s \<Rightarrow> bool"
  assumes inv_step: "step s t \<Longrightarrow> inv s \<Longrightarrow> inv t"
begin

lemma inv_reachable: "step\<^sup>*\<^sup>* s t \<Longrightarrow> inv s \<Longrightarrow> inv t"
  by (induction rule: rtranclp_induct) (auto intro: inv_step)

end

interpretation main: step_system "thread_step E" "threads_ok n" for E n
  by unfold_locales (rule thread_step_ok)


section \<open>An undisturbed iteration\<close>

lemma main_run_next: "main_next E ob c = Inr c' \<Longrightarrow> main_run E ob c' c'' \<Longrightarrow> main_run E ob c c''"
  unfolding main_run_def by (rule converse_rtranclp_into_rtranclp)

lemma main_run_refl [simp]: "main_run E ob c c"
  by (simp add: main_run_def)

lemma main_run_trans: "main_run E ob c c' \<Longrightarrow> main_run E ob c' c'' \<Longrightarrow> main_run E ob c c''"
  unfolding main_run_def by (rule rtranclp_trans)

lemma route_run:
  "main_run E ob (At_route snaps hits, st) (At_ledger snaps, st\<lparr>lp_hits := fold (route_hit (ac_outbox (le_app E)) (ob_hits_clock ob)
     (le_rpc E) (le_submitter E) snaps) hits (lp_hits st)\<rparr>)"
proof (induction hits arbitrary: st)
  case (Cons hit hits)
  let ?st = "st\<lparr>lp_hits := route_hit (ac_outbox (le_app E)) (ob_hits_clock ob) (le_rpc E) (le_submitter E) snaps hit (lp_hits st)\<rparr>"
  have "main_next E ob (At_route snaps (hit # hits), st) = Inr (At_route snaps hits, ?st)" by (simp add: main_next_def)
  from main_run_next [OF this Cons.IH] show ?case by simp
next
  case Nil
  have "main_next E ob (At_route snaps [], st) = Inr (At_ledger snaps, st)" by (simp add: main_next_def)
  from main_run_next [OF this main_run_refl] show ?case by simp
qed

text \<open>Where the phases of an iteration lead from the drain of the hits on.\<close>

lemma hits_run:
  "case hits_phase E ob snaps st of
     Inr st' \<Rightarrow> main_run E ob (At_hits snaps, st) (At_ledger snaps, st')
   | Inl e \<Rightarrow> main_next E ob (At_hits snaps, st) = Inl e"
proof (cases "le_router E")
  case True
  show ?thesis
  proof (cases "drainDeviceHits 64 (lp_ring st)")
    case (Inl e)
    then show ?thesis using True by (simp add: hits_phase_def main_next_def)
  next
    case (Inr x)
    obtain ok hits d where x: "x = (ok, hits, d)" by (cases x)
    let ?st = "on_metrics (increment ''device.hits'' (of_nat (length hits))) (st\<lparr>lp_ring := d\<rparr>)"
    show ?thesis
    proof (cases "ok \<and> hits \<noteq> []")
      case ok: True
      then have "main_next E ob (At_hits snaps, st) = Inr (At_route snaps hits, ?st)"
        using True Inr x by (simp add: main_next_def)
      from main_run_next [OF this route_run] show ?thesis
        using ok True Inr x by (simp add: hits_phase_def process_hits_def Let_def on_metrics_def)
    next
      case False
      then have "main_next E ob (At_hits snaps, st) = Inr (At_ledger snaps, st\<lparr>lp_ring := d\<rparr>)"
        using True Inr x by (auto simp: main_next_def Let_def)
      from main_run_next [OF this main_run_refl] show ?thesis
        using False True Inr x by (cases ok) (simp_all add: hits_phase_def process_hits_def)
    qed
  qed
next
  case False
  then have "main_next E ob (At_hits snaps, st) = Inr (At_ledger snaps, st)" by (simp add: main_next_def)
  from main_run_next [OF this main_run_refl] show ?thesis using False by (simp add: hits_phase_def)
qed

lemma mining_run:
  "case mining_phase E ob st of
     Inr st' \<Rightarrow> main_run E ob (At_active, st) (At_command, st')
   | Inl e \<Rightarrow> \<exists>c. main_run E ob (At_active, st) c \<and> main_next E ob c = Inl e"
proof -
  obtain ids snaps where act: "active_set (lp_reg st) = (ids, snaps)" by fastforce
  show ?thesis
  proof (cases "ids = []")
    case True
    then have "main_next E ob (At_active, st) = Inr (At_command, st)" using act by (simp add: main_next_def)
    from main_run_next [OF this main_run_refl] show ?thesis using True act by (simp add: mining_phase_def)
  next
    case False
    then have start: "main_next E ob (At_active, st) = Inr (At_launch ids snaps, st)" using act by (simp add: main_next_def)
    show ?thesis
    proof (cases "launch_phase E ob ids snaps st")
      case (Inl e)
      then have "main_next E ob (At_launch ids snaps, st) = Inl e" by (simp add: main_next_def)
      then show ?thesis using main_run_next [OF start main_run_refl] False act Inl by (auto simp: mining_phase_def)
    next
      case (Inr st1)
      let ?t = "tuning_phase E ob st1"
      have launch: "main_next E ob (At_launch ids snaps, st) = Inr (At_tuning snaps, st1)" using Inr by (simp add: main_next_def)
      have tune: "main_next E ob (At_tuning snaps, st1) = Inr (At_hits snaps, ?t)" by (simp add: main_next_def)
      have pre: "main_run E ob (At_active, st) (At_hits snaps, ?t)"
        by (rule main_run_next [OF start main_run_next [OF launch main_run_next [OF tune main_run_refl]]])
      show ?thesis
      proof (cases "hits_phase E ob snaps ?t")
        case (Inl e)
        then show ?thesis using pre hits_run [of E ob snaps ?t] False act Inr by (auto simp: mining_phase_def)
      next
        case hits: (Inr st2)
        have "main_next E ob (At_ledger snaps, st2) = Inr (At_command, ledger_phase E ob snaps st2)" by (simp add: main_next_def)
        from main_run_next [OF this main_run_refl] have "main_run E ob (At_active, st) (At_command, ledger_phase E ob snaps st2)"
          using pre hits_run [of E ob snaps ?t] hits by (auto intro: main_run_trans)
        then show ?thesis using hits False act Inr by (simp add: mining_phase_def)
      qed
    qed
  qed
qed

text \<open>The loop body is its phases in order. Running the main thread phase by phase, with no other
  thread in between, from the head of the loop leads back to it with the state of \<open>miner_iteration\<close>;
  when that is an error, to the phase which makes it.\<close>

theorem iteration_is_run:
  "case miner_iteration E ob st of
     Inr st' \<Rightarrow> main_run E ob (At_poll, st) (At_poll, st')
   | Inl e \<Rightarrow> \<exists>c. main_run E ob (At_poll, st) c \<and> main_next E ob c = Inl e"
proof (cases "poll_phase st")
  case (Inl e)
  then have "main_next E ob (At_poll, st) = Inl e" by (simp add: main_next_def)
  then show ?thesis using Inl main_run_refl [of E ob "(At_poll, st)"] by (auto simp: miner_iteration_def simp del: main_run_refl)
next
  case (Inr st1)
  let ?g = "generation_phase E st1"
  have poll: "main_next E ob (At_poll, st) = Inr (At_generation, st1)" using Inr by (simp add: main_next_def)
  have "main_next E ob (At_generation, st1) = Inr (At_active, ?g)" by (simp add: main_next_def)
  from main_run_next [OF poll main_run_next [OF this main_run_refl]] have pre: "main_run E ob (At_poll, st) (At_active, ?g)" .
  show ?thesis
  proof (cases "mining_phase E ob ?g")
    case (Inl e)
    then show ?thesis using mining_run [of E ob ?g] pre Inr by (auto simp: miner_iteration_def intro: main_run_trans)
  next
    case mine: (Inr st2)
    let ?c = "command_phase E ob st2"
    have command: "main_next E ob (At_command, st2) = Inr (At_metrics, ?c)" by (simp add: main_next_def)
    have "main_next E ob (At_metrics, ?c) = Inr (At_poll, metrics_phase E ob ?c)" by (simp add: main_next_def)
    from main_run_next [OF command main_run_next [OF this main_run_refl]]
    have "main_run E ob (At_command, st2) (At_poll, metrics_phase E ob ?c)" .
    then have "main_run E ob (At_poll, st) (At_poll, metrics_phase E ob ?c)"
      using pre mining_run [of E ob ?g] mine by (auto intro: main_run_trans)
    then show ?thesis using mine Inr by (simp add: miner_iteration_def)
  qed
qed

end
