(* ===== verification/Miner_System.thy ===== *)
theory Miner_System
  imports Miner_Threads
begin

text \<open>
  The main program from its start: the initial state of the loop (\<open>loop_start\<close>, the initial values of
  \<^verbatim>\<open>main\<close> in \<^verbatim>\<open>src/tools/stratum_registry_runner.cpp\<close>), the shape of the device ring as a second
  invariant, and the properties that span the components: what holds in every reachable state, and the
  way of a notification from the socket to the table of device jobs.
\<close>

section \<open>The device ring through the phases\<close>

definition dring_ok :: "u32 \<Rightarrow> device_ring \<Rightarrow> bool" where
  "dring_ok cap d \<longleftrightarrow> s_device_hit_buf d \<and> s_device_hit_cap d = cap \<and> g_hit_cap d = cap \<and> cap \<noteq> 0 \<and>
     (\<exists>buf. g_hit_buf d = Buffer buf \<and> length buf = unat cap)"

lemma dring_ok_frame [simp]:
  "dring_ok cap (d\<lparr>g_hit_write_idx := i\<rparr>) = dring_ok cap d" "dring_ok cap (d\<lparr>s_device_drain_offset := o1\<rparr>) = dring_ok cap d"
  "dring_ok cap (d\<lparr>g_block_flush_count := n\<rparr>) = dring_ok cap d" "dring_ok cap (d\<lparr>g_sm_flush_counts := ns\<rparr>) = dring_ok cap d"
  by (simp_all add: dring_ok_def)

lemma fold_result_inv:
  assumes "\<And>x s t. f x s = Inr t \<Longrightarrow> P s \<Longrightarrow> P t"
  shows "fold_result f xs s = Inr t \<Longrightarrow> P s \<Longrightarrow> P t"
  by (induction xs arbitrary: s) (auto split: sum.splits dest: assms)

lemma fold_result_total:
  assumes "\<And>x s. x \<in> set xs \<Longrightarrow> P s \<Longrightarrow> \<exists>t. f x s = Inr t \<and> P t" and "P s"
  shows "\<exists>t. fold_result f xs s = Inr t \<and> P t"
  using assms
proof (induction xs arbitrary: s)
  case (Cons x xs)
  obtain t where "f x s = Inr t" "P t" using Cons.prems by fastforce
  then show ?case using Cons.IH [of t] Cons.prems(1) by simp
qed simp

lemma global_store_ring:
  assumes "dring_ok cap d"
  shows "global_store slot hit d = Inr d' \<Longrightarrow> dring_ok cap d'" and "slot < cap \<Longrightarrow> \<exists>d'. global_store slot hit d = Inr d'"
  using assms by (auto simp: global_store_def dring_ok_def word_less_nat_alt split: if_splits)

lemma global_push_ring:
  assumes "dring_ok cap d"
  shows "\<exists>d'. global_push hit d = Inr d' \<and> dring_ok cap d'"
proof -
  let ?d = "d\<lparr>g_hit_write_idx := g_hit_write_idx d + 1\<rparr>"
  have cap: "cap \<noteq> 0" "g_hit_cap d = cap" using assms by (simp_all add: dring_ok_def)
  have "g_hit_write_idx d mod cap < cap" using cap(1) by (simp add: word_mod_less_divisor word_gt_0)
  moreover have "dring_ok cap ?d" using assms by simp
  ultimately obtain d' where d': "global_store (g_hit_write_idx d mod cap) hit ?d = Inr d'" "dring_ok cap d'"
    using global_store_ring [of cap ?d] by blast
  then show ?thesis using cap by (simp add: global_push_def Let_def)
qed

lemma stub_ring:
  assumes "dring_ok cap d" and "\<And>j. j < n \<Longrightarrow> \<exists>J. job_at e j = Inr J"
  shows "\<exists>d'. kernel_mine_stub e n base x d = Inr d' \<and> dring_ok cap d'"
proof -
  obtain j t b where x: "x = (j, t, b)" by (cases x)
  show ?thesis
  proof (cases "j < n")
    case True
    then obtain J where "job_at e j = Inr J" using assms(2) by blast
    then show ?thesis using True assms(1) global_push_ring [OF assms(1)] by (auto simp: x kernel_mine_stub_def Let_def)
  next
    case False
    then have "n \<le> j" by simp
    then show ?thesis using assms(1) by (simp add: x kernel_mine_stub_def)
  qed
qed

lemma stub_ring_kept: "kernel_mine_stub e n base x d = Inr d' \<Longrightarrow> dring_ok cap d \<Longrightarrow> dring_ok cap d'"
  using global_push_ring [of cap d]
  by (cases x) (auto simp: kernel_mine_stub_def Let_def split: if_splits sum.splits, (metis sum.inject(2))+)

lemma candidate_ring:
  "block_hit hit bd = Inr bd' \<Longrightarrow> dring_ok cap (snd bd) \<Longrightarrow> dring_ok cap (snd bd')"
  "batch_candidate J nonce bd = Inr bd' \<Longrightarrow> dring_ok cap (snd bd) \<Longrightarrow> dring_ok cap (snd bd')"
  "tail_candidate J nonce bd = Inr bd' \<Longrightarrow> dring_ok cap (snd bd) \<Longrightarrow> dring_ok cap (snd bd')"
proof -
  have hit: "block_hit hit bd = Inr bd' \<Longrightarrow> dring_ok cap (snd bd) \<Longrightarrow> dring_ok cap (snd bd')" for hit
    using global_push_ring [of cap "snd bd" hit]
    by (cases bd) (auto simp: block_hit_def Let_def split: if_splits sum.splits)
  show "block_hit hit bd = Inr bd' \<Longrightarrow> dring_ok cap (snd bd) \<Longrightarrow> dring_ok cap (snd bd')"
    "batch_candidate J nonce bd = Inr bd' \<Longrightarrow> dring_ok cap (snd bd) \<Longrightarrow> dring_ok cap (snd bd')"
    "tail_candidate J nonce bd = Inr bd' \<Longrightarrow> dring_ok cap (snd bd) \<Longrightarrow> dring_ok cap (snd bd')"
    using hit by (auto simp: batch_candidate_def tail_candidate_def split: if_splits)
qed

lemma flush_ring:
  assumes "block_flush smid (blk, d) = Inr d'" and "dring_ok cap d"
  shows "dring_ok cap d'"
proof -
  have step: "flush_store hits start i d = Inr d' \<Longrightarrow> dring_ok cap d \<Longrightarrow> dring_ok cap d'" for hits start i d d'
    using global_store_ring(1) by (auto simp: flush_store_def Let_def split: if_splits)
  have "fold_result (flush_store hits start) xs d = Inr d' \<Longrightarrow> dring_ok cap d \<Longrightarrow> dring_ok cap d'" for hits start xs d
    by (rule fold_result_inv [where P = "dring_ok cap", OF step])
  from this [of "s_hits blk" "g_hit_write_idx d"] show ?thesis using assms by (auto simp: block_flush_def Let_def split: if_splits)
qed

lemma block_ring:
  assumes "\<And>x s t. f x s = Inr t \<Longrightarrow> dring_ok cap (snd s) \<Longrightarrow> dring_ok cap (snd t)" and "dring_ok cap d"
    and "fold_result f xs (blk, d) = Inr y" and "block_flush smid y = Inr d'"
  shows "dring_ok cap d'"
proof -
  have "dring_ok cap (snd y)"
    using fold_result_inv [where P = "\<lambda>s. dring_ok cap (snd s)", OF assms(1) assms(3)] assms(2) by simp
  then show ?thesis using assms(4) by (cases y) (simp add: flush_ring)
qed

lemma batch_ring:
  assumes "kernel_mine_batch e n base npt j bd b g smid sched d = Inr d'" and "dring_ok cap d"
  shows "dring_ok cap d'"
proof (cases "n \<le> j")
  case False
  then obtain J y where J: "fold_result (\<lambda>(t, k). batch_candidate J (thread_nonce base j bd b npt t k)) sched
      (\<lparr>s_hits = map g [0..<64], s_count = 0\<rparr>, d) = Inr y" "block_flush smid y = Inr d'"
    using assms(1) by (auto simp: kernel_mine_batch_def Let_def split: sum.splits)
  show ?thesis by (rule block_ring [OF _ assms(2) J]) (auto split: prod.splits intro: candidate_ring(2))
qed (use assms in \<open>simp add: kernel_mine_batch_def\<close>)

lemma batch_unroll_ring:
  assumes "kernel_mine_batch_unroll e n base npt j bd b g smid sched d = Inr d'" and "dring_ok cap d"
  shows "dring_ok cap d'"
proof (cases "n \<le> j")
  case False
  then obtain J y where J: "fold_result (\<lambda>(t, k, tail). (if tail then tail_candidate else batch_candidate) J
        (thread_nonce base j bd b npt t k)) sched (\<lparr>s_hits = map g [0..<64], s_count = 0\<rparr>, d) = Inr y"
    "block_flush smid y = Inr d'"
    using assms(1) by (auto simp: kernel_mine_batch_unroll_def Let_def split: sum.splits)
  show ?thesis by (rule block_ring [OF _ assms(2) J]) (simp split: prod.splits if_splits add: candidate_ring(2,3))
qed (use assms in \<open>simp add: kernel_mine_batch_unroll_def\<close>)

lemma run_launch_ring:
  assumes "run_launch s e l d = Inr d'" and "dring_ok cap d"
  shows "dring_ok cap d'"
proof -
  have stub: "map_sum id snd (run_stub e n base order d) = Inr d' \<Longrightarrow> dring_ok cap d'" for n base order
    using fold_result_inv [where P = "dring_ok cap", OF stub_ring_kept] assms(2) by (auto simp: run_stub_def split: sum.splits)
  show ?thesis
  proof (cases l)
    case (Batch p base npt)
    show ?thesis
    proof (cases "launchMineWithPlanBatch e (num_jobs p) (blocks_per_job p) (threads_per_block p) npt")
      case None
      then show ?thesis using assms Batch by (simp add: run_launch_def)
    next
      case (Some un)
      obtain u n where un: "un = (u, n)" by (cases un)
      let ?f = "\<lambda>(j, b, smid, sched). if u = 1
        then kernel_mine_batch e (num_jobs p) base n j (threads_per_block p) b (ls_garbage s) smid (map (\<lambda>(t, k, tail). (t, k)) sched)
        else kernel_mine_batch_unroll e (num_jobs p) base n j (threads_per_block p) b (ls_garbage s) smid sched"
      have "fold_result ?f (ls_blocks s) d = Inr d'" using assms(1) Batch Some un by (simp add: run_launch_def)
      moreover have "?f x a = Inr c \<Longrightarrow> dring_ok cap a \<Longrightarrow> dring_ok cap c" for x a c
        by (cases x) (auto split: if_splits intro: batch_ring batch_unroll_ring)
      ultimately show ?thesis using fold_result_inv [where P = "dring_ok cap" and f = ?f] assms(2) by blast
    qed
  qed (use assms stub in \<open>auto simp: run_launch_def launchMineStub_def launchMineWithPlan_def split: if_splits sum.splits\<close>)
qed

text \<open>A launch of the non-batch kernel returns.\<close>

lemma stub_total:
  assumes "dring_ok cap d" and "\<And>j. j < n \<Longrightarrow> \<exists>J. job_at e j = Inr J"
  shows "\<exists>d'. map_sum id snd (run_stub e n base order d) = Inr d' \<and> dring_ok cap d'"
proof -
  obtain d' where "fold_result (kernel_mine_stub e n base) order d = Inr d' \<and> dring_ok cap d'"
    using fold_result_total [where P = "dring_ok cap" and f = "kernel_mine_stub e n base" and xs = order, OF stub_ring assms(1)] assms(2)
    by blast
  then show ?thesis by (simp add: run_stub_def)
qed

lemma drain_ring:
  assumes "dring_ok cap d"
  shows "drainDeviceHits k d = Inr (ok, hits, d') \<Longrightarrow> dring_ok cap d'"
    and "k \<le> cap \<Longrightarrow> \<exists>hits d'. drainDeviceHits k d = Inr (True, hits, d') \<and> dring_ok cap d'"
proof -
  show "drainDeviceHits k d = Inr (ok, hits, d') \<Longrightarrow> dring_ok cap d'"
    using assms by (auto simp: drainDeviceHits_def Let_def split: if_splits sum.splits)
  assume k: "k \<le> cap"
  obtain buf where buf: "g_hit_buf d = Buffer buf" "length buf = unat cap" "cap \<noteq> 0" "s_device_hit_cap d = cap" "s_device_hit_buf d"
    using assms by (auto simp: dring_ok_def)
  define start where "start = s_device_drain_offset d mod cap"
  have start: "start < cap" unfolding start_def using buf(3) by (simp add: word_mod_less_divisor word_gt_0)
  have copies: "\<exists>t. copy_from buf (unat start) (unat first) = Inr t" "\<exists>t. copy_from buf 0 (unat (to_copy - first)) = Inr t"
    if "first = (if to_copy < cap - start then to_copy else cap - start)" "to_copy \<le> k" for first to_copy
  proof -
    have sub: "unat (cap - start) = unat cap - unat start" using start by (simp add: unat_sub less_imp_le)
    have first: "unat first \<le> unat cap - unat start" using that(1) sub by (auto simp: word_less_nat_alt)
    have "unat start < unat cap" using start by (simp add: word_less_nat_alt)
    with first show "\<exists>t. copy_from buf (unat start) (unat first) = Inr t" using buf(2) by (simp add: copy_from_def)
    have "first \<le> to_copy" using that(1) by (auto simp: not_less)
    then have "unat (to_copy - first) \<le> unat to_copy" by (simp add: unat_sub)
    also have "\<dots> \<le> unat cap" using that(2) k by (simp add: word_le_nat_alt)
    finally show "\<exists>t. copy_from buf 0 (unat (to_copy - first)) = Inr t" using buf(2) by (simp add: copy_from_def)
  qed
  define available where "available = (if g_hit_write_idx d \<ge> s_device_drain_offset d then g_hit_write_idx d - s_device_drain_offset d
    else 0xFFFFFFFF - s_device_drain_offset d + 1 + g_hit_write_idx d)"
  define to_copy where "to_copy = (if available > k then k else available)"
  define first where "first = (if to_copy < cap - start then to_copy else cap - start)"
  have "to_copy \<le> k" by (auto simp: to_copy_def not_less)
  from copies [OF first_def this] obtain t1 t2 where t: "copy_from buf (unat start) (unat first) = Inr t1"
    "copy_from buf 0 (unat (to_copy - first)) = Inr t2" by blast
  have "drainDeviceHits k d = (if available = 0 then Inr (True, [], d)
      else case (if first > 0 then copy_from buf (unat start) (unat first) else Inr []) of
        Inl e \<Rightarrow> Inl e
      | Inr t1 \<Rightarrow> (case (if first < to_copy then copy_from buf 0 (unat (to_copy - first)) else Inr []) of
          Inl e \<Rightarrow> Inl e
        | Inr t2 \<Rightarrow> Inr (True, t1 @ t2, d\<lparr>s_device_drain_offset := s_device_drain_offset d + to_copy\<rparr>)))"
    unfolding drainDeviceHits_def Let_def buffer_contents_def buf(1,4) device_buffer.case available_def to_copy_def first_def start_def
    by (simp only: buf(3,5) not_True_eq_False simp_thms if_False)
  then show "\<exists>hits d'. drainDeviceHits k d = Inr (True, hits, d') \<and> dring_ok cap d'"
    using assms by (auto simp: t)
qed

section \<open>Phases and the ring\<close>

lemma on_miner_frame [simp]:
  "lp_ring (on_miner f st) = lp_ring st" "lp_knobs (on_miner f st) = lp_knobs st" "lp_reg (on_miner f st) = lp_reg st"
  "lp_jobs (on_miner f st) = lp_jobs st" "lp_miner (on_miner f st) = f (lp_miner st)" "lp_gbt (on_miner f st) = lp_gbt st"
  "lp_nonce_base (on_miner f st) = lp_nonce_base st"
  by (simp_all add: on_miner_def)

lemma on_metrics_frame [simp]:
  "lp_ring (on_metrics g st) = lp_ring st" "lp_knobs (on_metrics g st) = lp_knobs st" "lp_reg (on_metrics g st) = lp_reg st"
  "lp_jobs (on_metrics g st) = lp_jobs st" "lp_miner (on_metrics g st) = lp_miner st"
  "lp_nonce_base (on_metrics g st) = lp_nonce_base st"
  by (simp_all add: on_metrics_def)

lemma on_files_frame [simp]:
  "lp_ring (on_files g st) = lp_ring st" "lp_knobs (on_files g st) = lp_knobs st" "lp_reg (on_files g st) = lp_reg st"
  "lp_jobs (on_files g st) = lp_jobs st" "lp_nonce_base (on_files g st) = lp_nonce_base st"
  by (simp_all add: on_files_def)

lemma poll_phase_frame:
  "poll_phase st = Inr st' \<Longrightarrow> lp_ring st' = lp_ring st \<and> lp_knobs st' = lp_knobs st \<and> lp_jobs st' = lp_jobs st \<and>
    lp_nonce_base st' = lp_nonce_base st"
  by (auto simp: poll_phase_def Let_def split: sum.splits prod.splits)

lemma generation_phase_frame [simp]:
  "lp_ring (generation_phase E st) = lp_ring st" "lp_knobs (generation_phase E st) = lp_knobs st"
  "lp_reg (generation_phase E st) = lp_reg st" "lp_jobs (generation_phase E st) = lp_jobs st"
  "lp_nonce_base (generation_phase E st) = lp_nonce_base st"
  by (simp_all add: generation_phase_def split: prod.split)

lemma tuning_ring: "dring_ok cap (lp_ring (tuning_phase E ob st)) = dring_ok cap (lp_ring st)"
  by (simp add: tuning_phase_def flush_phase_def readAndResetBlockFlushCount_def readAndResetSmFlushCounts_def Let_def
      split: prod.split option.split)

lemma ledger_phase_frame [simp]: "lp_ring (ledger_phase E ob snaps st) = lp_ring st"
  by (simp add: ledger_phase_def Let_def split: prod.split)

lemma command_phase_frame [simp]: "lp_ring (command_phase E ob st) = lp_ring st"
  by (simp add: command_phase_def Let_def split: list.split prod.split)

lemma metrics_phase_frame [simp]: "lp_ring (metrics_phase E ob st) = lp_ring st"
  by (simp add: metrics_phase_def write_metrics_def Let_def split: prod.split)

lemma launch_ring: "launch_phase E ob ids snaps st = Inr st' \<Longrightarrow> dring_ok cap (lp_ring st) \<Longrightarrow> dring_ok cap (lp_ring st')"
  by (auto simp: launch_phase_def Let_def split: sum.splits dest: run_launch_ring)

lemma main_next_ring:
  assumes "main_next E ob (p, st) = Inr (p', st')" and "dring_ok cap (lp_ring st)"
  shows "dring_ok cap (lp_ring st')"
proof (cases p)
  case At_poll
  then show ?thesis using assms poll_phase_frame [of st] by (auto simp: main_next_def split: sum.splits)
next
  case (At_hits snaps)
  then show ?thesis using assms drain_ring(1) [OF assms(2)] by (auto simp: main_next_def Let_def split: if_splits sum.splits)
qed (use assms in \<open>auto simp: main_next_def tuning_ring dest: launch_ring split: sum.splits list.splits prod.splits\<close>)

interpretation device_run: step_system "thread_step E" "\<lambda>c. dring_ok cap (lp_ring (snd c))" for E cap
  by unfold_locales (erule thread_step.cases, auto intro: main_next_ring)

lemma build_jobs_length [simp]: "length (build_jobs ids snaps) = length ids"
  by (simp add: build_jobs_def)

text \<open>The table of jobs that a launch of the active set finds on the device.\<close>

lemma upload_active:
  assumes "ids \<noteq> []" and "length ids < 2 ^ 32" and "js = build_jobs ids snaps"
  shows "\<exists>e'. uploadDeviceJobs js (of_nat (length js)) e = (True, e') \<and> g_jobs e' = Some js \<and>
    (\<forall>j < of_nat (length js). \<exists>J. job_at e' j = Inr J)"
proof -
  let ?n = "of_nat (length js) :: u32"
  have len: "length js < 2 ^ 32" "js \<noteq> []" using assms by (auto simp: build_jobs_def)
  then have n: "unat ?n = length js" by (simp add: unat_of_nat)
  then have "?n \<noteq> 0" using len(2) by (metis length_0_conv unat_0)
  then obtain e' where e': "uploadDeviceJobs js ?n e = (True, e')" by (simp add: uploadDeviceJobs_def Let_def)
  from uploaded [OF this] n show ?thesis by (intro exI [of _ e']) (simp add: e')
qed

section \<open>The start\<close>

definition no_jobs :: device_jobs where
  "no_jobs = \<lparr>g_jobs = None, g_jobs_const = replicate 64 (device_job default_snapshot), g_jobs_const_size = 0, g_num_jobs = 0\<rparr>"

definition start_ring :: "(nat \<Rightarrow> HitRecord) \<Rightarrow> CudaCfg \<Rightarrow> device_ring" where
  "start_ring garbage cfg =
     (let cap = cc_hit_ring_capacity cfg; cap = (if sint cap < 1 then 1 else cap)
      in initDeviceHitBuffer garbage cap device_ring_start)"

definition memory_gauges :: "(u64 \<times> u64) option \<Rightarrow> MetricsRegistry \<Rightarrow> MetricsRegistry" where
  "memory_gauges mem r =
     (case mem of
        None \<Rightarrow> r
      | Some (free_b, total_b) \<Rightarrow>
          setGauge ''cuda.mem_total_mb'' (total_b div 1024 div 1024) (setGauge ''cuda.mem_free_mb'' (free_b div 1024 div 1024) r))"

text \<open>\<^verbatim>\<open>main\<close> in its configured mode up to the loop: \<open>auto\<close> is the environment variable for the automatic
  submission, \<open>mem\<close> what the device reports of its memory.\<close>

definition loop_start :: "(string \<Rightarrow> 'j option) \<Rightarrow> 'j json_lib \<Rightarrow> (nat \<Rightarrow> HitRecord) \<Rightarrow> string option \<Rightarrow> (u64 \<times> u64) option \<Rightarrow>
    AppConfig \<Rightarrow> Clock \<Rightarrow> file_system \<Rightarrow> Loop result" where
  "loop_start parse J garbage auto mem cfg ck fs =
     (case registry_new (num_slots cfg) of
        Inl e \<Rightarrow> Inl e
      | Inr reg \<Rightarrow>
          let m = miner_setup cfg ck fs;
              mcfg = ac_metrics cfg;
              opened = (if mc_enable_file mcfg then open_append (mn_files m) (mc_file_path mcfg) else None);
              m = (case opened of None \<Rightarrow> m | Some fs \<Rightarrow> m\<lparr>mn_files := fs\<rparr>)
          in Inr \<lparr>lp_hits = \<lparr>ht_miner = m, ht_metrics = memory_gauges mem metrics_new, ht_posted = []\<rparr>,
               lp_reg = reg, lp_gbt = fst (snd (setup_sources False cfg)),
               lp_pressure = pressure_new (scheduler_setup cfg),
               lp_operator = \<lparr>op_last_gen = 0, op_last_ntime_hex = [], op_auto = parse_auto_submit auto\<rparr>,
               lp_input = [], lp_jobs = no_jobs, lp_ring = start_ring garbage (ac_cuda cfg),
               lp_knobs = start_tuning parse J (mn_files m) (ac_cuda cfg), lp_nonce_base = 0, lp_last_save = 0,
               lp_ledger = Map.empty, lp_last_snapshot = 0, lp_ledger_rotate = 0, lp_last_metrics = 0,
               lp_metrics_file = (opened \<noteq> None), lp_metrics_rotate = 0\<rparr>)"

lemma new_runner_ok: "sa_q a = [] \<Longrightarrow> sa_state a = kDisconnected \<Longrightarrow> sa_extranonce2_size a = 0 \<Longrightarrow>
    queue_ok (runner_new a cb) \<and> silent (runner_new a cb)"
  by (simp add: queue_ok_def silent_def runner_new_def)

lemma stratum_source_ok: "sources_ok [stratum_source p]"
proof -
  have "sa_q (apply_policy_cfg po (stratum_adapter_new x)) = [] \<and> sa_state (apply_policy_cfg po (stratum_adapter_new x)) = kDisconnected \<and>
      sa_extranonce2_size (apply_policy_cfg po (stratum_adapter_new x)) = 0" for po x
    by (simp add: apply_policy_cfg_def Let_def stratum_adapter_new_def setCleanJobs_def forceCleanJobs_def setVersionMask_def
        setNtimeCaps_def updateVarDiff_def split: option.split)
  then show ?thesis by (auto simp: sources_ok_def stratum_source_def Let_def default_source_def new_runner_ok)
qed

lemma gbt_runner_new_ok: "gbt_ok (Some (gr_adapter (gbt_runner_new new_gbt_adapter p)))"
  by (simp add: gbt_runner_new_def gbt_ok_def new_gbt_adapter_def Let_def split: option.split)

lemma init_sources_ok:
  "init_sources ps gbt subm = (srcs, g, s) \<Longrightarrow> gbt_ok (map_option gr_adapter gbt) \<Longrightarrow>
   sources_ok srcs \<and> gbt_ok (map_option gr_adapter g) \<and> length srcs = length ps"
proof (induction ps arbitrary: gbt subm srcs)
  case (Cons p ps)
  have cons: "sources_ok (x # xs) \<longleftrightarrow> sources_ok [x] \<and> sources_ok xs" for x xs by (simp add: sources_ok_def)
  define g1 where "g1 = (if pe_profile p = ''gbt'' then case gbt of Some g \<Rightarrow> Some g | None \<Rightarrow> Some (gbt_runner_new new_gbt_adapter p) else gbt)"
  have g1: "gbt_ok (map_option gr_adapter g1)"
    using Cons.prems(2) gbt_runner_new_ok [of p] by (auto simp: g1_def split: option.split)
  have "\<exists>x subm' srcs'. sources_ok [x] \<and> init_sources ps g1 subm' = (srcs', g, s) \<and> srcs = x # srcs'"
  proof (cases "pe_profile p = ''gbt''")
    case True
    have "sources_ok [default_source\<lparr>si_kind := Gbt_source, si_gbt := True\<rparr>]" by (simp add: sources_ok_def default_source_def)
    then show ?thesis using True Cons.prems(1) by (cases gbt) (auto simp: g1_def split: prod.splits)
  next
    case False
    then show ?thesis using stratum_source_ok [of p] Cons.prems(1) by (auto simp: g1_def split: prod.splits)
  qed
  then obtain x subm' srcs' where x: "sources_ok [x]" "init_sources ps g1 subm' = (srcs', g, s)" "srcs = x # srcs'" by blast
  from Cons.IH [OF x(2) g1] x(1,3) show ?case by (simp add: cons [of x srcs'])
qed (simp add: sources_ok_def)

lemma setup_ok:
  assumes "setup_sources False cfg = (srcs, g, s)"
  shows "sources_ok srcs \<and> gbt_ok (map_option gr_adapter g) \<and> length srcs = num_slots cfg"
proof -
  obtain xs where xs: "init_sources (ac_pools cfg) None None = (xs, g, s)" "srcs = xs @ replicate (num_slots cfg - length xs) default_source"
    using assms by (auto simp: setup_sources_def split: prod.splits)
  from init_sources_ok [OF xs(1)] show ?thesis using xs(2)
    by (auto simp: gbt_ok_def sources_ok_def default_source_def num_slots_def)
qed

lemma startup_outbox_ok:
  assumes "miner_ok n m" and "sr_outbox (mn_router m) = Some outbox_new"
  shows "miner_ok n (startup_outbox cfg ck m)"
proof (cases "oc_rotate_on_start cfg")
  case True
  obtain fs l where "rotate_outbox_if_needed cfg ck True m = m\<lparr>mn_files := fs, mn_last_rotate := l\<rparr>" using rotate_frame by blast
  then show ?thesis using True assms(1) by (simp add: startup_outbox_def)
next
  case False
  then show ?thesis using assms loadFromFile_ok [OF outbox_new_ok]
    by (simp add: startup_outbox_def set_outbox_def miner_ok_def router_ok_loop_def)
qed

lemma replay_ok: "miner_ok n m \<Longrightarrow> miner_ok n (replay_loop cfg ck k m)"
proof (induction k arbitrary: m)
  case (Suc k)
  obtain ob where ob: "sr_outbox (mn_router m) = Some ob" "outbox_ok ob" using Suc.prems by (auto simp: miner_ok_def router_ok_loop_def)
  show ?case
  proof (cases "ob_q ob")
    case Nil
    then show ?thesis using ob Suc.prems by (simp add: tryDequeue_def)
  next
    case (Cons s q)
    let ?rec = "\<lparr>sh_work_id = ps_work_id s, sh_nonce = ps_nonce s, sh_header80 = ps_header80 s\<rparr>"
    let ?m = "set_outbox (ob\<lparr>ob_q := q\<rparr>) m"
    let ?r = "snd (routeRaw (mn_router ?m) ?rec)"
    have q: "outbox_ok (ob\<lparr>ob_q := q\<rparr>)" "80 \<le> length (ps_header80 s)"
      using tryDequeue_ok [OF ob(2)] ob(2) Cons by (auto simp: tryDequeue_def outbox_ok_def valid_record_def)
    then have "router_ok_loop ?r"
      using router_enqueue_ok [of "mn_router ?m" "ob\<lparr>ob_q := q\<rparr>" ?rec] Suc.prems
      by (auto simp: routeRaw_def Let_def router_ok_loop_def set_outbox_def miner_ok_def router_call_cb_def)
    then have "miner_ok n (?m\<lparr>mn_router := ?r\<rparr>)" using Suc.prems by (simp add: miner_ok_def set_outbox_def)
    then have "miner_ok n (run_callbacks cfg ck ?r ?m)" by (simp add: run_callbacks_def callbacks_ok)
    from Suc.IH [OF this] show ?thesis using ob(1) Cons by (simp add: tryDequeue_def Let_def)
  qed
qed simp

lemma miner_setup_ok: "miner_ok (num_slots cfg) (miner_setup cfg ck fs)"
proof -
  obtain srcs g s where su: "setup_sources False cfg = (srcs, g, s)" by (cases "setup_sources False cfg")
  let ?m = "\<lparr>mn_sources = srcs, mn_w2s = Map.empty, mn_files = fs, mn_last_rotate = 0,
            mn_sent = [], mn_router = \<lparr>sr_has_cb = True, sr_calls = [], sr_outbox = Some outbox_new\<rparr>\<rparr>"
  have "miner_ok (num_slots cfg) ?m" using setup_ok [OF su] by (simp add: miner_ok_def router_ok_loop_def outbox_new_ok)
  then have "miner_ok (num_slots cfg) (startup_outbox (ac_outbox cfg) ck ?m)" by (rule startup_outbox_ok) simp
  then show ?thesis by (simp add: miner_setup_def Let_def su replay_pending_def replay_ok)
qed

lemma loop_start_ok:
  assumes "loop_start parse J garbage auto mem cfg ck fs = Inr st0"
    and "0 < fst (lp_knobs st0)" and "fst (lp_knobs st0) \<le> 1024"
  shows "loop_ok (num_slots cfg) st0" and "dring_ok (let c = cc_hit_ring_capacity (ac_cuda cfg) in if sint c < 1 then 1 else c) (lp_ring st0)"
proof -
  obtain srcs g s where su: "setup_sources False cfg = (srcs, g, s)" by (cases "setup_sources False cfg")
  have pos: "0 < num_slots cfg" by (simp add: num_slots_def)
  then have reg: "registry_new (num_slots cfg) = Inr (replicate (num_slots cfg) default_slot)" by (simp add: registry_new_def)
  have st0: "lp_reg st0 = replicate (num_slots cfg) default_slot" "lp_gbt st0 = g" "lp_pressure st0 = pressure_new (scheduler_setup cfg)"
    "lp_ledger st0 = Map.empty" "lp_ring st0 = start_ring garbage (ac_cuda cfg)"
    "miner_ok (num_slots cfg) (lp_miner st0)"
    using assms(1) miner_setup_ok [of cfg ck fs] by (auto simp: loop_start_def reg Let_def su split: option.split)
  moreover have "penalties_ok (pressure_new (scheduler_setup cfg))" by (simp add: penalties_ok_def pressure_new_def)
  ultimately show "loop_ok (num_slots cfg) st0"
    using pos setup_ok [OF su] assms(2,3)
    by (auto simp: loop_ok_def slots_ok_def default_slot_ok)
  show "dring_ok (let c = cc_hit_ring_capacity (ac_cuda cfg) in if sint c < 1 then 1 else c) (lp_ring st0)"
    by (auto simp: st0(5) start_ring_def Let_def initDeviceHitBuffer_def kernel_init_hit_buf_def dring_ok_def)
qed

lemma reachable_ok:
  assumes "loop_start parse J garbage auto mem cfg ck fs = Inr st0"
    and "0 < fst (lp_knobs st0)" and "fst (lp_knobs st0) \<le> 1024" and "thread_reachable E st0 (p, st)"
  shows "point_ok (num_slots cfg) p" and "loop_ok (num_slots cfg) st"
    and "dring_ok (let c = cc_hit_ring_capacity (ac_cuda cfg) in if sint c < 1 then 1 else c) (lp_ring st)"
proof -
  have "threads_ok (num_slots cfg) (At_poll, st0)" using loop_start_ok(1) [OF assms(1-3)] by (simp add: threads_ok_def)
  from main.inv_reachable [OF assms(4) [unfolded thread_reachable_def] this]
  show "point_ok (num_slots cfg) p" "loop_ok (num_slots cfg) st" by (simp_all add: threads_ok_def)
  show "dring_ok (let c = cc_hit_ring_capacity (ac_cuda cfg) in if sint c < 1 then 1 else c) (lp_ring st)"
    using device_run.inv_reachable [OF assms(4) [unfolded thread_reachable_def]] loop_start_ok(2) [OF assms(1-3)] by simp
qed

section \<open>The way of a notification\<close>

text \<open>What a notification's inputs become.\<close>

lemma normalize_members:
  "normalizeJob inp = Inr (Some n) \<Longrightarrow>
    wi_work_id (nr_item n) = job_work_id (in_job inp) \<and> wi_version (nr_item n) = job_version (in_job inp) \<and>
    wi_nbits (nr_item n) = job_nbits (in_job inp) \<and> wi_ntime (nr_item n) = job_ntime (in_job inp) \<and>
    wi_prevhash_le (nr_item n) = be32BytesToLeU32Words (in_prevhash_be inp) \<and>
    wi_merkle_root_le (nr_item n) = be32BytesToLeU32Words (in_merkle_root_be inp)"
  by (auto simp: normalizeJob_def Let_def split: sum.splits)

lemma line_is_notify:
  assumes "se_parse E line = Some j" and "\<not> j_contains (se_json E) j ''result''" and "\<not> id_is (se_json E) j 3"
    and "j_contains (se_json E) j ''method''"
    and "Option.bind (j_field (se_json E) j ''method'') (j_string (se_json E)) = Some ''mining.notify''"
  shows "on_line E now line r = on_notify E j r"
  using assms by (simp add: on_line_def Let_def)

text \<open>A well-formed notification puts one job into the queue of its source, and calls nothing back.\<close>

lemma notify_event:
  assumes "si_stratum (mn_sources m ! k) = Some r" and "k < length (mn_sources m)" and "S = le_stratum E" and "L = se_json S"
    and "se_parse S line = Some j" and "\<not> j_contains L j ''result''" and "\<not> id_is L j 3"
    and "j_contains L j ''method''" and "Option.bind (j_field L j ''method'') (j_string L) = Some ''mining.notify''"
    and "j_field L j ''params'' = Some params" and "Option.bind (j_item L params 0) (j_string L) = Some job_id"
    and "read_notify L params = Some f" and "notify_inputs S (r\<lparr>rn_last_job_id := job_id\<rparr>) job_id f = Inr i"
    and "compact_safe (job_nbits (in_job i))" and "in_share_nbits i = 0" and "compact_safe (policy_share_nbits (rn_adapter r))"
  shows "\<exists>m' r' n. source_event E k (Received now line) m = Inr m' \<and>
    mn_sources m' ! k = (mn_sources m ! k)\<lparr>si_stratum := Some r'\<rparr> \<and> sa_q (rn_adapter r') = sa_q (rn_adapter r) @ [n] \<and>
    normalizeJob (apply_policy (setCleanJobs (rn_adapter r) (nf_clean f)) i) = Inr (Some n)"
proof -
  note J = assms(5-12) [unfolded assms(4)]
  from on_notify_queues [OF J(6-8) assms(13-16)] obtain n r' where
    n: "on_notify S j r = Inr r'" "sa_q (rn_adapter r') = sa_q (rn_adapter r) @ [n]"
    "normalizeJob (apply_policy (setCleanJobs (rn_adapter r) (nf_clean f)) i) = Inr (Some n)" by force
  have step: "runner_step S (Received now line) r = Inr r'" using line_is_notify [OF J(1-5), of now r] n(1) by simp
  have calls: "mn_sources (fold (\<lambda>(wid, nonce). accepted_callback c wid nonce) xs x) = mn_sources x" for c xs x
    by (induction xs arbitrary: x) (auto simp: accepted_callback_def Let_def split: option.split)
  show ?thesis using step assms(1-3) n(2,3) by (auto simp: source_event_def Let_def calls)
qed

text \<open>After a poll, the slot of a source holds the last job that waited there.\<close>

lemma poll_phase_slot:
  assumes "loop_ok n st" and "poll_phase st = Inr st'" and "k < n"
    and "si_kind (mn_sources (lp_miner st) ! k) = Stratum_source" and "si_stratum (mn_sources (lp_miner st) ! k) = Some r"
    and "sa_q (rn_adapter r) = q @ [nr]"
  shows "snap_item (slot_snapshot (lp_reg st' ! k)) = stamp_item k nr" and "length (lp_reg st') = n"
proof -
  let ?m = "lp_miner st" and ?g = "map_option gr_adapter (lp_gbt st)"
  let ?ops = "poll_ops 0 (mn_sources ?m) ?g"
  have len: "length (mn_sources ?m) = n" "length (lp_reg st) = n" using assms(1) by (simp_all add: loop_ok_def miner_ok_def)
  have reg: "publish_all registry_set (lp_reg st) ?ops = Inr (lp_reg st')"
    using poll_sources_eq [of 0 "mn_sources ?m" ?g "lp_reg st" "mn_w2s ?m"] assms(2)
    by (cases "publish_all registry_set (lp_reg st) ?ops") (auto simp: poll_phase_def Let_def)
  have ops: "filter (\<lambda>op. fst op = k) ?ops = job_ops k (q @ [nr])"
    using poll_ops_slot [of k "mn_sources ?m" r 0 ?g] assms(3-6) len by simp
  have old: "registry_get (lp_reg st) k = Some (slot_snapshot (lp_reg st ! k))" using assms(3) len by (simp add: registry_get_snapshot)
  show l: "length (lp_reg st') = n" using registry.publish_all_size [OF reg] len by simp
  from registry.publish_all_gen [OF reg old] show "snap_item (slot_snapshot (lp_reg st' ! k)) = stamp_item k nr"
    using l assms(3) by (auto simp: ops registry_get_snapshot job_ops_def)
qed

text \<open>The job that an active slot gets in the table: the one of the first active slot with its work id.\<close>

lemma find_filter: "find Q (filter A xs) = find (\<lambda>x. A x \<and> Q x) xs"
  by (induction xs) auto

lemma find_map: "find Q (map f xs) = map_option f (find (Q \<circ> f) xs)"
  by (induction xs) auto

lemma slot_is_launched:
  assumes "k < length reg" and "wi_active (slot_item (reg ! k))" and "jobs = (case active_set reg of (ids, snaps) \<Rightarrow> build_jobs ids snaps)"
    and "p = length (filter (\<lambda>s. wi_active (slot_item s)) (take k reg))" and "wid = wi_work_id (slot_item (reg ! k))"
  shows "p < length jobs \<and> (\<exists>i \<le> k. wi_active (slot_item (reg ! i)) \<and> wi_work_id (slot_item (reg ! i)) = wid \<and>
    (\<forall>l < i. wi_active (slot_item (reg ! l)) \<longrightarrow> wi_work_id (slot_item (reg ! l)) \<noteq> wid) \<and>
    jobs ! p = device_job (slot_snapshot (reg ! i)))"
proof -
  let ?A = "\<lambda>s. wi_active (slot_item s)" and ?Q = "\<lambda>s. wi_active (slot_item s) \<and> wi_work_id (slot_item s) = wid"
  have act: "active_snapshots reg = map slot_snapshot (filter ?A reg)"
    by (simp add: active_snapshots_def filter_map comp_def slot_snapshot_def)
  have "filter ?A reg = filter ?A (take k reg) @ reg ! k # filter ?A (drop (Suc k) reg)"
    using assms(1,2) by (metis filter.simps(2) filter_append id_take_nth_drop)
  then have p: "p < length (filter ?A reg)" "filter ?A reg ! p = reg ! k" by (simp_all add: assms(4) nth_append)
  have found: "find (\<lambda>s. snap_id s = wid) (active_snapshots reg) = map_option slot_snapshot (find ?Q reg)"
    by (simp add: act find_map find_filter comp_def snap_id_def slot_snapshot_def)
  have "\<exists>x \<in> set reg. ?Q x" using assms(1,2,5) by auto
  then obtain s where s: "find ?Q reg = Some s" by (cases "find ?Q reg") (auto simp: find_None_iff)
  then obtain i where i: "i < length reg" "?Q (reg ! i)" "s = reg ! i" "\<forall>l < i. \<not> ?Q (reg ! l)" by (auto simp: find_Some_iff)
  have "\<not> k < i" using i(4) assms(2,5) by blast
  then have "i \<le> k" by simp
  moreover have "p < length jobs" "jobs ! p = device_job (slot_snapshot (reg ! i))"
    using p found s i(3) by (simp_all add: assms(3,5) active_set_eq build_jobs_def act snap_id_def slot_snapshot_def)
  ultimately show ?thesis using i by blast
qed

section \<open>Properties\<close>

text \<open>C4: what holds in every state the program reaches. From its start in the configured mode, with a
  number of threads in the range of the tuner, at every program point of the main thread and for any
  interleaving of its phases with events of the sources, polls of the node and typed lines: there are
  as many slots as sources, so polling never fails; an active slot holds a well-formed item that names
  the slot as its source; every known work id belongs to an existing source; the queue of pending
  submissions is sound and every penalty and the number of threads stay in their ranges. Replies
  of the pools are counted, but no acceptance callback runs and no latency is measured.\<close>

theorem main_invariant:
  assumes "loop_start parse J garbage auto mem cfg ck fs = Inr st0"
    and "0 < fst (lp_knobs st0)" and "fst (lp_knobs st0) \<le> 1024" and "thread_reachable E st0 (p, st)"
  shows "length (mn_sources (lp_miner st)) = num_slots cfg \<and> length (lp_reg st) = num_slots cfg \<and>
    (\<exists>st'. poll_phase st = Inr st') \<and>
    (\<forall>i snap. registry_get (lp_reg st) i = Some snap \<and> wi_active (snap_item snap) \<longrightarrow>
       wi_source_id (snap_item snap) = of_nat i \<and> item_ok (snap_item snap)) \<and>
    (\<forall>w sid. mn_w2s (lp_miner st) w = Some sid \<longrightarrow> unat sid < num_slots cfg) \<and>
    (\<exists>ob. sr_outbox (mn_router (lp_miner st)) = Some ob \<and> outbox_ok ob) \<and>
    (\<forall>k. 0 \<le> lookup0 (bp_penalty (lp_pressure st)) k \<and> lookup0 (bp_penalty (lp_pressure st)) k \<le> 5) \<and>
    0 < fst (lp_knobs st) \<and> fst (lp_knobs st) \<le> 1024 \<and>
    (\<forall>src \<in> set (mn_sources (lp_miner st)). \<forall>r. si_stratum src = Some r \<longrightarrow> rn_calls r = [] \<and> rn_avg_ms r = 0)"
proof -
  have ok: "loop_ok (num_slots cfg) st"
    by (rule reachable_ok [OF assms(1-4)])
  then have parts: "miner_ok (num_slots cfg) (lp_miner st)" "length (lp_reg st) = num_slots cfg" "slots_ok (lp_reg st)"
    "penalties_ok (lp_pressure st)" "0 < fst (lp_knobs st)" "fst (lp_knobs st) \<le> 1024" by (simp_all add: loop_ok_def)
  have "wi_source_id (snap_item snap) = of_nat i \<and> item_ok (snap_item snap)"
    if "registry_get (lp_reg st) i = Some snap" "wi_active (snap_item snap)" for i snap
    using that parts(3) by (auto simp: registry_get_def slots_ok_def slot_ok_def Let_def split: if_splits)
  then show ?thesis using parts poll_phase_ok [OF ok] lookup0_ok [OF parts(4)]
    by (auto simp: miner_ok_def router_ok_loop_def sources_ok_def silent_def)
qed

lemma replay_nothing: "sr_outbox (mn_router m) = Some ob \<Longrightarrow> ob_q ob = [] \<Longrightarrow> replay_loop cfg ck n m = m"
  by (cases n) (simp_all add: tryDequeue_def)

text \<open>Without any files the program starts with the configured values.\<close>

lemma fresh_start:
  assumes "\<not> oc_rotate_on_start (ac_outbox cfg)" and "\<not> mc_enable_file (ac_metrics cfg)" and "fs_files fs = Map.empty"
  obtains st0 where "loop_start parse J garbage auto mem cfg ck fs = Inr st0"
    and "lp_knobs st0 = (max 1 (sint (cc_desired_threads_per_job (ac_cuda cfg))),
      if sint (cc_nonces_per_thread (ac_cuda cfg)) \<ge> 1 then cc_nonces_per_thread (ac_cuda cfg) else 1)"
    and "mn_sources (lp_miner st0) = fst (setup_sources False cfg)"
    and "lp_reg st0 = replicate (num_slots cfg) default_slot"
proof -
  let ?m = "\<lparr>mn_sources = fst (setup_sources False cfg), mn_w2s = Map.empty, mn_files = fs, mn_last_rotate = 0,
            mn_sent = [], mn_router = \<lparr>sr_has_cb = True, sr_calls = [], sr_outbox = Some outbox_new\<rparr>\<rparr>"
  have "startup_outbox (ac_outbox cfg) ck ?m = ?m" using assms(1,3) by (simp add: startup_outbox_def set_outbox_def loadFromFile_def)
  moreover have "replay_loop (ac_outbox cfg) ck 128 ?m = ?m" by (rule replay_nothing [of _ outbox_new]) (simp_all add: outbox_new_def)
  ultimately have m: "miner_setup cfg ck fs = ?m" by (simp add: miner_setup_def Let_def replay_pending_def)
  have "0 < num_slots cfg" by (simp add: num_slots_def)
  then have "\<exists>st0. loop_start parse J garbage auto mem cfg ck fs = Inr st0 \<and>
      lp_knobs st0 = start_tuning parse J fs (ac_cuda cfg) \<and> lp_miner st0 = ?m \<and> lp_reg st0 = replicate (num_slots cfg) default_slot"
    using assms(2) by (simp add: loop_start_def registry_new_def m Let_def)
  then show ?thesis using that assms(3) by (auto simp: start_tuning_def loadTuningProfile_def)
qed

definition sample_config :: AppConfig where
  "sample_config = default_config\<lparr>ac_pools := [default_pool\<lparr>pe_endpoints := [\<lparr>ep_host = ''h'', ep_port = 1, ep_use_tls = False\<rparr>]\<rparr>]\<rparr>"

definition sample_loop_env :: "json loop_env" where
  "sample_loop_env = \<lparr>le_app = sample_config, le_user = ''u'', le_stratum = sample_env ''x'' (sample_notify ''1d00ffff'' []),
     le_call = (\<lambda>m p. None), le_rpc = (\<lambda>b. False), le_dump = (\<lambda>j. []), le_use_gbt = False, le_router = True, le_submitter = None\<rparr>"

definition sample_clock :: Clock where
  "sample_clock = \<lparr>ck_ms = 5, ck_epoch = 6\<rparr>"

definition sample_observation :: observation where
  "sample_observation = \<lparr>ob_bp_ms = 3000, ob_launch = \<lparr>ls_order = grid_order 1 1 64, ls_blocks = [], ls_garbage = (\<lambda>i. no_hit)\<rparr>,
     ob_kernel_ms = 4, ob_occupancy = None, ob_attrs = None, ob_khs = 0, ob_save_ms = 3000, ob_hits_clock = sample_clock,
     ob_ledger_ms = 6000, ob_snap_order = [], ob_ledger_order = [], ob_ledger_clock = sample_clock,
     ob_command_clock = sample_clock, ob_metrics_ms = 6000, ob_metrics_clock = sample_clock\<rparr>"

lemma sample_start:
  obtains st0 where "loop_start (\<lambda>s. None) json_model (\<lambda>i. no_hit) None None sample_config sample_clock sample_fs = Inr st0"
    and "lp_knobs st0 = (256, 1)" and "mn_sources (lp_miner st0) = fst (setup_sources False sample_config)"
    and "lp_reg st0 = [default_slot]"
proof -
  have cfg: "sint (cc_desired_threads_per_job (ac_cuda sample_config)) = 256" "cc_nonces_per_thread (ac_cuda sample_config) = 1"
    "num_slots sample_config = 1" "\<not> oc_rotate_on_start (ac_outbox sample_config)" "\<not> mc_enable_file (ac_metrics sample_config)"
    by (simp_all add: sample_config_def default_config_def num_slots_def)
  have "fs_files sample_fs = Map.empty" by (simp add: sample_fs_def)
  then obtain st0 where "loop_start (\<lambda>s. None) json_model (\<lambda>i. no_hit) None None sample_config sample_clock sample_fs = Inr st0"
    "lp_knobs st0 = (max 1 (sint (cc_desired_threads_per_job (ac_cuda sample_config))),
      if sint (cc_nonces_per_thread (ac_cuda sample_config)) \<ge> 1 then cc_nonces_per_thread (ac_cuda sample_config) else 1)"
    "mn_sources (lp_miner st0) = fst (setup_sources False sample_config)"
    "lp_reg st0 = replicate (num_slots sample_config) default_slot"
    by (rule fresh_start [OF cfg(4,5)])
  then show ?thesis using that [of st0] by (simp add: cfg)
qed

theorem main_invariant_witness:
  "\<exists>st0. loop_start (\<lambda>s. None) json_model (\<lambda>i. no_hit) None None sample_config sample_clock sample_fs = Inr st0 \<and>
    length (lp_reg st0) = num_slots sample_config \<and> (\<exists>st'. poll_phase st0 = Inr st')"
proof -
  obtain st0 where st0: "loop_start (\<lambda>s. None) json_model (\<lambda>i. no_hit) None None sample_config sample_clock sample_fs = Inr st0"
    "lp_knobs st0 = (256, 1)" by (rule sample_start)
  then show ?thesis using main_invariant [OF st0(1), of sample_loop_env At_poll st0] by (simp add: thread_reachable_def)
qed

text \<open>C3: a notification reaches the registry and the device. In every state reachable at the head of the loop, when a
  line with a well-formed \<^verbatim>\<open>mining.notify\<close> arrives at the runner of a Stratum source, the runner takes it and
  the next poll succeeds. The slot of the source then holds the notification's job, active and under the slot's
  number, with its id, version, time, target bits, previous hash and the Merkle root of the coinbase and the
  branch. The table of jobs then uploaded to the device has an entry for the slot, after those of the active
  slots before it. The entry is made from the first active slot with the job's work id: when no earlier
  active slot has the same id, it is the notification's job, otherwise the job of the earlier slot.\<close>

theorem notification_reaches_device:
  assumes "loop_start parse J garbage auto mem cfg ck fs = Inr st0"
    and "0 < fst (lp_knobs st0)" and "fst (lp_knobs st0) \<le> 1024" and "thread_reachable E st0 (At_poll, st)"
    and "k < num_slots cfg" and "si_kind (mn_sources (lp_miner st) ! k) = Stratum_source"
    and "si_stratum (mn_sources (lp_miner st) ! k) = Some r"
    and "S = le_stratum E" and "L = se_json S" and "se_parse S line = Some j" and "\<not> j_contains L j ''result''" and "\<not> id_is L j 3"
    and "j_contains L j ''method''" and "Option.bind (j_field L j ''method'') (j_string L) = Some ''mining.notify''"
    and "j_field L j ''params'' = Some params" and "Option.bind (j_item L params 0) (j_string L) = Some job_id"
    and "read_notify L params = Some f"
    and "nf_prevhash f = bytesToHex ph" and "length ph = 32"
    and "nf_coinb1 f = bytesToHex pre" and "nf_coinb2 f = bytesToHex suf"
    and "nf_branch f = map bytesToHex bs" and "txids bs"
    and "compact_safe (nf_nbits f)" and "compact_safe (policy_share_nbits (rn_adapter r))"
    and "mr = compute_merkle_root_be (rev (sha256d (pre @ map of_char (rn_extranonce1 r) @
        replicate (unat (rn_extranonce2_size r)) 0 @ suf)) # bs)" and "wid = se_hash S job_id"
  shows "\<exists>m st1 item i. source_event E k (Received now line) (lp_miner st) = Inr m \<and> poll_phase (on_miner (\<lambda>_. m) st) = Inr st1 \<and>
    length (lp_reg st1) = num_slots cfg \<and> item = slot_item (lp_reg st1 ! k) \<and> wi_source_id item = of_nat k \<and> wi_active item \<and>
    wi_work_id item = wid \<and> wi_version item = nf_version f \<and> wi_ntime item = nf_ntime f \<and> wi_nbits item = nf_nbits f \<and>
    leU32WordsToBe32Bytes (wi_prevhash_le item) = ph \<and> leU32WordsToBe32Bytes (wi_merkle_root_le item) = mr \<and>
    i \<le> k \<and> wi_active (slot_item (lp_reg st1 ! i)) \<and> wi_work_id (slot_item (lp_reg st1 ! i)) = wid \<and>
    (\<forall>l < i. wi_active (slot_item (lp_reg st1 ! l)) \<longrightarrow> wi_work_id (slot_item (lp_reg st1 ! l)) \<noteq> wid) \<and>
    (let jobs = (case active_set (lp_reg st1) of (ids, snaps) \<Rightarrow> build_jobs ids snaps);
         p = length (filter (\<lambda>s. wi_active (slot_item s)) (take k (lp_reg st1)))
     in p < length jobs \<and> jobs ! p = device_job (slot_snapshot (lp_reg st1 ! i)) \<and>
        (i = k \<longrightarrow> dj_work_id (jobs ! p) = wid \<and> dj_version (jobs ! p) = nf_version f \<and> dj_ntime (jobs ! p) = nf_ntime f \<and>
           dj_nbits (jobs ! p) = nf_nbits f \<and> leU32WordsToBe32Bytes (dj_prevhash_le (jobs ! p)) = ph \<and>
           leU32WordsToBe32Bytes (dj_merkle_root_le (jobs ! p)) = mr))"
proof -
  have ok: "loop_ok (num_slots cfg) st"
    by (rule reachable_ok [OF assms(1-4)])
  then have len: "length (mn_sources (lp_miner st)) = num_slots cfg" by (simp add: loop_ok_def miner_ok_def)
  obtain i where i: "notify_inputs S (r\<lparr>rn_last_job_id := job_id\<rparr>) job_id f = Inr i" "in_share_nbits i = 0"
    "in_job i = \<lparr>job_source_name = ''stratum'', job_work_id = se_hash S job_id, job_version = nf_version f,
      job_nbits = nf_nbits f, job_ntime = nf_ntime f\<rparr>" "in_prevhash_be i = ph" "in_merkle_root_be i = mr"
    using assms(18-23,26) by (auto simp: notify_inputs_def Let_def branch_entries_hex hexToBytes_hex scan_bytes_hex coinbase_txid_be_rev
        assembleCoinbaseTx_def)
  have "compact_safe (job_nbits (in_job i))" using i(3) assms(24) by simp
  from notify_event [OF assms(7) _ assms(8-17) i(1) this i(2) assms(25), of now] obtain m r' n where
    m: "source_event E k (Received now line) (lp_miner st) = Inr m" "mn_sources m ! k = (mn_sources (lp_miner st) ! k)\<lparr>si_stratum := Some r'\<rparr>"
    and n: "sa_q (rn_adapter r') = sa_q (rn_adapter r) @ [n]"
      "normalizeJob (apply_policy (setCleanJobs (rn_adapter r) (nf_clean f)) i) = Inr (Some n)"
    using len assms(5) by auto
  from normalize_members [OF n(2)] have item: "wi_work_id (nr_item n) = se_hash S job_id" "wi_version (nr_item n) = nf_version f"
    "wi_nbits (nr_item n) = nf_nbits f" "wi_ntime (nr_item n) = nf_ntime f"
    "wi_prevhash_le (nr_item n) = be32BytesToLeU32Words ph" "wi_merkle_root_le (nr_item n) = be32BytesToLeU32Words mr"
    by (simp_all add: i(3-5))
  have mr: "length mr = 32"
    using txids_merkle_loop [of "rev (sha256d (pre @ map of_char (rn_extranonce1 r) @ replicate (unat (rn_extranonce2_size r)) 0 @ suf)) # bs"]
      assms(23,26) by (auto simp: compute_merkle_root_be_def txids_def)
  have mk: "miner_ok (num_slots cfg) m"
    using source_event_ok [OF m(1), of "num_slots cfg"] ok len assms(5) by (simp add: loop_ok_def)
  let ?st = "on_miner (\<lambda>_. m) st"
  have ok': "loop_ok (num_slots cfg) ?st" using loop_ok_on_miner [OF ok, of "\<lambda>_. m"] mk by simp
  then obtain st1 where st1: "poll_phase ?st = Inr st1" using poll_phase_ok by blast
  have slot: "snap_item (slot_snapshot (lp_reg st1 ! k)) = stamp_item k n" "length (lp_reg st1) = num_slots cfg"
    using poll_phase_slot [OF ok' st1 assms(5), of r' "sa_q (rn_adapter r)" n] m(2) assms(6) n(1) by simp_all
  let ?snap = "slot_snapshot (lp_reg st1 ! k)"
  have item_k: "slot_item (lp_reg st1 ! k) = stamp_item k n" using slot(1) by (simp add: slot_snapshot_def)
  have words: "leU32WordsToBe32Bytes (be32BytesToLeU32Words ph) = ph" "leU32WordsToBe32Bytes (be32BytesToLeU32Words mr) = mr"
    using bytes_of_words assms(19) mr by simp_all
  have fields: "wi_source_id (stamp_item k n) = of_nat k" "wi_active (stamp_item k n)" "wi_work_id (stamp_item k n) = wid"
    "wi_version (stamp_item k n) = nf_version f" "wi_ntime (stamp_item k n) = nf_ntime f" "wi_nbits (stamp_item k n) = nf_nbits f"
    "leU32WordsToBe32Bytes (wi_prevhash_le (stamp_item k n)) = ph" "leU32WordsToBe32Bytes (wi_merkle_root_le (stamp_item k n)) = mr"
    by (simp_all add: stamp_item_def item words assms(27))
  have job: "dj_work_id (device_job ?snap) = wid" "dj_version (device_job ?snap) = nf_version f" "dj_ntime (device_job ?snap) = nf_ntime f"
    "dj_nbits (device_job ?snap) = nf_nbits f" "leU32WordsToBe32Bytes (dj_prevhash_le (device_job ?snap)) = ph"
    "leU32WordsToBe32Bytes (dj_merkle_root_le (device_job ?snap)) = mr"
    using fields by (simp_all add: device_job_def Let_def slot(1))
  obtain i where "i \<le> k" "wi_active (slot_item (lp_reg st1 ! i))" "wi_work_id (slot_item (lp_reg st1 ! i)) = wid"
    "\<forall>l < i. wi_active (slot_item (lp_reg st1 ! l)) \<longrightarrow> wi_work_id (slot_item (lp_reg st1 ! l)) \<noteq> wid"
    "length (filter (\<lambda>s. wi_active (slot_item s)) (take k (lp_reg st1))) < length (case active_set (lp_reg st1) of (ids, snaps) \<Rightarrow> build_jobs ids snaps)"
    "(case active_set (lp_reg st1) of (ids, snaps) \<Rightarrow> build_jobs ids snaps) !
       length (filter (\<lambda>s. wi_active (slot_item s)) (take k (lp_reg st1))) = device_job (slot_snapshot (lp_reg st1 ! i))"
    using slot_is_launched [of k "lp_reg st1", OF _ _ refl refl refl] slot(2) assms(5) fields(2,3) unfolding item_k by auto
  then show ?thesis using m(1) st1 slot(2) fields job
    by (intro exI [of _ m] exI [of _ st1] exI [of _ "stamp_item k n"] exI [of _ i]) (auto simp: Let_def item_k)
qed

theorem notification_reaches_device_witness:
  "\<exists>st0 m st1. loop_start (\<lambda>s. None) json_model (\<lambda>i. no_hit) None None sample_config sample_clock sample_fs = Inr st0 \<and>
    source_event sample_loop_env 0 (Received 9 ''x'') (lp_miner st0) = Inr m \<and> poll_phase (on_miner (\<lambda>_. m) st0) = Inr st1 \<and>
    wi_version (slot_item (lp_reg st1 ! 0)) = 0x20000000 \<and> wi_ntime (slot_item (lp_reg st1 ! 0)) = 0x65000000 \<and>
    dj_work_id ((case active_set (lp_reg st1) of (ids, snaps) \<Rightarrow> build_jobs ids snaps) ! 0) = 2"
proof -
  let ?L = json_model and ?j = "sample_notify ''1d00ffff'' []"
  obtain st0 where st0: "loop_start (\<lambda>s. None) json_model (\<lambda>i. no_hit) None None sample_config sample_clock sample_fs = Inr st0"
    "lp_knobs st0 = (256, 1)" "mn_sources (lp_miner st0) = fst (setup_sources False sample_config)" by (rule sample_start)
  have one: "num_slots sample_config = 1" by (simp add: sample_config_def num_slots_def)
  let ?r = "runner_new (apply_policy_cfg default_policy (stratum_adapter_new ''stratum'')) True"
  have src: "si_kind (mn_sources (lp_miner st0) ! 0) = Stratum_source" "si_stratum (mn_sources (lp_miner st0) ! 0) = Some ?r"
    by (simp_all add: st0(3) sample_config_def setup_sources_def num_slots_def default_config_def default_pool_def stratum_source_def Let_def)
  have r: "rn_extranonce1 ?r = []" "rn_extranonce2_size ?r = 0" "policy_share_nbits (rn_adapter ?r) = 0"
    by (simp_all add: runner_new_def apply_policy_cfg_def default_policy_def stratum_adapter_new_def setCleanJobs_def forceCleanJobs_def)
  have line: "\<not> j_contains ?L ?j ''result''" "\<not> id_is ?L ?j 3" "j_contains ?L ?j ''method''"
    "Option.bind (j_field ?L ?j ''method'') (j_string ?L) = Some ''mining.notify''"
    by (simp_all add: sample_notify_def json_model_def id_is_def)
  obtain p where p: "j_field ?L ?j ''params'' = Some p" "Option.bind (j_item ?L p 0) (j_string ?L) = Some ''j1''"
    "read_notify ?L p = Some (sample_fields (ucast (0x1d00ffff :: u64)) (leading_strings ?L []))"
    using sample_notify_read [of "''1d00ffff''" "[]"] stoul16_samples(2) by blast
  have E: "le_stratum sample_loop_env = sample_env ''x'' ?j" by (simp add: sample_loop_env_def)
  show ?thesis
    using notification_reaches_device [OF st0(1) _ _ _ _ src refl refl, of sample_loop_env "''x''" ?j p "''j1''"
        "sample_fields (ucast (0x1d00ffff :: u64)) (leading_strings ?L [])" "replicate 32 0" "[1]" "[2]" "[]" _ _ 9,
        unfolded E sample_env_json, OF _ _ _ _ _ _ _ _ _ _ _ _ _ _ _ _ _ _ _ _ refl refl] st0 one line p r
    by (auto simp: thread_reachable_def sample_env_def sample_fields_def txids_def compact_safe_def exponent_of_def mantissa_of_def
        case_prod_beta Let_def)
qed

end
