(* ===== verification/Miner_Safety.thy ===== *)
theory Miner_Safety
  imports Miner_System
begin

text \<open>
  Exactly when the main thread of \<^verbatim>\<open>src/tools/stratum_registry_runner.cpp\<close> stays within its arrays, with
  every kernel it may launch. The only array that can be left is the buffer of hits in the shared
  memory of a block: \<open>block_hits\<close> counts the candidates of a block that meet the share target,
  \<open>launch_overflows\<close> says that a launch has a block with more than 64 of them. The second half shows
  what the interleaving of the threads does to a share: it is sent under the job id its runner has then.
\<close>

section \<open>The hits of a block\<close>

type_synonym block_run = "u32 \<times> u32 \<times> nat \<times> (u32 \<times> u32 \<times> bool) list"

text \<open>Only an unrolled kernel (\<open>u\<close> is not 1) treats the candidates of its remainder loop differently.\<close>

definition candidate_hits :: "u32 \<Rightarrow> bool \<Rightarrow> DeviceJob \<Rightarrow> u32 \<Rightarrow> bool" where
  "candidate_hits u tail J nonce =
     device_leq (if u \<noteq> 1 \<and> tail then sha256d_80_be (device_header J nonce) else batch_digest J nonce) (dj_share_target_be J) [0..<32]"

definition block_hits :: "u32 \<Rightarrow> device_jobs \<Rightarrow> u32 \<Rightarrow> u32 \<Rightarrow> u32 \<Rightarrow> u32 \<Rightarrow> block_run \<Rightarrow> nat" where
  "block_hits u e n base npt dim blk =
     (case blk of (j, b, smid, sched) \<Rightarrow>
        if n \<le> j then 0
        else case job_at e j of
               Inl err \<Rightarrow> 0
             | Inr J \<Rightarrow> length (filter (\<lambda>(t, k, tail). candidate_hits u tail J (thread_nonce base j dim b npt t k)) sched))"

definition run_block :: "u32 \<Rightarrow> device_jobs \<Rightarrow> u32 \<Rightarrow> u32 \<Rightarrow> u32 \<Rightarrow> u32 \<Rightarrow> (nat \<Rightarrow> HitRecord) \<Rightarrow> block_run \<Rightarrow> device_ring \<Rightarrow> device_ring result" where
  "run_block u e n base npt dim garbage blk =
     (case blk of (j, b, smid, sched) \<Rightarrow>
        if u = 1 then kernel_mine_batch e n base npt j dim b garbage smid (map (\<lambda>(t, k, tail). (t, k)) sched)
        else kernel_mine_batch_unroll e n base npt j dim b garbage smid sched)"

text \<open>A launch with a block of more than 64 hits.\<close>

definition launch_overflows :: "schedule \<Rightarrow> device_jobs \<Rightarrow> Launch \<Rightarrow> bool" where
  "launch_overflows s e l =
     (case l of
        Batch p base npt \<Rightarrow>
          (case launchMineWithPlanBatch e (num_jobs p) (blocks_per_job p) (threads_per_block p) npt of
             None \<Rightarrow> False
           | Some (u, npt) \<Rightarrow> \<exists>blk \<in> set (ls_blocks s). 64 < block_hits u e (num_jobs p) base npt (threads_per_block p) blk)
      | _ \<Rightarrow> False)"

text \<open>The launch at a program point.\<close>

definition active_launch :: "u64 list \<Rightarrow> Loop \<Rightarrow> Launch" where
  "active_launch ids st = choose_launch (of_nat (length ids)) (of_int (fst (lp_knobs st))) (snd (lp_knobs st)) (lp_nonce_base st)"

definition point_overflows :: "schedule \<Rightarrow> program_point \<times> Loop \<Rightarrow> bool" where
  "point_overflows s c =
     (case c of (p, st) \<Rightarrow>
        (case p of
           At_launch ids snaps \<Rightarrow>
             launch_overflows s (snd (uploadDeviceJobs (build_jobs ids snaps) (of_nat (length ids)) (lp_jobs st))) (active_launch ids st)
         | _ \<Rightarrow> False))"

section \<open>Lemmas\<close>

lemma fold_result_outcome:
  assumes "\<And>x s. x \<in> set xs \<Longrightarrow> P s \<Longrightarrow> if bad x then \<exists>e. f x s = Inl e else \<exists>t. f x s = Inr t \<and> P t"
  shows "P s \<Longrightarrow> if \<exists>x \<in> set xs. bad x then \<exists>e. fold_result f xs s = Inl e else \<exists>t. fold_result f xs s = Inr t \<and> P t"
  using assms
proof (induction xs arbitrary: s)
  case (Cons x xs)
  from Cons.prems(2) [of x s] Cons.prems(1)
  have step: "if bad x then \<exists>e. f x s = Inl e else \<exists>t. f x s = Inr t \<and> P t" by simp
  show ?case
  proof (cases "bad x")
    case False
    then obtain t where t: "f x s = Inr t" "P t" using step by auto
    from Cons.IH [OF t(2)] Cons.prems(2) show ?thesis using False t(1) by simp
  qed (use step in auto)
qed simp

lemma block_hit_outcome:
  assumes "dring_ok cap d" and "length (s_hits blk) = 64"
  shows "\<exists>blk' d'. block_hit hit (blk, d) = Inr (blk', d') \<and> dring_ok cap d' \<and> length (s_hits blk') = 64 \<and> s_count blk' = s_count blk + 1"
proof -
  obtain d' where "global_push hit d = Inr d'" "dring_ok cap d'" using global_push_ring [OF assms(1)] by blast
  then show ?thesis using assms by (simp add: block_hit_def Let_def)
qed

lemma block_fold:
  assumes "\<And>x bd. f x bd = (if hit x then block_hit (h x) bd else Inr bd)"
  shows "dring_ok cap d \<Longrightarrow> length (s_hits blk) = 64 \<Longrightarrow>
    \<exists>blk' d'. fold_result f sched (blk, d) = Inr (blk', d') \<and> dring_ok cap d' \<and> length (s_hits blk') = 64 \<and>
      s_count blk' = s_count blk + of_nat (length (filter hit sched))"
proof (induction sched arbitrary: blk d)
  case (Cons x sched)
  show ?case
  proof (cases "hit x")
    case True
    obtain blk1 d1 where s1: "block_hit (h x) (blk, d) = Inr (blk1, d1)" "dring_ok cap d1" "length (s_hits blk1) = 64"
      "s_count blk1 = s_count blk + 1" using block_hit_outcome [OF Cons.prems] by blast
    from Cons.IH [OF s1(2,3)] show ?thesis using True s1(1,4) by (auto simp: assms algebra_simps)
  next
    case False
    then show ?thesis using Cons.IH [OF Cons.prems] by (simp add: assms)
  qed
qed simp

lemma flush_outcome:
  assumes "dring_ok cap d" and "length (s_hits blk) = 64"
  shows "if unat (s_count blk) \<le> 64 then \<exists>d'. block_flush smid (blk, d) = Inr d' \<and> dring_ok cap d' else \<exists>e. block_flush smid (blk, d) = Inl e"
proof (cases "s_count blk = 0")
  case False
  obtain buf where buf: "g_hit_buf d = Buffer buf" "g_hit_cap d = cap" "cap \<noteq> 0" using assms(1) by (auto simp: dring_ok_def)
  define start where "start = g_hit_write_idx d"
  define d1 where "d1 = d\<lparr>g_block_flush_count := g_block_flush_count d + 1,
    g_sm_flush_counts := (g_sm_flush_counts d)[smid mod 128 := g_sm_flush_counts d ! (smid mod 128) + 1],
    g_hit_write_idx := start + s_count blk\<rparr>"
  have d1: "dring_ok cap d1" using assms(1) by (simp add: d1_def)
  have flush: "block_flush smid (blk, d) = fold_result (flush_store (s_hits blk) start) [0..<unat (s_count blk)] d1"
    using False buf by (simp add: block_flush_def Let_def d1_def start_def word_gt_0)
  have "\<exists>d'. flush_store (s_hits blk) start i d = Inr d' \<and> dring_ok cap d'" if "dring_ok cap d" "i < 64" for i d
  proof -
    have "g_hit_cap d = cap" using that(1) by (simp add: dring_ok_def)
    moreover have "(start + of_nat i) mod cap < cap" using buf(3) by (simp add: word_mod_less_divisor word_gt_0)
    ultimately show ?thesis
      using global_store_ring [OF that(1)] that(2) buf(3) assms(2) by (fastforce simp: flush_store_def Let_def)
  qed
  then have "\<exists>d'. fold_result (flush_store (s_hits blk) start) [0..<m] d1 = Inr d' \<and> dring_ok cap d'" if "m \<le> 64" for m
    using that d1 by (intro fold_result_total) auto
  moreover have "fold_result (flush_store (s_hits blk) start) [0..<m] d1 = Inl Out_of_bounds" if "64 < m" for m
    using assms(2) that by (intro fold_flush_error [of _ 64]) simp_all
  ultimately show ?thesis by (simp add: flush)
qed (use assms in \<open>simp add: block_flush_def\<close>)

lemma run_block_outcome:
  assumes "dring_ok cap d" and "\<And>j. j < n \<Longrightarrow> \<exists>J. job_at e j = Inr J" and "length (snd (snd (snd blk))) < 2 ^ 32"
  shows "if 64 < block_hits u e n base npt dim blk then \<exists>err. run_block u e n base npt dim g blk d = Inl err
    else \<exists>d'. run_block u e n base npt dim g blk d = Inr d' \<and> dring_ok cap d'"
proof -
  obtain j b smid sched where blk: "blk = (j, b, smid, sched)" by (cases blk)
  show ?thesis
  proof (cases "n \<le> j")
    case True
    then show ?thesis using assms(1)
      by (simp add: blk block_hits_def run_block_def kernel_mine_batch_def kernel_mine_batch_unroll_def)
  next
    case False
    then obtain J where J: "job_at e j = Inr J" using assms(2) [of j] by (meson not_le)
    let ?nonce = "\<lambda>t k. thread_nonce base j dim b npt t k"
    let ?hit = "\<lambda>(t, k, tail). candidate_hits u tail J (?nonce t k)"
    let ?f = "\<lambda>(t, k, tail). (if u \<noteq> 1 \<and> tail then tail_candidate else batch_candidate) J (?nonce t k)"
    let ?s = "\<lparr>s_hits = map g [0..<64], s_count = 0\<rparr> :: block_state"
    have "?f x bd = (if ?hit x then block_hit ((\<lambda>(t, k, tail). \<lparr>hr_work_id = dj_work_id J, hr_nonce = ?nonce t k\<rparr>) x) bd else Inr bd)" for x bd
      by (cases x) (auto simp: candidate_hits_def batch_candidate_def tail_candidate_def)
    from block_fold [where f = ?f, OF this assms(1), of ?s sched] obtain blk' d' where
      run: "fold_result ?f sched (?s, d) = Inr (blk', d')" "dring_ok cap d'" "length (s_hits blk') = 64"
        "s_count blk' = of_nat (length (filter ?hit sched))" by auto
    have map: "fold_result (\<lambda>(t, k). batch_candidate J (?nonce t k)) (map (\<lambda>(t, k, tail). (t, k)) xs) y =
        fold_result (\<lambda>(t, k, tail). batch_candidate J (?nonce t k)) xs y" for xs y
      by (induction xs arbitrary: y) (auto split: sum.splits)
    have kernel: "run_block u e n base npt dim g blk d = block_flush smid (blk', d')"
      using run(1) False
      by (cases "u = 1") (simp_all add: run_block_def blk kernel_mine_batch_def kernel_mine_batch_unroll_def J Let_def map)
    have "length (filter ?hit sched) < 2 ^ 32"
      using assms(3) by (intro le_less_trans [OF length_filter_le]) (simp add: blk)
    then have "unat (s_count blk') = length (filter ?hit sched)" by (simp add: run(4) unat_of_nat)
    then show ?thesis using flush_outcome [OF run(2,3), of smid] False J by (simp add: kernel [unfolded blk] block_hits_def blk not_less)
  qed
qed


lemma launch_outcome:
  assumes "dring_ok cap d" and "\<And>j. j < n \<Longrightarrow> \<exists>J. job_at e j = Inr J"
    and "\<forall>(j, b, smid, sched) \<in> set (ls_blocks s). length sched < 2 ^ 32"
    and "l = choose_launch n threads npt base"
  shows "if launch_overflows s e l then \<exists>err. run_launch s e l d = Inl err
    else \<exists>d'. run_launch s e l d = Inr d' \<and> dring_ok cap d'"
proof -
  have plan: "num_jobs (computeLaunchPlan n (scast threads)) = n" by (simp add: computeLaunchPlan_def Let_def)
  have stub: "\<exists>d'. map_sum id snd (run_stub e n base order d) = Inr d' \<and> dring_ok cap d'" for order
    using stub_total [OF assms(1,2)] by blast
  show ?thesis
  proof (cases l)
    case (Batch p b m)
    then have p: "num_jobs p = n" using plan by (auto simp: assms(4) choose_launch_def Let_def split: if_splits)
    show ?thesis
    proof (cases "launchMineWithPlanBatch e (num_jobs p) (blocks_per_job p) (threads_per_block p) m")
      case None
      then show ?thesis using assms(1) Batch by (simp add: run_launch_def launch_overflows_def)
    next
      case (Some un)
      obtain u m' where un: "un = (u, m')" by (cases un)
      let ?run = "run_block u e (num_jobs p) b m' (threads_per_block p) (ls_garbage s)"
      have "run_launch s e l d = fold_result (\<lambda>(j, blk, smid, sched).
          if u = 1 then kernel_mine_batch e (num_jobs p) b m' j (threads_per_block p) blk (ls_garbage s) smid (map (\<lambda>(t, k, tail). (t, k)) sched)
          else kernel_mine_batch_unroll e (num_jobs p) b m' j (threads_per_block p) blk (ls_garbage s) smid sched) (ls_blocks s) d"
        using Batch Some un by (simp add: run_launch_def)
      also have "\<dots> = fold_result ?run (ls_blocks s) d" by (simp add: run_block_def [abs_def])
      finally have "run_launch s e l d = fold_result ?run (ls_blocks s) d" .
      moreover have "if \<exists>x \<in> set (ls_blocks s). 64 < block_hits u e (num_jobs p) b m' (threads_per_block p) x
        then \<exists>err. fold_result ?run (ls_blocks s) d = Inl err
        else \<exists>t. fold_result ?run (ls_blocks s) d = Inr t \<and> dring_ok cap t"
        unfolding p using assms(3) run_block_outcome [OF _ assms(2)] by (intro fold_result_outcome assms(1)) fastforce
      ultimately show ?thesis using Batch Some un by (simp add: launch_overflows_def)
    qed
  next
    case (Plan p b)
    then show ?thesis using stub [of "ls_order s"] assms(1) plan
      by (auto simp: assms(4) launch_overflows_def choose_launch_def Let_def run_launch_def launchMineWithPlan_def split: if_splits)
  next
    case (Stub m b)
    then show ?thesis using stub [of "ls_order s"] assms(1)
      by (auto simp: assms(4) launch_overflows_def choose_launch_def Let_def run_launch_def launchMineStub_def split: if_splits)
  qed
qed


lemma launch_phase_outcome:
  assumes "dring_ok cap (lp_ring st)" and "ids \<noteq> []" and "length ids < 2 ^ 32"
    and "\<forall>(j, b, smid, sched) \<in> set (ls_blocks (ob_launch ob)). length sched < 2 ^ 32"
  shows "if point_overflows (ob_launch ob) (At_launch ids snaps, st) then \<exists>err. launch_phase E ob ids snaps st = Inl err
    else \<exists>st'. launch_phase E ob ids snaps st = Inr st' \<and> dring_ok cap (lp_ring st')"
proof -
  let ?n = "of_nat (length ids) :: u32"
  let ?e = "snd (uploadDeviceJobs (build_jobs ids snaps) ?n (lp_jobs st))"
  let ?l = "active_launch ids st"
  from upload_active [OF assms(2,3) refl, of snaps "lp_jobs st"] have jobs: "\<And>j. j < ?n \<Longrightarrow> \<exists>J. job_at ?e j = Inr J" by auto
  have "if launch_overflows (ob_launch ob) ?e ?l then \<exists>err. run_launch (ob_launch ob) ?e ?l (lp_ring st) = Inl err
      else \<exists>d'. run_launch (ob_launch ob) ?e ?l (lp_ring st) = Inr d' \<and> dring_ok cap d'"
    by (rule launch_outcome [OF assms(1) jobs assms(4) active_launch_def])
  then show ?thesis
    by (auto simp: point_overflows_def launch_phase_def active_launch_def Let_def split: if_splits)
qed

lemma main_next_outcome:
  assumes "loop_ok n st" and "point_ok n p" and "dring_ok cap (lp_ring st)" and "64 \<le> cap" and "n < 2 ^ 32"
    and "\<forall>(j, b, smid, sched) \<in> set (ls_blocks (ob_launch ob)). length sched < 2 ^ 32"
  shows "(\<exists>c. main_next E ob (p, st) = Inr c) \<longleftrightarrow> \<not> point_overflows (ob_launch ob) (p, st)"
proof (cases p)
  case At_poll
  then show ?thesis using poll_phase_ok [OF assms(1)] by (auto simp: main_next_def point_overflows_def)
next
  case At_active
  then show ?thesis by (simp add: main_next_def point_overflows_def split: prod.split)
next
  case (At_launch ids snaps)
  then have "ids \<noteq> []" "length ids < 2 ^ 32" using assms(2,5) by auto
  from launch_phase_outcome [OF assms(3) this assms(6), of snaps E] show ?thesis
    by (auto simp: main_next_def At_launch split: if_splits sum.splits)
next
  case (At_hits snaps)
  then show ?thesis using drain_ring(2) [OF assms(3,4)] by (auto simp: main_next_def point_overflows_def Let_def)
qed (simp_all add: main_next_def point_overflows_def split: list.split)

text \<open>Every candidate of a job with the easiest target is a hit, so a batch of more than 64 candidates for such
  a job overflows.\<close>

lemma be_nat_replicate_255: "be_nat (replicate n 255) + 1 = 256 ^ n"
  by (induction n) simp_all

lemma easiest_target_hits:
  assumes "job_at e j = Inr J" and "j < n" and "dj_share_target_be J = replicate 32 255"
  shows "block_hits u e n base npt dim (j, b, smid, sched) = length sched"
proof -
  have leq: "device_leq digest (replicate 32 255) [0..<32]" if "length digest = 32" for digest
  proof -
    have "be_nat digest < 256 ^ 32" using be_nat_bound [of digest] that by simp
    then have "be_nat digest \<le> be_nat (replicate 32 255)" using be_nat_replicate_255 [of 32] by linarith
    then show ?thesis using leq_loop_be_nat [of digest 32 "replicate 32 255" 0] that by (simp add: device_leq_loop)
  qed
  have "candidate_hits u tail J nonce" for tail nonce
    unfolding candidate_hits_def assms(3) by (rule leq) (simp add: length_batch_digest sha256d_80_be_sha256d)
  then have "filter (\<lambda>(t, k, tail). candidate_hits u tail J (thread_nonce base j dim b npt t k)) sched = sched"
    by (induction sched) auto
  then show ?thesis using assms(1,2) by (simp add: block_hits_def)
qed

text \<open>What a notification does to its runner besides the queue, whether it is well formed or not.\<close>

lemma notify_job_id:
  assumes "on_notify S j r = Inr r'" and "j_field (se_json S) j ''params'' = Some params"
    and "Option.bind (j_item (se_json S) params 0) (j_string (se_json S)) = Some job_id"
  shows "rn_last_job_id r' = job_id \<and> rn_client r' = rn_client r \<and> rn_calls r' = rn_calls r \<and>
    sa_extranonce2_size (rn_adapter r') = sa_extranonce2_size (rn_adapter r)"
proof (cases "read_notify (se_json S) params")
  case None
  then show ?thesis using on_notify_read(1) [OF assms(2,3)] assms(1) by auto
next
  case (Some f)
  from on_notify_read(2) [OF assms(2,3) this] assms(1) obtain i a where
    "ingestJobWithPolicy (setCleanJobs (rn_adapter r) (nf_clean f)) i = Inr a" "r' = r\<lparr>rn_last_job_id := job_id, rn_adapter := a\<rparr>"
    by (auto split: sum.splits)
  then show ?thesis by (auto simp: setCleanJobs_def elim: ingest_cases)
qed

section \<open>Properties\<close>

text \<open>C7: when the main thread goes on. In every reachable state, whatever the interleaving with the
  other threads, with a hit ring of at least 64 entries and fewer than \<open>2 ^ 32\<close> sources, the next phase
  of the main thread returns, whatever the device, the clocks, the files and the orders of GPU threads
  do, exactly when it is not a launch with a block of more than 64 candidates that meet the share
  target; there the kernel leaves its block's buffer of hits. With one nonce per thread no batch is
  launched and every phase returns.\<close>

theorem main_thread_returns:
  assumes "loop_start parse J garbage auto mem cfg ck fs = Inr st0"
    and "0 < fst (lp_knobs st0)" and "fst (lp_knobs st0) \<le> 1024" and "thread_reachable E st0 (p, st)"
    and "64 \<le> sint (cc_hit_ring_capacity (ac_cuda cfg))" and "num_slots cfg < 2 ^ 32"
    and "\<forall>(j, b, smid, sched) \<in> set (ls_blocks (ob_launch ob)). length sched < 2 ^ 32"
  shows "((\<exists>c. main_next E ob (p, st) = Inr c) \<longleftrightarrow> \<not> point_overflows (ob_launch ob) (p, st)) \<and>
    (sint (snd (lp_knobs st)) \<le> 1 \<longrightarrow> (\<exists>c. main_next E ob (p, st) = Inr c))"
proof -
  let ?c = "cc_hit_ring_capacity (ac_cuda cfg)"
  note ok = reachable_ok [OF assms(1-4)]
  have ring: "dring_ok ?c (lp_ring st)" using ok(3) assms(5) by simp
  have "- (2 ^ 31) \<le> uint ?c" using uint_ge_0 [of ?c] by (rule order_trans [rotated]) simp
  then have "sint ?c \<le> uint ?c" by (simp add: sint_uint signed_take_bit_int_less_eq_self_iff)
  then have "64 \<le> ?c" using assms(5) by (simp add: word_le_def)
  note out = main_next_outcome [OF ok(2,1) ring this assms(6,7), of E]
  have "\<not> point_overflows (ob_launch ob) (p, st)" if "sint (snd (lp_knobs st)) \<le> 1"
    using that by (simp add: point_overflows_def active_launch_def launch_overflows_def choose_launch_def Let_def split: program_point.split)
  then show ?thesis using out by blast
qed

theorem main_thread_returns_witness:
  "\<exists>st0 c. loop_start (\<lambda>s. None) json_model (\<lambda>i. no_hit) None None sample_config sample_clock sample_fs = Inr st0 \<and>
    main_next sample_loop_env sample_observation (At_poll, st0) = Inr c"
proof -
  obtain st0 where st0: "loop_start (\<lambda>s. None) json_model (\<lambda>i. no_hit) None None sample_config sample_clock sample_fs = Inr st0"
    "lp_knobs st0 = (256, 1)" by (rule sample_start)
  have "sint (cc_hit_ring_capacity (ac_cuda sample_config)) = 1024" "num_slots sample_config = 1" "ls_blocks (ob_launch sample_observation) = []"
    by (simp_all add: sample_config_def default_config_def num_slots_def sample_observation_def)
  then show ?thesis using main_thread_returns [OF st0(1), of sample_loop_env At_poll st0 sample_observation] st0
    by (auto simp: thread_reachable_def)
qed

text \<open>C16: a share goes out under the job its runner has now. In every state the invariant of the
  threads allows, in which the main thread is about to route a hit that meets its share target, a
  notification from the pool of that hit may still arrive; the share is then sent with the job id of this
  notification, whatever job the hit was found for, together with the time and the nonce of the hit.\<close>

theorem share_under_latest_job:
  assumes "threads_ok n (At_route snaps (hit # hits), st)" and "le_submitter E = None" and "snaps (hr_work_id hit) = Some ss" and "header = hit_header (snap_item ss) (hr_nonce hit)"
    and "be_nat (sha256d header) \<le> target_nat (wi_share_target_le (snap_item ss))"
    and "mn_w2s (lp_miner st) (hr_work_id hit) = Some sid" and "src = mn_sources (lp_miner st) ! unat sid"
    and "si_kind src = Stratum_source" and "si_stratum src = Some r" and "rn_client r"
    and "S = le_stratum E" and "L = se_json S" and "se_parse S line = Some j" and "\<not> j_contains L j ''result''" and "\<not> id_is L j 3"
    and "j_contains L j ''method''" and "Option.bind (j_field L j ''method'') (j_string L) = Some ''mining.notify''"
    and "j_field L j ''params'' = Some params" and "Option.bind (j_item L params 0) (j_string L) = Some job_id" and "job_id \<noteq> []"
    and "source_event E (unat sid) (Received now line) (lp_miner st) = Inr m"
  shows "\<exists>st1 st2. thread_step E (At_route snaps (hit # hits), st) (At_route snaps (hit # hits), st1) \<and>
    main_next E ob (At_route snaps (hit # hits), st1) = Inr (At_route snaps hits, st2) \<and>
    mn_sent (lp_miner st2) = mn_sent (lp_miner st) @ [submit_message (si_user src) job_id
      (zeros_hex (sa_extranonce2_size (rn_adapter r))) (toHex8 (drop 68 header)) (toHex8 (drop 76 header))]"
proof -
  let ?m = "lp_miner st" and ?st1 = "on_miner (\<lambda>_. m) st"
  let ?st2 = "?st1\<lparr>lp_hits := route_hit (ac_outbox (le_app E)) (ob_hits_clock ob) (le_rpc E) None snaps hit (lp_hits ?st1)\<rparr>"
  have ok: "miner_ok n ?m" using assms(1) by (simp add: threads_ok_def loop_ok_def)
  then have sid: "unat sid < length (mn_sources ?m)" "sr_has_cb (mn_router ?m)"
    using assms(6) by (auto simp: miner_ok_def router_ok_loop_def)
  have "runner_step S (Received now line) r = on_notify S j r"
    using line_is_notify [of S line j now r] assms(12-17) by simp
  then obtain r' where r': "on_notify S j r = Inr r'" "m = fold (\<lambda>(wid, nonce). accepted_callback (ac_outbox (le_app E)) wid nonce)
      (drop (length (rn_calls r)) (rn_calls r')) (?m\<lparr>mn_sources := (mn_sources ?m)[unat sid := src\<lparr>si_stratum := Some r'\<rparr>]\<rparr>)"
    using assms(7,9,11,21) by (auto simp: source_event_def Let_def split: sum.splits)
  note job = notify_job_id [OF r'(1), of params job_id] assms(12,18,19)
  then have m: "m = ?m\<lparr>mn_sources := (mn_sources ?m)[unat sid := src\<lparr>si_stratum := Some r'\<rparr>]\<rparr>" using r'(2) by simp
  have "thread_step E (At_route snaps (hit # hits), st) (At_route snaps (hit # hits), ?st1)"
    using step_source [OF sid(1) _ assms(21)] by (simp add: own_event_def)
  moreover have "main_next E ob (At_route snaps (hit # hits), ?st1) = Inr (At_route snaps hits, ?st2)"
    using assms(2) by (simp add: main_next_def)
  moreover have "mn_sent (lp_miner ?st2) = mn_sent (lp_miner ?st1) @ (case submitFromHeader (si_user src) header
      (zeros_hex (sa_extranonce2_size (rn_adapter r'))) (Some r') of None \<Rightarrow> [] | Some msg \<Rightarrow> [msg])"
    using route_hit_accept(1) [of snaps hit ss header "lp_hits ?st1" sid r', OF assms(3-5) _ _ _ _ _ refl,
        of "ac_outbox (le_app E)" "ob_hits_clock ob" "le_rpc E"]
      assms(6,8) sid m by (simp add: on_miner_def)
  moreover have "mn_sent (lp_miner ?st1) = mn_sent ?m" using m by simp
  ultimately show ?thesis
    using job assms(10,20) by (intro exI [of _ ?st1] exI [of _ ?st2]) (simp add: submitFromHeader_def submitShare_def)
qed


definition short_notify :: json where
  "short_notify = JObject [(''method'', JString ''mining.notify''), (''params'', JArray [JString ''j2''])]"

lemma short_notify_event:
  assumes "le_stratum E = sample_env ''y'' short_notify" and "k < length (mn_sources m)" and "si_stratum (mn_sources m ! k) = Some r"
  shows "\<exists>m'. source_event E k (Received now ''y'') m = Inr m'"
proof -
  let ?S = "sample_env ''y'' short_notify"
  have "runner_step ?S (Received now ''y'') r = Inr (r\<lparr>rn_last_job_id := ''j2''\<rparr>)"
    by (simp add: on_line_def on_notify_def Let_def sample_env_def short_notify_def json_model_def id_is_def read_notify_def)
  then show ?thesis using assms by (simp add: source_event_def)
qed

theorem share_under_latest_job_witness:
  "\<exists>E st snaps hit st1 st2 ob user en2 time nonce. thread_step (E :: json loop_env) (At_route snaps [hit], st) (At_route snaps [hit], st1) \<and>
    main_next E ob (At_route snaps [hit], st1) = Inr (At_route snaps [], st2) \<and>
    mn_sent (lp_miner st2) = mn_sent (lp_miner st) @ [submit_message user ''j2'' en2 time nonce]"
proof -
  obtain st0 where st0: "loop_start (\<lambda>s. None) json_model (\<lambda>i. no_hit) None None sample_config sample_clock sample_fs = Inr st0"
    "lp_knobs st0 = (256, 1)" "mn_sources (lp_miner st0) = fst (setup_sources False sample_config)" by (rule sample_start)
  have one: "num_slots sample_config = 1" by (simp add: sample_config_def num_slots_def)
  let ?E = "sample_loop_env\<lparr>le_stratum := sample_env ''y'' short_notify\<rparr>"
  let ?r = "(runner_new (apply_policy_cfg default_policy (stratum_adapter_new ''stratum'')) True)\<lparr>rn_client := True\<rparr>"
  let ?src = "(mn_sources (lp_miner st0) ! 0)\<lparr>si_stratum := Some ?r\<rparr>"
  let ?st = "on_miner (\<lambda>m. m\<lparr>mn_w2s := [2 \<mapsto> 0], mn_sources := (mn_sources m)[0 := ?src]\<rparr>) st0"
  let ?item = "default_item\<lparr>wi_share_target_le := replicate 8 0xFFFFFFFF\<rparr>"
  let ?ss = "\<lparr>snap_gen = 1, snap_item = ?item, snap_const = default_const\<rparr>"
  let ?snaps = "[2 \<mapsto> ?ss]" and ?hit = "\<lparr>hr_work_id = 2, hr_nonce = 7\<rparr>"
  have ok0: "loop_ok 1 st0" using loop_start_ok(1) [OF st0(1)] st0(2) one by simp
  then have len: "length (mn_sources (lp_miner st0)) = 1" by (simp add: loop_ok_def miner_ok_def)
  have src: "si_kind (mn_sources (lp_miner st0) ! 0) = Stratum_source"
    by (simp add: st0(3) sample_config_def setup_sources_def num_slots_def default_config_def default_pool_def stratum_source_def Let_def)
  have r: "queue_ok ?r" "silent ?r"
    by (simp_all add: queue_ok_def silent_def runner_new_def apply_policy_cfg_def default_policy_def stratum_adapter_new_def
        setCleanJobs_def forceCleanJobs_def)
  have miner0: "miner_ok 1 (lp_miner st0)" using ok0 by (simp add: loop_ok_def)
  then have "miner_ok 1 (lp_miner ?st)" using r sources_ok_update [of "mn_sources (lp_miner st0)" ?src 0]
    by (simp add: miner_ok_def on_miner_def)
  then have ok: "loop_ok 1 ?st" using ok0 loop_ok_on_miner [OF ok0] by (simp add: on_miner_def)
  have "item_ok ?item" by (simp add: item_ok_def default_item_def zero8_def)
  then have "threads_ok 1 (At_route ?snaps (?hit # []), ?st)" using ok by (simp add: threads_ok_def snaps_ok_def)
  note late = share_under_latest_job [OF this]
  have "be_nat (sha256d (hit_header ?item 7)) < 256 ^ 32"
    using be_nat_bound [of "sha256d (hit_header ?item 7)"] by simp
  then have met: "be_nat (sha256d (hit_header ?item 7)) \<le> target_nat (wi_share_target_le (snap_item ?ss))"
    by (simp add: target_nat_max)
  have here: "?src = mn_sources (lp_miner ?st) ! unat (0 :: u32)" using len by (simp add: on_miner_def)
  obtain m where m: "source_event ?E (unat (0 :: u32)) (Received 9 ''y'') (lp_miner ?st) = Inr m"
    using short_notify_event [of ?E "unat (0 :: u32)" "lp_miner ?st" ?r 9] here len by (auto simp: on_miner_def)
  have line: "\<not> j_contains json_model short_notify ''result''" "\<not> id_is json_model short_notify 3"
    "j_contains json_model short_notify ''method''"
    "Option.bind (j_field json_model short_notify ''method'') (j_string json_model) = Some ''mining.notify''"
    "j_field json_model short_notify ''params'' = Some (JArray [JString ''j2''])"
    "Option.bind (j_item json_model (JArray [JString ''j2'']) 0) (j_string json_model) = Some ''j2''"
    by (simp_all add: short_notify_def json_model_def id_is_def)
  have "\<exists>st1 st2. thread_step ?E (At_route ?snaps [?hit], ?st) (At_route ?snaps [?hit], st1) \<and>
      main_next ?E sample_observation (At_route ?snaps [?hit], st1) = Inr (At_route ?snaps [], st2) \<and>
      mn_sent (lp_miner st2) = mn_sent (lp_miner ?st) @ [submit_message (si_user ?src) ''j2''
        (zeros_hex (sa_extranonce2_size (rn_adapter ?r))) (toHex8 (drop 68 (hit_header ?item 7))) (toHex8 (drop 76 (hit_header ?item 7)))]"
    by (rule late [OF _ _ _ met _ here _ _ _ refl refl _ _ _ _ _ _ _ _ m, of ?r short_notify "JArray [JString ''j2'']"])
      (use src line in \<open>simp_all add: on_miner_def sample_loop_env_def sample_env_def\<close>)
  then show ?thesis by blast
qed

end
