(* ===== verification/Decimal_Text.thy ===== *)
theory Decimal_Text
  imports Rpc_Client Hex_Codec
begin

text \<open>
  Decimal numbers as text: what \<^verbatim>\<open>std::stoi\<close> reads, and that it reads back what a stream prints
  (\<open>dec_string\<close>). Used for the ports of the command line and of the node's URL.
\<close>

text \<open>\<^verbatim>\<open>std::stoi\<close>: white space, a sign, decimal digits; what follows them is ignored.\<close>

definition dec_digit :: "char \<Rightarrow> bool" where
  "dec_digit c = (48 \<le> (of_char c :: nat) \<and> (of_char c :: nat) \<le> 57)"

definition dec_number :: "string \<Rightarrow> nat" where
  "dec_number ds = foldl (\<lambda>n d. 10 * n + (of_char d - 48)) 0 ds"

definition stoi :: "string \<Rightarrow> int result" where
  "stoi s =
     (case split_sign (dropWhile is_space s) of (neg, r) \<Rightarrow>
        let ds = takeWhile dec_digit r;
            v = (if neg then - int (dec_number ds) else int (dec_number ds))
        in if ds = [] then Inl (Invalid_argument ''stoi'')
           else if v < - (2 ^ 31) \<or> 2 ^ 31 \<le> v then Inl (Out_of_range ''stoi'')
           else Inr v)"

section \<open>Lemmas\<close>

lemma split_at_char:
  "sep \<notin> set h \<Longrightarrow> split_at [sep] h = None" "sep \<notin> set h \<Longrightarrow> split_at [sep] (h @ sep # r) = Some (h, r)"
proof (induction h)
  case (Cons c h)
  case 1
  then show ?case using Cons(1) by (subst split_at.simps) auto
  case 2
  then show ?case using Cons(2) by (subst split_at.simps) auto
qed (simp_all add: split_at.simps)

lemma dec_string_digits: "\<forall>c \<in> set (dec_string n). dec_digit c"
proof (induction n rule: dec_string.induct)
  case (1 n)
  have d: "dec_digit (char_of (48 + k :: nat))" if "k < 10" for k using that by (simp add: dec_digit_def)
  have "n mod 10 < 10" by simp
  from d [OF this] show ?case
    using 1 d [of n] by (subst dec_string.simps) auto
qed

lemma dec_string_nonempty: "dec_string n \<noteq> []"
  by (subst dec_string.simps) simp

lemma dec_number_string: "dec_number (dec_string n) = n"
proof (induction n rule: dec_string.induct)
  case (1 n)
  have v: "of_char (char_of (48 + k :: nat)) - 48 = k" if "k < 10" for k using that by simp
  show ?case
  proof (cases "n < 10")
    case True
    then show ?thesis using v [of n] by (subst dec_string.simps) (simp add: dec_number_def)
  next
    case False
    have m: "n mod 10 < 10" by simp
    from False have "dec_string n = dec_string (n div 10) @ [char_of (48 + n mod 10)]" by (subst dec_string.simps) simp
    then have "dec_number (dec_string n) = 10 * dec_number (dec_string (n div 10)) + n mod 10"
      using v [OF m] by (simp add: dec_number_def)
    then show ?thesis using 1 False by simp
  qed
qed

lemma stoi_dec_string:
  assumes "rest = [] \<or> \<not> dec_digit (hd rest)"
  shows "stoi (dec_string n @ rest) = (if n < 2 ^ 31 then Inr (int n) else Inl (Out_of_range ''stoi''))"
proof -
  obtain c ds where c: "dec_string n = c # ds" using dec_string_nonempty [of n] by (cases "dec_string n") auto
  have dig: "\<forall>c \<in> set (dec_string n). dec_digit c" by (rule dec_string_digits)
  then have "dec_digit c" using c by simp
  then have first: "\<not> is_space c" "c \<noteq> CHR ''-''" "c \<noteq> CHR ''+''" by (auto simp: dec_digit_def is_space_def)
  have "takeWhile dec_digit (dec_string n @ rest) = dec_string n"
    using dig assms by (cases rest) (auto simp: takeWhile_append)
  then have "takeWhile dec_digit (c # ds @ rest) = c # ds" using c by simp
  moreover have "dec_number (c # ds) = n" using dec_number_string [of n] c by simp
  moreover have "split_sign (dropWhile is_space (c # ds @ rest)) = (False, c # ds @ rest)" using first by (simp add: split_sign_def)
  ultimately show ?thesis by (simp add: stoi_def c)
qed

end
