(* ===== verification/Miner_Arguments.thy ===== *)
theory Miner_Arguments
  imports Miner_Setup Decimal_Text
begin

text \<open>
  \<^verbatim>\<open>src/tools/stratum_registry_runner.cpp\<close>, the beginning of \<^verbatim>\<open>main\<close>: the session chosen by the command
  line or by the configuration and the environment variable \<^verbatim>\<open>BMAD_POOL\<close>. A \<open>Session\<close> is the values of
  \<^verbatim>\<open>host\<close>, \<^verbatim>\<open>port\<close>, \<^verbatim>\<open>use_tls\<close>, \<^verbatim>\<open>user\<close> and \<^verbatim>\<open>pass\<close> afterwards; \<open>Stopped\<close> is a message and \<^verbatim>\<open>return 1\<close>,
  \<open>Threw\<close> an exception that ends the program.
\<close>

record Session =
  se_host :: string
  se_port :: u16
  se_tls :: bool
  se_user :: string
  se_pass :: string

datatype session_start = Chosen Session | Stopped string | Threw cpp_error

text \<open>\<open>args\<close> are the arguments after the program's name.\<close>

definition argument :: "string list \<Rightarrow> nat \<Rightarrow> string \<Rightarrow> string" where
  "argument args i d = (if i < length args then args ! i else d)"

definition legacy_session :: "string list \<Rightarrow> session_start" where
  "legacy_session args =
     (let hostport = args ! 0;
          walletOrAccount = args ! 1;
          worker = argument args 2 ''bench'';
          pass = argument args 3 ''x'';
          profile = (if 4 < length args then profile_of (args ! 4) else kGeneric);
          (user, pass) = formatStratumCredentials profile walletOrAccount worker pass
      in case split_at '':'' hostport of
           None \<Rightarrow> Stopped ''Invalid host:port''
         | Some (host, rest) \<Rightarrow>
             (case stoi rest of
                Inl e \<Rightarrow> Threw e
              | Inr p \<Rightarrow>
                  let port = of_int p
                  in Chosen \<lparr>se_host = host, se_port = port, se_tls = (port = 443 \<or> port = 3334), se_user = user, se_pass = pass\<rparr>))"

definition chosen_pool :: "string option \<Rightarrow> PoolEntry list \<Rightarrow> PoolEntry" where
  "chosen_pool env pools =
     (let choice = (case env of None \<Rightarrow> [] | Some s \<Rightarrow> s);
          sel = (if choice \<noteq> [] then find (\<lambda>p. pe_name p = choice) pools else None)
      in case sel of None \<Rightarrow> hd pools | Some p \<Rightarrow> p)"

definition config_session :: "string option \<Rightarrow> AppConfig \<Rightarrow> session_start" where
  "config_session env cfg =
     (if ac_pools cfg = [] then Stopped ''No config found at config/pools.json and no CLI args provided.''
      else let sel = chosen_pool env (ac_pools cfg)
           in if pe_profile sel \<noteq> ''gbt'' \<and> pe_endpoints sel = [] then Stopped ''Selected pool has no endpoints in config.''
              else let (host, port, tls) = (if pe_profile sel \<noteq> ''gbt'' \<and> pe_endpoints sel \<noteq> []
                         then let ep = pe_endpoints sel ! 0 in (ep_host ep, ep_port ep, ep_use_tls ep)
                         else ([], 0, False));
                       (user, pass) = pool_credentials sel
                   in Chosen \<lparr>se_host = host, se_port = port, se_tls = tls, se_user = user, se_pass = pass\<rparr>)"

definition main_session :: "string list \<Rightarrow> string option \<Rightarrow> AppConfig \<Rightarrow> session_start" where
  "main_session args env cfg = (if 2 \<le> length args then legacy_session args else config_session env cfg)"

text \<open>What is shown of the user name: up to the last dot.\<close>

definition user_preview :: "string \<Rightarrow> string" where
  "user_preview user = rev (dropWhile (\<lambda>c. c \<noteq> CHR ''.'') (rev user)) @ ''***''"

section \<open>Properties\<close>

text \<open>Which session is chosen. With two or more arguments the first is host and port; a decimal port
  below \<open>2 ^ 31\<close> is taken modulo \<open>2 ^ 16\<close>, a larger one ends the program with an exception, and an
  address with no colon stops it with a message; TLS is used exactly for the ports 443 and 3334. With
  fewer arguments it is the first pool with the name in the environment variable, or the first pool of
  the configuration when no pool has that name.\<close>

theorem session_choice:
  assumes "CHR '':'' \<notin> set host" and "ac_pools cfg = p # ps" and "env = Some name" and "name \<noteq> []"
    and "sel = (case find (\<lambda>q. pe_name q = name) (p # ps) of None \<Rightarrow> p | Some q \<Rightarrow> q)"
    and "pe_profile sel \<noteq> ''gbt''" and "pe_endpoints sel = ep # eps"
  shows "main_session [host @ '':'' @ dec_string n, wallet] env cfg =
      (if n < 2 ^ 31
       then Chosen \<lparr>se_host = host, se_port = of_nat n, se_tls = (n mod 65536 = 443 \<or> n mod 65536 = 3334),
              se_user = wallet @ ''.bench'', se_pass = ''x''\<rparr>
       else Threw (Out_of_range ''stoi'')) \<and>
    main_session [host, wallet] env cfg = Stopped ''Invalid host:port'' \<and>
    main_session [] env cfg = Chosen \<lparr>se_host = ep_host ep, se_port = ep_port ep, se_tls = ep_use_tls ep,
      se_user = fst (pool_credentials sel), se_pass = snd (pool_credentials sel)\<rparr>"
proof -
  have split: "split_at '':'' host = None" "split_at '':'' (host @ CHR '':'' # dec_string n) = Some (host, dec_string n)"
    using split_at_char [OF assms(1)] by simp_all
  have "unat (of_nat n :: u16) = n mod 65536" by (simp add: unat_of_nat)
  then have port: "(of_nat n :: u16) = k \<longleftrightarrow> n mod 65536 = unat k" for k by (simp add: word_unat_eq_iff)
  have stoi: "stoi (dec_string n) = (if n < 2 ^ 31 then Inr (int n) else Inl (Out_of_range ''stoi''))"
    using stoi_dec_string [of "[]" n] by simp
  have user: "formatStratumCredentials kGeneric wallet ''bench'' ''x'' = (wallet @ ''.bench'', ''x'')"
    by (simp add: formatStratumCredentials_def)
  have "chosen_pool env (p # ps) = sel" using assms(3,4,5) by (simp add: chosen_pool_def Let_def split: option.split)
  then have "main_session [] env cfg = Chosen \<lparr>se_host = ep_host ep, se_port = ep_port ep, se_tls = ep_use_tls ep,
      se_user = fst (pool_credentials sel), se_pass = snd (pool_credentials sel)\<rparr>"
    using assms(2,6,7) by (simp add: main_session_def config_session_def Let_def split: prod.split)
  then show ?thesis
    by (simp add: main_session_def legacy_session_def argument_def split stoi user port)
qed

definition two_pools :: AppConfig where
  "two_pools = default_config\<lparr>ac_pools := [default_pool\<lparr>pe_name := ''a''\<rparr>,
     default_pool\<lparr>pe_name := ''b'', pe_wallet := ''w'', pe_endpoints := [\<lparr>ep_host = ''h'', ep_port = 3333, ep_use_tls = False\<rparr>]\<rparr>]\<rparr>"

theorem session_choice_witness:
  "main_session [''pool:'' @ dec_string 65979, ''w''] (Some ''b'') two_pools =
     Chosen \<lparr>se_host = ''pool'', se_port = 443, se_tls = True, se_user = ''w.bench'', se_pass = ''x''\<rparr> \<and>
   main_session [] (Some ''b'') two_pools =
     Chosen \<lparr>se_host = ''h'', se_port = 3333, se_tls = False, se_user = ''w'', se_pass = ''x''\<rparr>"
  using session_choice [of "''pool''" two_pools _ _ "Some ''b''" "''b''" _ "\<lparr>ep_host = ''h'', ep_port = 3333, ep_use_tls = False\<rparr>" "[]"
      65979 "''w''", OF _ _ refl _ refl]
  by (simp add: two_pools_def default_pool_def pool_credentials_def profile_of_def formatStratumCredentials_def)

end
