(* ===== verification/Sockets.thy ===== *)
theory Sockets
  imports Miner_Prelude
begin

text \<open>
  \<^verbatim>\<open>src/net/socket.h\<close> and its three implementations: \<^verbatim>\<open>socket_posix.cc\<close>, \<^verbatim>\<open>socket_win.cc\<close> and
  \<^verbatim>\<open>socket_openssl.cc\<close> (as built for POSIX). What the operating system and the TLS library answer is
  an argument: for connecting one record per resolved address (\<open>None\<close> when the name cannot be
  resolved), for sending and receiving the value of the call. The descriptors handed to \<^verbatim>\<open>close\<close> are
  recorded in order. Switching a descriptor between blocking and non-blocking changes only these answers.
\<close>

section \<open>Plain sockets, POSIX\<close>

record plain_socket =
  so_sock :: int
  so_closed :: "int list"

definition plain_new :: plain_socket where
  "plain_new = \<lparr>so_sock = - 1, so_closed = []\<rparr>"

record posix_attempt =
  pa_socket :: int
  pa_connect :: int
  pa_inprogress :: bool
  pa_select :: int
  pa_isset :: bool
  pa_so_error :: int

definition posix_attempt_ok :: "posix_attempt \<Rightarrow> bool" where
  "posix_attempt_ok a =
     (if pa_connect a = 0 then True
      else if pa_inprogress a then (if pa_select a > 0 \<and> pa_isset a then pa_so_error a = 0 else False)
      else False)"

fun posix_loop :: "posix_attempt list \<Rightarrow> plain_socket \<Rightarrow> plain_socket" where
  "posix_loop [] s = s"
| "posix_loop (a # as) s =
     (let fd = pa_socket a
      in if fd < 0 then posix_loop as s
         else if posix_attempt_ok a then s\<lparr>so_sock := fd\<rparr>
         else posix_loop as (s\<lparr>so_closed := so_closed s @ [fd]\<rparr>))"

definition posix_connect :: "posix_attempt list option \<Rightarrow> plain_socket \<Rightarrow> bool \<times> plain_socket" where
  "posix_connect res s =
     (case res of
        None \<Rightarrow> (False, s)
      | Some as \<Rightarrow> let s = posix_loop as s in (so_sock s \<ge> 0, s))"

definition posix_send :: "int \<Rightarrow> plain_socket \<Rightarrow> int" where
  "posix_send r s = (if so_sock s < 0 then - 1 else if r < 0 then - 1 else r)"

text \<open>The results of \<^verbatim>\<open>select\<close> and of \<^verbatim>\<open>recv\<close>.\<close>

definition posix_recv :: "int \<times> int \<Rightarrow> plain_socket \<Rightarrow> int" where
  "posix_recv sel_r s =
     (case sel_r of (rsel, r) \<Rightarrow>
        if so_sock s < 0 then - 1
        else if rsel = 0 then - 2
        else if rsel < 0 then - 1
        else if r = 0 then 0
        else if r < 0 then - 1 else r)"

definition posix_close :: "plain_socket \<Rightarrow> plain_socket" where
  "posix_close s = (if so_sock s \<ge> 0 then s\<lparr>so_closed := so_closed s @ [so_sock s], so_sock := - 1\<rparr> else s)"

section \<open>Plain sockets, Windows\<close>

text \<open>\<^verbatim>\<open>INVALID_SOCKET\<close> is \<open>None\<close>; the error codes are those of Winsock.\<close>

record win_socket =
  ws_sock :: "nat option"
  ws_closed :: "nat list"

definition win_new :: win_socket where
  "win_new = \<lparr>ws_sock = None, ws_closed = []\<rparr>"

record win_attempt =
  wa_socket :: "nat option"
  wa_connect :: int
  wa_error :: int
  wa_select :: int
  wa_isset :: bool
  wa_so_error :: int

definition win_attempt_ok :: "win_attempt \<Rightarrow> bool" where
  "win_attempt_ok a =
     (if wa_connect a = 0 then True
      else let err = wa_error a
           in if err = 10035 \<or> err = 10036 \<or> err = 10022
              then (if wa_select a > 0 \<and> wa_isset a then wa_so_error a = 0 else False)
              else False)"

text \<open>The socket the loop ends with, and the closed ones.\<close>

fun win_loop :: "win_attempt list \<Rightarrow> nat list \<Rightarrow> nat option \<times> nat list" where
  "win_loop [] closed = (None, closed)"
| "win_loop (a # as) closed =
     (case wa_socket a of
        None \<Rightarrow> win_loop as closed
      | Some s \<Rightarrow> if win_attempt_ok a then (Some s, closed) else win_loop as (closed @ [s]))"

text \<open>The first argument is what \<^verbatim>\<open>InitWSA\<close> returns.\<close>

definition win_connect :: "bool \<times> win_attempt list option \<Rightarrow> win_socket \<Rightarrow> bool \<times> win_socket" where
  "win_connect net s =
     (case net of (wsa, res) \<Rightarrow>
        if \<not> wsa then (False, s)
        else case res of
               None \<Rightarrow> (False, s)
             | Some as \<Rightarrow>
                 (case win_loop as (ws_closed s) of
                    (None, closed) \<Rightarrow> (False, s\<lparr>ws_closed := closed\<rparr>)
                  | (Some fd, closed) \<Rightarrow> (True, s\<lparr>ws_closed := closed, ws_sock := Some fd\<rparr>)))"

definition win_send :: "int \<Rightarrow> win_socket \<Rightarrow> int" where
  "win_send sent s = (if ws_sock s = None then - 1 else sent)"

text \<open>The results of \<^verbatim>\<open>recv\<close> and of \<^verbatim>\<open>WSAGetLastError\<close>; \<^verbatim>\<open>SOCKET_ERROR\<close> is -1.\<close>

definition win_recv :: "int \<times> int \<Rightarrow> win_socket \<Rightarrow> int" where
  "win_recv r_err s =
     (case r_err of (r, err) \<Rightarrow>
        if ws_sock s = None then - 1
        else if r = 0 then 0
        else if r = - 1 then (if err = 10060 then - 2 else - 1)
        else r)"

definition win_close :: "win_socket \<Rightarrow> win_socket" where
  "win_close s = (case ws_sock s of None \<Rightarrow> s | Some fd \<Rightarrow> s\<lparr>ws_closed := ws_closed s @ [fd], ws_sock := None\<rparr>)"

section \<open>TLS sockets\<close>

record tls_socket =
  ts_ctx :: bool
  ts_ssl :: bool
  ts_fd :: int
  ts_closed :: "int list"

definition tls_new :: tls_socket where
  "tls_new = \<lparr>ts_ctx = False, ts_ssl = False, ts_fd = - 1, ts_closed = []\<rparr>"

text \<open>\<^verbatim>\<open>wait_fd\<close>: whether \<^verbatim>\<open>select\<close> reports a descriptor within the time.\<close>

definition wait_fd :: "int \<Rightarrow> bool" where
  "wait_fd r = (r > 0)"

record tls_attempt =
  ta_socket :: int
  ta_connect :: int
  ta_select :: int

fun tls_loop :: "tls_attempt list \<Rightarrow> int \<times> int list \<Rightarrow> int \<times> int list" where
  "tls_loop [] (fd, closed) = (fd, closed)"
| "tls_loop (a # as) (fd, closed) =
     (let fd = ta_socket a
      in if fd < 0 then tls_loop as (fd, closed)
         else if ta_connect a = 0 \<or> wait_fd (ta_select a) then (fd, closed)
         else tls_loop as (- 1, closed @ [fd]))"

datatype ssl_error = Want_read | Want_write | Ssl_failure

text \<open>One round of the handshake: what \<^verbatim>\<open>SSL_connect\<close> returns, the error, and \<^verbatim>\<open>select\<close>. The value is
  \<open>None\<close> while the answers leave the loop running.\<close>

record hs_answer =
  hs_result :: int
  hs_error :: ssl_error
  hs_select :: int

fun handshake :: "hs_answer list \<Rightarrow> bool option" where
  "handshake [] = None"
| "handshake (h # hs) =
     (if hs_result h = 1 then Some True
      else case hs_error h of
             Want_read \<Rightarrow> if \<not> wait_fd (hs_select h) then Some False else handshake hs
           | Want_write \<Rightarrow> if \<not> wait_fd (hs_select h) then Some False else handshake hs
           | Ssl_failure \<Rightarrow> Some False)"

definition cleanup_fd :: "int \<Rightarrow> tls_socket \<Rightarrow> tls_socket" where
  "cleanup_fd fd s = s\<lparr>ts_ssl := False, ts_ctx := False, ts_closed := ts_closed s @ [fd]\<rparr>"

record tls_net =
  tn_addresses :: "tls_attempt list option"
  tn_ctx :: bool
  tn_ssl :: bool
  tn_handshake :: "hs_answer list"

definition tls_connect :: "tls_net \<Rightarrow> tls_socket \<Rightarrow> (bool \<times> tls_socket) option" where
  "tls_connect net s =
     (case tn_addresses net of
        None \<Rightarrow> Some (False, s)
      | Some as \<Rightarrow>
          (case tls_loop as (- 1, ts_closed s) of (fd, closed) \<Rightarrow>
             let s = s\<lparr>ts_closed := closed\<rparr>
             in if fd < 0 then Some (False, s)
                else let s = s\<lparr>ts_ctx := tn_ctx net\<rparr>
                     in if \<not> ts_ctx s then Some (False, s\<lparr>ts_closed := ts_closed s @ [fd]\<rparr>)
                        else let s = s\<lparr>ts_ssl := tn_ssl net\<rparr>
                             in if \<not> ts_ssl s then Some (False, s\<lparr>ts_ctx := False, ts_closed := ts_closed s @ [fd]\<rparr>)
                                else case handshake (tn_handshake net) of
                                       None \<Rightarrow> None
                                     | Some False \<Rightarrow> Some (False, cleanup_fd fd s)
                                     | Some True \<Rightarrow> Some (True, s\<lparr>ts_fd := fd\<rparr>)))"

definition tls_send :: "int \<Rightarrow> tls_socket \<Rightarrow> int" where
  "tls_send r s = (if \<not> ts_ssl s then - 1 else if r \<le> 0 then - 1 else r)"

definition tls_recv :: "int \<times> ssl_error \<Rightarrow> tls_socket \<Rightarrow> int" where
  "tls_recv r_e s =
     (case r_e of (r, e) \<Rightarrow>
        if \<not> ts_ssl s then - 1
        else if r > 0 then r
        else if e = Want_read \<or> e = Want_write then - 2
        else if r = 0 then 0 else - 1)"

definition tls_close :: "tls_socket \<Rightarrow> tls_socket" where
  "tls_close s =
     (let s = s\<lparr>ts_ssl := False\<rparr>; s = s\<lparr>ts_ctx := False\<rparr>
      in if ts_fd s \<ge> 0 then s\<lparr>ts_closed := ts_closed s @ [ts_fd s], ts_fd := - 1\<rparr> else s)"

section \<open>The interface of the clients\<close>

text \<open>What the clients rely on: a socket that is not open answers every call with -1, a successful
  \<^verbatim>\<open>connect\<close> opens it, \<^verbatim>\<open>close\<close> shuts it, an unsuccessful \<^verbatim>\<open>connect\<close> does not open it, and reading
  yields a number of bytes, 0, -1 or -2.\<close>

datatype ('net, 'r) socket_call = Connect 'net | Send int | Recv 'r | Close

locale isocket =
  fixes connect :: "'net \<Rightarrow> 's \<Rightarrow> (bool \<times> 's) option" and send :: "int \<Rightarrow> 's \<Rightarrow> int" and recv :: "'r \<Rightarrow> 's \<Rightarrow> int"
    and close :: "'s \<Rightarrow> 's" and is_open :: "'s \<Rightarrow> bool"
  assumes connect_opens: "connect net s = Some (True, s') \<Longrightarrow> is_open s'"
    and connect_fails: "connect net s = Some (False, s') \<Longrightarrow> \<not> is_open s \<Longrightarrow> \<not> is_open s'"
    and close_shuts: "\<not> is_open (close s)"
    and shut_send: "\<not> is_open s \<Longrightarrow> send a s = - 1"
    and shut_recv: "\<not> is_open s \<Longrightarrow> recv r s = - 1"
begin

text \<open>The result of a call and the state after it; \<open>None\<close> when it does not return.\<close>

definition call :: "('net, 'r) socket_call \<Rightarrow> 's \<Rightarrow> (int \<times> 's) option" where
  "call c s =
     (case c of
        Connect net \<Rightarrow> map_option (\<lambda>(ok, s). (if ok then 1 else 0, s)) (connect net s)
      | Send a \<Rightarrow> Some (send a s, s)
      | Recv r \<Rightarrow> Some (recv r s, s)
      | Close \<Rightarrow> Some (0, close s))"

fun calls :: "('net, 'r) socket_call list \<Rightarrow> 's \<Rightarrow> ((('net, 'r) socket_call \<times> int) list \<times> 's) option" where
  "calls [] s = Some ([], s)"
| "calls (c # cs) s =
     (case call c s of
        None \<Rightarrow> None
      | Some (r, s) \<Rightarrow> map_option (\<lambda>(rs, s). ((c, r) # rs, s)) (calls cs s))"

lemma quiet:
  assumes "calls cs s = Some (rs, s')" and "\<not> is_open s" and "\<forall>(c, r) \<in> set rs. \<forall>net. c = Connect net \<longrightarrow> r = 0"
  shows "\<not> is_open s' \<and> (\<forall>(c, r) \<in> set rs. (\<exists>x. c = Send x) \<or> (\<exists>x. c = Recv x) \<longrightarrow> r = - 1)"
  using assms
proof (induction cs arbitrary: s rs)
  case (Cons c cs)
  obtain r t rs1 where c: "call c s = Some (r, t)" "calls cs t = Some (rs1, s')" "rs = (c, r) # rs1"
    using Cons.prems(1) by (auto split: option.splits)
  have "\<not> is_open t \<and> ((\<exists>x. c = Send x) \<or> (\<exists>x. c = Recv x) \<longrightarrow> r = - 1)"
    using c(1,3) Cons.prems(2,3) connect_fails close_shuts shut_send shut_recv
    by (cases c) (auto simp: call_def split: if_splits)
  then show ?case using Cons.IH [OF c(2)] Cons.prems(3) c(3) by auto
qed simp

lemma after_close:
  assumes "calls (Close # cs) s = Some (rs, s')" and "\<forall>(c, r) \<in> set rs. \<forall>net. c = Connect net \<longrightarrow> r = 0"
  shows "\<forall>(c, r) \<in> set rs. (\<exists>x. c = Send x) \<or> (\<exists>x. c = Recv x) \<longrightarrow> r = - 1"
proof -
  obtain rs1 where rs1: "calls cs (close s) = Some (rs1, s')" "rs = (Close, 0) # rs1" using assms(1) by (auto simp: call_def)
  from quiet [OF this(1) close_shuts] assms(2) rs1(2) show ?thesis by auto
qed

end

definition posix_call :: "posix_attempt list option \<Rightarrow> plain_socket \<Rightarrow> (bool \<times> plain_socket) option" where
  "posix_call net s = Some (posix_connect net s)"

definition win_call :: "bool \<times> win_attempt list option \<Rightarrow> win_socket \<Rightarrow> (bool \<times> win_socket) option" where
  "win_call net s = Some (win_connect net s)"

interpretation posix: isocket posix_call posix_send posix_recv posix_close "\<lambda>s. so_sock s \<ge> 0"
  by unfold_locales (auto simp: posix_call_def posix_connect_def posix_close_def posix_send_def posix_recv_def Let_def split: option.splits)

interpretation win: isocket win_call win_send win_recv win_close "\<lambda>s. ws_sock s \<noteq> None"
  by unfold_locales
    (auto simp: win_call_def win_connect_def win_close_def win_send_def win_recv_def Let_def
      split: option.splits if_splits prod.splits)

interpretation tls: isocket tls_connect tls_send tls_recv tls_close "\<lambda>s. ts_ssl s"
  by unfold_locales
    (auto simp: tls_connect_def tls_close_def tls_send_def tls_recv_def cleanup_fd_def Let_def
      split: option.splits if_splits prod.splits bool.splits)

section \<open>Which address is taken\<close>

text \<open>The attempts that are given up, and the one that is taken.\<close>

definition given_up :: "('a \<Rightarrow> bool) \<Rightarrow> ('a \<Rightarrow> bool) \<Rightarrow> 'a list \<Rightarrow> 'a list" where
  "given_up opened ok as = takeWhile (\<lambda>a. \<not> ok a) (filter opened as)"

definition taken :: "('a \<Rightarrow> bool) \<Rightarrow> ('a \<Rightarrow> bool) \<Rightarrow> 'a list \<Rightarrow> 'a option" where
  "taken opened ok as = find ok (filter opened as)"

lemma given_up_simps [simp]:
  "given_up opened ok [] = []" "taken opened ok [] = None"
  "given_up opened ok (a # as) = (if \<not> opened a then given_up opened ok as else if ok a then [] else a # given_up opened ok as)"
  "taken opened ok (a # as) = (if \<not> opened a then taken opened ok as else if ok a then Some a else taken opened ok as)"
  by (simp_all add: given_up_def taken_def)

lemma taken_opened: "taken opened ok as = Some a \<Longrightarrow> opened a \<and> ok a \<and> a \<in> set as"
  by (induction as) (auto split: if_splits)

lemma posix_loop_eq:
  "posix_loop as s =
     (let given = given_up (\<lambda>a. pa_socket a \<ge> 0) posix_attempt_ok as
      in s\<lparr>so_closed := so_closed s @ map pa_socket given,
           so_sock := (case taken (\<lambda>a. pa_socket a \<ge> 0) posix_attempt_ok as of None \<Rightarrow> so_sock s | Some a \<Rightarrow> pa_socket a)\<rparr>)"
  by (induction as arbitrary: s) (auto simp: Let_def split: option.split)

lemma win_loop_eq:
  "win_loop as closed =
     (case taken (\<lambda>a. wa_socket a \<noteq> None) win_attempt_ok as of None \<Rightarrow> None | Some a \<Rightarrow> wa_socket a,
      closed @ map (\<lambda>a. the (wa_socket a)) (given_up (\<lambda>a. wa_socket a \<noteq> None) win_attempt_ok as))"
  by (induction as arbitrary: closed) auto

definition tls_attempt_ok :: "tls_attempt \<Rightarrow> bool" where
  "tls_attempt_ok a \<longleftrightarrow> ta_connect a = 0 \<or> ta_select a > 0"

lemma tls_loop_eq:
  "fd < 0 \<Longrightarrow> case tls_loop as (fd, closed) of (fd', closed') \<Rightarrow>
     closed' = closed @ map ta_socket (given_up (\<lambda>a. ta_socket a \<ge> 0) tls_attempt_ok as) \<and>
     (case taken (\<lambda>a. ta_socket a \<ge> 0) tls_attempt_ok as of None \<Rightarrow> fd' < 0 | Some a \<Rightarrow> fd' = ta_socket a)"
proof (induction as arbitrary: fd closed)
  case (Cons a as)
  show ?case
  proof (cases "ta_socket a < 0 \<or> tls_attempt_ok a")
    case True
    then show ?thesis using Cons.IH [of "ta_socket a" closed] Cons.IH [OF Cons.prems, of closed]
      by (auto simp: Let_def tls_attempt_ok_def wait_fd_def)
  next
    case False
    then show ?thesis using Cons.IH [of "- 1" "closed @ [ta_socket a]"] by (auto simp: Let_def tls_attempt_ok_def wait_fd_def)
  qed
qed simp

section \<open>Properties\<close>

text \<open>A plain connection goes to the first address that answers, and leaks nothing. From a socket that
  is not open, \<^verbatim>\<open>connect\<close> succeeds exactly when some resolved address gets a descriptor and a connection
  without error; the socket is then the first of these and every descriptor opened before it has been
  closed, in order; when it fails, all of them have. This is the same on POSIX and on Windows. On a POSIX
  socket that is already open, \<^verbatim>\<open>connect\<close> reports success even when every address refuses.\<close>

theorem plain_connect_first:
  assumes "so_sock s < 0" and "w = taken (\<lambda>a. pa_socket a \<ge> 0) posix_attempt_ok as"
    and "ww = taken (\<lambda>a. wa_socket a \<noteq> None) win_attempt_ok was" and "ws_sock v = None"
    and "so_sock s' \<ge> 0" and "\<forall>a \<in> set refused. \<not> posix_attempt_ok a"
  shows "posix_connect (Some as) s = (w \<noteq> None, s\<lparr>so_sock := (case w of None \<Rightarrow> so_sock s | Some a \<Rightarrow> pa_socket a),
      so_closed := so_closed s @ map pa_socket (given_up (\<lambda>a. pa_socket a \<ge> 0) posix_attempt_ok as)\<rparr>) \<and>
    win_connect (True, Some was) v = (ww \<noteq> None, v\<lparr>ws_sock := Option.bind ww wa_socket,
      ws_closed := ws_closed v @ map (\<lambda>a. the (wa_socket a)) (given_up (\<lambda>a. wa_socket a \<noteq> None) win_attempt_ok was)\<rparr>) \<and>
    fst (posix_connect (Some refused) s') \<and> so_sock (snd (posix_connect (Some refused) s')) = so_sock s'"
proof (intro conjI)
  show "posix_connect (Some as) s = (w \<noteq> None, s\<lparr>so_sock := (case w of None \<Rightarrow> so_sock s | Some a \<Rightarrow> pa_socket a),
      so_closed := so_closed s @ map pa_socket (given_up (\<lambda>a. pa_socket a \<ge> 0) posix_attempt_ok as)\<rparr>)"
    unfolding assms(2) using assms(1) taken_opened [of "\<lambda>a. pa_socket a \<ge> 0" posix_attempt_ok as]
    by (cases "taken (\<lambda>a. pa_socket a \<ge> 0) posix_attempt_ok as") (auto simp: posix_connect_def posix_loop_eq Let_def)
  show "win_connect (True, Some was) v = (ww \<noteq> None, v\<lparr>ws_sock := Option.bind ww wa_socket,
      ws_closed := ws_closed v @ map (\<lambda>a. the (wa_socket a)) (given_up (\<lambda>a. wa_socket a \<noteq> None) win_attempt_ok was)\<rparr>)"
    unfolding assms(3) using assms(4) taken_opened [of "\<lambda>a. wa_socket a \<noteq> None" win_attempt_ok was]
    by (cases "taken (\<lambda>a. wa_socket a \<noteq> None) win_attempt_ok was") (auto simp: win_connect_def win_loop_eq)
  have "taken opened ok refused = None" if "\<forall>a \<in> set refused. \<not> ok a" for opened ok
    using that by (induction refused) auto
  then have none: "taken (\<lambda>a. pa_socket a \<ge> 0) posix_attempt_ok refused = None" using assms(6) by blast
  show "fst (posix_connect (Some refused) s')" "so_sock (snd (posix_connect (Some refused) s')) = so_sock s'"
    using assms(5) by (simp_all add: posix_connect_def posix_loop_eq Let_def none)
qed

definition refused_attempt :: posix_attempt where
  "refused_attempt = \<lparr>pa_socket = 5, pa_connect = - 1, pa_inprogress = True, pa_select = 1, pa_isset = True, pa_so_error = 111\<rparr>"

theorem plain_connect_first_witness:
  "posix_connect (Some [refused_attempt, refused_attempt\<lparr>pa_socket := 6, pa_so_error := 0\<rparr>]) plain_new =
     (True, \<lparr>so_sock = 6, so_closed = [5]\<rparr>) \<and>
   fst (posix_connect (Some [refused_attempt]) (plain_new\<lparr>so_sock := 9\<rparr>))"
  using plain_connect_first [of plain_new _ "[refused_attempt, refused_attempt\<lparr>pa_socket := 6, pa_so_error := 0\<rparr>]" None "[]" win_new
      "plain_new\<lparr>so_sock := 9\<rparr>" "[refused_attempt]", OF _ refl]
  by (simp add: plain_new_def refused_attempt_def posix_attempt_ok_def win_new_def)

text \<open>C37: a TLS connection takes the first address that becomes writable, and cleans up. From a fresh
  socket, \<^verbatim>\<open>connect\<close> succeeds exactly when some address connects at once or becomes writable in time (a
  refused one does, too), the library's context and session exist and the handshake on that one address
  completes; no later address is tried. When it fails, every descriptor it opened has been closed once
  and no session is left, so every later read and write answers -1. Certificates play no part in it.\<close>

theorem tls_connect_releases:
  assumes "tls_connect net tls_new = Some (ok, s)"
    and "t = (case tn_addresses net of None \<Rightarrow> None | Some as \<Rightarrow> taken (\<lambda>a. ta_socket a \<ge> 0) tls_attempt_ok as)"
    and "given = (case tn_addresses net of None \<Rightarrow> [] | Some as \<Rightarrow> given_up (\<lambda>a. ta_socket a \<ge> 0) tls_attempt_ok as)"
  shows "(ok \<longleftrightarrow> t \<noteq> None \<and> tn_ctx net \<and> tn_ssl net \<and> handshake (tn_handshake net) = Some True) \<and>
    (if ok then ts_fd s = ta_socket (the t) \<and> ts_closed s = map ta_socket given \<and> ts_ssl s
     else ts_closed s = map ta_socket (given @ (case t of None \<Rightarrow> [] | Some a \<Rightarrow> [a])) \<and> \<not> ts_ssl s \<and> \<not> ts_ctx s \<and>
       tls_send written s = - 1 \<and> tls_recv got s = - 1)"
proof (cases "tn_addresses net")
  case None
  then show ?thesis using assms by (auto simp: tls_connect_def tls_new_def tls_send_def tls_recv_def split: prod.split)
next
  case (Some as)
  obtain fd closed where fd: "tls_loop as (- 1, []) = (fd, closed)" by fastforce
  have eq: "closed = map ta_socket given" "case t of None \<Rightarrow> fd < 0 | Some a \<Rightarrow> fd = ta_socket a"
    using tls_loop_eq [where fd = "- 1" and as = as and closed = "[]"] fd assms(2,3) Some by auto
  show ?thesis
  proof (cases t)
    case None
    then show ?thesis using assms(1) Some fd eq
      by (auto simp: tls_connect_def tls_new_def Let_def tls_send_def tls_recv_def split: prod.split)
  next
    case (Some a)
    then have "0 \<le> fd" using taken_opened [of "\<lambda>a. ta_socket a \<ge> 0" tls_attempt_ok as a] assms(2) \<open>tn_addresses net = Some as\<close> eq(2) by auto
    then show ?thesis using assms(1) Some \<open>tn_addresses net = Some as\<close> fd eq
      by (auto simp: tls_connect_def tls_new_def Let_def cleanup_fd_def tls_send_def tls_recv_def
          split: if_splits option.splits bool.splits prod.split)
  qed
qed

theorem tls_connect_releases_witness:
  "\<exists>s. tls_connect \<lparr>tn_addresses = Some [\<lparr>ta_socket = 5, ta_connect = - 1, ta_select = 1\<rparr>, \<lparr>ta_socket = 6, ta_connect = 0, ta_select = 1\<rparr>],
       tn_ctx = True, tn_ssl = True, tn_handshake = [\<lparr>hs_result = - 1, hs_error = Ssl_failure, hs_select = 0\<rparr>]\<rparr> tls_new = Some (False, s) \<and>
     ts_closed s = [5]"
proof -
  let ?net = "\<lparr>tn_addresses = Some [\<lparr>ta_socket = 5, ta_connect = - 1, ta_select = 1\<rparr>, \<lparr>ta_socket = 6, ta_connect = 0, ta_select = 1\<rparr>],
       tn_ctx = True, tn_ssl = True, tn_handshake = [\<lparr>hs_result = - 1, hs_error = Ssl_failure, hs_select = 0\<rparr>]\<rparr>"
  obtain s where s: "tls_connect ?net tls_new = Some (False, s)"
    by (simp add: tls_connect_def wait_fd_def Let_def tls_new_def)
  from tls_connect_releases [OF this refl refl] have "ts_closed s = [5]" by (simp add: tls_attempt_ok_def)
  with s show ?thesis by blast
qed

end
