(* ===== verification/Tools.thy ===== *)
theory Tools
  imports Sockets Miner_Arguments Device_Launch Miner_Tuning
begin

text \<open>
  The two small programs beside the miner, \<^verbatim>\<open>src/tools/stratum_probe.cpp\<close> and
  \<^verbatim>\<open>src/tools/cuda_bench.cpp\<close>, and the opening and closing of a connection by \<^verbatim>\<open>StratumClient\<close>, which
  the first of them uses on the sockets of \<open>Sockets\<close>. What the network answers is an argument. The probe
  yields its exit code, what it prints, what it sends and the descriptors it has closed; the benchmark
  its job table, its launch and the number of nonces it claims to have tested (an exact product here, a
  \<^verbatim>\<open>double\<close> in the code); the times and rates it prints are not modelled.
\<close>

section \<open>The connection of a client\<close>

datatype client_socket = No_socket | Plain_socket plain_socket | Tls_socket tls_socket

record client_net =
  cn_tls_built :: bool
  cn_plain :: "posix_attempt list option"
  cn_tls :: tls_net

text \<open>\<open>None\<close> while a TLS handshake is waiting.\<close>

definition client_connect :: "bool \<Rightarrow> client_net \<Rightarrow> (bool \<times> client_socket) option" where
  "client_connect use_tls net =
     (if use_tls
      then if \<not> cn_tls_built net then Some (False, No_socket)
           else map_option (\<lambda>(ok, s). (ok, Tls_socket s)) (tls_connect (cn_tls net) tls_new)
      else case posix_connect (cn_plain net) plain_new of (ok, s) \<Rightarrow> Some (ok, Plain_socket s))"

text \<open>\<^verbatim>\<open>close\<close>, then the destructor of the socket, which closes again; the value is what was closed.\<close>

definition client_close :: "client_socket \<Rightarrow> int list" where
  "client_close c =
     (case c of
        No_socket \<Rightarrow> []
      | Plain_socket s \<Rightarrow> so_closed (posix_close (posix_close s))
      | Tls_socket s \<Rightarrow> ts_closed (tls_close (tls_close s)))"

section \<open>The probe\<close>

record probe_env =
  pv_net :: client_net
  pv_dump :: "json \<Rightarrow> string"
  pv_subscribe :: "nat \<Rightarrow> nat \<Rightarrow> int"
  pv_authorize :: "nat \<Rightarrow> nat \<Rightarrow> int"
  pv_events :: "byte_event list"

text \<open>At most \<open>n\<close> lines are read and printed; \<open>None\<close> while the events leave the program waiting.\<close>

fun probe_read :: "nat \<Rightarrow> byte_event list \<Rightarrow> string option" where
  "probe_read 0 es = Some []"
| "probe_read (Suc n) es =
     (case recv_loop es [] of
        None \<Rightarrow> None
      | Some ((status, line), es) \<Rightarrow>
          if status \<noteq> kLine then Some [] else map_option (\<lambda>out. line @ [CHR 0x0A] @ out) (probe_read n es))"

datatype probe_end = Exited nat string string "int list" | Probe_threw cpp_error

definition probe_session :: "probe_env \<Rightarrow> string \<Rightarrow> nat \<Rightarrow> string \<Rightarrow> string \<Rightarrow> bool \<Rightarrow> probe_end option" where
  "probe_session E host port user pass use_tls =
     (case client_connect use_tls (pv_net E) of
        None \<Rightarrow> None
      | Some (ok, c) \<Rightarrow>
          if \<not> ok then Some (Exited 2 [] [] (client_close c))
          else
            let out = ''Connected to '' @ host @ '':'' @ dec_string port @ [CHR 0x0A]
            in case sendJson (pv_dump E) (Some (pv_subscribe E)) subscribe_message of
                 (ok, sent) \<Rightarrow>
                   if \<not> ok then Some (Exited 3 out sent (client_close c))
                   else case sendJson (pv_dump E) (Some (pv_authorize E)) (authorize_message user pass) of
                     (ok, sent') \<Rightarrow>
                       if \<not> ok then Some (Exited 4 out (sent @ sent') (client_close c))
                       else map_option (\<lambda>ls. Exited 0 (out @ ls) (sent @ sent') (client_close c)) (probe_read 5 (pv_events E)))"

definition stratum_probe :: "probe_env \<Rightarrow> string list \<Rightarrow> probe_end option" where
  "stratum_probe E args =
     (if length args < 2 then Some (Exited 1 [] [] [])
      else
        let hostport = args ! 0;
            wallet = args ! 1;
            worker = argument args 2 ''bench'';
            pass = argument args 3 ''x'';
            profile = (if 4 < length args then profile_of (args ! 4) else kGeneric);
            (user, pass) = formatStratumCredentials profile wallet worker pass
        in case split_at '':'' hostport of
             None \<Rightarrow> Some (Exited 1 [] [] [])
           | Some (host, rest) \<Rightarrow>
               (case stoi rest of
                  Inl e \<Rightarrow> Some (Probe_threw e)
                | Inr p \<Rightarrow>
                    let use_tls = (split_at '':443'' hostport \<noteq> None)
                    in probe_session E host (unat (of_int p :: u16)) user pass use_tls))"

section \<open>The benchmark\<close>

text \<open>\<^verbatim>\<open>atoi\<close>: a text without digits is zero, a value out of range undefined.\<close>

definition atoi :: "string \<Rightarrow> int result" where
  "atoi s = (case stoi s of Inr v \<Rightarrow> Inr v | Inl (Invalid_argument x) \<Rightarrow> Inr 0 | Inl e \<Rightarrow> Inl e)"

definition default_device_job :: DeviceJob where
  "default_device_job = \<lparr>dj_version = 0, dj_ntime = 0, dj_nbits = 0, dj_vmask = 0, dj_ntime_min = 0,
     dj_ntime_max = 0, dj_extranonce2_size = 0, dj_work_id = 0, dj_prevhash_le = replicate 8 0,
     dj_merkle_root_le = replicate 8 0, dj_share_target_le = replicate 8 0, dj_block_target_le = replicate 8 0,
     dj_midstate_le = replicate 8 0, dj_share_target_be = replicate 32 0\<rparr>"

definition bench_jobs :: "DeviceJob list" where
  "bench_jobs = map (\<lambda>j. default_device_job\<lparr>dj_version := 0x20000000, dj_ntime := 0x5f5e100,
     dj_nbits := 0x207fffff, dj_work_id := of_nat j + 1\<rparr>) [0..<8]"

record bench =
  bn_jobs :: device_jobs
  bn_launch :: Launch
  bn_tested :: nat

definition bench_run :: "device_jobs \<Rightarrow> u32 \<Rightarrow> u32 \<Rightarrow> bench" where
  "bench_run e desired_threads nonces_per_thread =
     (let plan = computeLaunchPlan 8 (ucast desired_threads);
          launch = (if nonces_per_thread > 1 then Batch plan 0 nonces_per_thread else Plan plan 0)
      in \<lparr>bn_jobs = snd (uploadDeviceJobs bench_jobs 8 e), bn_launch = launch,
          bn_tested = unat (blocks_per_job plan) * unat (threads_per_block plan) * 8 * unat (max 1 nonces_per_thread)\<rparr>)"

text \<open>\<open>e\<close> is the table of the device before; the arguments are those after the program's name.\<close>

definition cuda_bench :: "device_jobs \<Rightarrow> string list \<Rightarrow> bench result" where
  "cuda_bench e args =
     (case (if 0 < length args then atoi (args ! 0) else Inr 256) of
        Inl err \<Rightarrow> Inl err
      | Inr d \<Rightarrow>
          (case (if 1 < length args then atoi (args ! 1) else Inr 1) of
             Inl err \<Rightarrow> Inl err
           | Inr n \<Rightarrow> Inr (bench_run e (of_int (max 1 d)) (of_int (max 1 n)))))"

section \<open>Lemmas\<close>

lemma plan_threads:
  assumes "0 < n" and "n < 2 ^ 31"
  defines "p \<equiv> computeLaunchPlan 8 (of_nat n)"
  shows "n \<le> unat (blocks_per_job p) * unat (threads_per_block p)"
    and "num_jobs p = 8" and "blocks_per_job p \<noteq> 0" and "threads_per_block p \<noteq> 0"
proof -
  have n: "unat (of_nat n :: u64) = n" using assms(2) by (simp add: unat_of_nat)
  then have "(of_nat n :: u64) \<noteq> 0" using assms(1) by (metis unat_0 less_numeral_extra(3))
  note plan = computeLaunchPlan_nat [of 8 "of_nat n", OF _ this, unfolded n, folded p_def]
  define t where "t = tpb_of n"
  have t: "64 \<le> t" "t \<le> 256" by (simp_all add: t_def tpb_of_def)
  define q where "q = (n + t - 1) div t"
  have "n + t - 1 = q * t + (n + t - 1) mod t" by (simp add: q_def)
  moreover have "(n + t - 1) mod t < t" using t by simp
  ultimately have q: "n \<le> q * t" by linarith
  have "q \<le> n + t - 1" by (simp add: q_def)
  then have "q \<le> 2 ^ 32 - 1" using assms(2) t by simp
  moreover have "1 \<le> q" using assms(1) q by (cases q) simp_all
  moreover have "(n + t - 1) mod 2 ^ 64 = n + t - 1" using assms(2) t by simp
  ultimately have b: "unat (blocks_per_job p) = q" using plan by (simp add: t_def q_def)
  show "n \<le> unat (blocks_per_job p) * unat (threads_per_block p)" using b q plan by (simp add: t_def)
  show "num_jobs p = 8" using plan by simp
  show "blocks_per_job p \<noteq> 0" using b \<open>1 \<le> q\<close> by (metis unat_0 not_one_le_zero)
  have "unat (threads_per_block p) = t" using plan by (simp add: t_def)
  then show "threads_per_block p \<noteq> 0" using t by (metis unat_0 rel_simps(28) le_zero_eq)
qed

text \<open>Without a ring a thread of the non-batch kernel does nothing.\<close>

lemma no_ring: "g_hit_buf d = Null \<Longrightarrow> fold_result (kernel_mine_stub e n base) order d = Inr d"
  by (induction order) (auto simp: kernel_mine_stub_def split: prod.splits)

text \<open>The probe prints at most five lines, and closes every descriptor it opened.\<close>

definition client_open :: "client_socket \<Rightarrow> int list" where
  "client_open c =
     (case c of
        No_socket \<Rightarrow> []
      | Plain_socket s \<Rightarrow> if 0 \<le> so_sock s then [so_sock s] else []
      | Tls_socket s \<Rightarrow> if 0 \<le> ts_fd s then [ts_fd s] else [])"

lemma client_close_eq:
  "client_close (Plain_socket s) = so_closed s @ client_open (Plain_socket s)"
  "client_close (Tls_socket t) = ts_closed t @ client_open (Tls_socket t)"
  by (simp_all add: client_close_def client_open_def posix_close_def tls_close_def Let_def)

lemma probe_reads:
  "list_all (\<lambda>l. CHR 0x0A \<notin> set l) ls \<Longrightarrow> length ls = n \<Longrightarrow>
   probe_read n (concat (map line_events ls) @ es) = Some (concat (map (\<lambda>l. l @ [CHR 0x0A]) ls))"
  by (induction ls arbitrary: n) (auto simp: recv_loop_line)

lemma take_eq_prefix: "take (length s) r = s \<longleftrightarrow> prefix s r"
  by (metis append_eq_conv_conj prefix_def)

lemma split_at_colon:
  "CHR '':'' \<notin> set h \<Longrightarrow> CHR '':'' \<notin> set r \<Longrightarrow>
   split_at (CHR '':'' # s) (h @ CHR '':'' # r) \<noteq> None \<longleftrightarrow> prefix s r"
proof (induction h)
  case Nil
  have none: "split_at (CHR '':'' # s) x = None" if "CHR '':'' \<notin> set x" for x
    using that
  proof (induction x)
    case (Cons a x)
    then show ?case by (subst split_at.simps) auto
  qed (simp add: split_at.simps)
  show ?case using Nil(2) none [of r] by (subst split_at.simps) (auto simp: take_eq_prefix)
next
  case (Cons c h)
  then show ?case by (subst append_Cons, subst split_at.simps) auto
qed

section \<open>Properties\<close>

text \<open>What the probe does with a pool that answers. For an address \<^verbatim>\<open>host:port\<close> it speaks TLS exactly
  when the digits of the port begin with 443 (4430 counts, 3334 does not, unlike in the miner); when
  the connection and the two messages go through and five lines arrive, it prints them, ends with code
  0, has sent the subscription and the authorisation, and has closed every descriptor it opened.\<close>

theorem probe_transcript:
  assumes "CHR '':'' \<notin> set host" and "n < 65536"
    and "tls = prefix ''443'' (dec_string n)" and "client_connect tls (pv_net E) = Some (True, c)"
    and "\<forall>i k. 0 < k \<longrightarrow> 0 < pv_subscribe E i k \<and> pv_subscribe E i k \<le> int k"
    and "\<forall>i k. 0 < k \<longrightarrow> 0 < pv_authorize E i k \<and> pv_authorize E i k \<le> int k"
    and "list_all (\<lambda>l. CHR 0x0A \<notin> set l) ls" and "length ls = 5" and "pv_events E = concat (map line_events ls) @ es"
  shows "\<exists>sent. stratum_probe E [host @ '':'' @ dec_string n, wallet] = Some (Exited 0
      (''Connected to '' @ host @ '':'' @ dec_string n @ [CHR 0x0A] @ concat (map (\<lambda>l. l @ [CHR 0x0A]) ls)) sent (client_close c)) \<and>
    sent = pv_dump E subscribe_message @ crlf @ pv_dump E (authorize_message (wallet @ ''.bench'') ''x'') @ crlf \<and>
    (case c of No_socket \<Rightarrow> False | Plain_socket s \<Rightarrow> client_close c = so_closed s @ client_open c
     | Tls_socket s \<Rightarrow> client_close c = ts_closed s @ client_open c)"
proof -
  have digits: "CHR '':'' \<notin> set (dec_string n)"
    using dec_string_digits [of n] by (auto simp: dec_digit_def)
  have split: "split_at '':'' (host @ CHR '':'' # dec_string n) = Some (host, dec_string n)"
    using split_at_char(2) [OF assms(1)] by simp
  have tls: "(split_at '':443'' (host @ CHR '':'' # dec_string n) \<noteq> None) = tls"
    using split_at_colon [OF assms(1) digits, of "''443''"] assms(3) by simp
  have stoi: "stoi (dec_string n) = Inr (int n)" using stoi_dec_string [of "[]" n] assms(2) by simp
  have port: "unat (of_int (int n) :: u16) = n" using assms(2) by (simp add: unat_of_nat)
  have user: "formatStratumCredentials kGeneric wallet ''bench'' ''x'' = (wallet @ ''.bench'', ''x'')"
    by (simp add: formatStratumCredentials_def)
  have read: "probe_read 5 (pv_events E) = Some (concat (map (\<lambda>l. l @ [CHR 0x0A]) ls))"
    using probe_reads [OF assms(7,8)] assms(9) by simp
  have "c \<noteq> No_socket"
    using assms(4) by (auto simp: client_connect_def split: if_splits prod.splits)
  then show ?thesis
    using split tls stoi port user read assms(4) send_loop_complete [OF assms(5)] send_loop_complete [OF assms(6)]
    by (cases c) (simp_all add: stratum_probe_def probe_session_def argument_def sendJson_def crlf_def client_close_eq)
qed

text \<open>The benchmark measures an empty kernel. Nothing in it sets up the hit ring of the device, and
  without a ring every thread of the launch without batches returns at once, so for any number of
  threads and any order of them the launch succeeds and leaves the device as it was, not one nonce
  tested, while the rate is computed from at least eight times the number of threads. With a ring
  still all threads but the first of the first block of a job would do nothing.\<close>

theorem bench_measures_nothing:
  assumes "0 < n" and "n < 2 ^ 31" and "g_hit_buf d = Null" and "t \<noteq> 0 \<or> b \<noteq> 0"
  shows "\<exists>r p. cuda_bench e [dec_string n] = Inr r \<and> bn_launch r = Plan p 0 \<and> 8 * n \<le> bn_tested r \<and>
    (\<forall>order. launchMineWithPlan (bn_jobs r) (num_jobs p) (blocks_per_job p) (threads_per_block p) 0 order d = Inr (True, d)) \<and>
    kernel_mine_stub (bn_jobs r) (num_jobs p) 0 (j, t, b) d1 = Inr d1"
proof -
  define p where "p = computeLaunchPlan 8 (of_nat n)"
  have p: "n \<le> unat (blocks_per_job p) * unat (threads_per_block p)" "num_jobs p = 8" "blocks_per_job p \<noteq> 0" "threads_per_block p \<noteq> 0"
    unfolding p_def using plan_threads [OF assms(1,2)] by simp_all
  have "atoi (dec_string n) = Inr (int n)" using stoi_dec_string [of "[]" n] assms(2) by (simp add: atoi_def)
  moreover have "max 1 (int n) = int n" using assms(1) by simp
  moreover have "(ucast (of_nat n :: u32) :: u64) = of_nat n"
    using assms(2) by (simp add: word_unat_eq_iff unsigned_ucast_eq unat_of_nat take_bit_nat_eq_self)
  ultimately have r: "cuda_bench e [dec_string n] = Inr \<lparr>bn_jobs = snd (uploadDeviceJobs bench_jobs 8 e), bn_launch = Plan p 0,
      bn_tested = unat (blocks_per_job p) * unat (threads_per_block p) * 8\<rparr>"
    by (simp add: cuda_bench_def bench_run_def p_def Let_def)
  have "launchMineWithPlan (snd (uploadDeviceJobs bench_jobs 8 e)) (num_jobs p) (blocks_per_job p) (threads_per_block p) 0 order d = Inr (True, d)" for order
    using p no_ring [OF assms(3)] by (simp add: launchMineWithPlan_def run_stub_def uploadDeviceJobs_def Let_def)
  then show ?thesis using r p assms(4) by (auto simp: kernel_mine_stub_def)
qed

theorem bench_measures_nothing_witness:
  "\<exists>r p. cuda_bench \<lparr>g_jobs = None, g_jobs_const = [], g_jobs_const_size = 0, g_num_jobs = 0\<rparr> [dec_string 256] = Inr r \<and>
    bn_launch r = Plan p 0 \<and> 2048 \<le> bn_tested r \<and>
    launchMineWithPlan (bn_jobs r) (num_jobs p) (blocks_per_job p) (threads_per_block p) 0 [] device_ring_start = Inr (True, device_ring_start)"
  using bench_measures_nothing [of 256 device_ring_start 1 0 "\<lparr>g_jobs = None, g_jobs_const = [], g_jobs_const_size = 0, g_num_jobs = 0\<rparr>" 0 device_ring_start]
  by (auto simp: device_ring_start_def)

end
