(* ===== verification/Gpu_Cache.thy ===== *)
theory Gpu_Cache
  imports Miner_Prelude
begin

text \<open>
  The bookkeeping of GPU pages (\<^verbatim>\<open>src/cache/vram_pages.cc\<close>, \<^verbatim>\<open>src/cache/cache_manager.cc\<close>) and the
  decisions on allocation (\<^verbatim>\<open>src/cache/predict_worker.h\<close>). The mutexes make every operation atomic.
\<close>

record VramPageMeta =
  vp_id :: u64
  vp_sizeMiB :: u32
  vp_inUse :: bool

record VramPages =
  next_id :: u64
  pages :: "u64 \<rightharpoonup> VramPageMeta"

definition vram_new :: VramPages where
  "vram_new = \<lparr>next_id = 1, pages = Map.empty\<rparr>"

definition vram_create :: "u32 \<Rightarrow> VramPages \<Rightarrow> u64 \<times> VramPages" where
  "vram_create sizeMiB v =
     (let pid = next_id v; v = v\<lparr>next_id := pid + 1\<rparr>
      in (pid, v\<lparr>pages := (pages v)(pid \<mapsto> \<lparr>vp_id = pid, vp_sizeMiB = sizeMiB, vp_inUse = False\<rparr>)\<rparr>))"

definition markInUse :: "u64 \<Rightarrow> bool \<Rightarrow> VramPages \<Rightarrow> bool \<times> VramPages" where
  "markInUse pid in_use v =
     (case pages v pid of
        None \<Rightarrow> (False, v)
      | Some m \<Rightarrow> (True, v\<lparr>pages := (pages v)(pid \<mapsto> m\<lparr>vp_inUse := in_use\<rparr>)\<rparr>))"

definition vram_destroy :: "u64 \<Rightarrow> VramPages \<Rightarrow> bool \<times> VramPages" where
  "vram_destroy pid v = (pages v pid \<noteq> None, v\<lparr>pages := (pages v)(pid := None)\<rparr>)"

definition totalPages :: "VramPages \<Rightarrow> u32" where
  "totalPages v = of_nat (card (dom (pages v)))"

record Watermarks =
  targetUtilPercent :: u32
  minFreeMiB :: u32

record CacheManager =
  cm_wm :: Watermarks
  cm_pages :: VramPages

definition cache_allocate :: "u32 \<Rightarrow> CacheManager \<Rightarrow> u64 \<times> CacheManager" where
  "cache_allocate sizeMiB c = (case vram_create sizeMiB (cm_pages c) of (pid, v) \<Rightarrow> (pid, c\<lparr>cm_pages := v\<rparr>))"

definition cache_release :: "u64 \<Rightarrow> CacheManager \<Rightarrow> bool \<times> CacheManager" where
  "cache_release pid c = (case vram_destroy pid (cm_pages c) of (ok, v) \<Rightarrow> (ok, c\<lparr>cm_pages := v\<rparr>))"

definition setWatermarks :: "Watermarks \<Rightarrow> CacheManager \<Rightarrow> CacheManager" where
  "setWatermarks wm c = c\<lparr>cm_wm := wm\<rparr>"

record GpuTelemetry =
  totalVRAMMiB :: u32
  usedVRAMMiB :: u32
  gpuUtilPercent :: u32

record PredictDecision =
  throttle :: bool
  allowAllocate :: bool
  allowRelease :: bool

definition evaluate :: "Watermarks \<Rightarrow> GpuTelemetry \<Rightarrow> PredictDecision" where
  "evaluate wm t =
     (let freeMiB = (if totalVRAMMiB t > usedVRAMMiB t then totalVRAMMiB t - usedVRAMMiB t else 0)
      in \<lparr>throttle = (gpuUtilPercent t \<ge> 95 \<or> freeMiB < minFreeMiB wm),
          allowAllocate = (freeMiB \<ge> minFreeMiB wm \<and> gpuUtilPercent t \<le> targetUtilPercent wm + 5),
          allowRelease = (\<not> (freeMiB \<ge> minFreeMiB wm * 2 \<and> gpuUtilPercent t < targetUtilPercent wm - 10))\<rparr>)"

section \<open>Invariant of the page table\<close>

text \<open>The table is finite, every entry is stored under its own identifier, and identifiers in use lie below
  the next one (before that counter wraps around).\<close>

definition vram_ok :: "VramPages \<Rightarrow> bool" where
  "vram_ok v \<longleftrightarrow> finite (dom (pages v)) \<and>
     (\<forall>i m. pages v i = Some m \<longrightarrow> vp_id m = i \<and> 0 < i \<and> i < next_id v) \<and> 0 < next_id v"

lemma vram_new_ok: "vram_ok vram_new"
  by (simp add: vram_ok_def vram_new_def)

lemma next_above:
  fixes n x :: u64
  assumes "unat n + 1 < 2 ^ 64"
  shows "n < n + 1" and "x < n \<Longrightarrow> x < n + 1"
proof -
  have "unat (n + 1) = unat n + 1" using assms by (simp add: unat_word_ariths)
  then show "n < n + 1" "x < n \<Longrightarrow> x < n + 1" by (simp_all add: word_less_nat_alt)
qed

lemma vram_create_ok:
  assumes "vram_ok v" and "unat (next_id v) + 1 < 2 ^ 64" and "vram_create s v = (i, v')"
  shows "vram_ok v'" and "pages v i = None" and "dom (pages v') = insert i (dom (pages v))"
proof -
  have up: "next_id v < next_id v + 1" "x < next_id v \<Longrightarrow> x < next_id v + 1" for x
    using next_above assms(2) by blast+
  then have "0 < next_id v + 1" using assms(1) by (simp add: vram_ok_def)
  then show "vram_ok v'" using assms(1,3) up
    by (auto simp: vram_ok_def vram_create_def Let_def split: if_splits)
  show "pages v i = None"
    using assms(1,3) by (cases "pages v i") (auto simp: vram_ok_def vram_create_def Let_def)
  show "dom (pages v') = insert i (dom (pages v))" using assms(3) by (auto simp: vram_create_def Let_def)
qed

lemma vram_update_ok:
  assumes "vram_ok v"
  shows "vram_ok (snd (markInUse i b v))" and "dom (pages (snd (markInUse i b v))) = dom (pages v)"
    and "vram_ok (snd (vram_destroy i v))" and "dom (pages (snd (vram_destroy i v))) = dom (pages v) - {i}"
  using assms by (auto simp: vram_ok_def markInUse_def vram_destroy_def split: option.splits if_splits)

section \<open>Properties\<close>

text \<open>The page table through the cache manager. As long as the counter of identifiers has not reached
  its last value, allocating returns an identifier not in the table and adds exactly it; releasing
  answers whether the identifier was there and removes exactly it; both keep every entry stored under
  its own identifier and the identifiers below the counter, so no live page is ever overwritten.\<close>

theorem cache_pages:
  assumes "vram_ok (cm_pages c)" and "unat (next_id (cm_pages c)) + 1 < 2 ^ 64"
  shows "(case cache_allocate mib c of (i, d) \<Rightarrow> i \<notin> dom (pages (cm_pages c)) \<and>
      dom (pages (cm_pages d)) = insert i (dom (pages (cm_pages c))) \<and> vram_ok (cm_pages d) \<and> cm_wm d = cm_wm c) \<and>
    (case cache_release j c of (ok, d) \<Rightarrow> ok = (j \<in> dom (pages (cm_pages c))) \<and>
      dom (pages (cm_pages d)) = dom (pages (cm_pages c)) - {j} \<and> vram_ok (cm_pages d) \<and> cm_wm d = cm_wm c)"
proof (intro conjI)
  obtain i v where iv: "vram_create mib (cm_pages c) = (i, v)" by fastforce
  then show "case cache_allocate mib c of (i, d) \<Rightarrow> i \<notin> dom (pages (cm_pages c)) \<and>
      dom (pages (cm_pages d)) = insert i (dom (pages (cm_pages c))) \<and> vram_ok (cm_pages d) \<and> cm_wm d = cm_wm c"
    using vram_create_ok [OF assms iv] by (auto simp: cache_allocate_def)
  show "case cache_release j c of (ok, d) \<Rightarrow> ok = (j \<in> dom (pages (cm_pages c))) \<and>
      dom (pages (cm_pages d)) = dom (pages (cm_pages c)) - {j} \<and> vram_ok (cm_pages d) \<and> cm_wm d = cm_wm c"
    using vram_update_ok(3,4) [OF assms(1), of j]
    by (simp add: cache_release_def vram_destroy_def dom_def split: prod.splits)
qed

definition sample_cache :: CacheManager where
  "sample_cache = \<lparr>cm_wm = \<lparr>targetUtilPercent = 85, minFreeMiB = 256\<rparr>, cm_pages = vram_new\<rparr>"

theorem cache_pages_witness:
  "dom (pages (cm_pages (snd (cache_allocate 64 sample_cache)))) = {fst (cache_allocate 64 sample_cache)}"
proof -
  have "vram_ok (cm_pages sample_cache)" "unat (next_id (cm_pages sample_cache)) + 1 < 2 ^ 64" "dom (pages (cm_pages sample_cache)) = {}"
    by (simp_all add: sample_cache_def vram_new_ok) (simp_all add: vram_new_def)
  then show ?thesis
    using cache_pages [of sample_cache 64 0] by (cases "cache_allocate 64 sample_cache") simp
qed

text \<open>The decisions on memory pressure. While twice the minimum and the target plus five fit in 32
  bits and the target is at least ten, the three answers are the intended comparisons of numbers; in
  particular under low memory allocation stops and release stays allowed. With a minimum of \<open>2 ^ 31\<close>
  or more the doubling wraps around and release can be refused under low memory.\<close>

theorem predict_decisions:
  assumes "unat (minFreeMiB wm) < 2 ^ 31" and "10 \<le> unat (targetUtilPercent wm)"
    and "unat (targetUtilPercent wm) + 5 < 2 ^ 32" and "free = unat (totalVRAMMiB t) - unat (usedVRAMMiB t)"
  shows "evaluate wm t = \<lparr>throttle = (95 \<le> unat (gpuUtilPercent t) \<or> free < unat (minFreeMiB wm)),
      allowAllocate = (unat (minFreeMiB wm) \<le> free \<and> unat (gpuUtilPercent t) \<le> unat (targetUtilPercent wm) + 5),
      allowRelease = (\<not> (2 * unat (minFreeMiB wm) \<le> free \<and> unat (gpuUtilPercent t) + 10 < unat (targetUtilPercent wm)))\<rparr> \<and>
    (free < unat (minFreeMiB wm) \<longrightarrow>
       throttle (evaluate wm t) \<and> \<not> allowAllocate (evaluate wm t) \<and> allowRelease (evaluate wm t)) \<and>
    evaluate \<lparr>targetUtilPercent = 85, minFreeMiB = 2 ^ 31\<rparr> \<lparr>totalVRAMMiB = 8, usedVRAMMiB = 8, gpuUtilPercent = 0\<rparr> =
      \<lparr>throttle = True, allowAllocate = False, allowRelease = False\<rparr>"
proof -
  let ?m = "minFreeMiB wm" and ?g = "targetUtilPercent wm"
  have free: "unat (if totalVRAMMiB t > usedVRAMMiB t then totalVRAMMiB t - usedVRAMMiB t else 0) = free"
    using assms(4) by (auto simp: word_less_nat_alt unat_sub word_le_nat_alt)
  have m2: "unat (?m * 2) = 2 * unat ?m" and g5: "unat (?g + 5) = unat ?g + 5"
    using assms(1,3) by (simp_all add: unat_word_ariths)
  have "(10 :: u32) \<le> ?g" using assms(2) by (simp add: word_le_nat_alt)
  then have g10: "unat (?g - 10) = unat ?g - 10" by (simp add: unat_sub)
  have "unat (gpuUtilPercent t) < unat ?g - 10 \<longleftrightarrow> unat (gpuUtilPercent t) + 10 < unat ?g" by linarith
  then have "evaluate wm t = \<lparr>throttle = (95 \<le> unat (gpuUtilPercent t) \<or> free < unat ?m),
      allowAllocate = (unat ?m \<le> free \<and> unat (gpuUtilPercent t) \<le> unat ?g + 5),
      allowRelease = (\<not> (2 * unat ?m \<le> free \<and> unat (gpuUtilPercent t) + 10 < unat ?g))\<rparr>"
    unfolding evaluate_def Let_def word_less_nat_alt [where 'a = 32] word_le_nat_alt [where 'a = 32]
    using free m2 g5 g10 by (simp add: word_less_nat_alt)
  moreover have "evaluate \<lparr>targetUtilPercent = 85, minFreeMiB = 2 ^ 31\<rparr>
      \<lparr>totalVRAMMiB = 8, usedVRAMMiB = 8, gpuUtilPercent = 0\<rparr> =
      \<lparr>throttle = True, allowAllocate = False, allowRelease = False\<rparr>"
    by (simp add: evaluate_def Let_def word_less_nat_alt word_le_nat_alt)
  ultimately show ?thesis by auto
qed

theorem predict_decisions_witness:
  "allowRelease (evaluate \<lparr>targetUtilPercent = 85, minFreeMiB = 256\<rparr>
     \<lparr>totalVRAMMiB = 1000, usedVRAMMiB = 900, gpuUtilPercent = 20\<rparr>)"
  using predict_decisions [of "\<lparr>targetUtilPercent = 85, minFreeMiB = 256\<rparr>" 100
     "\<lparr>totalVRAMMiB = 1000, usedVRAMMiB = 900, gpuUtilPercent = 20\<rparr>"] by simp

end
