(* ===== verification/Worker_Threads.thy ===== *)
theory Worker_Threads
  imports Miner_Prelude
begin

text \<open>
  Threads that run until a flag is set: the runner of a pool (\<^verbatim>\<open>adapters/stratum_runner.cc\<close>), the runner of
  the node (\<^verbatim>\<open>adapters/gbt_runner.cc\<close>) and the metrics server (\<^verbatim>\<open>obs/metrics.cc\<close>) share one shape: \<^verbatim>\<open>start\<close>
  creates the thread, its loop looks at the flag between blocking calls, \<^verbatim>\<open>stop\<close> sets the flag and joins.
  A step of such a thread is a function of what its next blocking call answers. The locale has what makes
  \<^verbatim>\<open>stop\<close> return: with the flag set, every prompt answer brings the thread nearer to its end.
\<close>

fun worker_run :: "('w \<Rightarrow> 's \<Rightarrow> 's result) \<Rightarrow> 'w list \<Rightarrow> 's \<Rightarrow> 's result" where
  "worker_run own [] s = Inr s"
| "worker_run own (w # ws) s = (case own w s of Inl e \<Rightarrow> Inl e | Inr s \<Rightarrow> worker_run own ws s)"

locale stoppable =
  fixes own :: "'w \<Rightarrow> 's \<Rightarrow> 's result" and stopping :: "'s \<Rightarrow> bool" and ended :: "'s \<Rightarrow> bool"
    and steps_left :: "'s \<Rightarrow> nat" and prompt :: "'w \<Rightarrow> bool" and waited :: "'s \<Rightarrow> nat" and wait_left :: "'s \<Rightarrow> nat"
  assumes keeps_stopping: "own w s = Inr t \<Longrightarrow> stopping s \<Longrightarrow> stopping t"
    and approaches: "own w s = Inr t \<Longrightarrow> stopping s \<Longrightarrow> \<not> ended s \<Longrightarrow> prompt w \<Longrightarrow> ended t \<or> steps_left t < steps_left s"
    and stays_ended: "own w s = Inr t \<Longrightarrow> ended s \<Longrightarrow> t = s"
    and waits: "own w s = Inr t \<Longrightarrow> stopping s \<Longrightarrow> waited t + wait_left t \<le> waited s + wait_left s"
begin

lemma run_ended: "worker_run own ws s = Inr t \<Longrightarrow> ended s \<Longrightarrow> t = s"
  by (induction ws) (auto dest: stays_ended split: sum.splits)

lemma stops:
  assumes "worker_run own ws s = Inr t" and "stopping s" and "list_all prompt ws" and "steps_left s < length ws"
  shows "ended t"
  using assms
proof (induction ws arbitrary: s)
  case (Cons w ws)
  then obtain u where u: "own w s = Inr u" "worker_run own ws u = Inr t" by (auto split: sum.splits)
  show ?case
  proof (cases "ended s \<or> ended u")
    case True
    then show ?thesis using u run_ended stays_ended by metis
  next
    case False
    then have "steps_left u < steps_left s" using approaches [OF u(1)] Cons.prems by simp
    then show ?thesis using Cons.IH [OF u(2)] Cons.prems keeps_stopping [OF u(1)] by simp
  qed
qed simp

lemma wait_bound: "worker_run own ws s = Inr t \<Longrightarrow> stopping s \<Longrightarrow> waited t \<le> waited s + wait_left s"
proof (induction ws arbitrary: s)
  case (Cons w ws)
  then obtain u where u: "own w s = Inr u" "worker_run own ws u = Inr t" by (auto split: sum.splits)
  have "waited t \<le> waited u + wait_left u" using Cons u keeps_stopping by blast
  then show ?case using waits [OF u(1)] Cons.prems by linarith
qed simp

end

end
