(* ===== verification/Runner_Thread.thy ===== *)
theory Runner_Thread
  imports "HOL-Library.Sublist" Worker_Threads Stratum_Runner
begin

text \<open>
  The thread of \<^verbatim>\<open>src/adapters/stratum_runner.cc\<close>: \<^verbatim>\<open>start\<close>, \<^verbatim>\<open>stop\<close> and \<^verbatim>\<open>runLoop\<close> as a program with one
  control point per blocking call, and what other threads do meanwhile (submitting shares, taking jobs).
  The lines it receives are made of the bytes of the connection, as in \<^verbatim>\<open>recvLine\<close>; the messages it sends
  that get through are recorded for every connection. A connection and the counters it resets are one step,
  the third message of the greeting and the adapter's connecting after it another. A send can get
  through, fail (its result is not looked at) or block; a share that blocks is no step, the main thread waits
  in it. The lock that such a share holds meanwhile (a line that is handled would wait for it) is not
  modelled. The reactions to connecting, to a line and to the end of a connection are those of
  \<open>Stratum_Runner\<close>; here is in which order they happen.
\<close>

section \<open>State\<close>

datatype runner_pc =
    No_thread | Entry | Outer | Connecting | Backoff nat | Greeting nat | Inner | Receiving string
  | Leaving | Pausing | Finished

record RunnerThread =
  rt_pc :: runner_pc
  rt_stop :: bool
  rt_runner :: StratumRunner
  rt_open :: bool
  rt_sent :: "json list list"
  rt_slept :: nat

definition thread_new :: "StratumRunner \<Rightarrow> RunnerThread" where
  "thread_new r = \<lparr>rt_pc = No_thread, rt_stop = False, rt_runner = r, rt_open = False, rt_sent = [], rt_slept = 0\<rparr>"

text \<open>What the next blocking call answers: whether \<^verbatim>\<open>connect\<close> succeeds, what becomes of a message, the next
  byte, the time.\<close>

datatype send_answer = Sent | Failed | Blocked

record world =
  w_connect :: bool
  w_send :: send_answer
  w_byte :: byte_event
  w_now :: int

section \<open>Messages\<close>

definition configure_message :: json where
  "configure_message = JObject [(''id'', JInt 100), (''method'', JString ''mining.configure''),
     (''params'', JArray [JArray [JString ''version-rolling''], JObject [(''version-rolling.mask'', JString ''ffffffff'')]])]"

definition greeting :: "string \<Rightarrow> string \<Rightarrow> json list" where
  "greeting username password = [subscribe_message, authorize_message username password, configure_message]"

text \<open>Sending on a client whose socket is gone does nothing.\<close>

definition send_message :: "json \<Rightarrow> RunnerThread \<Rightarrow> RunnerThread" where
  "send_message msg t =
     (if rt_open t then t\<lparr>rt_sent := butlast (rt_sent t) @ [last (rt_sent t) @ [msg]]\<rparr> else t)"

section \<open>The loop\<close>

definition on_received :: "'j stratum_env \<Rightarrow> int \<Rightarrow> string \<Rightarrow> RunnerThread \<Rightarrow> RunnerThread result" where
  "on_received E now line t =
     (case on_line E now line (rt_runner t) of Inl e \<Rightarrow> Inl e | Inr r \<Rightarrow> Inr (t\<lparr>rt_runner := r, rt_pc := Inner\<rparr>))"

definition runner_own :: "'j stratum_env \<Rightarrow> string \<Rightarrow> string \<Rightarrow> world \<Rightarrow> RunnerThread \<Rightarrow> RunnerThread result" where
  "runner_own E username password w t =
     (let r = rt_runner t in
      case rt_pc t of
        No_thread \<Rightarrow> Inr t
      | Entry \<Rightarrow> Inr (t\<lparr>rt_runner := on_start r, rt_open := False, rt_pc := Outer\<rparr>)
      | Outer \<Rightarrow> Inr (t\<lparr>rt_pc := if rt_stop t then Finished else Connecting\<rparr>)
      | Connecting \<Rightarrow>
          Inr (if \<not> w_connect w then t\<lparr>rt_runner := on_connect_failed r, rt_pc := Backoff (rn_attempt r)\<rparr>
               else t\<lparr>rt_runner := on_connected r, rt_open := True, rt_sent := rt_sent t @ [[]], rt_pc := Greeting 0\<rparr>)
      | Backoff attempt \<Rightarrow> Inr (t\<lparr>rt_slept := rt_slept t + nat (backoff_s attempt), rt_pc := Outer\<rparr>)
      | Greeting n \<Rightarrow>
          Inr (if w_send w = Blocked then t
               else let t = (if w_send w = Sent then send_message (greeting username password ! n) t else t)
                    in if n < 2 then t\<lparr>rt_pc := Greeting (n + 1)\<rparr> else t\<lparr>rt_runner := on_greeted r, rt_pc := Inner\<rparr>)
      | Inner \<Rightarrow> Inr (t\<lparr>rt_pc := if rt_stop t then Leaving else Receiving []\<rparr>)
      | Receiving line \<Rightarrow>
          (case w_byte w of
             Expired \<Rightarrow> Inr (t\<lparr>rt_pc := Inner\<rparr>)
           | Ended \<Rightarrow> if line = [] then Inr (t\<lparr>rt_pc := Leaving\<rparr>) else on_received E (w_now w) line t
           | Byte ch \<Rightarrow> if ch = CHR 0x0A then on_received E (w_now w) line t else Inr (t\<lparr>rt_pc := Receiving (line @ [ch])\<rparr>))
      | Leaving \<Rightarrow> Inr (t\<lparr>rt_runner := on_disconnected r, rt_open := False, rt_pc := Pausing\<rparr>)
      | Pausing \<Rightarrow> Inr (t\<lparr>rt_slept := rt_slept t + 2, rt_pc := Outer\<rparr>)
      | Finished \<Rightarrow> Inr t)"

text \<open>The event of \<open>Stratum_Runner\<close> that a step is, if it is one.\<close>

definition own_events :: "world \<Rightarrow> RunnerThread \<Rightarrow> runner_event list" where
  "own_events w t =
     (case rt_pc t of
        Entry \<Rightarrow> [Started]
      | Connecting \<Rightarrow> [if w_connect w then Connected else Connect_failed]
      | Greeting n \<Rightarrow> if w_send w \<noteq> Blocked \<and> 2 \<le> n then [Greeted] else []
      | Receiving line \<Rightarrow>
          (case w_byte w of
             Expired \<Rightarrow> []
           | Ended \<Rightarrow> if line = [] then [] else [Received (w_now w) line]
           | Byte ch \<Rightarrow> if ch = CHR 0x0A then [Received (w_now w) line] else [])
      | Leaving \<Rightarrow> [Disconnected]
      | _ \<Rightarrow> [])"

section \<open>Other threads\<close>

text \<open>\<^verbatim>\<open>stop\<close> is \<open>Set_stop\<close> and then \<open>Join\<close>, which returns only when the thread has ended (or was never
  there). A share that is submitted gets through or does not.\<close>

datatype outside = Start | Set_stop | Join | Submit string string string bool | Note u64 u32 | Reset_counters | Take_job

fun outside_step :: "string \<Rightarrow> outside \<Rightarrow> RunnerThread \<Rightarrow> RunnerThread option" where
  "outside_step username Start t = Some (if rt_pc t \<noteq> No_thread then t else t\<lparr>rt_stop := False, rt_pc := Entry\<rparr>)"
| "outside_step username Set_stop t = Some (t\<lparr>rt_stop := True\<rparr>)"
| "outside_step username Join t =
     (if rt_pc t = No_thread then Some t else if rt_pc t = Finished then Some (t\<lparr>rt_pc := No_thread\<rparr>) else None)"
| "outside_step username (Submit en2 ntime nonce through) t =
     Some (case submitShare username en2 ntime nonce (rt_runner t) of
             None \<Rightarrow> t
           | Some msg \<Rightarrow> if through then send_message msg t else t)"
| "outside_step username (Note w n) t = Some (t\<lparr>rt_runner := setPendingSubmit w n (rt_runner t)\<rparr>)"
| "outside_step username Reset_counters t = Some (t\<lparr>rt_runner := resetCounters (rt_runner t)\<rparr>)"
| "outside_step username Take_job t =
     Some (t\<lparr>rt_runner := (rt_runner t)\<lparr>rn_adapter := snd (pollNormalizedFull_stratum (rn_adapter (rt_runner t)))\<rparr>\<rparr>)"

fun outside_events :: "outside \<Rightarrow> runner_event list" where
  "outside_events (Note w n) = [Pending w n]"
| "outside_events Reset_counters = [Reset]"
| "outside_events Take_job = [Polled]"
| "outside_events _ = []"

text \<open>Runs, with the events they make.\<close>

inductive runner_trace :: "'j stratum_env \<Rightarrow> string \<Rightarrow> string \<Rightarrow> RunnerThread \<Rightarrow> runner_event list \<Rightarrow> RunnerThread \<Rightarrow> bool"
  for E username password t0 where
  trace_nil: "runner_trace E username password t0 [] t0"
| trace_own: "runner_trace E username password t0 evs t \<Longrightarrow> runner_own E username password w t = Inr t' \<Longrightarrow>
    runner_trace E username password t0 (evs @ own_events w t) t'"
| trace_outside: "runner_trace E username password t0 evs t \<Longrightarrow> outside_step username a t = Some t' \<Longrightarrow>
    runner_trace E username password t0 (evs @ outside_events a) t'"

section \<open>The protocol\<close>

text \<open>A session is connected, greeted and disconnected in turn, and lines are handled only between the last two.\<close>

datatype session_phase = Offline | Handshake | Online

fun phase_step :: "runner_event \<Rightarrow> session_phase \<Rightarrow> session_phase option" where
  "phase_step Started ph = (if ph = Offline then Some Offline else None)"
| "phase_step Connect_failed ph = (if ph = Offline then Some Offline else None)"
| "phase_step Connected ph = (if ph = Offline then Some Handshake else None)"
| "phase_step Greeted ph = (if ph = Handshake then Some Online else None)"
| "phase_step (Received now line) ph = (if ph = Online then Some Online else None)"
| "phase_step Disconnected ph = (if ph = Online then Some Offline else None)"
| "phase_step (Pending w n) ph = Some ph"
| "phase_step Reset ph = Some ph"
| "phase_step Polled ph = Some ph"

fun session_run :: "runner_event list \<Rightarrow> session_phase \<Rightarrow> session_phase option" where
  "session_run [] ph = Some ph"
| "session_run (ev # evs) ph = Option.bind (phase_step ev ph) (session_run evs)"

definition pc_phase :: "runner_pc \<Rightarrow> session_phase" where
  "pc_phase pc = (case pc of Greeting n \<Rightarrow> Handshake | Inner \<Rightarrow> Online | Receiving line \<Rightarrow> Online | Leaving \<Rightarrow> Online | _ \<Rightarrow> Offline)"

lemma pc_phase_simps [simp]:
  "pc_phase No_thread = Offline" "pc_phase Entry = Offline" "pc_phase Outer = Offline" "pc_phase Connecting = Offline"
  "pc_phase (Backoff a) = Offline" "pc_phase (Greeting n) = Handshake" "pc_phase Inner = Online" "pc_phase (Receiving line) = Online"
  "pc_phase Leaving = Online" "pc_phase Pausing = Offline" "pc_phase Finished = Offline"
  by (simp_all add: pc_phase_def)

lemma session_run_append: "session_run (evs @ evs') ph = Option.bind (session_run evs ph) (session_run evs')"
  by (induction evs arbitrary: ph) (auto split: bind_split)

lemma runner_run_append:
  "runner_run E (evs @ evs') r = (case runner_run E evs r of Inl e \<Rightarrow> Inl e | Inr r \<Rightarrow> runner_run E evs' r)"
  by (induction evs arbitrary: r) (auto split: sum.splits)

lemma send_message_frame [simp]:
  "rt_pc (send_message m t) = rt_pc t" "rt_stop (send_message m t) = rt_stop t" "rt_runner (send_message m t) = rt_runner t"
  "rt_open (send_message m t) = rt_open t" "rt_slept (send_message m t) = rt_slept t"
  by (simp_all add: send_message_def)

lemma own_is_events:
  assumes "runner_own E username password w t = Inr t'"
  shows "runner_run E (own_events w t) (rt_runner t) = Inr (rt_runner t')"
    and "session_run (own_events w t) (pc_phase (rt_pc t)) = Some (pc_phase (rt_pc t'))"
  using assms by (auto simp: runner_own_def own_events_def pc_phase_def on_received_def Let_def
      split: runner_pc.splits byte_event.splits if_splits sum.splits)

lemma outside_is_events:
  assumes "outside_step username a t = Some t'"
  shows "runner_run E (outside_events a) (rt_runner t) = Inr (rt_runner t')"
    and "session_run (outside_events a) (pc_phase (rt_pc t)) = Some (pc_phase (rt_pc t'))"
  using assms by (cases a; auto simp: pc_phase_def split: if_splits option.splits runner_pc.splits)+

text \<open>Reading byte by byte is \<^verbatim>\<open>recvLine\<close> of \<open>Stratum_Client\<close>.\<close>

lemma reads_line:
  assumes "rt_pc t = Receiving line" and "recv_loop es line = Some ((status, l), rest)"
  shows "\<exists>used. es = used @ rest \<and> worker_run (runner_own E username password) (map (\<lambda>b. w\<lparr>w_byte := b\<rparr>) used) t =
    (case status of kLine \<Rightarrow> on_received E (w_now w) l t | kTimeout \<Rightarrow> Inr (t\<lparr>rt_pc := Inner\<rparr>) | kClosed \<Rightarrow> Inr (t\<lparr>rt_pc := Leaving\<rparr>))"
  using assms
proof (induction es line arbitrary: t rule: recv_loop.induct)
  case (2 es line)
  then show ?case by (intro exI [of _ "[Expired]"]) (auto simp: runner_own_def)
next
  case (3 es line)
  then show ?case by (intro exI [of _ "[Ended]"]) (auto simp: runner_own_def on_received_def split: if_splits sum.splits)
next
  case (4 ch es line)
  show ?case
  proof (cases "ch = CHR 0x0A")
    case True
    then show ?thesis using 4 by (intro exI [of _ "[Byte ch]"]) (auto simp: runner_own_def on_received_def split: sum.splits)
  next
    case False
    let ?t = "t\<lparr>rt_pc := Receiving (line @ [ch])\<rparr>"
    obtain used where used: "es = used @ rest" "worker_run (runner_own E username password) (map (\<lambda>b. w\<lparr>w_byte := b\<rparr>) used) ?t =
        (case status of kLine \<Rightarrow> on_received E (w_now w) l ?t | kTimeout \<Rightarrow> Inr (?t\<lparr>rt_pc := Inner\<rparr>) | kClosed \<Rightarrow> Inr (?t\<lparr>rt_pc := Leaving\<rparr>))"
      using 4(1) [OF False, of ?t] 4(3) False by auto
    have same: "on_received E (w_now w) l ?t = on_received E (w_now w) l t"
      by (cases t) (simp add: on_received_def split: sum.split)
    have first: "runner_own E username password (w\<lparr>w_byte := Byte ch\<rparr>) t = Inr ?t"
      using False 4(2) by (simp add: runner_own_def)
    have "worker_run (runner_own E username password) (map (\<lambda>b. w\<lparr>w_byte := b\<rparr>) (Byte ch # used)) t =
        worker_run (runner_own E username password) (map (\<lambda>b. w\<lparr>w_byte := b\<rparr>) used) ?t"
      by (simp add: first)
    also have "\<dots> = (case status of kLine \<Rightarrow> on_received E (w_now w) l t | kTimeout \<Rightarrow> Inr (t\<lparr>rt_pc := Inner\<rparr>)
        | kClosed \<Rightarrow> Inr (t\<lparr>rt_pc := Leaving\<rparr>))"
      unfolding used(2) same by (cases t) (simp split: RecvStatus.split)
    finally show ?thesis using used(1) by (intro exI [of _ "Byte ch # used"]) simp
  qed
qed simp

lemma own_open:
  assumes "runner_own E username password w t = Inr t'" and "rt_open t \<longleftrightarrow> pc_phase (rt_pc t) \<noteq> Offline"
  shows "rt_open t' \<longleftrightarrow> pc_phase (rt_pc t') \<noteq> Offline"
  using assms by (cases "rt_pc t") (auto simp: runner_own_def on_received_def Let_def split: byte_event.splits if_splits sum.splits)

section \<open>Properties\<close>

text \<open>C13: a runner's thread follows the session protocol. Whatever the network answers and whatever other
  threads do, the events of a run take the runner through the steps of \<open>Stratum_Runner\<close> to the state it
  is in; connections, greetings and disconnections alternate, lines are handled only after the greeting, and
  the socket is open exactly from a connection to the disconnection after it.\<close>

theorem thread_follows_protocol:
  assumes "runner_trace E username password (thread_new r) evs t"
  shows "runner_run E evs r = Inr (rt_runner t) \<and> session_run evs Offline = Some (pc_phase (rt_pc t)) \<and>
    (rt_open t \<longleftrightarrow> pc_phase (rt_pc t) \<noteq> Offline)"
  using assms
proof (induction rule: runner_trace.induct)
  case trace_nil
  then show ?case by (simp add: thread_new_def pc_phase_def)
next
  case (trace_own evs t w t')
  have "rt_open t' \<longleftrightarrow> pc_phase (rt_pc t') \<noteq> Offline"
    using own_open [OF trace_own(2)] trace_own(3) by blast
  then show ?case using trace_own(3) own_is_events [OF trace_own(2)] by (simp add: runner_run_append session_run_append)
next
  case (trace_outside evs t a t')
  have "rt_open t' \<longleftrightarrow> pc_phase (rt_pc t') \<noteq> Offline"
    using trace_outside(2,3) by (cases a) (auto split: if_splits option.splits)
  then show ?case using trace_outside(3) outside_is_events [OF trace_outside(2)] by (simp add: runner_run_append session_run_append)
qed

theorem thread_follows_protocol_witness:
  "\<exists>t. runner_trace (sample_env ''x'' JNull) ''u'' ''p'' (thread_new (runner_new (stratum_adapter_new ''a'') True)) [Started, Connected, Greeted] t \<and>
    rt_pc t = Inner \<and> rt_open t"
proof -
  let ?E = "sample_env ''x'' JNull" and ?t0 = "thread_new (runner_new (stratum_adapter_new ''a'') True)"
  let ?t1 = "?t0\<lparr>rt_stop := False, rt_pc := Entry\<rparr>"
  let ?t2 = "?t1\<lparr>rt_runner := on_start (rt_runner ?t0), rt_open := False, rt_pc := Outer\<rparr>"
  let ?t3 = "?t2\<lparr>rt_pc := Connecting\<rparr>"
  let ?t4 = "?t3\<lparr>rt_runner := on_connected (rt_runner ?t3), rt_open := True, rt_sent := [[]], rt_pc := Greeting 0\<rparr>"
  let ?t5 = "?t4\<lparr>rt_runner := on_greeted (rt_runner ?t4), rt_pc := Inner\<rparr>"
  note defs = runner_own_def own_events_def Let_def thread_new_def
  note step = trace_own [where w = "\<lparr>w_connect = True, w_send = Failed, w_byte = Ended, w_now = 0\<rparr>"]
  have "runner_trace ?E ''u'' ''p'' ?t0 [] ?t1"
    using trace_outside [OF trace_nil, of "''u''" Start ?t0 ?t1 ?E "''p''"] by (simp add: thread_new_def)
  from step [OF this, of ?t2] have "runner_trace ?E ''u'' ''p'' ?t0 [Started] ?t2" by (simp add: defs)
  from step [OF this, of ?t3] have "runner_trace ?E ''u'' ''p'' ?t0 [Started] ?t3" by (simp add: defs)
  from step [OF this, of ?t4] have "runner_trace ?E ''u'' ''p'' ?t0 [Started, Connected] ?t4" by (simp add: defs)
  from step [OF this, of "?t4\<lparr>rt_pc := Greeting 1\<rparr>"]
  have "runner_trace ?E ''u'' ''p'' ?t0 [Started, Connected] (?t4\<lparr>rt_pc := Greeting 1\<rparr>)" by (simp add: defs)
  from step [OF this, of "?t4\<lparr>rt_pc := Greeting 2\<rparr>"]
  have "runner_trace ?E ''u'' ''p'' ?t0 [Started, Connected] (?t4\<lparr>rt_pc := Greeting 2\<rparr>)" by (simp add: defs)
  from step [OF this, of ?t5]
  have run: "runner_trace ?E ''u'' ''p'' ?t0 [Started, Connected, Greeted] ?t5" by (simp add: defs)
  then show ?thesis using thread_follows_protocol [OF run] by (intro exI [of _ ?t5]) simp
qed

text \<open>The messages of a connection that are not shares.\<close>

definition is_share :: "json \<Rightarrow> bool" where
  "is_share m = (case m of JObject ((k, JInt i) # _) \<Rightarrow> i = 3 | _ \<Rightarrow> False)"

definition greeted :: "string \<Rightarrow> string \<Rightarrow> nat \<Rightarrow> json list \<Rightarrow> bool" where
  "greeted username password n c \<longleftrightarrow> subseq (filter (\<lambda>m. \<not> is_share m) c) (take n (greeting username password))"

definition greeting_ok :: "string \<Rightarrow> string \<Rightarrow> RunnerThread \<Rightarrow> bool" where
  "greeting_ok username password t \<longleftrightarrow>
     (\<forall>c \<in> set (butlast (rt_sent t)). greeted username password 3 c) \<and>
     (rt_open t \<longleftrightarrow> pc_phase (rt_pc t) \<noteq> Offline) \<and> (rt_open t \<longrightarrow> rt_sent t \<noteq> []) \<and>
     (rt_sent t \<noteq> [] \<longrightarrow> greeted username password (case rt_pc t of Greeting n \<Rightarrow> n | _ \<Rightarrow> 3) (last (rt_sent t))) \<and>
     (\<forall>n. rt_pc t = Greeting n \<longrightarrow> n < 3)"

lemma is_share_simps [simp]:
  "is_share (submit_message u j a b c)" "\<not> is_share subscribe_message" "\<not> is_share (authorize_message u p)" "\<not> is_share configure_message"
  by (simp_all add: is_share_def submit_message_def message_def subscribe_message_def authorize_message_def configure_message_def)

lemma greeted_share: "is_share m \<Longrightarrow> greeted username password n (c @ [m]) = greeted username password n c"
  by (simp add: greeted_def)

lemma greeted_later:
  assumes "n \<le> m" and "greeted username password n c"
  shows "greeted username password m c"
proof -
  have "take m (greeting username password) = take n (greeting username password) @ take (m - n) (drop n (greeting username password))"
    using assms(1) take_add [of n "m - n"] by simp
  then show ?thesis using assms(2) by (auto simp: greeted_def intro: subseq_order.trans)
qed

lemma greeted_next:
  assumes "n < 3" and "greeted username password n c"
  shows "greeted username password (Suc n) (c @ [greeting username password ! n])"
proof -
  have "length (greeting username password) = 3" "\<not> is_share (greeting username password ! n)"
    using assms(1) by (auto simp: greeting_def less_Suc_eq numeral_3_eq_3)
  then show ?thesis using assms by (simp add: greeted_def take_Suc_conv_app_nth list_emb_append_mono)
qed

lemma greeting_ok_own:
  assumes "runner_own E username password w t = Inr t'" and "greeting_ok username password t"
  shows "greeting_ok username password t'"
proof (cases "rt_pc t")
  case (Greeting n)
  then have ok: "n < 3" "rt_sent t \<noteq> []" "rt_open t" "greeted username password n (last (rt_sent t))"
    "\<forall>c \<in> set (butlast (rt_sent t)). greeted username password 3 c"
    using assms(2) by (auto simp: greeting_ok_def pc_phase_def)
  have "n < 2 \<or> Suc n = 3" using ok(1) by auto
  then have "n < 2 \<or> greeted username password 3 (last (rt_sent t) @ [greeting username password ! n])"
    using greeted_next [OF ok(1,4)] by auto
  then show ?thesis using assms Greeting ok greeted_next [OF ok(1,4)] greeted_later [OF _ ok(4), of "Suc n"] greeted_later [OF _ ok(4), of 3]
    by (auto simp: runner_own_def greeting_ok_def send_message_def Let_def pc_phase_def butlast_append split: if_splits)
next
  case Connecting
  then have "\<forall>c \<in> set (rt_sent t). greeted username password 3 c"
    using assms(2) by (cases "rt_sent t" rule: rev_cases) (auto simp: greeting_ok_def)
  then show ?thesis using assms Connecting
    by (auto simp: runner_own_def greeting_ok_def Let_def pc_phase_def greeted_def split: if_splits)
qed (use assms in \<open>auto simp: runner_own_def greeting_ok_def on_received_def Let_def pc_phase_def
  split: byte_event.splits if_splits sum.splits\<close>)

lemma greeting_ok_frame:
  "rt_pc t' = rt_pc t \<Longrightarrow> rt_sent t' = rt_sent t \<Longrightarrow> rt_open t' = rt_open t \<Longrightarrow>
   greeting_ok username password t' = greeting_ok username password t"
  by (simp add: greeting_ok_def)

lemma greeting_ok_send:
  "is_share m \<Longrightarrow> greeting_ok username password t \<Longrightarrow> greeting_ok username password (send_message m t)"
  by (auto simp: greeting_ok_def send_message_def greeted_share)

lemma greeting_ok_outside:
  assumes "outside_step username a t = Some t'" and "greeting_ok username password t"
  shows "greeting_ok username password t'"
proof (cases a)
  case Start
  then show ?thesis using assms by (auto simp: greeting_ok_def split: if_splits)
next
  case Join
  then show ?thesis using assms by (auto simp: greeting_ok_def split: if_splits)
next
  case (Submit x y z b)
  then show ?thesis using assms by (auto simp: submitShare_def greeting_ok_send split: if_splits)
qed (use assms greeting_ok_frame [of t' t] in auto)

lemma own_connections:
  assumes "runner_own E username password w t = Inr t'" and "rt_open t \<longrightarrow> rt_sent t \<noteq> []"
  shows "length (rt_sent t') = length (rt_sent t) + length (filter (\<lambda>ev. ev = Connected) (own_events w t))"
  using assms by (auto simp: runner_own_def own_events_def on_received_def send_message_def Let_def
      split: runner_pc.splits byte_event.splits if_splits sum.splits)

lemma outside_connections:
  assumes "outside_step username a t = Some t'" and "rt_open t \<longrightarrow> rt_sent t \<noteq> []"
  shows "length (rt_sent t') = length (rt_sent t) + length (filter (\<lambda>ev. ev = Connected) (outside_events a))"
  using assms by (cases a) (auto simp: send_message_def split: if_splits option.splits)

text \<open>Every connection is greeted once. Apart from shares, what has got through on each connection but the
  last is among the three messages of the greeting, each once and in their order, and on the last one among as
  many of them as the thread has got to.\<close>

theorem connections_greeted:
  assumes "runner_trace E username password (thread_new r) evs t"
  shows "greeting_ok username password t \<and> length (rt_sent t) = length (filter (\<lambda>ev. ev = Connected) evs)"
  using assms
proof (induction rule: runner_trace.induct)
  case trace_nil
  then show ?case by (simp add: thread_new_def greeting_ok_def pc_phase_def)
next
  case (trace_own evs t w t')
  then have "rt_open t \<longrightarrow> rt_sent t \<noteq> []" by (simp add: greeting_ok_def)
  then show ?case using trace_own greeting_ok_own own_connections by fastforce
next
  case (trace_outside evs t a t')
  then have "rt_open t \<longrightarrow> rt_sent t \<noteq> []" by (simp add: greeting_ok_def)
  then show ?case using trace_outside greeting_ok_outside outside_connections by fastforce
qed

section \<open>Stopping\<close>

definition prompt_byte :: "world \<Rightarrow> bool" where
  "prompt_byte w \<longleftrightarrow> w_send w \<noteq> Blocked \<and> (case w_byte w of Byte ch \<Rightarrow> ch = CHR 0x0A | _ \<Rightarrow> True)"

definition runner_ended :: "RunnerThread \<Rightarrow> bool" where
  "runner_ended t \<longleftrightarrow> rt_pc t = Finished \<or> rt_pc t = No_thread"

definition pc_left :: "runner_pc \<Rightarrow> nat" where
  "pc_left pc = (case pc of Entry \<Rightarrow> 1 | Connecting \<Rightarrow> 7 | Backoff a \<Rightarrow> 1 | Greeting n \<Rightarrow> 4 + (2 - n) | Inner \<Rightarrow> 3
     | Receiving line \<Rightarrow> 4 | Leaving \<Rightarrow> 2 | Pausing \<Rightarrow> 1 | _ \<Rightarrow> 0)"

text \<open>The seconds it may still sleep once the flag is set.\<close>

definition sleep_left :: "runner_pc \<Rightarrow> nat" where
  "sleep_left pc = (case pc of Connecting \<Rightarrow> 16 | Backoff a \<Rightarrow> nat (backoff_s a) | Greeting n \<Rightarrow> 2 | Inner \<Rightarrow> 2
     | Receiving line \<Rightarrow> 2 | Leaving \<Rightarrow> 2 | Pausing \<Rightarrow> 2 | _ \<Rightarrow> 0)"

lemma backoff_le_16: "nat (backoff_s a) \<le> 16"
proof -
  have "(2 :: int) ^ min a 4 \<le> 2 ^ 4" by (rule power_increasing) simp_all
  then show ?thesis by (simp add: backoff_s_def)
qed

lemma sleep_left_16: "sleep_left pc \<le> 16"
  using backoff_le_16 by (simp add: sleep_left_def split: runner_pc.split)

lemma pc_left_7: "pc_left pc \<le> 7"
  by (auto simp: pc_left_def split: runner_pc.split)

interpretation runner_thread: stoppable "runner_own E username password" rt_stop runner_ended "\<lambda>t. pc_left (rt_pc t)" prompt_byte
  rt_slept "\<lambda>t. sleep_left (rt_pc t)" for E username password
proof unfold_locales
  fix w t t'
  assume own: "runner_own E username password w t = Inr t'"
  show "rt_stop t'" if "rt_stop t"
    using own that by (cases "rt_pc t") (auto simp: runner_own_def on_received_def Let_def split: byte_event.splits if_splits sum.splits)
  show "runner_ended t' \<or> pc_left (rt_pc t') < pc_left (rt_pc t)" if "rt_stop t" "\<not> runner_ended t" "prompt_byte w"
    using own that by (cases "rt_pc t") (auto simp: runner_own_def runner_ended_def pc_left_def prompt_byte_def on_received_def Let_def
        split: byte_event.splits if_splits sum.splits)
  show "t' = t" if "runner_ended t"
    using own that by (auto simp: runner_own_def runner_ended_def Let_def)
  show "rt_slept t' + sleep_left (rt_pc t') \<le> rt_slept t + sleep_left (rt_pc t)" if "rt_stop t"
    using own that backoff_le_16
    by (cases "rt_pc t") (auto simp: runner_own_def sleep_left_def on_received_def Let_def split: byte_event.splits if_splits sum.splits)
qed

lemma own_thread_stays:
  "worker_run (runner_own E username password) ws t = Inr t' \<Longrightarrow> rt_pc t \<noteq> No_thread \<Longrightarrow> rt_pc t' \<noteq> No_thread"
proof (induction ws arbitrary: t)
  case (Cons w ws)
  then obtain u where u: "runner_own E username password w t = Inr u" "worker_run (runner_own E username password) ws u = Inr t'"
    by (auto split: sum.splits)
  have "rt_pc u \<noteq> No_thread"
    using u(1) Cons.prems(2) by (cases "rt_pc t") (auto simp: runner_own_def on_received_def Let_def split: byte_event.splits if_splits sum.splits)
  then show ?case using Cons.IH u(2) by blast
qed simp

text \<open>C21: \<^verbatim>\<open>stop\<close> returns. Once the flag is set, wherever the thread is, eight more steps of its own end it, so
  that it can be joined, unless an exception ends the program, provided the pool keeps it neither in a
  send nor in the middle of a line: no send blocks, and every wait for a byte brings a line feed, a time-out
  or the end of the stream.
  It sleeps at most 16 seconds meanwhile.\<close>

theorem stop_ends_thread:
  assumes "rt_stop t" and "rt_pc t \<noteq> No_thread" and "worker_run (runner_own E username password) ws t = Inr t'"
    and "list_all prompt_byte ws" and "8 \<le> length ws"
  shows "rt_pc t' = Finished \<and> outside_step username Join t' = Some (t'\<lparr>rt_pc := No_thread\<rparr>) \<and> rt_slept t' \<le> rt_slept t + 16"
proof -
  have "pc_left (rt_pc t) < length ws" using assms(5) pc_left_7 [of "rt_pc t"] by linarith
  then have "runner_ended t'" by (rule runner_thread.stops [OF assms(3,1,4)])
  then have "rt_pc t' = Finished" using own_thread_stays [OF assms(3,2)] by (simp add: runner_ended_def)
  moreover have "rt_slept t' \<le> rt_slept t + 16"
    using runner_thread.wait_bound [OF assms(3,1)] sleep_left_16 [of "rt_pc t"] by linarith
  ultimately show ?thesis by simp
qed

definition quiet_world :: world where
  "quiet_world = \<lparr>w_connect = False, w_send = Failed, w_byte = Expired, w_now = 0\<rparr>"

definition stopping_thread :: "StratumRunner \<Rightarrow> RunnerThread" where
  "stopping_thread r = (thread_new r)\<lparr>rt_pc := Connecting, rt_stop := True\<rparr>"

theorem stop_ends_thread_witness:
  "\<exists>t. worker_run (runner_own (sample_env ''x'' JNull) ''u'' ''p'') (replicate 8 quiet_world)
      (stopping_thread (runner_new (stratum_adapter_new ''a'') True)) = Inr t \<and> rt_pc t = Finished \<and> rt_slept t \<le> 16"
proof -
  let ?own = "runner_own (sample_env ''x'' JNull) ''u'' ''p''" and ?t = "stopping_thread (runner_new (stratum_adapter_new ''a'') True)"
  obtain t where t: "worker_run ?own (replicate 8 quiet_world) ?t = Inr t"
    by (simp add: eval_nat_numeral runner_own_def quiet_world_def stopping_thread_def thread_new_def Let_def)
  have "list_all prompt_byte (replicate 8 quiet_world)" by (simp add: quiet_world_def prompt_byte_def eval_nat_numeral)
  moreover have "rt_stop ?t" "rt_pc ?t \<noteq> No_thread" "rt_slept ?t = 0" by (simp_all add: stopping_thread_def thread_new_def)
  ultimately show ?thesis using stop_ends_thread [OF _ _ t] t by auto
qed

text \<open>A pool can keep \<^verbatim>\<open>stop\<close> from returning. While bytes come in and none of them is a line feed, the
  thread stays in the call that reads the line, whatever the flag says, joining it does not return, and the line
  grows by every byte.\<close>

theorem trickle_blocks_stop:
  assumes "rt_pc t = Receiving line" and "CHR 0x0A \<notin> set s"
    and "t' = t\<lparr>rt_stop := True, rt_pc := Receiving (line @ s)\<rparr>"
  shows "worker_run (runner_own E username password) (map (\<lambda>c. w\<lparr>w_byte := Byte c\<rparr>) s) (t\<lparr>rt_stop := True\<rparr>) = Inr t' \<and>
    outside_step username Join t' = None"
proof -
  have "worker_run (runner_own E username password) (map (\<lambda>c. w\<lparr>w_byte := Byte c\<rparr>) s) u = Inr (u\<lparr>rt_pc := Receiving (l @ s)\<rparr>)"
    if "rt_pc u = Receiving l" for u l
    using assms(2) that by (induction s arbitrary: u l) (auto simp: runner_own_def)
  from this [of "t\<lparr>rt_stop := True\<rparr>" line] show ?thesis using assms(1,3) by simp
qed

theorem trickle_blocks_stop_witness:
  "\<exists>t. worker_run (runner_own (sample_env ''x'' JNull) ''u'' ''p'') (map (\<lambda>c. quiet_world\<lparr>w_byte := Byte c\<rparr>) ''abc'')
      ((stopping_thread (runner_new (stratum_adapter_new ''a'') True))\<lparr>rt_pc := Receiving [], rt_stop := True\<rparr>) = Inr t \<and>
    rt_pc t = Receiving ''abc'' \<and> outside_step ''u'' Join t = None"
  using trickle_blocks_stop [OF _ _ refl, of "(stopping_thread (runner_new (stratum_adapter_new ''a'') True))\<lparr>rt_pc := Receiving []\<rparr>" "[]"
      "''abc''" "sample_env ''x'' JNull" "''u''" "''p''" quiet_world] by simp

section \<open>A share before the greeting\<close>

lemma own_reconnect:
  assumes "rt_pc t = Receiving []" and "\<not> rt_stop t" and "w = \<lparr>w_connect = True, w_send = Sent, w_byte = Ended, w_now = 0\<rparr>"
    and "r = on_connected (on_disconnected (rt_runner t))"
    and "t' = t\<lparr>rt_runner := r, rt_open := True, rt_sent := rt_sent t @ [[]], rt_slept := rt_slept t + 2, rt_pc := Greeting 0\<rparr>"
  shows "runner_trace E username password t [Disconnected, Connected] t'"
proof -
  let ?own = "runner_own E username password"
  let ?t1 = "t\<lparr>rt_pc := Leaving\<rparr>"
  let ?t2 = "?t1\<lparr>rt_runner := on_disconnected (rt_runner t), rt_open := False, rt_pc := Pausing\<rparr>"
  let ?t3 = "?t2\<lparr>rt_slept := rt_slept t + 2, rt_pc := Outer\<rparr>"
  let ?t4 = "?t3\<lparr>rt_pc := Connecting\<rparr>"
  note defs = runner_own_def own_events_def Let_def
  note step = trace_own [where w = w]
  have "runner_trace E username password t [] ?t1"
    using step [OF trace_nil, of E username password t ?t1] assms(1,3) by (simp add: defs)
  from step [OF this, of ?t2] have "runner_trace E username password t [Disconnected] ?t2" by (simp add: defs)
  from step [OF this, of ?t3] have "runner_trace E username password t [Disconnected] ?t3" by (simp add: defs)
  from step [OF this, of ?t4] assms(2) have "runner_trace E username password t [Disconnected] ?t4" by (simp add: defs)
  from step [OF this, of t'] show ?thesis using assms(3-5) by (simp add: defs)
qed

lemma own_greets:
  assumes "runner_trace E username password t0 evs t" and "rt_pc t = Greeting 0" and "rt_open t" and "rt_sent t = ss @ [c]"
  shows "runner_trace E username password t0 (evs @ [Greeted])
    (t\<lparr>rt_runner := on_greeted (rt_runner t), rt_sent := ss @ [c @ greeting username password], rt_pc := Inner\<rparr>)"
proof -
  let ?g = "greeting username password"
  let ?t1 = "t\<lparr>rt_sent := ss @ [c @ take 1 ?g], rt_pc := Greeting 1\<rparr>" and ?t2 = "t\<lparr>rt_sent := ss @ [c @ take 2 ?g], rt_pc := Greeting 2\<rparr>"
  note defs = runner_own_def own_events_def send_message_def greeting_def Let_def
  note step = trace_own [where w = "\<lparr>w_connect = True, w_send = Sent, w_byte = Ended, w_now = 0\<rparr>"]
  from step [OF assms(1), of ?t1] have "runner_trace E username password t0 evs ?t1"
    using assms(2-4) by (simp add: defs)
  from step [OF this, of ?t2] have "runner_trace E username password t0 evs ?t2"
    using assms(3) by (simp add: defs numeral_2_eq_2)
  from step [OF this, of "t\<lparr>rt_runner := on_greeted (rt_runner t), rt_sent := ss @ [c @ ?g], rt_pc := Inner\<rparr>"] show ?thesis
    using assms(3) by (simp add: defs numeral_2_eq_2)
qed

text \<open>C22: after a reconnection a share can go out first. When the pool closes the connection and accepts
  the next one, the runner still has the job of the lost session; a share that the main thread submits
  before the greeting is the first message of the new connection, for a job of the old one and before
  the worker is authorised.\<close>

theorem stale_share_first:
  assumes "rt_pc t = Receiving []" and "\<not> rt_stop t" and "rn_client (rt_runner t)" and "rn_last_job_id (rt_runner t) \<noteq> []"
  shows "\<exists>t'. runner_trace E username password t [Disconnected, Connected, Greeted] t' \<and> rt_pc t' = Inner \<and>
    rt_sent t' = rt_sent t @ [submit_message username (rn_last_job_id (rt_runner t)) en2 ntime nonce # greeting username password]"
proof -
  let ?r = "on_connected (on_disconnected (rt_runner t))" and ?msg = "submit_message username (rn_last_job_id (rt_runner t)) en2 ntime nonce"
  let ?t1 = "t\<lparr>rt_runner := ?r, rt_open := True, rt_sent := rt_sent t @ [[]], rt_slept := rt_slept t + 2, rt_pc := Greeting 0\<rparr>"
  let ?t2 = "?t1\<lparr>rt_sent := rt_sent t @ [[?msg]]\<rparr>"
  have "runner_trace E username password t [Disconnected, Connected] ?t1" by (rule own_reconnect [OF assms(1,2) refl refl refl])
  moreover have "outside_step username (Submit en2 ntime nonce True) ?t1 = Some ?t2"
    using assms(3,4) by (simp add: submitShare_def send_message_def on_connected_def on_disconnected_def)
  ultimately have "runner_trace E username password t ([Disconnected, Connected] @ outside_events (Submit en2 ntime nonce True)) ?t2"
    by (rule trace_outside)
  then have "runner_trace E username password t [Disconnected, Connected] ?t2" by simp
  from own_greets [OF this, of "rt_sent t" "[?msg]"] show ?thesis by fastforce
qed

theorem stale_share_first_witness:
  "\<exists>t t'. runner_trace (sample_env ''x'' JNull) ''u'' ''p'' t [Disconnected, Connected, Greeted] t' \<and>
    last (rt_sent t') = submit_message ''u'' ''j1'' [] [] [] # greeting ''u'' ''p''"
proof -
  let ?t = "(thread_new ((runner_new (stratum_adapter_new ''a'') True)\<lparr>rn_client := True, rn_last_job_id := ''j1''\<rparr>))\<lparr>rt_pc := Receiving []\<rparr>"
  show ?thesis
    using stale_share_first [of ?t "sample_env ''x'' JNull" "''u''" "''p''" "[]" "[]" "[]"] by (fastforce simp: thread_new_def)
qed

end
