(* ===== verification/Rpc_Url.thy ===== *)
theory Rpc_Url
  imports Decimal_Text Stratum_Client
begin

text \<open>
  The transport of \<^verbatim>\<open>src/net/rpc_client.cc\<close>: the URL of the node, taken apart by a regular expression, the
  port, the choice of the socket, the sending of the request and the receiving of the answer. The
  regular expression is a value of \<open>rx\<close>, matched as \<^verbatim>\<open>std::regex\<close> does it for its ECMAScript grammar:
  \<open>rx_match\<close> lists all ways to match a prefix in the order in which they are tried, greedy repetitions
  longest first, and \<open>regex_match\<close> takes the first way that uses up the text. A connection is what its
  socket takes at every call of \<^verbatim>\<open>send\<close> and the events that answer; sockets and TLS are in \<open>Sockets\<close>.
\<close>

section \<open>Regular expressions\<close>

type_synonym captures = "nat \<Rightarrow> string option"

datatype rx = Text string | Char_class "char \<Rightarrow> bool" | Many "char \<Rightarrow> bool" | Group nat rx | Seq rx rx | Alt rx rx | Opt rx

text \<open>What a greedy repetition leaves, the longest match first.\<close>

fun many :: "(char \<Rightarrow> bool) \<Rightarrow> string \<Rightarrow> string list" where
  "many p [] = [[]]"
| "many p (c # s) = (if p c then many p s else []) @ [c # s]"

fun rx_match :: "rx \<Rightarrow> captures \<times> string \<Rightarrow> (captures \<times> string) list" where
  "rx_match (Text t) (g, s) = (if prefix t s then [(g, drop (length t) s)] else [])"
| "rx_match (Char_class p) (g, s) = (case s of [] \<Rightarrow> [] | c # r \<Rightarrow> if p c then [(g, r)] else [])"
| "rx_match (Many p) (g, s) = map (\<lambda>r. (g, r)) (many p s)"
| "rx_match (Group n a) (g, s) = map (\<lambda>(g, r). (g(n \<mapsto> take (length s - length r) s), r)) (rx_match a (g, s))"
| "rx_match (Seq a b) m = concat (map (rx_match b) (rx_match a m))"
| "rx_match (Alt a b) m = rx_match a m @ rx_match b m"
| "rx_match (Opt a) m = rx_match a m @ [m]"

definition full :: "(captures \<times> string) list \<Rightarrow> captures option" where
  "full ms = map_option fst (find (\<lambda>m. snd m = []) ms)"

definition regex_match :: "rx \<Rightarrow> string \<Rightarrow> captures option" where
  "regex_match r s = full (rx_match r (Map.empty, s))"

section \<open>The URL\<close>

definition host_char :: "char \<Rightarrow> bool" where
  "host_char c \<longleftrightarrow> c \<noteq> CHR ''/'' \<and> c \<noteq> CHR '':''"

text \<open>A full stop matches all characters but the ends of lines.\<close>

definition dot_char :: "char \<Rightarrow> bool" where
  "dot_char c \<longleftrightarrow> c \<noteq> CHR 0x0A \<and> c \<noteq> CHR 0x0D"

text \<open>\<^verbatim>\<open>(http|https)://([^/:]+)(?::(\d+))?(.*)\<close>\<close>

definition url_regex :: rx where
  "url_regex = Seq (Group 1 (Alt (Text ''http'') (Text ''https''))) (Seq (Text ''://'')
     (Seq (Group 2 (Seq (Char_class host_char) (Many host_char)))
     (Seq (Opt (Seq (Text '':'') (Group 3 (Seq (Char_class dec_digit) (Many dec_digit)))))
     (Group 4 (Many dot_char)))))"

definition sub_match :: "captures \<Rightarrow> nat \<Rightarrow> string" where
  "sub_match m i = (case m i of None \<Rightarrow> [] | Some s \<Rightarrow> s)"

definition url_port :: "captures \<Rightarrow> u16 result" where
  "url_port m =
     (if m 3 \<noteq> None then (case stoi (sub_match m 3) of Inl e \<Rightarrow> Inl e | Inr n \<Rightarrow> Inr (of_int n))
      else Inr (if sub_match m 1 = ''https'' then 443 else 80))"

definition url_path :: "captures \<Rightarrow> string" where
  "url_path m = (if m 4 \<noteq> None \<and> sub_match m 4 \<noteq> [] then sub_match m 4 else ''/'')"

section \<open>One exchange\<close>

type_synonym connection = "(nat \<Rightarrow> nat \<Rightarrow> int) \<times> recv_event list"

definition read_response :: "recv_event list \<Rightarrow> RpcClient \<Rightarrow> (string option \<times> RpcClient) option" where
  "read_response es c =
     (case recv_all es [] of
        None \<Rightarrow> None
      | Some (Inl _) \<Rightarrow> Some (None, c\<lparr>rpc_last_error := ''recv_failed''\<rparr>)
      | Some (Inr resp) \<Rightarrow>
          (case split_at (crlf @ crlf) resp of
             None \<Rightarrow> Some (None, c\<lparr>rpc_last_error := ''bad_http''\<rparr>)
           | Some (_, body) \<Rightarrow> Some (Some body, c)))"

text \<open>The answer, \<open>None\<close> while it is waited for, and what was transmitted. \<open>net\<close> opens a connection: with
  TLS or without, to a host and a port, \<open>None\<close> when there is no such socket or it does not connect.\<close>

definition http_post ::
    "string \<Rightarrow> (bool \<Rightarrow> string \<Rightarrow> u16 \<Rightarrow> connection option) \<Rightarrow> RpcClient \<Rightarrow> string \<Rightarrow>
     ((string option \<times> RpcClient) option \<times> string) result" where
  "http_post url net c body =
     (case regex_match url_regex url of
        None \<Rightarrow> Inr (Some (None, c\<lparr>rpc_last_error := ''bad_url''\<rparr>), [])
      | Some m \<Rightarrow>
          (case url_port m of
             Inl e \<Rightarrow> Inl e
           | Inr port \<Rightarrow>
               (case net (sub_match m 1 = ''https'') (sub_match m 2) port of
                  None \<Rightarrow> Inr (Some (None, c\<lparr>rpc_last_error := ''connect_failed''\<rparr>), [])
                | Some (sock, es) \<Rightarrow>
                    (case send_loop sock 0 (http_request (url_path m) (sub_match m 2) c body) of (ok, out) \<Rightarrow>
                       Inr (if ok then read_response es c else Some (None, c\<lparr>rpc_last_error := ''send_failed''\<rparr>), out)))))"

text \<open>\<^verbatim>\<open>detectDefaultCookiePath\<close> for POSIX and for Windows, the environment as a map.\<close>

definition default_cookie_path :: "bool \<Rightarrow> (string \<Rightarrow> string option) \<Rightarrow> string" where
  "default_cookie_path windows env =
     (if windows
      then (case env ''APPDATA'' of
              Some appdata \<Rightarrow> appdata @ [CHR 0x5C] @ ''Bitcoin'' @ [CHR 0x5C] @ ''.cookie''
            | None \<Rightarrow> ''C:'' @ [CHR 0x5C] @ ''Users'' @ [CHR 0x5C] @ ''Public'' @ [CHR 0x5C] @ ''AppData'' @ [CHR 0x5C] @
                ''Roaming'' @ [CHR 0x5C] @ ''Bitcoin'' @ [CHR 0x5C] @ ''.cookie'')
      else (case env ''HOME'' of None \<Rightarrow> [] | Some home \<Rightarrow> home @ ''/.bitcoin/.cookie''))"

text \<open>\<^verbatim>\<open>call\<close> with its transport. An exception leaves the function.\<close>

definition rpc_call_url ::
    "'j json_lib \<Rightarrow> (string \<Rightarrow> 'j option) \<Rightarrow> ('j \<Rightarrow> string) \<Rightarrow> string \<Rightarrow> (string \<Rightarrow> string option) \<Rightarrow> string \<Rightarrow>
     (bool \<Rightarrow> string \<Rightarrow> u16 \<Rightarrow> connection option) \<Rightarrow> RpcClient \<Rightarrow> string \<Rightarrow>
     (('j option \<times> RpcClient) option \<times> string) result" where
  "rpc_call_url J parse dump home_cookie first_line url net c body =
     (case ensureCookie home_cookie first_line c of (ok, c) \<Rightarrow>
        if \<not> ok \<and> rpc_username c = [] then Inr (Some (None, c), [])
        else (case http_post url net c body of
                Inl e \<Rightarrow> Inl e
              | Inr (None, out) \<Rightarrow> Inr (None, out)
              | Inr (Some (None, c), out) \<Rightarrow> Inr (Some (None, c), out)
              | Inr (Some (Some resp_body, c), out) \<Rightarrow> Inr (Some (rpc_answer J parse dump c resp_body), out)))"

section \<open>What the regular expression means\<close>

text \<open>The scanner: the longest host, then the longest port if there is one, then the rest.\<close>

definition port_digits :: "string \<Rightarrow> string" where
  "port_digits rest = (case rest of [] \<Rightarrow> [] | c # t \<Rightarrow> if c = CHR '':'' then takeWhile dec_digit t else [])"

definition url_rest :: "string \<Rightarrow> string" where
  "url_rest rest = (if port_digits rest = [] then rest else drop (Suc (length (port_digits rest))) rest)"

definition scan_rest :: "captures \<Rightarrow> string \<Rightarrow> captures option" where
  "scan_rest g rest =
     (if list_all dot_char (url_rest rest)
      then Some ((if port_digits rest = [] then g else g(3 \<mapsto> port_digits rest))(4 \<mapsto> url_rest rest))
      else None)"

definition scan_host :: "captures \<Rightarrow> string \<Rightarrow> captures option" where
  "scan_host g s =
     (let host = takeWhile host_char s
      in if host = [] then None else scan_rest (g(2 \<mapsto> host)) (dropWhile host_char s))"

definition scan_url :: "string \<Rightarrow> captures option" where
  "scan_url s =
     (if prefix ''http://'' s then scan_host [1 \<mapsto> ''http''] (drop 7 s)
      else if prefix ''https://'' s then scan_host [1 \<mapsto> ''https''] (drop 8 s)
      else None)"

lemma full_append: "full (xs @ ys) = (case full xs of None \<Rightarrow> full ys | Some g \<Rightarrow> Some g)"
  by (induction xs) (auto simp: full_def)

lemma full_simps [simp]: "full [] = None" "full ((g, s) # ms) = (if s = [] then Some g else full ms)"
  by (simp_all add: full_def)

lemma full_concat_None: "(\<And>x. x \<in> set xs \<Longrightarrow> full (f x) = None) \<Longrightarrow> full (concat (map f xs)) = None"
  by (induction xs) (simp_all add: full_append)

lemma many_first: "\<exists>rs. many p s = dropWhile p s # rs \<and> (\<forall>r \<in> set rs. suffix (dropWhile p s) r)"
proof (induction s)
  case (Cons c s)
  then obtain rs where rs: "many p s = dropWhile p s # rs" "\<forall>r \<in> set rs. suffix (dropWhile p s) r" by blast
  then show ?case by (auto intro: suffix_ConsI suffix_dropWhile)
qed simp

text \<open>A greedy repetition before a continuation that fails on everything the greedy choice leaves it.\<close>

lemma full_many:
  assumes "\<And>r. suffix (dropWhile p s) r \<Longrightarrow> full (f (dropWhile p s)) = None \<Longrightarrow> full (f r) = None"
  shows "full (concat (map f (many p s))) = full (f (dropWhile p s))"
proof -
  obtain rs where rs: "many p s = dropWhile p s # rs" "\<forall>r \<in> set rs. suffix (dropWhile p s) r" using many_first by blast
  show ?thesis
  proof (cases "full (f (dropWhile p s))")
    case None
    then have "full (concat (map f rs)) = None" using rs(2) assms by (blast intro: full_concat_None)
    then show ?thesis using rs(1) None by (simp add: full_append)
  qed (simp add: rs(1) full_append)
qed

lemma suffix_list_all: "suffix r s \<Longrightarrow> list_all p s \<Longrightarrow> list_all p r"
  by (auto simp: suffix_def)

lemma rx_match_many: "rx_match (Many p) (g, s) = map (Pair g) (many p s)"
  by simp

lemma full_dots: "full (rx_match (Group 4 (Many dot_char)) (g, s)) = (if list_all dot_char s then Some (g(4 \<mapsto> s)) else None)"
proof -
  let ?f = "\<lambda>r. [(g(4 \<mapsto> take (length s - length r) s), r)]"
  have eq: "rx_match (Group 4 (Many dot_char)) (g, s) = concat (map ?f (many dot_char s))" by (simp add: comp_def)
  have "full (?f r) = None" if "suffix (dropWhile dot_char s) r" "full (?f (dropWhile dot_char s)) = None" for r
    using that by (auto split: if_splits)
  then have "full (concat (map ?f (many dot_char s))) = full (?f (dropWhile dot_char s))" by (rule full_many)
  moreover have "dropWhile dot_char s = [] \<longleftrightarrow> list_all dot_char s" by (simp add: list_all_iff)
  ultimately show ?thesis unfolding eq by (cases "list_all dot_char s") (simp_all del: dropWhile_eq_Nil_conv)
qed

text \<open>A group of one or more characters, and what follows it.\<close>

lemma some_chars:
  "rx_match (Seq (Group n (Seq (Char_class p) (Many p))) b) (g, s) =
     (case s of [] \<Rightarrow> [] | c # t \<Rightarrow> if p c
        then concat (map (\<lambda>r. rx_match b (g(n \<mapsto> take (length s - length r) s), r)) (many p t)) else [])"
  by (auto simp: comp_def split: list.split)

lemma full_some_chars:
  assumes "\<And>g h r t. suffix t r \<Longrightarrow> full (rx_match b (g, t)) = None \<Longrightarrow> full (rx_match b (h, r)) = None"
  shows "full (rx_match (Seq (Group n (Seq (Char_class p) (Many p))) b) (g, s)) =
     (if takeWhile p s = [] then None else full (rx_match b (g(n \<mapsto> takeWhile p s), dropWhile p s)))"
proof (cases "s = [] \<or> \<not> p (hd s)")
  case True
  then show ?thesis by (cases s) (simp_all add: some_chars del: rx_match.simps)
next
  case False
  then obtain c t where s: "s = c # t" "p c" by (cases s) auto
  let ?f = "\<lambda>r. rx_match b (g(n \<mapsto> take (length s - length r) s), r)"
  have "full (concat (map ?f (many p t))) = full (?f (dropWhile p t))" by (rule full_many) (rule assms)
  moreover have "take (length s - length (dropWhile p s)) s = takeWhile p s"
    by (metis append_eq_conv_conj length_append add_diff_cancel_right' takeWhile_dropWhile_id)
  ultimately show ?thesis using s by (simp add: some_chars del: rx_match.simps)
qed

lemma rx_match_opt:
  "rx_match (Seq (Opt (Seq (Text t) a)) b) (g, s) =
     (if prefix t s then rx_match (Seq a b) (g, drop (length t) s) else []) @ rx_match b (g, s)"
  by simp

abbreviation rest_regex :: rx where
  "rest_regex \<equiv> Seq (Opt (Seq (Text '':'') (Group 3 (Seq (Char_class dec_digit) (Many dec_digit))))) (Group 4 (Many dot_char))"

lemma full_rest: "full (rx_match rest_regex (g, s)) = scan_rest g s"
proof -
  note fails = full_some_chars [where b = "Group 4 (Many dot_char)" and p = dec_digit and n = 3]
  have "full (rx_match (Seq (Group 3 (Seq (Char_class dec_digit) (Many dec_digit))) (Group 4 (Many dot_char))) (g, t)) =
     (if takeWhile dec_digit t = [] then None
      else if list_all dot_char (dropWhile dec_digit t) then Some (g(3 \<mapsto> takeWhile dec_digit t, 4 \<mapsto> dropWhile dec_digit t)) else None)" for t
    using suffix_list_all by (subst fails) (auto simp: full_dots simp del: rx_match.simps split: if_splits)
  moreover have "dropWhile dec_digit t = drop (length (takeWhile dec_digit t)) t" for t :: string by (rule dropWhile_eq_drop)
  moreover have "list_all dot_char (c # t) \<Longrightarrow> list_all dot_char (dropWhile dec_digit t)" for c t
    using suffix_list_all [OF suffix_dropWhile, of dot_char t] by simp
  ultimately show ?thesis
    by (cases s) (auto simp: rx_match_opt full_append full_dots scan_rest_def url_rest_def port_digits_def
        simp del: rx_match.simps  split: option.splits)
qed

lemma scan_rest_None: "scan_rest g s = None \<longleftrightarrow> \<not> list_all dot_char s"
proof -
  have "list_all dot_char (url_rest s) \<longleftrightarrow> list_all dot_char s"
  proof (cases "port_digits s = []")
    case False
    then obtain t where t: "s = CHR '':'' # t" "port_digits s = takeWhile dec_digit t"
      by (cases s) (auto simp: port_digits_def split: if_splits)
    have "list_all dot_char (takeWhile dec_digit t)"
      by (auto simp: list_all_iff dot_char_def dec_digit_def dest!: set_takeWhileD)
    moreover have "list_all dot_char t = list_all dot_char (takeWhile dec_digit t @ dropWhile dec_digit t)" by simp
    ultimately show ?thesis using t by (simp add: url_rest_def dropWhile_eq_drop [symmetric] dot_char_def del: takeWhile_dropWhile_id)
  qed (simp add: url_rest_def)
  then show ?thesis by (simp add: scan_rest_def)
qed

lemma full_host: "full (rx_match (Seq (Group 2 (Seq (Char_class host_char) (Many host_char))) rest_regex) (g, s)) = scan_host g s"
  using suffix_list_all
  by (subst full_some_chars) (auto simp: full_rest scan_rest_None scan_host_def Let_def simp del: rx_match.simps)

lemma prefix_append_drop: "prefix (a @ b) s \<longleftrightarrow> prefix a s \<and> prefix b (drop (length a) s)"
  by (auto simp: prefix_def append_eq_append_conv_if)

lemma scheme_match:
  "concat (map (rx_match (Seq (Text ''://'') b)) (map (\<lambda>(g, r). (g(1 \<mapsto> take (length s - length r) s), r)) (rx_match (Text t) (g, s)))) =
     (if prefix (t @ ''://'') s then rx_match b (g(1 \<mapsto> t), drop (length t + 3) s) else [])"
proof -
  have "take (length s - length (drop (length t) s)) s = t" if "prefix t s" using that by (auto simp: prefix_def)
  then show ?thesis by (simp add: prefix_append_drop numeral_3_eq_3)
qed

text \<open>C20: the regular expression of the URL is a scanner. Whatever the text, the way the backtracking
  matcher finds first has the longest host, then the longest port behind a colon, and the rest as path;
  a text without one of the two schemes, with no host, or with an end of line behind the host does not
  match.\<close>

theorem url_regex_scans: "regex_match url_regex url = scan_url url"
proof -
  let ?host = "Seq (Group 2 (Seq (Char_class host_char) (Many host_char))) rest_regex"
  have "rx_match url_regex (Map.empty, url) =
      concat (map (rx_match (Seq (Text ''://'') ?host)) (map (\<lambda>(g, r). (g(1 \<mapsto> take (length url - length r) url), r))
         (rx_match (Text ''http'') (Map.empty, url)))) @
      concat (map (rx_match (Seq (Text ''://'') ?host)) (map (\<lambda>(g, r). (g(1 \<mapsto> take (length url - length r) url), r))
         (rx_match (Text ''https'') (Map.empty, url))))"
    unfolding url_regex_def by (simp only: rx_match.simps(4-6) map_append concat_append)
  also have "\<dots> = (if prefix (''http'' @ ''://'') url then rx_match ?host ([1 \<mapsto> ''http''], drop (length ''http'' + 3) url) else []) @
      (if prefix (''https'' @ ''://'') url then rx_match ?host ([1 \<mapsto> ''https''], drop (length ''https'' + 3) url) else [])"
    by (simp only: scheme_match)
  also have "full \<dots> = scan_url url"
  proof (cases "prefix ''http://'' url")
    case True
    then have "\<not> prefix ''https://'' url" by (auto simp: prefix_def)
    then show ?thesis using True by (simp add: full_host scan_url_def del: rx_match.simps)
  qed (simp add: full_host scan_url_def del: rx_match.simps)
  finally show ?thesis by (simp add: regex_match_def)
qed

section \<open>Calls over the network\<close>

definition port_text :: "nat option \<Rightarrow> string" where
  "port_text po = (case po of None \<Rightarrow> [] | Some n \<Rightarrow> CHR '':'' # dec_string n)"

definition plain_url :: "string \<Rightarrow> string \<Rightarrow> nat option \<Rightarrow> string \<Rightarrow> string" where
  "plain_url scheme host po path = scheme @ ''://'' @ host @ port_text po @ path"

lemma match_host:
  assumes "scheme = ''http'' \<or> scheme = ''https''" and "host \<noteq> []" and "list_all host_char host"
    and "rest = [] \<or> \<not> host_char (hd rest)"
  shows "regex_match url_regex (scheme @ ''://'' @ host @ rest) = scan_rest [1 \<mapsto> scheme, 2 \<mapsto> host] rest"
proof -
  have "takeWhile host_char (host @ rest) = host" "dropWhile host_char (host @ rest) = rest"
    using assms(3,4) by (cases rest; auto simp: list_all_iff takeWhile_append dropWhile_append)+
  then have "scan_host g (host @ rest) = scan_rest (g(2 \<mapsto> host)) rest" for g
    using assms(2) by (simp add: scan_host_def)
  then show ?thesis using assms(1) by (auto simp: url_regex_scans scan_url_def)
qed

lemma scan_rest_port:
  assumes "list_all dot_char x" and "x = [] \<or> \<not> dec_digit (hd x)"
  shows "scan_rest g (CHR '':'' # dec_string n @ x) = Some (g(3 \<mapsto> dec_string n, 4 \<mapsto> x))"
    and "scan_rest g (CHR '':'' # x) = Some (g(4 \<mapsto> CHR '':'' # x))"
proof -
  have "\<forall>c \<in> set (dec_string n). dec_digit c" by (rule dec_string_digits)
  then have "takeWhile dec_digit (dec_string n @ x) = dec_string n" "takeWhile dec_digit x = []"
    using assms(2) by (cases x; auto simp: takeWhile_append)+
  then show "scan_rest g (CHR '':'' # dec_string n @ x) = Some (g(3 \<mapsto> dec_string n, 4 \<mapsto> x))"
    "scan_rest g (CHR '':'' # x) = Some (g(4 \<mapsto> CHR '':'' # x))"
    using assms(1) by (simp_all add: scan_rest_def url_rest_def port_digits_def dec_string_nonempty dot_char_def)
qed

lemma scan_rest_path:
  "list_all dot_char path \<Longrightarrow> path = [] \<or> hd path \<noteq> CHR '':'' \<Longrightarrow> scan_rest g path = Some (g(4 \<mapsto> path))"
  by (cases path) (auto simp: scan_rest_def url_rest_def port_digits_def)

lemma plain_url_match:
  assumes "scheme = ''http'' \<or> scheme = ''https''" and "host \<noteq> []" and "list_all host_char host"
    and "list_all dot_char path" and "path = [] \<or> hd path = CHR ''/''"
  shows "regex_match url_regex (plain_url scheme host po path) =
    Some ((case po of None \<Rightarrow> [1 \<mapsto> scheme, 2 \<mapsto> host] | Some n \<Rightarrow> [1 \<mapsto> scheme, 2 \<mapsto> host, 3 \<mapsto> dec_string n])(4 \<mapsto> path))"
proof -
  have "port_text po @ path = [] \<or> \<not> host_char (hd (port_text po @ path))"
    using assms(5) by (cases po) (auto simp: port_text_def host_char_def)
  from match_host [OF assms(1-3) this] show ?thesis
    using scan_rest_port(1) [OF assms(4)] scan_rest_path [OF assms(4)] assms(5)
    by (cases po) (auto simp: plain_url_def port_text_def dec_digit_def)
qed

definition plain_port :: "string \<Rightarrow> nat option \<Rightarrow> u16" where
  "plain_port scheme po = (case po of None \<Rightarrow> if scheme = ''https'' then 443 else 80 | Some n \<Rightarrow> of_nat n)"

lemma plain_url_port:
  assumes "regex_match url_regex (plain_url scheme host po path) =
      Some ((case po of None \<Rightarrow> [1 \<mapsto> scheme, 2 \<mapsto> host] | Some n \<Rightarrow> [1 \<mapsto> scheme, 2 \<mapsto> host, 3 \<mapsto> dec_string n])(4 \<mapsto> path))"
    and "regex_match url_regex (plain_url scheme host po path) = Some m"
  shows "url_port m = (case po of Some n \<Rightarrow> if n < 2 ^ 31 then Inr (of_nat n) else Inl (Out_of_range ''stoi'') | None \<Rightarrow> Inr (plain_port scheme po))"
    and "sub_match m 1 = scheme" and "sub_match m 2 = host" and "url_path m = (if path = [] then ''/'' else path)"
  using assms stoi_dec_string [of "[]"]
  by (auto simp: url_port_def sub_match_def url_path_def plain_port_def split: option.splits)

definition good_socket :: "(nat \<Rightarrow> nat \<Rightarrow> int) \<Rightarrow> bool" where
  "good_socket sock \<longleftrightarrow> (\<forall>i n. 0 < n \<longrightarrow> 0 < sock i n \<and> sock i n \<le> int n)"

text \<open>A call over the network. For a URL with one of the schemes, a host, an optional decimal port below
  \<open>2 ^ 31\<close> and a path, the connection is opened to that host, with TLS exactly for \<^verbatim>\<open>https\<close>, and to that
  port modulo \<open>2 ^ 16\<close>, or to 80 or 443. Over a socket that takes a part of every write, the whole request
  is transmitted and nothing else; when the answer comes in any chunks, with any time-outs between them,
  the result is what the JSON document behind the first empty line says. A port of \<open>2 ^ 31\<close> or more is an
  exception before anything is sent.\<close>

theorem rpc_call_over_network:
  assumes "scheme = ''http'' \<or> scheme = ''https''" and "host \<noteq> []" and "list_all host_char host"
    and "list_all dot_char path" and "path = [] \<or> hd path = CHR ''/''" and "rpc_username c \<noteq> []"
    and "net (scheme = ''https'') host (plain_port scheme po) = Some (sock, concat (map (\<lambda>d. [Timeout, Data d]) ds) @ [Closed])"
    and "good_socket sock" and "concat ds = hdr @ crlf @ crlf @ body"
    and "\<forall>i < length hdr. take 4 (drop i (hdr @ (crlf @ crlf) @ body)) \<noteq> crlf @ crlf"
  shows "rpc_call_url J parse dump home line (plain_url scheme host po path) net c request =
    (if \<exists>n. po = Some n \<and> 2 ^ 31 \<le> n then Inl (Out_of_range ''stoi'')
     else Inr (Some (rpc_answer J parse dump c body),
       http_request (if path = [] then ''/'' else path) host c request))"
proof -
  obtain m where m: "regex_match url_regex (plain_url scheme host po path) = Some m" using plain_url_match [OF assms(1-5)] by blast
  note port = plain_url_port [OF plain_url_match [OF assms(1-5)] m]
  have cookie: "ensureCookie home line c = (True, c)" using assms(6) by (simp add: ensureCookie_def)
  show ?thesis
  proof (cases "\<exists>n. po = Some n \<and> 2 ^ 31 \<le> n")
    case True
    then show ?thesis using port(1) m cookie by (auto simp: rpc_call_url_def http_post_def)
  next
    case False
    then have p: "url_port m = Inr (plain_port scheme po)" using port(1) by (cases po) (auto simp: plain_port_def)
    have four: "length (crlf @ crlf) = 4" by (simp add: crlf_def)
    have "split_at (crlf @ crlf) (hdr @ (crlf @ crlf) @ body) = Some (hdr, body)"
      by (rule split_at_first) (unfold four, use assms(10) in blast)
    then have "read_response (concat (map (\<lambda>d. [Timeout, Data d]) ds) @ [Closed]) c = Some (Some body, c)"
      using assms(9) by (simp add: read_response_def recv_all_chunks)
    moreover have "send_loop sock 0 data = (True, data)" for data
      by (rule send_loop_complete) (use assms(8) in \<open>simp add: good_socket_def\<close>)
    ultimately show ?thesis using False p m port assms(7) cookie by (simp add: rpc_call_url_def http_post_def)
  qed
qed

theorem rpc_call_over_network_witness:
  "rpc_call_url json_model (\<lambda>s. Some (JObject [(''error'', JNull), (''result'', JString s)])) (\<lambda>j. []) [] (\<lambda>p. None)
     (plain_url ''http'' ''node'' (Some 8332) ''/w'')
     (\<lambda>tls host port. if port = 8332 then Some (\<lambda>i n. 1, [Timeout, Data (''OK'' @ crlf), Timeout, Data (crlf @ ''ab''), Closed]) else None)
     sample_client [] =
   Inr (Some (Some (JString ''ab''), sample_client), http_request ''/w'' ''node'' sample_client [])"
proof -
  let ?ds = "[''OK'' @ crlf, crlf @ ''ab'']"
  have "\<forall>i < length ''OK''. take 4 (drop i (''OK'' @ (crlf @ crlf) @ ''ab'')) \<noteq> crlf @ crlf"
    by (simp add: crlf_def less_Suc_eq)
  moreover have "concat ?ds = ''OK'' @ crlf @ crlf @ ''ab''" "rpc_username sample_client \<noteq> []"
    by (simp_all add: sample_client_def)
  ultimately show ?thesis
    using rpc_call_over_network [of "''http''" "''node''" "''/w''" sample_client
        "\<lambda>tls host port. if port = 8332 then Some (\<lambda>i n. 1, [Timeout, Data (''OK'' @ crlf), Timeout, Data (crlf @ ''ab''), Closed]) else None"
        "Some 8332" "\<lambda>i n. 1" ?ds "''OK''" "''ab''" json_model
        "\<lambda>s. Some (JObject [(''error'', JNull), (''result'', JString s)])" "\<lambda>j. []" "[]" "\<lambda>p. None" "[]"]
    by (simp add: rpc_answer_def json_model_def good_socket_def host_char_def dot_char_def plain_port_def)
qed

text \<open>The addresses the expression lets through. A colon without digits belongs to the path, so the call
  goes to the default port and asks for a path that begins with the colon; digits end where they end, so
  what follows them without a slash is the path; a text with neither scheme is refused, and so is a host
  that is missing. Refused calls transmit nothing.\<close>

theorem url_oddities:
  assumes "scheme = ''http'' \<or> scheme = ''https''" and "host \<noteq> []" and "list_all host_char host" and "list_all dot_char x"
    and "x = [] \<or> \<not> dec_digit (hd x)" and "n < 2 ^ 31" and "\<not> prefix ''http://'' url" and "\<not> prefix ''https://'' url"
  shows "(\<exists>m. regex_match url_regex (scheme @ ''://'' @ host @ CHR '':'' # x) = Some m \<and>
      url_port m = Inr (plain_port scheme None) \<and> url_path m = CHR '':'' # x) \<and>
    (\<exists>m. regex_match url_regex (scheme @ ''://'' @ host @ CHR '':'' # dec_string n @ x) = Some m \<and>
      url_port m = Inr (of_nat n) \<and> url_path m = (if x = [] then ''/'' else x)) \<and>
    http_post (scheme @ ''://'' @ CHR '':'' # x) net c body = Inr (Some (None, c\<lparr>rpc_last_error := ''bad_url''\<rparr>), []) \<and>
    http_post url net c body = Inr (Some (None, c\<lparr>rpc_last_error := ''bad_url''\<rparr>), [])"
proof (intro conjI)
  have colon: "\<not> host_char (CHR '':'')" by (simp add: host_char_def)
  note match = match_host [OF assms(1-3)] and rest = scan_rest_port [OF assms(4,5)]
  show "\<exists>m. regex_match url_regex (scheme @ ''://'' @ host @ CHR '':'' # x) = Some m \<and>
      url_port m = Inr (plain_port scheme None) \<and> url_path m = CHR '':'' # x"
    using match [of "CHR '':'' # x"] colon rest(2) by (simp add: url_port_def url_path_def sub_match_def plain_port_def)
  show "\<exists>m. regex_match url_regex (scheme @ ''://'' @ host @ CHR '':'' # dec_string n @ x) = Some m \<and>
      url_port m = Inr (of_nat n) \<and> url_path m = (if x = [] then ''/'' else x)"
    using match [of "CHR '':'' # dec_string n @ x"] colon rest(1) stoi_dec_string [of "[]" n] assms(6)
    by (simp add: url_port_def url_path_def sub_match_def)
  show "http_post (scheme @ ''://'' @ CHR '':'' # x) net c body = Inr (Some (None, c\<lparr>rpc_last_error := ''bad_url''\<rparr>), [])"
    using assms(1) colon by (auto simp: http_post_def url_regex_scans scan_url_def scan_host_def)
  show "http_post url net c body = Inr (Some (None, c\<lparr>rpc_last_error := ''bad_url''\<rparr>), [])"
    using assms(7,8) by (simp add: http_post_def url_regex_scans scan_url_def)
qed

theorem url_oddities_witness:
  "(\<exists>m. regex_match url_regex ''http://node:/'' = Some m \<and> url_port m = Inr 80 \<and> url_path m = '':/'') \<and>
    (\<exists>m. regex_match url_regex ''http://node:7w'' = Some m \<and> url_port m = Inr 7 \<and> url_path m = ''w'')"
proof -
  have "dec_string 7 = ''7''" by code_simp
  then show ?thesis
    using url_oddities [of "''http''" "''node''" "''/''" 7 "''node:8332''"] url_oddities [of "''http''" "''node''" "''w''" 7 "''node:8332''"]
    by (simp add: host_char_def dot_char_def dec_digit_def plain_port_def prefix_def)
qed

end
