(* ===== verification/Gbt_Thread.thy ===== *)
theory Gbt_Thread
  imports Worker_Threads Rpc_Url Decimal_Text Gbt_Runner
begin

text \<open>
  The node of \<^verbatim>\<open>src/adapters/gbt_runner.cc\<close> over the network: the clients with the credentials of the
  configuration, the polling thread with its flag and its pause, and \<^verbatim>\<open>submitblock\<close>. Every poll makes a new
  client, the submitter keeps its own. The reaction to a template is that of \<open>Gbt_Runner\<close>, the transport that
  of \<open>Rpc_Url\<close>. An exception of the transport is outside the \<^verbatim>\<open>try\<close> block of the loop and ends the program.
\<close>

section \<open>Clients\<close>

definition new_client :: RpcClient where
  "new_client = \<lparr>rpc_username = [], rpc_password = [], rpc_cookie_path = [], rpc_last_error = []\<rparr>"

definition fetch_client :: "RpcConfig \<Rightarrow> RpcClient" where
  "fetch_client rpc =
     (if rc_auth rpc = ''userpass'' then new_client\<lparr>rpc_username := rc_username rpc, rpc_password := rc_password rpc\<rparr>
      else new_client)"

definition submitter_client :: "RpcConfig \<Rightarrow> RpcClient" where
  "submitter_client rpc =
     (let c = new_client;
          c = (if rc_auth rpc = ''userpass'' then c\<lparr>rpc_username := rc_username rpc, rpc_password := rc_password rpc\<rparr> else c)
      in if rc_auth rpc = ''cookie'' \<and> rc_cookie_path rpc \<noteq> [] then c\<lparr>rpc_cookie_path := rc_cookie_path rpc\<rparr> else c)"

text \<open>What surrounds the calls: printing of documents, the default cookie path, the first lines of files.\<close>

record 'j node_env =
  ne_stratum :: "'j stratum_env"
  ne_text :: "json \<Rightarrow> string"
  ne_dump :: "'j \<Rightarrow> string"
  ne_cookie :: string
  ne_lines :: "string \<Rightarrow> string option"

type_synonym network = "bool \<Rightarrow> string \<Rightarrow> u16 \<Rightarrow> connection option"

definition rpc_document :: "string \<Rightarrow> json \<Rightarrow> json" where
  "rpc_document rpc_method params =
     JObject [(''jsonrpc'', JString ''1.0''), (''id'', JInt 1), (''method'', JString rpc_method), (''params'', params)]"

definition node_call :: "'j node_env \<Rightarrow> network \<Rightarrow> string \<Rightarrow> RpcClient \<Rightarrow> string \<Rightarrow> json \<Rightarrow>
    (('j option \<times> RpcClient) option \<times> string) result" where
  "node_call N net url c rpc_method params =
     rpc_call_url (se_json (ne_stratum N)) (se_parse (ne_stratum N)) (ne_dump N) (ne_cookie N) (ne_lines N) url net c
       (ne_text N (rpc_document rpc_method params))"

section \<open>The polling thread\<close>

datatype gbt_pc = Gbt_none | Gbt_head | Gbt_fetch | Gbt_sleep | Gbt_ended

record GbtThread =
  gt_pc :: gbt_pc
  gt_stop :: bool
  gt_runner :: GbtRunner
  gt_slept_ms :: nat

definition poll_ms :: "PoolEntry \<Rightarrow> int" where
  "poll_ms pool = (case pe_gbt pool of None \<Rightarrow> 2000 | Some g \<Rightarrow> sint (gc_poll_ms g))"

text \<open>\<^verbatim>\<open>fetchTemplate\<close> over the network; the inner \<open>None\<close> is its \<^verbatim>\<open>false\<close>, the outer one waits.\<close>

definition fetch_over_network :: "'j node_env \<Rightarrow> network \<Rightarrow> PoolEntry \<Rightarrow> ('j option option \<times> string) result" where
  "fetch_over_network N net pool =
     (case pe_rpc pool of
        None \<Rightarrow> Inr (Some None, [])
      | Some rpc \<Rightarrow>
          (case node_call N net (rc_url rpc) (fetch_client rpc) ''getblocktemplate'' (template_request pool) of
             Inl e \<Rightarrow> Inl e
           | Inr (answer, out) \<Rightarrow> Inr (map_option fst answer, out)))"

definition gbt_own :: "'j node_env \<Rightarrow> network \<Rightarrow> GbtThread \<Rightarrow> GbtThread result" where
  "gbt_own N net t =
     (case gt_pc t of
        Gbt_none \<Rightarrow> Inr t
      | Gbt_head \<Rightarrow> Inr (t\<lparr>gt_pc := if gt_stop t then Gbt_ended else Gbt_fetch\<rparr>)
      | Gbt_fetch \<Rightarrow>
          (case fetch_over_network N net (gr_pool (gt_runner t)) of
             Inl e \<Rightarrow> Inl e
           | Inr (None, _) \<Rightarrow> Inr t
           | Inr (Some None, _) \<Rightarrow> Inr (t\<lparr>gt_pc := Gbt_sleep\<rparr>)
           | Inr (Some (Some gbt), _) \<Rightarrow>
               (case on_template (ne_stratum N) gbt (gt_runner t) of
                  Inl e \<Rightarrow> Inl e
                | Inr r \<Rightarrow> Inr (t\<lparr>gt_runner := r, gt_pc := Gbt_sleep\<rparr>)))
      | Gbt_sleep \<Rightarrow> Inr (t\<lparr>gt_slept_ms := gt_slept_ms t + nat (poll_ms (gr_pool (gt_runner t))), gt_pc := Gbt_head\<rparr>)
      | Gbt_ended \<Rightarrow> Inr t)"

text \<open>\<^verbatim>\<open>start\<close>, and \<^verbatim>\<open>stop\<close> as its two halves: the flag, then the join, which is \<open>None\<close> while it waits.\<close>

definition start_polling :: "GbtThread \<Rightarrow> GbtThread" where
  "start_polling t = (if gt_pc t \<noteq> Gbt_none then t else t\<lparr>gt_stop := False, gt_pc := Gbt_head\<rparr>)"

definition set_gbt_stop :: "GbtThread \<Rightarrow> GbtThread" where
  "set_gbt_stop t = t\<lparr>gt_stop := True\<rparr>"

definition join_polling :: "GbtThread \<Rightarrow> GbtThread option" where
  "join_polling t = (case gt_pc t of Gbt_none \<Rightarrow> Some t | Gbt_ended \<Rightarrow> Some (t\<lparr>gt_pc := Gbt_none\<rparr>) | _ \<Rightarrow> None)"

section \<open>Submitting a block\<close>

definition submit_over_network :: "'j node_env \<Rightarrow> network \<Rightarrow> string \<Rightarrow> RpcClient \<Rightarrow> GbtSubmitter \<Rightarrow> u8 list \<Rightarrow>
    (bool \<times> RpcClient) option result" where
  "submit_over_network N net url c s header80_be =
     (if coinbase_hex s = [] then Inr (Some (False, c))
      else case node_call N net url c ''submitblock'' (JArray [JString (buildBlockHex s header80_be)]) of
             Inl e \<Rightarrow> Inl e
           | Inr (None, _) \<Rightarrow> Inr None
           | Inr (Some (res, c), _) \<Rightarrow> Inr (Some (res \<noteq> None, c)))"

section \<open>Lemmas\<close>

text \<open>A step that has its answer is the poll of \<open>Gbt_Runner\<close>.\<close>

lemma gbt_own_poll:
  assumes "gt_pc t = Gbt_fetch" and "fetch_over_network N net (gr_pool (gt_runner t)) = Inr (Some res, out)"
    and "pe_rpc (gr_pool (gt_runner t)) = Some rpc"
  shows "gbt_own N net t =
    (case gbt_poll (ne_stratum N) (\<lambda>m p. res) (gt_runner t) of Inl e \<Rightarrow> Inl e | Inr r \<Rightarrow> Inr (t\<lparr>gt_runner := r, gt_pc := Gbt_sleep\<rparr>))"
  using assms by (cases res) (auto simp: gbt_own_def gbt_poll_def fetchTemplate_def)

text \<open>The node of the following statements: where it is, and that it answers with a document.\<close>

definition node_at :: "network \<Rightarrow> string \<Rightarrow> string \<Rightarrow> nat option \<Rightarrow> string \<Rightarrow> string \<Rightarrow> bool" where
  "node_at net scheme host po path body \<longleftrightarrow>
     (scheme = ''http'' \<or> scheme = ''https'') \<and> host \<noteq> [] \<and> list_all host_char host \<and>
     list_all dot_char path \<and> (path = [] \<or> hd path = CHR ''/'') \<and>
     (\<exists>sock ds hdr. net (scheme = ''https'') host (plain_port scheme po) = Some (sock, concat (map (\<lambda>d. [Timeout, Data d]) ds) @ [Closed]) \<and>
        good_socket sock \<and> concat ds = hdr @ crlf @ crlf @ body \<and>
        (\<forall>i < length hdr. take 4 (drop i (hdr @ (crlf @ crlf) @ body)) \<noteq> crlf @ crlf))"

lemma node_call_at:
  assumes "node_at net scheme host po path body" and "rpc_username c \<noteq> []"
  shows "node_call N net (plain_url scheme host po path) c rpc_method params =
    (if \<exists>n. po = Some n \<and> 2 ^ 31 \<le> n then Inl (Out_of_range ''stoi'')
     else Inr (Some (rpc_answer (se_json (ne_stratum N)) (se_parse (ne_stratum N)) (ne_dump N) c body),
       http_request (if path = [] then ''/'' else path) host c (ne_text N (rpc_document rpc_method params))))"
proof -
  obtain sock ds hdr where at_node: "scheme = ''http'' \<or> scheme = ''https''" "host \<noteq> []" "list_all host_char host"
    "list_all dot_char path" "path = [] \<or> hd path = CHR ''/''"
    "net (scheme = ''https'') host (plain_port scheme po) = Some (sock, concat (map (\<lambda>d. [Timeout, Data d]) ds) @ [Closed])"
    "good_socket sock" "concat ds = hdr @ crlf @ crlf @ body"
    "\<forall>i < length hdr. take 4 (drop i (hdr @ (crlf @ crlf) @ body)) \<noteq> crlf @ crlf"
    using assms(1) unfolding node_at_def by metis
  show ?thesis unfolding node_call_def by (rule rpc_call_over_network [where net = net and scheme = scheme and host = host and po = po, OF at_node(1-5) assms(2) at_node(6-9)])
qed

section \<open>A sample node\<close>

definition node_document :: json where
  "node_document = JObject [(''error'', JNull), (''result'', JString ''high-hash'')]"

definition sample_node :: "json node_env" where
  "sample_node = \<lparr>ne_stratum = sample_env ''ab'' node_document, ne_text = (\<lambda>d. []), ne_dump = (\<lambda>d. []), ne_cookie = [],
     ne_lines = (\<lambda>p. None)\<rparr>"

definition sample_net :: network where
  "sample_net tls host port = Some (\<lambda>i n. 1, [Timeout, Data (''OK'' @ crlf), Timeout, Data (crlf @ ''ab''), Closed])"

definition sample_rpc :: RpcConfig where
  "sample_rpc = default_rpc\<lparr>rc_url := plain_url ''http'' ''node'' None [], rc_auth := ''userpass'', rc_username := ''u''\<rparr>"

lemma sample_node_at: "node_at sample_net ''http'' ''node'' None [] ''ab''"
proof -
  let ?ds = "[''OK'' @ crlf, crlf @ ''ab'']"
  have "\<forall>i < length ''OK''. take 4 (drop i (''OK'' @ (crlf @ crlf) @ ''ab'')) \<noteq> crlf @ crlf" by (simp add: crlf_def less_Suc_eq)
  moreover have "concat ?ds = ''OK'' @ crlf @ crlf @ ''ab''" by simp
  moreover have "sample_net False ''node'' (plain_port ''http'' None) = Some (\<lambda>i n. 1, concat (map (\<lambda>d. [Timeout, Data d]) ?ds) @ [Closed])"
    by (simp add: sample_net_def)
  moreover have "good_socket (\<lambda>i n. 1)" by (simp add: good_socket_def)
  ultimately have "\<exists>sock ds hdr. sample_net (''http'' = ''https'') ''node'' (plain_port ''http'' None) =
        Some (sock, concat (map (\<lambda>d. [Timeout, Data d]) ds) @ [Closed]) \<and> good_socket sock \<and> concat ds = hdr @ crlf @ crlf @ ''ab'' \<and>
      (\<forall>i < length hdr. take 4 (drop i (hdr @ (crlf @ crlf) @ ''ab'')) \<noteq> crlf @ crlf)"
    by (intro exI [of _ "\<lambda>i n. 1"] exI [of _ ?ds] exI [of _ "''OK''"]) simp
  then show ?thesis by (simp add: node_at_def host_char_def)
qed

definition sample_gbt_thread :: GbtThread where
  "sample_gbt_thread = \<lparr>gt_pc = Gbt_fetch, gt_stop = False,
     gt_runner = \<lparr>gr_adapter = \<lparr>ga_name = ''n'', ga_q = [], ga_has_submitter = False\<rparr>, gr_pool = default_pool\<lparr>pe_rpc := Some sample_rpc\<rparr>,
       gr_submitter = None, gr_last_prevhash = []\<rparr>, gt_slept_ms = 0\<rparr>"

section \<open>Properties\<close>

text \<open>A client without a user takes the first line of the cookie file, once.\<close>

lemma node_call_cookie:
  assumes "ensureCookie (ne_cookie N) (ne_lines N) c = (True, c')" and "rpc_username c' \<noteq> []"
  shows "node_call N net url c rpc_method params = node_call N net url c' rpc_method params"
  using assms by (simp add: node_call_def rpc_call_url_def ensureCookie_def [of _ _ c'])

lemma fetch_credentials:
  assumes "if rc_auth rpc = ''userpass'' \<and> rc_username rpc \<noteq> [] then user = rc_username rpc \<and> pass = rc_password rpc
      else ne_lines N (ne_cookie N) = Some (user @ '':'' @ pass) \<and> CHR '':'' \<notin> set user \<and> user \<noteq> []"
  obtains c where "ensureCookie (ne_cookie N) (ne_lines N) (fetch_client rpc) = (True, c)"
    and "rpc_username c = user" and "rpc_password c = pass" and "user \<noteq> []"
  using assms that
  by (auto simp: ensureCookie_def fetch_client_def new_client_def split_at_char split: if_splits)

text \<open>C14: a template over the network. The credentials are the configured user and password, or, for any
  other kind of authentication and for an empty user, the two parts of the first line of the default
  cookie file, whatever cookie path is configured. With a node that answers with a document in any chunks, one
  poll sends exactly one HTTP request, with these credentials in the standard base64 encoding, that asks
  for a template with the rules of the pool, and does with the document's result what \<open>gbt_poll\<close> does, or
  nothing when the document has an error or no result; then the thread sleeps. With a port of
  \<open>2 ^ 31\<close> or more in the URL the first poll ends the program.\<close>

theorem template_over_network:
  assumes "pe_rpc (gr_pool r) = Some rpc"
    and "if rc_auth rpc = ''userpass'' \<and> rc_username rpc \<noteq> [] then user = rc_username rpc \<and> pass = rc_password rpc
      else ne_lines N (ne_cookie N) = Some (user @ '':'' @ pass) \<and> CHR '':'' \<notin> set user \<and> user \<noteq> []"
    and "rc_url rpc = plain_url scheme host po path" and "node_at net scheme host po path body"
    and "se_parse (ne_stratum N) body = Some doc" and "J = se_json (ne_stratum N)"
    and "res = (if j_contains J doc ''error'' \<and> map_option (j_is_null J) (j_field J doc ''error'') = Some True \<and> j_contains J doc ''result''
      then j_field J doc ''result'' else None)"
    and "gt_pc t = Gbt_fetch" and "gt_runner t = r"
    and "request = ne_text N (JObject [(''jsonrpc'', JString ''1.0''), (''id'', JInt 1), (''method'', JString ''getblocktemplate''),
      (''params'', JArray [JObject [(''rules'', JArray (map JString (case pe_gbt (gr_pool r) of None \<Rightarrow> [''segwit''] | Some g \<Rightarrow> gc_rules g)))]])])"
  shows "if \<exists>n. po = Some n \<and> 2 ^ 31 \<le> n then gbt_own N net t = Inl (Out_of_range ''stoi'')
    else gbt_own N net t = (case gbt_poll (ne_stratum N) (\<lambda>m p. res) r of Inl e \<Rightarrow> Inl e
        | Inr r' \<Rightarrow> Inr (t\<lparr>gt_runner := r', gt_pc := Gbt_sleep\<rparr>)) \<and>
      fetch_over_network N net (gr_pool r) = Inr (Some res,
        ''POST '' @ (if path = [] then ''/'' else path) @ '' HTTP/1.1'' @ crlf @ ''Host: '' @ host @ crlf @
        ''User-Agent: MyCustomBTCMiner/0.1'' @ crlf @ ''Content-Type: application/json'' @ crlf @
        ''Authorization: Basic '' @ base64_groups (map of_char (user @ '':'' @ pass)) @ crlf @
        ''Content-Length: '' @ dec_string (length request) @ crlf @ ''Connection: close'' @ crlf @ crlf @ request)"
proof -
  obtain c where c: "ensureCookie (ne_cookie N) (ne_lines N) (fetch_client rpc) = (True, c)"
    "rpc_username c = user" "rpc_password c = pass" "user \<noteq> []"
    using fetch_credentials [OF assms(2)] .
  have user: "rpc_username c \<noteq> []" using c by simp
  have res: "fst (rpc_answer J (se_parse (ne_stratum N)) (ne_dump N) c body) = res"
    using assms(5,7) by (simp add: rpc_answer_def split: option.splits)
  have request: "ne_text N (rpc_document ''getblocktemplate'' (template_request (gr_pool r))) = request"
    by (simp add: assms(10) rpc_document_def template_request_def split: option.split)
  have sent: "http_request p host c request = ''POST '' @ p @ '' HTTP/1.1'' @ crlf @ ''Host: '' @ host @ crlf @
        ''User-Agent: MyCustomBTCMiner/0.1'' @ crlf @ ''Content-Type: application/json'' @ crlf @
        ''Authorization: Basic '' @ base64_groups (map of_char (user @ '':'' @ pass)) @ crlf @
        ''Content-Length: '' @ dec_string (length request) @ crlf @ ''Connection: close'' @ crlf @ crlf @ request" for p
    using c(2-4) by (simp add: http_request_def auth_header_def base64_is_groups string_bytes_def)
  note call = node_call_cookie [OF c(1) user, of net "rc_url rpc" "''getblocktemplate''" "template_request (gr_pool r)"]
    node_call_at [OF assms(4) user, of N "''getblocktemplate''" "template_request (gr_pool r)"]
  show ?thesis
  proof (cases "\<exists>n. po = Some n \<and> 2 ^ 31 \<le> n")
    case True
    then have "fetch_over_network N net (gr_pool r) = Inl (Out_of_range ''stoi'')"
      using call assms(1,3) by (simp add: fetch_over_network_def)
    then show ?thesis using True assms(8,9) by (simp add: gbt_own_def)
  next
    case False
    then have fetch: "fetch_over_network N net (gr_pool r) = Inr (Some res, http_request (if path = [] then ''/'' else path) host c request)"
      using call assms(1,3,6) res by (simp add: fetch_over_network_def request)
    then show ?thesis unfolding if_not_P [OF False] sent using gbt_own_poll [of t N net res _ rpc] assms(1,8,9) by simp
  qed
qed

definition cookie_gbt_thread :: GbtThread where
  "cookie_gbt_thread = sample_gbt_thread\<lparr>gt_runner := (gt_runner sample_gbt_thread)\<lparr>gr_pool := default_pool\<lparr>pe_rpc :=
     Some (sample_rpc\<lparr>rc_auth := ''cookie'', rc_cookie_path := ''/elsewhere''\<rparr>)\<rparr>\<rparr>\<rparr>"

theorem template_over_network_witness:
  "gbt_own sample_node sample_net sample_gbt_thread = Inr (sample_gbt_thread\<lparr>gt_pc := Gbt_sleep\<rparr>) \<and>
   (\<exists>a b. fetch_over_network (sample_node\<lparr>ne_cookie := ''c'', ne_lines := (\<lambda>p. if p = ''c'' then Some ''a:b'' else None)\<rparr>) sample_net
      (gr_pool (gt_runner cookie_gbt_thread)) = Inr (Some (Some (JString ''high-hash'')),
        a @ ''Authorization: Basic '' @ base64_groups (map of_char ''a:b'') @ b))"
proof -
  let ?N = "sample_node\<lparr>ne_cookie := ''c'', ne_lines := (\<lambda>p. if p = ''c'' then Some ''a:b'' else None)\<rparr>"
  have rpc: "rc_auth sample_rpc = ''userpass''" "rc_username sample_rpc = ''u''" "rc_url sample_rpc = plain_url ''http'' ''node'' None []"
    by (simp_all add: sample_rpc_def)
  have parse: "se_parse (ne_stratum sample_node) ''ab'' = Some node_document" "se_parse (ne_stratum ?N) ''ab'' = Some node_document"
    by (simp_all add: sample_node_def sample_env_def)
  have "gbt_own sample_node sample_net sample_gbt_thread = Inr (sample_gbt_thread\<lparr>gt_pc := Gbt_sleep\<rparr>)"
    using template_over_network [OF _ _ rpc(3) sample_node_at parse(1) refl refl, of "gt_runner sample_gbt_thread" "''u''"
        "rc_password sample_rpc" sample_gbt_thread]
    by (simp add: rpc sample_gbt_thread_def sample_node_def node_document_def json_model_def gbt_poll_def fetchTemplate_def on_template_def
        sample_env_def Let_def)
  moreover
  have "rc_url (sample_rpc\<lparr>rc_auth := ''cookie'', rc_cookie_path := ''/elsewhere''\<rparr>) = plain_url ''http'' ''node'' None []"
    by (simp add: rpc)
  from template_over_network [OF _ _ this sample_node_at parse(2) refl refl, of "gt_runner cookie_gbt_thread" "''a''" "''b''" cookie_gbt_thread]
  have "fetch_over_network ?N sample_net (gr_pool (gt_runner cookie_gbt_thread)) = Inr (Some (Some (JString ''high-hash'')),
      (''POST '' @ ''/'' @ '' HTTP/1.1'' @ crlf @ ''Host: '' @ ''node'' @ crlf @
        ''User-Agent: MyCustomBTCMiner/0.1'' @ crlf @ ''Content-Type: application/json'' @ crlf) @
      ''Authorization: Basic '' @ base64_groups (map of_char ''a:b'') @ (crlf @ ''Content-Length: '' @ dec_string 0 @ crlf @
        ''Connection: close'' @ crlf @ crlf @ []))"
    by (simp add: cookie_gbt_thread_def sample_gbt_thread_def sample_node_def node_document_def json_model_def sample_env_def
        del: base64_groups.simps)
  ultimately show ?thesis by blast
qed

text \<open>C19: a refused block counts as accepted. \<^verbatim>\<open>submitblock\<close> of a node answers without an error and with the
  reason of a refusal as its result; the submitter looks only whether there is a result, so every such
  answer is a success, whatever it says.\<close>

theorem block_verdict_ignored:
  assumes "coinbase_hex s \<noteq> []" and "rc_auth rpc = ''userpass''" and "rc_username rpc \<noteq> []"
    and "node_at net scheme host None path body"
    and "se_parse (ne_stratum N) body = Some doc" and "J = se_json (ne_stratum N)"
    and "j_contains J doc ''error''" and "j_field J doc ''error'' = Some e" and "j_is_null J e"
    and "j_contains J doc ''result''" and "j_field J doc ''result'' = Some reason"
  shows "submit_over_network N net (plain_url scheme host None path) (submitter_client rpc) s header =
    Inr (Some (True, submitter_client rpc))"
proof -
  have user: "rpc_username (submitter_client rpc) \<noteq> []" using assms(2,3) by (simp add: submitter_client_def Let_def)
  have "rpc_answer J (se_parse (ne_stratum N)) (ne_dump N) (submitter_client rpc) body = (Some reason, submitter_client rpc)"
    using assms(5,7-11) by (simp add: rpc_answer_def)
  then show ?thesis
    using node_call_at [OF assms(4) user, of N "''submitblock''" "JArray [JString (buildBlockHex s header)]"] assms(1,6)
    by (simp add: submit_over_network_def)
qed

theorem block_verdict_ignored_witness:
  "submit_over_network sample_node sample_net (rc_url sample_rpc) (submitter_client sample_rpc) (submitter_new\<lparr>coinbase_hex := ''00''\<rparr>) [] =
    Inr (Some (True, submitter_client sample_rpc))"
proof -
  have rpc: "rc_auth sample_rpc = ''userpass''" "rc_username sample_rpc \<noteq> []" "rc_url sample_rpc = plain_url ''http'' ''node'' None []"
    by (simp_all add: sample_rpc_def)
  have "se_parse (ne_stratum sample_node) ''ab'' = Some node_document" by (simp add: sample_node_def sample_env_def)
  from block_verdict_ignored [OF _ rpc(1,2) sample_node_at this refl, of "submitter_new\<lparr>coinbase_hex := ''00''\<rparr>" JNull]
  show ?thesis by (simp add: rpc(3) sample_node_def node_document_def json_model_def sample_env_def)
qed

section \<open>Stopping\<close>

definition gbt_ended :: "GbtThread \<Rightarrow> bool" where
  "gbt_ended t \<longleftrightarrow> gt_pc t = Gbt_ended \<or> gt_pc t = Gbt_none"

definition gbt_left :: "gbt_pc \<Rightarrow> nat" where
  "gbt_left pc = (case pc of Gbt_fetch \<Rightarrow> 2 | Gbt_sleep \<Rightarrow> 1 | _ \<Rightarrow> 0)"

definition gbt_sleep_left :: "GbtThread \<Rightarrow> nat" where
  "gbt_sleep_left t = (if gt_pc t = Gbt_fetch \<or> gt_pc t = Gbt_sleep then nat (poll_ms (gr_pool (gt_runner t))) else 0)"

text \<open>A network on which no answer is waited for for ever.\<close>

definition answering :: "'j node_env \<Rightarrow> network \<Rightarrow> bool" where
  "answering N net \<longleftrightarrow> (\<forall>pool out. fetch_over_network N net pool \<noteq> Inr (None, out))"

lemma on_template_pool: "on_template E gbt r = Inr r' \<Longrightarrow> gr_pool r' = gr_pool r"
  by (auto simp: on_template_def Let_def split: option.splits if_splits sum.splits)

interpretation gbt_thread: stoppable "gbt_own N" gt_stop gbt_ended "\<lambda>t. gbt_left (gt_pc t)" "answering N" gt_slept_ms gbt_sleep_left for N
proof unfold_locales
  fix net t t'
  assume own: "gbt_own N net t = Inr t'"
  show "gt_stop t'" if "gt_stop t"
    using own that by (auto simp: gbt_own_def split: gbt_pc.splits sum.splits option.splits prod.splits)
  show "gbt_ended t' \<or> gbt_left (gt_pc t') < gbt_left (gt_pc t)" if "gt_stop t" "\<not> gbt_ended t" "answering N net"
    using own that by (auto simp: gbt_own_def gbt_ended_def gbt_left_def answering_def split: gbt_pc.splits sum.splits option.splits prod.splits)
  show "t' = t" if "gbt_ended t" using own that by (auto simp: gbt_own_def gbt_ended_def)
  show "gt_slept_ms t' + gbt_sleep_left t' \<le> gt_slept_ms t + gbt_sleep_left t" if "gt_stop t"
    using own that by (auto simp: gbt_own_def gbt_sleep_left_def on_template_pool split: gbt_pc.splits sum.splits option.splits prod.splits)
qed

text \<open>\<^verbatim>\<open>stop\<close> of the node's thread returns after three steps on a network that answers, sleeps one interval at
  most, and leaves a thread that can be started again.\<close>

theorem gbt_stop:
  assumes "worker_run (gbt_own N) nets (set_gbt_stop t) = Inr t'" and "list_all (answering N) nets" and "3 \<le> length nets"
  shows "\<exists>u. join_polling t' = Some u \<and> gt_pc (start_polling u) = Gbt_head \<and>
    gt_slept_ms t' \<le> gt_slept_ms t + nat (poll_ms (gr_pool (gt_runner t)))"
proof -
  have flag: "gt_stop (set_gbt_stop t)" by (simp add: set_gbt_stop_def)
  have "gbt_left (gt_pc (set_gbt_stop t)) < length nets" using assms(3) by (auto simp: gbt_left_def split: gbt_pc.split)
  then have "gbt_ended t'" by (rule gbt_thread.stops [OF assms(1) flag assms(2)])
  moreover have "gt_slept_ms t' \<le> gt_slept_ms t + nat (poll_ms (gr_pool (gt_runner t)))"
    using gbt_thread.wait_bound [OF assms(1) flag] by (auto simp: gbt_sleep_left_def set_gbt_stop_def split: if_splits)
  ultimately show ?thesis by (auto simp: gbt_ended_def join_polling_def start_polling_def)
qed

end
