(* ===== verification/Observability.thy ===== *)
theory Observability
  imports Metrics Rpc_Client "HOL-Library.Sublist"
begin

text \<open>
  \<^verbatim>\<open>src/obs/log.cc\<close> and the server half of \<^verbatim>\<open>src/obs/metrics.cc\<close>: the document of a log line and where
  it is written, and the answers of the metrics server. The server handles one connection at a time,
  so a run of it is a list of what each turn of its loop meets. The first read of a connection gives
  the request (one call of \<^verbatim>\<open>recv\<close>, at most 1024 characters), and the
  sends are taken to be complete, since the code does not look at what they return. How a document
  is printed is an argument. The thread of the server is in \<open>Metrics_Server\<close>, the opening of the log file in
  \<open>Static_State\<close>.
\<close>

section \<open>Log lines\<close>

datatype LogLevel = kTrace | kDebug | kInfo | kWarn | kError

fun level_text :: "LogLevel \<Rightarrow> string" where
  "level_text kTrace = ''trace''"
| "level_text kDebug = ''debug''"
| "level_text kInfo = ''info''"
| "level_text kWarn = ''warn''"
| "level_text kError = ''error''"

text \<open>\<^verbatim>\<open>fields.is_null()\<close> or \<^verbatim>\<open>fields.empty()\<close>, which holds of an empty object or array.\<close>

definition no_fields :: "json \<Rightarrow> bool" where
  "no_fields extra \<longleftrightarrow> extra = JNull \<or> extra = JObject [] \<or> extra = JArray []"

definition log_document :: "int \<Rightarrow> string \<Rightarrow> LogLevel \<Rightarrow> string \<Rightarrow> json \<Rightarrow> json" where
  "log_document ms component level message extra = JObject
     ([(''ts_ms'', JInt ms), (''level'', JString (level_text level)), (''component'', JString component),
       (''msg'', JString message)] @ (if no_fields extra then [] else [(''fields'', extra)]))"

text \<open>Standard output and the file sink, \<open>None\<close> when it is not open.\<close>

definition log_write :: "(json \<Rightarrow> string) \<Rightarrow> json \<Rightarrow> string \<times> string option \<Rightarrow> string \<times> string option" where
  "log_write dump doc sinks =
     (case sinks of (out, ofs) \<Rightarrow>
        let line = dump doc @ [CHR 0x0A] in (out @ line, map_option (\<lambda>f. f @ line) ofs))"

section \<open>Requests\<close>

text \<open>\<^verbatim>\<open>req.find(c, from)\<close>\<close>

definition find_char :: "char \<Rightarrow> nat \<Rightarrow> string \<Rightarrow> nat option" where
  "find_char c from s =
     (let n = length (takeWhile (\<lambda>x. x \<noteq> c) (drop from s))
      in if from + n < length s then Some (from + n) else None)"

definition request_path :: "string \<Rightarrow> string" where
  "request_path req =
     (let sp = find_char (CHR '' '') 0 req;
          sp2 = find_char (CHR '' '') (case sp of None \<Rightarrow> 0 | Some i \<Rightarrow> i + 1) req
      in case (sp, sp2) of
           (Some i, Some k) \<Rightarrow> take (k - i - 1) (drop (i + 1) req)
         | _ \<Rightarrow> ''/'')"

definition request_ok :: "string \<Rightarrow> bool" where
  "request_ok req =
     (let ok = prefix ''GET '' req
      in if ok then request_path req = ''/metrics'' \<or> request_path req = ''/'' else False)"

section \<open>Answers\<close>

text \<open>\<^verbatim>\<open>snprintf\<close> into 256 characters: what is cut off, and the length it would have needed.\<close>

definition response_head :: "nat \<Rightarrow> string \<Rightarrow> nat \<Rightarrow> string" where
  "response_head status ctype n =
     ''HTTP/1.1 '' @ dec_string status @ '' '' @ (if status = 200 then ''OK'' else ''Not Found'') @ crlf @
     ''Content-Type: '' @ ctype @ crlf @ ''Content-Length: '' @ dec_string n @ crlf @ ''Connection: close'' @ crlf @ crlf"

definition send_head :: "string \<Rightarrow> string result" where
  "send_head head = (if length head < 256 then Inr head else Inl Out_of_bounds)"

definition http_answer :: "(json \<Rightarrow> string) \<Rightarrow> MetricsRegistry option \<Rightarrow> string \<Rightarrow> string result" where
  "http_answer dump registry req =
     (let (status, ctype, body) = (case (request_ok req, registry) of
            (True, Some r) \<Rightarrow> (200, ''application/json'', dump (metrics_snapshot r))
          | _ \<Rightarrow> (404, ''text/plain'', ''not found''))
      in case send_head (response_head status ctype (length body)) of
           Inl e \<Rightarrow> Inl e
         | Inr head \<Rightarrow> Inr (head @ body))"

section \<open>The loop\<close>

text \<open>A turn of the loop: nothing to accept within a second, a failed \<^verbatim>\<open>accept\<close>, a client that sends
  nothing, a client with a request.\<close>

datatype server_event = Idle_second | Accept_failed | Silent_client | Client string

fun serve :: "(json \<Rightarrow> string) \<Rightarrow> MetricsRegistry option \<Rightarrow> server_event list \<Rightarrow> string list result" where
  "serve dump registry [] = Inr []"
| "serve dump registry (ev # evs) =
     (case ev of
        Client req \<Rightarrow> (case http_answer dump registry req of
            Inl e \<Rightarrow> Inl e
          | Inr a \<Rightarrow> (case serve dump registry evs of Inl e \<Rightarrow> Inl e | Inr as \<Rightarrow> Inr (a # as)))
      | _ \<Rightarrow> serve dump registry evs)"

text \<open>\<^verbatim>\<open>start\<close> and \<^verbatim>\<open>stop\<close> on the running flag.\<close>

definition server_start :: "bool \<Rightarrow> bool \<times> bool" where
  "server_start running = (if running then (False, running) else (True, True))"

section \<open>Lemmas\<close>

lemma length_dec_string: "n < 10 ^ k \<Longrightarrow> 0 < k \<Longrightarrow> length (dec_string n) \<le> k"
proof (induction n arbitrary: k rule: dec_string.induct)
  case (1 n)
  show ?case
  proof (cases "n < 10")
    case False
    then have "1 < k" using 1(2,3) by (cases "k = 1") auto
    then obtain j where j: "k = Suc j" "0 < j" by (cases k) auto
    have "n div 10 < 10 ^ j" using 1(2) j(1) by simp
    with 1(1) [OF False] j(2) have "length (dec_string (n div 10)) \<le> j" by blast
    then show ?thesis using False j(1) by (subst dec_string.simps) simp
  qed (use 1(3) in \<open>simp add: dec_string.simps\<close>)
qed

lemma find_char_first:
  assumes "c \<notin> set a"
  shows "find_char c (length p) (p @ a @ c # b) = Some (length p + length a)"
    and "find_char c (length p) (p @ a) = None"
proof -
  have all: "\<And>x. x \<in> set a \<Longrightarrow> x \<noteq> c" using assms by blast
  have "takeWhile (\<lambda>x. x \<noteq> c) (a @ c # b) = a" using all by (simp add: takeWhile_append2)
  moreover have "takeWhile (\<lambda>x. x \<noteq> c) a = a" using all by (simp add: takeWhile_eq_all_conv)
  ultimately show "find_char c (length p) (p @ a @ c # b) = Some (length p + length a)"
    "find_char c (length p) (p @ a) = None"
    by (simp_all add: find_char_def Let_def del: takeWhile_eq_all_conv)
qed

lemma request_path_get:
  assumes "CHR '' '' \<notin> set path"
  shows "request_path (''GET '' @ path @ CHR '' '' # rest) = path" and "request_path (''GET '' @ path) = ''/''"
proof -
  have sp: "find_char (CHR '' '') 0 (''GET '' @ s) = Some 3" for s
    using find_char_first(1) [of "CHR '' ''" "''GET''" "[]" s] by (simp add: find_char_def)
  have "find_char (CHR '' '') 4 (''GET '' @ path @ CHR '' '' # rest) = Some (4 + length path)"
    using find_char_first(1) [OF assms, of "''GET ''" rest] by (simp add: eval_nat_numeral)
  with sp show "request_path (''GET '' @ path @ CHR '' '' # rest) = path"
    by (simp add: request_path_def Let_def)
  have "find_char (CHR '' '') 4 (''GET '' @ path) = None"
    using find_char_first(2) [OF assms, of "''GET ''"] by (simp add: eval_nat_numeral)
  with sp show "request_path (''GET '' @ path) = ''/''" by (simp add: request_path_def Let_def)
qed

lemma head_fits:
  assumes "length ctype \<le> 20" and "n < 10 ^ 20" and "status < 1000"
  shows "length (response_head status ctype n) < 256"
proof -
  have "length (dec_string n) \<le> 20" "length (dec_string status) \<le> 3"
    using length_dec_string [of n 20] length_dec_string [of status 3] assms(2,3) by simp_all
  then have "length (response_head status ctype n) \<le> 3 + 20 + 20 + 100"
    using assms(1) by (auto simp: response_head_def crlf_def)
  then show ?thesis by simp
qed

lemma http_answer_cases:
  assumes "length (dump (metrics_snapshot r)) < 10 ^ 20"
  shows "http_answer dump (Some r) req =
     Inr (if request_ok req
          then response_head 200 ''application/json'' (length (dump (metrics_snapshot r))) @ dump (metrics_snapshot r)
          else response_head 404 ''text/plain'' (length ''not found'') @ ''not found'')"
  using head_fits [of "''application/json''" "length (dump (metrics_snapshot r))" 200] head_fits [of "''text/plain''" "length ''not found''" 404] assms
  by (simp add: http_answer_def send_head_def)

section \<open>Properties\<close>

text \<open>What the metrics server answers. The snapshot goes out, with its length in the header and the
  header within its 256 characters, exactly for requests that begin with \<^verbatim>\<open>GET \<close> and whose path, up to
  the next space, is \<^verbatim>\<open>/metrics\<close> or \<^verbatim>\<open>/\<close>, and for \<^verbatim>\<open>GET \<close> followed by anything without a space; a
  longer path such as \<^verbatim>\<open>/metrics?x\<close> is not found, although the comment asks for a prefix. The
  answers of a run are those of its requests, in order, whatever happens between them.\<close>

theorem metrics_server_answers:
  assumes "length (dump (metrics_snapshot r)) < 10 ^ 20" and "CHR '' '' \<notin> set path"
  defines "found \<equiv> response_head 200 ''application/json'' (length (dump (metrics_snapshot r))) @ dump (metrics_snapshot r)"
    and "missing \<equiv> response_head 404 ''text/plain'' (length ''not found'') @ ''not found''"
  shows "http_answer dump (Some r) (''GET '' @ path @ CHR '' '' # rest) =
      Inr (if path = ''/metrics'' \<or> path = ''/'' then found else missing) \<and>
    http_answer dump (Some r) (''GET '' @ path) = Inr found \<and>
    (\<not> prefix ''GET '' req \<longrightarrow> http_answer dump (Some r) req = Inr missing) \<and>
    length (response_head 200 ''application/json'' (length (dump (metrics_snapshot r)))) < 256 \<and>
    serve dump (Some r) evs =
      Inr (concat (map (\<lambda>ev. case ev of Client q \<Rightarrow> [if request_ok q then found else missing] | _ \<Rightarrow> []) evs))"
proof -
  note answer = http_answer_cases [where dump = dump and r = r, OF assms(1), folded found_def missing_def]
  have "serve dump (Some r) evs =
      Inr (concat (map (\<lambda>ev. case ev of Client q \<Rightarrow> [if request_ok q then found else missing] | _ \<Rightarrow> []) evs))"
    by (induction evs) (auto simp: answer split: server_event.split)
  moreover have "length (response_head 200 ''application/json'' (length (dump (metrics_snapshot r)))) < 256"
    using assms(1) by (intro head_fits) simp_all
  ultimately show ?thesis
    using request_path_get [OF assms(2)] by (simp add: answer request_ok_def)
qed

theorem metrics_server_answers_witness:
  "http_answer (\<lambda>_. ''{}'') (Some metrics_new) ''GET /metrics?x HTTP/1.1'' = Inr (response_head 404 ''text/plain'' (length ''not found'') @ ''not found'') \<and>
   http_answer (\<lambda>_. ''{}'') (Some metrics_new) ''GET /secret'' = Inr (response_head 200 ''application/json'' (length ''{}'') @ ''{}'')"
  using metrics_server_answers [of "\<lambda>_. ''{}''" metrics_new "''/metrics?x''" "''HTTP/1.1''"]
    metrics_server_answers [of "\<lambda>_. ''{}''" metrics_new "''/secret''"]
  by simp

end
