(* ===== verification/Metrics_Server.thy ===== *)
theory Metrics_Server
  imports Worker_Threads Observability
begin

text \<open>
  The thread of \<^verbatim>\<open>MetricsHttpServer\<close> in \<^verbatim>\<open>src/obs/metrics.cc\<close>: \<^verbatim>\<open>start\<close>, \<^verbatim>\<open>stop\<close> and \<^verbatim>\<open>run\<close>, with one control point
  per blocking call. The socket calls answer through a \<open>server_world\<close>; \<open>pton\<close> is \<^verbatim>\<open>inet_pton\<close>, \<open>None\<close> for a text
  that is no address, which leaves the address 0 of the zeroed structure. Descriptors that were opened
  and not yet closed are recorded. What a request is answered with is \<open>http_answer\<close> of \<open>Observability\<close>.
\<close>

section \<open>State\<close>

datatype server_pc = Not_running | Setting_up | Loop_head | Selecting | Reading nat | Server_ended

record MetricsServer =
  ms_running :: bool
  ms_pc :: server_pc
  ms_srv :: "nat option"
  ms_bound :: "(u32 \<times> u16) option"
  ms_open :: "nat list"
  ms_answers :: "string list"
  ms_waited :: nat

definition server_new :: MetricsServer where
  "server_new = \<lparr>ms_running = False, ms_pc = Not_running, ms_srv = None, ms_bound = None, ms_open = [], ms_answers = [], ms_waited = 0\<rparr>"

text \<open>What the first read of a connection finds: nothing so far, an end or an error, a request.\<close>

datatype client_read = Nothing_yet | Gone | Request string

record server_world =
  sw_socket :: "nat option"
  sw_bind :: bool
  sw_ready :: bool
  sw_accept :: "nat option"
  sw_read :: client_read
  sw_registry :: MetricsRegistry

definition close_fd :: "nat \<Rightarrow> MetricsServer \<Rightarrow> MetricsServer" where
  "close_fd fd s = s\<lparr>ms_open := remove1 fd (ms_open s)\<rparr>"

definition open_fd :: "nat \<Rightarrow> MetricsServer \<Rightarrow> MetricsServer" where
  "open_fd fd s = s\<lparr>ms_open := fd # ms_open s\<rparr>"

section \<open>Operations\<close>

text \<open>\<^verbatim>\<open>start\<close>: assigning to a thread that can still be joined ends the program, which is \<open>None\<close>.\<close>

definition start_server :: "MetricsServer \<Rightarrow> (bool \<times> MetricsServer) option" where
  "start_server s =
     (case server_start (ms_running s) of (ok, running) \<Rightarrow>
        if \<not> ok then Some (False, s)
        else if ms_pc s \<noteq> Not_running then None
        else Some (True, s\<lparr>ms_running := running, ms_pc := Setting_up\<rparr>))"

text \<open>\<^verbatim>\<open>stop\<close> clears the flag, then joins; the join is \<open>None\<close> while it waits.\<close>

definition clear_running :: "MetricsServer \<Rightarrow> MetricsServer" where
  "clear_running s = s\<lparr>ms_running := False\<rparr>"

definition join_server :: "MetricsServer \<Rightarrow> MetricsServer option" where
  "join_server s =
     (case ms_pc s of Not_running \<Rightarrow> Some s | Server_ended \<Rightarrow> Some (s\<lparr>ms_pc := Not_running\<rparr>) | _ \<Rightarrow> None)"

definition server_own ::
    "(json \<Rightarrow> string) \<Rightarrow> (string \<Rightarrow> u32 option) \<Rightarrow> bool \<Rightarrow> string \<Rightarrow> u16 \<Rightarrow> server_world \<Rightarrow> MetricsServer \<Rightarrow> MetricsServer result" where
  "server_own dump pton has_registry host port w s =
     (case ms_pc s of
        Not_running \<Rightarrow> Inr s
      | Setting_up \<Rightarrow>
          (case sw_socket w of
             None \<Rightarrow> Inr (s\<lparr>ms_running := False, ms_pc := Server_ended\<rparr>)
           | Some fd \<Rightarrow>
               let addr = (case pton host of None \<Rightarrow> 0 | Some a \<Rightarrow> a); s = open_fd fd s
               in if \<not> sw_bind w then Inr ((close_fd fd s)\<lparr>ms_running := False, ms_pc := Server_ended\<rparr>)
                  else Inr (s\<lparr>ms_srv := Some fd, ms_bound := Some (addr, port), ms_pc := Loop_head\<rparr>))
      | Loop_head \<Rightarrow>
          Inr (if ms_running s then s\<lparr>ms_pc := Selecting\<rparr>
               else case ms_srv s of
                      None \<Rightarrow> s\<lparr>ms_pc := Server_ended\<rparr>
                    | Some fd \<Rightarrow> (close_fd fd s)\<lparr>ms_srv := None, ms_pc := Server_ended\<rparr>)
      | Selecting \<Rightarrow>
          Inr (if \<not> sw_ready w then s\<lparr>ms_waited := ms_waited s + 1, ms_pc := Loop_head\<rparr>
               else case sw_accept w of
                      None \<Rightarrow> s\<lparr>ms_pc := Loop_head\<rparr>
                    | Some cli \<Rightarrow> (open_fd cli s)\<lparr>ms_pc := Reading cli\<rparr>)
      | Reading cli \<Rightarrow>
          (case sw_read w of
             Nothing_yet \<Rightarrow> Inr s
           | Gone \<Rightarrow> Inr ((close_fd cli s)\<lparr>ms_pc := Loop_head\<rparr>)
           | Request req \<Rightarrow>
               (case http_answer dump (if has_registry then Some (sw_registry w) else None) req of
                  Inl e \<Rightarrow> Inl e
                | Inr a \<Rightarrow> Inr ((close_fd cli s)\<lparr>ms_answers := ms_answers s @ [a], ms_pc := Loop_head\<rparr>)))
      | Server_ended \<Rightarrow> Inr s)"

inductive server_reachable :: "(json \<Rightarrow> string) \<Rightarrow> (string \<Rightarrow> u32 option) \<Rightarrow> bool \<Rightarrow> string \<Rightarrow> u16 \<Rightarrow> MetricsServer \<Rightarrow> bool"
  for dump pton has_registry host port where
  server_fresh: "server_reachable dump pton has_registry host port server_new"
| server_begin: "server_reachable dump pton has_registry host port s \<Longrightarrow> start_server s = Some (ok, s') \<Longrightarrow>
    server_reachable dump pton has_registry host port s'"
| server_flag: "server_reachable dump pton has_registry host port s \<Longrightarrow> server_reachable dump pton has_registry host port (clear_running s)"
| server_join: "server_reachable dump pton has_registry host port s \<Longrightarrow> join_server s = Some s' \<Longrightarrow>
    server_reachable dump pton has_registry host port s'"
| server_works: "server_reachable dump pton has_registry host port s \<Longrightarrow> server_own dump pton has_registry host port w s = Inr s' \<Longrightarrow>
    server_reachable dump pton has_registry host port s'"

section \<open>Descriptors\<close>

definition client_fds :: "server_pc \<Rightarrow> nat list" where
  "client_fds pc = (case pc of Reading cli \<Rightarrow> [cli] | _ \<Rightarrow> [])"

definition server_ok :: "(string \<Rightarrow> u32 option) \<Rightarrow> string \<Rightarrow> u16 \<Rightarrow> MetricsServer \<Rightarrow> bool" where
  "server_ok pton host port s \<longleftrightarrow>
     ms_open s = client_fds (ms_pc s) @ (case ms_srv s of None \<Rightarrow> [] | Some fd \<Rightarrow> [fd]) \<and>
     (ms_srv s \<noteq> None \<longleftrightarrow> ms_pc s \<notin> {Not_running, Setting_up, Server_ended}) \<and>
     (ms_srv s \<noteq> None \<longrightarrow> ms_bound s = Some (case pton host of None \<Rightarrow> 0 | Some a \<Rightarrow> a, port))"

lemma server_own_ok:
  assumes "server_own dump pton has_registry host port w s = Inr s'" and "server_ok pton host port s"
  shows "server_ok pton host port s'"
  using assms by (cases "ms_pc s") (auto simp: server_own_def server_ok_def client_fds_def close_fd_def open_fd_def Let_def
      split: option.splits if_splits client_read.splits sum.splits)

text \<open>C38: the server leaks no descriptor. In every state of any history of starts, stops and clients the open
  descriptors are the listening one, exactly while the thread is in its loop, and that of the client being
  read; so none is left when it has ended. The listening one is bound to the configured address, or to
  address 0, that is to all interfaces, when the configured host is no dotted address.\<close>

theorem server_descriptors:
  assumes "server_reachable dump pton has_registry host port s"
  shows "server_ok pton host port s \<and> (ms_pc s = Server_ended \<or> ms_pc s = Not_running \<longrightarrow> ms_open s = [])"
proof -
  have "server_ok pton host port s" using assms
  proof (induction rule: server_reachable.induct)
    case (server_begin s ok s')
    then show ?case by (auto simp: start_server_def server_start_def server_ok_def client_fds_def split: if_splits)
  next
    case (server_join s s')
    then show ?case by (auto simp: join_server_def server_ok_def client_fds_def split: server_pc.splits)
  next
    case (server_works s w s')
    then show ?case using server_own_ok by blast
  qed (simp_all add: server_new_def clear_running_def server_ok_def client_fds_def)
  then show ?thesis by (auto simp: server_ok_def client_fds_def)
qed

theorem server_descriptors_witness:
  "\<exists>s. server_reachable (\<lambda>d. []) (\<lambda>h. None) True ''localhost'' 9100 s \<and> ms_pc s = Loop_head \<and> ms_open s = [5] \<and> ms_bound s = Some (0, 9100)"
proof -
  let ?w = "\<lparr>sw_socket = Some 5, sw_bind = True, sw_ready = False, sw_accept = None, sw_read = Gone, sw_registry = metrics_new\<rparr>"
  let ?own = "server_own (\<lambda>d. []) (\<lambda>h. None) True ''localhost'' 9100 ?w"
  let ?s1 = "server_new\<lparr>ms_running := True, ms_pc := Setting_up\<rparr>"
  let ?s2 = "?s1\<lparr>ms_open := [5], ms_srv := Some 5, ms_bound := Some (0, 9100), ms_pc := Loop_head\<rparr>"
  have "start_server server_new = Some (True, ?s1)" by (simp add: start_server_def server_start_def server_new_def)
  from server_begin [OF server_fresh this] have "server_reachable (\<lambda>d. []) (\<lambda>h. None) True ''localhost'' 9100 ?s1" .
  moreover have "?own ?s1 = Inr ?s2" by (simp add: server_own_def open_fd_def server_new_def)
  ultimately have r: "server_reachable (\<lambda>d. []) (\<lambda>h. None) True ''localhost'' 9100 ?s2" by (rule server_works)
  then show ?thesis using server_descriptors [OF r] by (auto simp: server_ok_def client_fds_def)
qed

section \<open>Stopping\<close>

definition prompt_client :: "server_world \<Rightarrow> bool" where
  "prompt_client w \<longleftrightarrow> sw_read w \<noteq> Nothing_yet"

definition server_ended :: "MetricsServer \<Rightarrow> bool" where
  "server_ended s \<longleftrightarrow> ms_pc s = Server_ended \<or> ms_pc s = Not_running"

definition server_left :: "server_pc \<Rightarrow> nat" where
  "server_left pc = (case pc of Setting_up \<Rightarrow> 1 | Selecting \<Rightarrow> 2 | Reading cli \<Rightarrow> 1 | _ \<Rightarrow> 0)"

definition select_left :: "server_pc \<Rightarrow> nat" where
  "select_left pc = (if pc = Selecting then 1 else 0)"

interpretation metrics_thread: stoppable "server_own dump pton has_registry host port" "\<lambda>s. \<not> ms_running s" server_ended
  "\<lambda>s. server_left (ms_pc s)" prompt_client ms_waited "\<lambda>s. select_left (ms_pc s)" for dump pton has_registry host port
proof unfold_locales
  fix w s s'
  assume own: "server_own dump pton has_registry host port w s = Inr s'"
  note defs = server_own_def close_fd_def open_fd_def Let_def
  show "\<not> ms_running s'" if "\<not> ms_running s"
    using own that by (cases "ms_pc s") (auto simp: defs split: option.splits if_splits client_read.splits sum.splits)
  show "server_ended s' \<or> server_left (ms_pc s') < server_left (ms_pc s)" if "\<not> ms_running s" "\<not> server_ended s" "prompt_client w"
    using own that by (cases "ms_pc s") (auto simp: defs server_ended_def server_left_def prompt_client_def
        split: option.splits if_splits client_read.splits sum.splits)
  show "s' = s" if "server_ended s" using own that by (auto simp: server_own_def server_ended_def)
  show "ms_waited s' + select_left (ms_pc s') \<le> ms_waited s + select_left (ms_pc s)" if "\<not> ms_running s"
    using own that by (cases "ms_pc s") (auto simp: defs select_left_def split: option.splits if_splits client_read.splits sum.splits)
qed

text \<open>C39: \<^verbatim>\<open>stop\<close> of the server waits for its client. With the flag cleared, three steps of the thread end it,
  with at most one second in \<^verbatim>\<open>select\<close>, provided a connected client sends something or hangs up. A client
  that connects and does neither is waited for without a time-out: the thread stays in that read, nobody
  else is served, and \<^verbatim>\<open>stop\<close> does not return.\<close>

theorem server_stop:
  assumes "worker_run (server_own dump pton has_registry host port) ws (clear_running s) = Inr s'"
  shows "(list_all prompt_client ws \<and> 3 \<le> length ws \<longrightarrow> server_ended s' \<and> ms_waited s' \<le> ms_waited s + 1) \<and>
    (ms_pc s = Reading cli \<and> list_all (\<lambda>w. \<not> prompt_client w) ws \<longrightarrow> s' = clear_running s \<and> join_server s' = None)"
proof (intro conjI impI)
  let ?s = "clear_running s"
  have flag: "\<not> ms_running ?s" by (simp add: clear_running_def)
  assume *: "list_all prompt_client ws \<and> 3 \<le> length ws"
  have "server_left (ms_pc ?s) < length ws" using * by (auto simp: server_left_def split: server_pc.split)
  then show "server_ended s'" using metrics_thread.stops [OF assms flag] * by blast
  show "ms_waited s' \<le> ms_waited s + 1"
    using metrics_thread.wait_bound [OF assms flag] by (auto simp: select_left_def clear_running_def split: if_splits)
next
  assume *: "ms_pc s = Reading cli \<and> list_all (\<lambda>w. \<not> prompt_client w) ws"
  have "worker_run (server_own dump pton has_registry host port) ws (clear_running s) = Inr (clear_running s)"
    using * by (induction ws) (auto simp: server_own_def clear_running_def prompt_client_def)
  then show "s' = clear_running s" using assms by simp
  then show "join_server s' = None" using * by (simp add: join_server_def clear_running_def)
qed

definition silent_world :: server_world where
  "silent_world = \<lparr>sw_socket = None, sw_bind = True, sw_ready = True, sw_accept = Some 6, sw_read = Nothing_yet, sw_registry = metrics_new\<rparr>"

theorem server_stop_witness:
  "\<exists>s'. worker_run (server_own (\<lambda>d. []) (\<lambda>h. None) True ''h'' 1) [silent_world\<lparr>sw_read := Gone\<rparr>, silent_world\<lparr>sw_read := Gone\<rparr>, silent_world\<lparr>sw_read := Gone\<rparr>]
     (clear_running (server_new\<lparr>ms_pc := Reading 6\<rparr>)) = Inr s' \<and> server_ended s' \<and> ms_waited s' \<le> 1"
proof -
  let ?ws = "[silent_world\<lparr>sw_read := Gone\<rparr>, silent_world\<lparr>sw_read := Gone\<rparr>, silent_world\<lparr>sw_read := Gone\<rparr>]"
  obtain s' where s': "worker_run (server_own (\<lambda>d. []) (\<lambda>h. None) True ''h'' 1) ?ws (clear_running (server_new\<lparr>ms_pc := Reading 6\<rparr>)) = Inr s'"
    by (simp add: server_own_def clear_running_def server_new_def silent_world_def close_fd_def)
  then show ?thesis using server_stop [OF s'] by (simp add: prompt_client_def server_new_def)
qed

section \<open>Starting again\<close>

text \<open>A server that could not listen must not be started again. When no socket can be made or the
  address is taken, the thread ends by itself and clears the flag; the next \<^verbatim>\<open>start\<close> then passes its guard
  and assigns to the thread that was never joined, which ends the program. After \<^verbatim>\<open>stop\<close> it can be
  started; while it runs \<^verbatim>\<open>start\<close> answers false and changes nothing.\<close>

theorem failed_server_restart:
  assumes "ms_pc s = Setting_up" and "sw_socket w = None \<or> \<not> sw_bind w" and "ms_running r" and "start_server r = x"
  shows "\<exists>s'. server_own dump pton has_registry host port w s = Inr s' \<and> ms_open s' = ms_open s \<and> \<not> ms_running s' \<and>
      start_server s' = None \<and>
      Option.bind (join_server (clear_running s')) start_server = Some (True, s'\<lparr>ms_running := True, ms_pc := Setting_up\<rparr>) \<and>
      x = Some (False, r)"
  using assms by (cases "sw_socket w")
    (auto simp: server_own_def open_fd_def close_fd_def start_server_def server_start_def join_server_def clear_running_def Let_def)

theorem failed_server_restart_witness:
  "\<exists>s'. server_own (\<lambda>d. []) (\<lambda>h. None) True ''h'' 1 silent_world (server_new\<lparr>ms_running := True, ms_pc := Setting_up\<rparr>) = Inr s' \<and>
    start_server s' = None"
  using failed_server_restart [of "server_new\<lparr>ms_running := True, ms_pc := Setting_up\<rparr>" silent_world "server_new\<lparr>ms_running := True\<rparr>",
      OF _ _ _ refl, of "\<lambda>d. []" "\<lambda>h. None" True "''h''" 1]
  by (auto simp: silent_world_def)

end
