(* ===== verification/Static_State.thy ===== *)
theory Static_State
  imports Observability Sockets
begin

text \<open>
  The function-local statics of the program, which are initialised by the first call and never again: the
  log file of \<^verbatim>\<open>src/obs/log.cc\<close> and the start of Winsock in \<^verbatim>\<open>src/net/socket_win.cc\<close> and \<^verbatim>\<open>socket_openssl.cc\<close>;
  and the mode of descriptors that \<^verbatim>\<open>set_nonblock\<close> of the POSIX sockets switches.
\<close>

section \<open>Once\<close>

definition once :: "'a \<Rightarrow> 'a option \<Rightarrow> 'a \<times> 'a option" where
  "once v st = (case st of None \<Rightarrow> (v, Some v) | Some w \<Rightarrow> (w, Some w))"

lemma once_sticks: "once v st = (w, st') \<Longrightarrow> once u st' = (w, st')"
  by (auto simp: once_def split: option.splits)

text \<open>\<^verbatim>\<open>InitWSA\<close>: \<open>startup\<close> is what \<^verbatim>\<open>WSAStartup\<close> would return now.\<close>

definition InitWSA :: "int \<Rightarrow> bool option \<Rightarrow> bool \<times> bool option" where
  "InitWSA startup st = once (startup = 0) st"

section \<open>The log\<close>

text \<open>Standard output, the sink (\<open>None\<close> before the first line, the path of the open file after it) and the
  contents of files.\<close>

record log_state =
  lg_out :: string
  lg_sink :: "string option option"
  lg_files :: "string \<Rightarrow> string"

text \<open>\<open>env\<close> is the variable \<^verbatim>\<open>BMAD_LOG_FILE\<close>, \<open>openable\<close> the paths that can be opened for appending.\<close>

definition FileSink :: "string option \<Rightarrow> (string \<Rightarrow> bool) \<Rightarrow> log_state \<Rightarrow> string option \<times> log_state" where
  "FileSink env openable st =
     (case once (case env of None \<Rightarrow> None | Some path \<Rightarrow> if openable path then Some path else None) (lg_sink st) of
        (ofs, sink) \<Rightarrow> (ofs, st\<lparr>lg_sink := sink\<rparr>))"

record log_call =
  lc_env :: "string option"
  lc_ms :: int
  lc_component :: string
  lc_level :: LogLevel
  lc_message :: string
  lc_fields :: json

definition logger_log :: "(json \<Rightarrow> string) \<Rightarrow> (string \<Rightarrow> bool) \<Rightarrow> log_call \<Rightarrow> log_state \<Rightarrow> log_state" where
  "logger_log dump openable c st =
     (case FileSink (lc_env c) openable st of (ofs, st) \<Rightarrow>
        let doc = log_document (lc_ms c) (lc_component c) (lc_level c) (lc_message c) (lc_fields c)
        in case log_write dump doc (lg_out st, map_option (lg_files st) ofs) of
             (out, content) \<Rightarrow>
               st\<lparr>lg_out := out, lg_files := (case (ofs, content) of
                   (Some path, Some text) \<Rightarrow> (lg_files st)(path := text) | _ \<Rightarrow> lg_files st)\<rparr>)"

definition logger_info :: "string option \<Rightarrow> int \<Rightarrow> string \<Rightarrow> string \<Rightarrow> json \<Rightarrow> log_call" where
  "logger_info env ms component message extra =
     \<lparr>lc_env = env, lc_ms = ms, lc_component = component, lc_level = kInfo, lc_message = message, lc_fields = extra\<rparr>"

definition logger_warn :: "string option \<Rightarrow> int \<Rightarrow> string \<Rightarrow> string \<Rightarrow> json \<Rightarrow> log_call" where
  "logger_warn env ms component message extra =
     \<lparr>lc_env = env, lc_ms = ms, lc_component = component, lc_level = kWarn, lc_message = message, lc_fields = extra\<rparr>"

definition logger_error :: "string option \<Rightarrow> int \<Rightarrow> string \<Rightarrow> string \<Rightarrow> json \<Rightarrow> log_call" where
  "logger_error env ms component message extra =
     \<lparr>lc_env = env, lc_ms = ms, lc_component = component, lc_level = kError, lc_message = message, lc_fields = extra\<rparr>"

definition log_line :: "(json \<Rightarrow> string) \<Rightarrow> log_call \<Rightarrow> string" where
  "log_line dump c = dump (log_document (lc_ms c) (lc_component c) (lc_level c) (lc_message c) (lc_fields c)) @ [CHR 0x0A]"

lemma logger_log_open:
  assumes "lg_sink st = Some ofs"
  shows "logger_log dump openable c st = st\<lparr>lg_out := lg_out st @ log_line dump c,
     lg_files := (case ofs of None \<Rightarrow> lg_files st | Some path \<Rightarrow> (lg_files st)(path := lg_files st path @ log_line dump c))\<rparr>"
  using assms by (auto simp: logger_log_def FileSink_def once_def log_write_def log_line_def Let_def split: option.split)

lemma logger_log_fold:
  "lg_sink st = Some ofs \<Longrightarrow> fold (logger_log dump openable) cs st = st\<lparr>lg_out := lg_out st @ concat (map (log_line dump) cs),
     lg_files := (case ofs of None \<Rightarrow> lg_files st
       | Some path \<Rightarrow> (lg_files st)(path := lg_files st path @ concat (map (log_line dump) cs)))\<rparr>"
  by (induction cs arbitrary: st) (simp_all add: logger_log_open split: option.split)

text \<open>The log file is the one the first line finds. Its variable is read once; when it names a file that can
  be opened, that file gets every line of the run behind what it held, in the order of standard output,
  and no other file is touched; when it is not set or cannot be opened then, no line of the run goes to a
  file, whatever the variable says later.\<close>

theorem log_file_fixed:
  fixes st :: log_state
  assumes "lg_sink st = None" and "st' = fold (logger_log dump openable) (c # cs) st"
  shows "lg_out st' = lg_out st @ concat (map (log_line dump) (c # cs)) \<and>
    lg_files st' = (case lc_env c of
       Some path \<Rightarrow> if openable path then (lg_files st)(path := lg_files st path @ concat (map (log_line dump) (c # cs))) else lg_files st
     | None \<Rightarrow> lg_files st)"
proof -
  define ofs where "ofs = (case lc_env c of None \<Rightarrow> None | Some path \<Rightarrow> if openable path then Some path else None)"
  have "logger_log dump openable c st = logger_log dump openable c (st\<lparr>lg_sink := Some ofs\<rparr>)"
    using assms(1) by (simp add: logger_log_def FileSink_def once_def ofs_def)
  then have "st' = fold (logger_log dump openable) (c # cs) (st\<lparr>lg_sink := Some ofs\<rparr>)" using assms(2) by simp
  then show ?thesis by (subst (asm) logger_log_fold) (auto simp: ofs_def split: option.split)
qed

section \<open>Descriptors\<close>

text \<open>The flags of the open descriptors.\<close>

definition O_NONBLOCK :: u32 where
  "O_NONBLOCK = 0x800"

definition set_nonblock :: "int \<Rightarrow> bool \<Rightarrow> (int \<Rightarrow> u32 option) \<Rightarrow> int \<times> (int \<Rightarrow> u32 option)" where
  "set_nonblock fd nb fl =
     (case fl fd of
        None \<Rightarrow> (- 1, fl)
      | Some flags \<Rightarrow> (0, fl(fd \<mapsto> (if nb then flags OR O_NONBLOCK else flags AND NOT O_NONBLOCK))))"

text \<open>Making a descriptor non-blocking for a connection and blocking afterwards leaves it blocking and all its
  other flags as they were.\<close>

lemma set_nonblock_twice:
  assumes "fl fd = Some flags"
  shows "snd (set_nonblock fd False (snd (set_nonblock fd True fl))) = fl(fd \<mapsto> flags AND NOT O_NONBLOCK)"
proof -
  have "(flags OR O_NONBLOCK) AND NOT O_NONBLOCK = flags AND NOT O_NONBLOCK"
    by (rule bit_eqI) (auto simp: bit_simps)
  then show ?thesis using assms by (simp add: set_nonblock_def)
qed

text \<open>\<^verbatim>\<open>MakePlainSocket\<close> and \<^verbatim>\<open>MakeTlsSocket\<close> of the build for POSIX; without OpenSSL there is no TLS socket.\<close>

definition MakePlainSocket :: plain_socket where
  "MakePlainSocket = plain_new"

definition MakeTlsSocket :: "bool \<Rightarrow> tls_socket option" where
  "MakeTlsSocket use_openssl = (if use_openssl then Some tls_new else None)"

end
