(* ===== verification/Device_Queries.thy ===== *)
theory Device_Queries
  imports Miner_Loop Complex_Main
begin

text \<open>
  The queries of \<^verbatim>\<open>src/cuda/engine.cu\<close> (memory, occupancy and attributes of the batch kernel, the launch of an empty
  kernel) and what \<^verbatim>\<open>main\<close> makes of the occupancy. The device is a record of what the runtime reports; a build without
  CUDA answers false. \<^verbatim>\<open>float\<close> is a rational number, \<open>rnd\<close> the rounding of a result to the nearest \<^verbatim>\<open>float\<close>, of
  which only what every rounding has is used: it is monotone and keeps the whole numbers from 0 to 100. The number of
  active threads is an \<^verbatim>\<open>int\<close> that the limits of a device keep far below its range; it is unbounded here.
\<close>

record device_report =
  dr_free :: u64
  dr_total :: u64
  dr_sms :: int
  dr_max_threads_per_sm :: int
  dr_active_blocks :: "u32 \<Rightarrow> int"
  dr_regs :: int
  dr_shared_bytes :: u64
  dr_max_threads_per_block :: int

definition getDeviceMemoryInfo :: "device_report option \<Rightarrow> bool \<times> u64 \<times> u64" where
  "getDeviceMemoryInfo device = (case device of None \<Rightarrow> (False, 0, 0) | Some d \<Rightarrow> (True, dr_free d, dr_total d))"

text \<open>\<^verbatim>\<open>occ < 0.0f\<close> and \<^verbatim>\<open>occ > 1.0f\<close>, one after the other.\<close>

definition clamp_unit :: "rat \<Rightarrow> rat" where
  "clamp_unit occ = (let occ = (if occ < 0 then 0 else occ) in if occ > 1 then 1 else occ)"

definition getMineBatchOccupancy :: "(rat \<Rightarrow> rat) \<Rightarrow> device_report option \<Rightarrow> u32 \<Rightarrow> (rat \<times> int \<times> int \<times> int) option" where
  "getMineBatchOccupancy rnd device tpb =
     (case device of
        None \<Rightarrow> None
      | Some d \<Rightarrow>
          let activeBlocks = dr_active_blocks d tpb;
              activeThreads = activeBlocks * sint tpb;
              occ = (if dr_max_threads_per_sm d > 0
                     then clamp_unit (rnd (rnd (of_int activeThreads) / rnd (of_int (dr_max_threads_per_sm d)))) else 0)
          in Some (occ, dr_sms d, activeBlocks, dr_max_threads_per_sm d))"

definition getMineBatchKernelAttrs :: "device_report option \<Rightarrow> (int \<times> u64 \<times> int) option" where
  "getMineBatchKernelAttrs device =
     (case device of None \<Rightarrow> None | Some d \<Rightarrow> Some (dr_regs d, dr_shared_bytes d, dr_max_threads_per_block d))"

text \<open>The grid a launch of the empty kernel runs.\<close>

definition launchStub :: "u32 \<Rightarrow> u32 \<Rightarrow> (u32 \<times> u32) option" where
  "launchStub blocks tpb = (if blocks = 0 \<or> tpb = 0 then None else Some (blocks, tpb))"

text \<open>The conversion to \<^verbatim>\<open>int64_t\<close> cuts off.\<close>

definition observe_occupancy :: "(rat \<Rightarrow> rat) \<Rightarrow> device_report option \<Rightarrow> u32 \<Rightarrow> occupancy option" where
  "observe_occupancy rnd device tpb =
     (case getMineBatchOccupancy rnd device tpb of
        None \<Rightarrow> None
      | Some (occ, sms, active, maxthr) \<Rightarrow>
          Some \<lparr>oy_low = (occ < 1 / 2), oy_pct = of_int \<lfloor>rnd (occ * 100)\<rfloor>, oy_sms = of_int sms,
            oy_active_blocks = of_int active, oy_max_threads = of_int maxthr\<rparr>)"

definition float_rounding :: "(rat \<Rightarrow> rat) \<Rightarrow> bool" where
  "float_rounding rnd \<longleftrightarrow> mono rnd \<and> (\<forall>n \<in> {0..100 :: nat}. rnd (of_nat n) = of_nat n)"

lemma clamp_unit_bounds: "0 \<le> clamp_unit x" "clamp_unit x \<le> 1"
  by (simp_all add: clamp_unit_def Let_def)

text \<open>The reported percentage is one, and a device without room for a block counts as badly used, so that
  the number of threads is doubled.\<close>

theorem occupancy_percent:
  assumes "float_rounding rnd" and "observe_occupancy rnd (Some d) tpb = Some o1"
  shows "oy_pct o1 \<le> 100 \<and> (dr_active_blocks d tpb = 0 \<and> 64 \<le> desired \<and> desired \<le> 1024 \<longrightarrow>
    oy_pct o1 = 0 \<and> tune_threads (oy_low o1) kernel_ms budget_ms desired = (if desired < 1024 then min 1024 (desired * 2)
      else if int32 (kernel_ms * 5) < int32 (budget_ms * 4) then 1024 else if kernel_ms > budget_ms then 512 else 1024))"
proof -
  define occ where "occ = (if dr_max_threads_per_sm d > 0
      then clamp_unit (rnd (rnd (of_int (dr_active_blocks d tpb * sint tpb)) / rnd (of_int (dr_max_threads_per_sm d)))) else 0)"
  have o1: "oy_pct o1 = of_int \<lfloor>rnd (occ * 100)\<rfloor>" "oy_low o1 = (occ < 1 / 2)"
    using assms(2) by (auto simp: observe_occupancy_def getMineBatchOccupancy_def Let_def occ_def)
  have keeps: "rnd (of_nat n) = of_nat n" if "n \<in> {0..100}" for n :: nat
    using assms(1) that by (simp add: float_rounding_def)
  have mono: "mono rnd" using assms(1) by (simp add: float_rounding_def)
  note fix_points = keeps [of 0] keeps [of 100]
  have "0 \<le> occ" "occ \<le> 1" using clamp_unit_bounds by (simp_all add: occ_def)
  then have "rnd (of_nat 0) \<le> rnd (occ * 100)" "rnd (occ * 100) \<le> rnd (of_nat 100)"
    by (intro monoD [OF mono]; simp)+
  then have r: "0 \<le> rnd (occ * 100)" "rnd (occ * 100) \<le> 100" using fix_points by simp_all
  then have "0 \<le> \<lfloor>rnd (occ * 100)\<rfloor>" "\<lfloor>rnd (occ * 100)\<rfloor> \<le> 100" by (simp_all add: floor_le_iff)
  then obtain n where n: "\<lfloor>rnd (occ * 100)\<rfloor> = int n" "n \<le> 100" by (metis int_nat_eq nat_le_iff of_nat_numeral)
  have pct: "oy_pct o1 = of_nat n" using o1(1) n(1) by simp
  have "unat (of_nat n :: u64) = n" using n(2) by (simp add: unsigned_of_nat take_bit_nat_eq_self)
  then have "oy_pct o1 \<le> 100" using n(2) pct by (simp add: word_le_nat_alt)
  moreover have "occ = 0" if "dr_active_blocks d tpb = 0"
    using that fix_points(1) by (simp add: occ_def clamp_unit_def)
  ultimately show ?thesis using o1 fix_points(1) by (auto simp: tune_threads_def int32_double int32_id)
qed

end
