(* ===== verification/Spec2Isabelle.thy ===== *)
theory Spec2Isabelle
  imports Miner_Safety Miner_Arguments Tools Hit_Ring Gpu_Cache
    Runner_Thread Gbt_Thread Metrics_Server Static_State Device_Queries
begin

text \<open>
  A verification library of the miner under \<^verbatim>\<open>src/src\<close>: a program that takes work from several Stratum
  pools and from a Bitcoin node, mines all of it on a GPU at once and hands the shares it finds back.

  \<^bold>\<open>The program.\<close> A Stratum source is a connection (\<^verbatim>\<open>net/socket*.cc\<close>, \<^verbatim>\<open>net/stratum_client.cc\<close>) driven by a
  runner (\<^verbatim>\<open>adapters/stratum_runner.cc\<close>) that turns a notification into a job and queues it in an adapter;
  a node source polls block templates over JSON-RPC (\<^verbatim>\<open>net/rpc_client.cc\<close>, \<^verbatim>\<open>adapters/gbt_runner.cc\<close>).
  Both use the normaliser (\<^verbatim>\<open>normalize\<close>), which expands targets, computes the Merkle root and the
  midstate. The loop of \<^verbatim>\<open>main\<close> (\<^verbatim>\<open>tools/stratum_registry_runner.cpp\<close>) drains the adapters into the slots
  of a registry (\<^verbatim>\<open>registry\<close>), uploads a table of jobs and launches a kernel (\<^verbatim>\<open>cuda/engine.cu\<close>); hits come
  back through a ring on the device, are verified again on the CPU (\<^verbatim>\<open>submit/cpu_verify.cc\<close>), recorded in
  an outbox (\<^verbatim>\<open>store/outbox.h\<close>) and sent to the pool, or as a block to the node
  (\<^verbatim>\<open>submit/gbt_submitter.cc\<close>). Around this stand the penalties of sources, the tuning of launches, the
  ledger (\<^verbatim>\<open>store/ledger.h\<close>), metrics and logs (\<^verbatim>\<open>obs\<close>) and the commands of an operator.

  \<^bold>\<open>How the code is modelled.\<close> Classes and structs are records, enumerations datatypes, machine integers
  words of their width (\<open>u8\<close> to \<open>u64\<close>; \<open>int\<close> is used for C++ \<^verbatim>\<open>int\<close> where the code cannot overflow it, and wraps
  at 32 bits in the tuning of threads, where it can), so wrap-around is that of the code. An operation is a function that returns the new state. Exceptions
  and undefined accesses are values of \<open>cpp_error\<close> in the left half of \<open>result\<close>. Loops with a bound are
  structural recursion, others carry a termination proof; the only loop that may run for ever, the
  unrolled kernel near \<open>2 ^ 32\<close>, is a \<open>partial_function\<close> whose value is then \<open>None\<close>. Loops that wait for
  the outside world (receiving, handshakes, the server, the runner threads) take the list or the single
  event of what happens next and are \<open>None\<close> while they wait. No fuel is used.
  Mutex-protected operations are atomic; the copies of the registry, which are not, are one step per member or
  array word in an interleaving. The phases of the main thread are single steps (a routed hit is one of its
  own): the other threads act between them, and a send that blocks is modelled in the thread of a runner
  only. Blocks of a kernel run one after the other, the threads of a block in any interleaving. Files are byte lists in a map from names, with the names that can be written.
  JSON documents are an abstract library (\<open>json_lib\<close>) with one concrete model (\<open>json_model\<close>); printing
  and parsing of text is an argument wherever it matters.

  \<^bold>\<open>Parameters\<close>: the answers of operating system, sockets, OpenSSL, clocks, environment variables, the
  node and the CUDA runtime; \<^verbatim>\<open>std::hash\<close>; the value of the hash rate, a \<^verbatim>\<open>double\<close>; the rounding
  of a \<^verbatim>\<open>float\<close>; the contents of fresh memory; the orders in which GPU threads run and unordered maps are walked.

  \<^bold>\<open>The theories, bottom up.\<close>
  \<^item> \<open>Miner_Prelude\<close> (words, errors, files, lists), \<open>Byte_Codec\<close> and \<open>Block_Hash\<close> (locales for fixed-size
    encodings and iterated hashes), \<open>Hex_Codec\<close>, \<open>Json_Library\<close>.
  \<^item> \<open>Cpu_Sha256\<close>, \<open>Fips_Sha256\<close>, \<open>Midstate\<close>, \<open>Device_Sha256\<close>: the three copies of SHA-256 in the sources,
    each an interpretation of \<open>block_hash\<close>, equal to an independent definition of FIPS 180-4.
  \<^item> \<open>Endianness\<close>, \<open>Targets\<close>, \<open>Merkle\<close>, \<open>Normalizer\<close>: the arithmetic of \<^verbatim>\<open>normalize\<close>; the comparison of a hash
    with a target is the one of numbers, the Merkle loop is the recursive tree.
  \<^item> \<open>Work_Registry\<close> (sequential laws, and what a reader sees beside a writer), \<open>Scheduler\<close>, \<open>Outbox\<close>,
    \<open>Submit_Router\<close>, \<open>Ledger_File\<close>: state and persistence, with round trips through files.
  \<^item> \<open>Adapters\<close>, \<open>Stratum_Client\<close>, \<open>Stratum_Runner\<close>, \<open>Rpc_Client\<close>, \<open>Coinbase_Text\<close>, \<open>Gbt_Submitter\<close>,
    \<open>Gbt_Runner\<close>, \<open>Sockets\<close>, \<open>Config\<close>: the sources of work and what they are configured with.
    \<open>Sockets\<close> states the contract of \<^verbatim>\<open>ISocket\<close> as a locale with its three implementations. \<open>Rpc_Url\<close> (with the
    decimal texts of \<open>Decimal_Text\<close>) has the regular expression of a node's URL, matched with backtracking as
    \<^verbatim>\<open>std::regex\<close> does, and the exchange with the node over a connection.
  \<^item> \<open>Worker_Threads\<close>: a thread as a step function with one control point per blocking call, and the locale
    \<open>stoppable\<close> of threads that end once a flag is set. \<open>Runner_Thread\<close> (\<^verbatim>\<open>start\<close>, \<^verbatim>\<open>stop\<close>, \<^verbatim>\<open>runLoop\<close> of
    \<^verbatim>\<open>adapters/stratum_runner.cc\<close>, bytes into lines, the messages of every connection), \<open>Gbt_Thread\<close> (\<^verbatim>\<open>runLoop\<close> of
    \<^verbatim>\<open>adapters/gbt_runner.cc\<close>, over the network) and \<open>Metrics_Server\<close> (\<^verbatim>\<open>start\<close>, \<^verbatim>\<open>stop\<close>, \<^verbatim>\<open>run\<close> of \<^verbatim>\<open>obs/metrics.cc\<close>,
    with its descriptors) are its three interpretations.
  \<^item> \<open>Hit_Ring\<close>, \<open>Device_Hits\<close>, \<open>Device_Engine\<close>, \<open>Device_Launch\<close>, \<open>Launch_Tuning\<close>, \<open>Tuning_Profile\<close>, \<open>Gpu_Cache\<close>: the
    rings of hits, the kernels (a block or a thread at a time, its schedule an argument), launches in
    every order of their threads, tuning and its file, the page table. \<open>Device_Queries\<close>: memory, occupancy and
    attributes of a kernel, and the gauges made of them.
  \<^item> \<open>Metrics\<close>, \<open>Observability\<close>, \<open>Static_State\<close>: counters, the answers of the metrics server, log lines, and what the
    first call of a function initialises for all others (the log file, Winsock).
  \<^item> \<open>Miner_Arguments\<close>, \<open>Miner_Setup\<close>, \<open>Miner_Jobs\<close>, \<open>Miner_Tuning\<close>, \<open>Miner_Commands\<close>: the parts of \<^verbatim>\<open>main\<close>, in its order.
    \<open>Miner_Loop\<close> composes them to one iteration; \<open>Miner_Threads\<close> cuts it into the phases of the main
    thread (\<open>main_next\<close>) and lets the threads of the sources and the operator act between any two of them
    (\<open>thread_step\<close>); \<open>Miner_System\<close> adds the initial state and what holds in every reachable one,
    \<open>Miner_Safety\<close> when a phase stays within its arrays.
  \<^item> \<open>Tools\<close>: the probe and the benchmark, on the same definitions.

  \<^bold>\<open>What is shown.\<close> The hash, target and Merkle lemmas add up to the end-to-end statement on shares
  (\<open>share_acceptance_end_to_end\<close>) and to the agreement of device and CPU hashes. \<open>device_ring_fifo\<close>,
  \<open>batch_block_reports\<close>, \<open>batch_block_covers\<close> and \<open>launch_reports\<close> say which nonces a launch tests and which hits it delivers; \<open>poll_publishes\<close>,
  \<open>shares_routed\<close> and \<open>notify_queues_job\<close> follow work in and shares out. For the whole program,
  \<open>main_invariant\<close> holds at every point of every interleaving, \<open>main_thread_returns\<close> says exactly when the
  next phase of the main thread returns, \<open>iteration_is_run\<close> that an undisturbed run of the phases is the
  loop body, and \<open>notification_reaches_device\<close> takes a well-formed notification from the line of the pool
  into the slot of its source and the job table of the GPU; \<open>queued_jobs_coherent\<close> says that whatever else a pool
  sends leaves only jobs that agree with themselves. \<open>share_under_latest_job\<close> shows the race between the routing of a hit and
  the next notification. \<open>thread_follows_protocol\<close> ties the thread of a runner to the events that the system
  interleaves, \<open>stop_ends_thread\<close>, \<open>gbt_stop\<close> and \<open>server_stop\<close> bound what \<^verbatim>\<open>stop\<close> waits for and name the peers that
  can hold it for ever, \<open>template_over_network\<close> composes URL, connection, JSON-RPC and the reaction to a template.
  Many statements record what the code does
  where that is not what it means to do, for example that solved blocks are never submitted
  (\<open>block_hits_lost\<close>) or that CPU and kernels compare different targets (\<open>device_target_reversed\<close>).

  \<^bold>\<open>Bounds.\<close> \<open>main_thread_returns\<close> asks for a ring of at least 64 hits (drained 64 at a time into a fixed
  array), fewer than \<open>2 ^ 32\<close> sources and fewer than \<open>2 ^ 32\<close> candidates per block of a batch; more than
  64 hits in such a block read past the block's buffer, which is the only way a phase fails. SHA-256 is
  shown for messages below \<open>2 ^ 37\<close> bytes, since the code drops a byte of the length above that.
  The threads of \<open>Worker_Threads\<close> end within 8 steps (runner) or 3 (polls and server) once they are stopped and
  their peers answer.

  \<^bold>\<open>Not modelled.\<close> Signals, and the time that passes otherwise than by the sleeps that are counted (it only orders the
  events); the builds without CUDA, in which every device function is a constant; the wrappers in \<^verbatim>\<open>net/socket_openssl.cc\<close>
  around the calls of the operating system and the declarations of the headers, which compute nothing; text
  written to the terminal; accessors that return a field; the tests; and the compiler probe that CMake generated
  under \<^verbatim>\<open>src/build\<close>.
\<close>

end
